(* ===== verification/Prelude.thy ===== *)
theory Prelude
  imports Main "HOL-Library.Word"
begin

text \<open>
  What the components share: the machine types, the little-endian layout of integers in
  memory (the library is built with \<^verbatim>\<open>-m32\<close> for x86, see src/src/Makefile.defaults), byte
  ranges of a file (\<open>seg\<close>, \<open>patch\<close>), and the outcome of a call that may throw.
  \<open>codec_simps\<close> collects the encode/decode facts, \<open>range_simps\<close> the byte-range facts.
\<close>

unbundle bit_operations_syntax

type_synonym byte = "8 word"
type_synonym u32 = "32 word"
type_synonym bytes = "byte list"

named_theorems codec_simps \<open>layout of values in memory\<close>
named_theorems range_simps \<open>byte ranges of a file\<close>

subsection \<open>Signed machine integers\<close>

text \<open>
  A signed 32-bit field is an \<open>int\<close>; \<open>i32\<close> is the wrap-around of a result that is
  stored back into one.
\<close>

definition i32 :: "int \<Rightarrow> int" where
  "i32 x = signed_take_bit 31 x"

definition is_i32 :: "int \<Rightarrow> bool" where
  "is_i32 x \<longleftrightarrow> - 2147483648 \<le> x \<and> x \<le> 2147483647"

definition is_i64 :: "int \<Rightarrow> bool" where
  "is_i64 x \<longleftrightarrow> - 9223372036854775808 \<le> x \<and> x \<le> 9223372036854775807"

lemma signed_take_bit_id:
  "- (2 ^ n) \<le> x \<Longrightarrow> x < 2 ^ n \<Longrightarrow> signed_take_bit n (x :: int) = x"
  by (simp add: signed_take_bit_int_eq_self)

lemma i32_id [simp]: "is_i32 x \<Longrightarrow> i32 x = x"
  unfolding i32_def is_i32_def by (rule signed_take_bit_id) auto

lemma i32_range: "is_i32 (i32 x)"
  using signed_take_bit_int_greater_eq_minus_exp [of 31 x] signed_take_bit_int_less_exp [of 31 x]
  by (simp add: i32_def is_i32_def)

subsection \<open>Little-endian layout\<close>

fun le_enc :: "nat \<Rightarrow> 'a::len word \<Rightarrow> bytes" where
  "le_enc 0 w = []"
| "le_enc (Suc n) w = ucast w # le_enc n (drop_bit 8 w)"

fun le_dec :: "bytes \<Rightarrow> 'a::len word" where
  "le_dec [] = 0"
| "le_dec (b # bs) = ucast b OR push_bit 8 (le_dec bs)"

lemma length_le_enc [simp]: "length (le_enc n w) = n"
  by (induction n arbitrary: w) auto

lemma le_dec_le_enc: "le_dec (le_enc n w) = take_bit (8 * n) (w :: 'a::len word)"
proof (induction n arbitrary: w)
  case 0
  then show ?case by simp
next
  case (Suc n)
  show ?case
    by (rule bit_word_eqI) (auto simp: Suc.IH bit_simps)
qed

lemma le_dec_le_enc_full [codec_simps]:
  "LENGTH('a) \<le> 8 * n \<Longrightarrow> le_dec (le_enc n w) = (w :: 'a::len word)"
  by (simp add: le_dec_le_enc take_bit_word_eq_self)

lemma bit_le_dec:
  "bit (le_dec bs :: 'a::len word) i
     \<longleftrightarrow> i < LENGTH('a) \<and> i div 8 < length bs \<and> bit (bs ! (i div 8)) (i mod 8)"
proof (induction bs arbitrary: i)
  case Nil
  then show ?case by simp
next
  case (Cons b bs)
  show ?case
  proof (cases "i < 8")
    case True
    then show ?thesis by (auto simp: bit_simps)
  next
    case False
    then have "i div 8 = Suc ((i - 8) div 8)" and "i mod 8 = (i - 8) mod 8"
      by (auto simp: le_div_geq le_mod_geq)
    moreover from False have "\<not> bit b i"
      using bit_imp_le_length [of b i] by auto
    ultimately show ?thesis
      using False by (auto simp: bit_simps Cons.IH)
  qed
qed

lemma nth_le_enc: "k < n \<Longrightarrow> le_enc n w ! k = ucast (drop_bit (8 * k) w)"
proof (induction n arbitrary: w k)
  case 0
  then show ?case by simp
next
  case (Suc n)
  then show ?case
    by (cases k) (auto simp: ac_simps)
qed

lemma le_enc_le_dec [codec_simps]:
  assumes "length bs = n" and "8 * n \<le> LENGTH('a)"
  shows "le_enc n (le_dec bs :: 'a::len word) = bs"
proof (rule nth_equalityI)
  show "length (le_enc n (le_dec bs :: 'a word)) = length bs"
    using assms by simp
next
  fix k
  assume "k < length (le_enc n (le_dec bs :: 'a word))"
  then have k: "k < n" by simp
  show "le_enc n (le_dec bs :: 'a word) ! k = bs ! k"
  proof (rule bit_word_eqI)
    fix j :: nat
    assume "j < LENGTH(8)"
    with k assms show "bit (le_enc n (le_dec bs :: 'a word) ! k) j = bit (bs ! k) j"
      by (simp add: nth_le_enc bit_simps bit_le_dec)
  qed
qed

text \<open>The four and eight byte signed fields of the packed structures.\<close>

definition enc_i32 :: "int \<Rightarrow> bytes" where
  "enc_i32 x = le_enc 4 (word_of_int x :: u32)"

definition dec_i32 :: "bytes \<Rightarrow> int" where
  "dec_i32 bs = sint (le_dec bs :: u32)"

definition enc_i64 :: "int \<Rightarrow> bytes" where
  "enc_i64 x = le_enc 8 (word_of_int x :: 64 word)"

definition dec_i64 :: "bytes \<Rightarrow> int" where
  "dec_i64 bs = sint (le_dec bs :: 64 word)"

lemma length_enc_int [simp]: "length (enc_i32 x) = 4" "length (enc_i64 x) = 8"
  by (simp_all add: enc_i32_def enc_i64_def)

lemma dec_enc_i32 [codec_simps]: "is_i32 x \<Longrightarrow> dec_i32 (enc_i32 x) = x"
  by (simp add: enc_i32_def dec_i32_def le_dec_le_enc_full sint_sbintrunc' is_i32_def
      signed_take_bit_id)

lemma dec_enc_i64 [codec_simps]: "is_i64 x \<Longrightarrow> dec_i64 (enc_i64 x) = x"
  by (simp add: enc_i64_def dec_i64_def le_dec_le_enc_full sint_sbintrunc' is_i64_def
      signed_take_bit_id)

lemma is_i32_dec [simp]: "is_i32 (dec_i32 bs)"
  using sint_lt [of "le_dec bs :: u32"] sint_ge [of "le_dec bs :: u32"]
  by (simp add: is_i32_def dec_i32_def)

lemma is_i64_dec [simp]: "is_i64 (dec_i64 bs)"
  using sint_lt [of "le_dec bs :: 64 word"] sint_ge [of "le_dec bs :: 64 word"]
  by (simp add: is_i64_def dec_i64_def)

subsection \<open>Byte ranges\<close>

definition seg :: "nat \<Rightarrow> nat \<Rightarrow> 'a list \<Rightarrow> 'a list" where
  "seg off n xs = take n (drop off xs)"

text \<open>
  \<open>patch off ys xs\<close> is \<open>xs\<close> after \<open>ys\<close> has been stored from position \<open>off\<close> on; a gap
  between the old end and \<open>off\<close> reads as zeros, as a hole of a file does.
\<close>

definition patch :: "nat \<Rightarrow> bytes \<Rightarrow> bytes \<Rightarrow> bytes" where
  "patch off ys xs =
     take off xs @ replicate (off - length xs) 0 @ ys @ drop (off + length ys) xs"

lemma length_seg [range_simps]: "length (seg off n xs) = min n (length xs - off)"
  by (simp add: seg_def min.commute)

lemma length_patch [range_simps]:
  "length (patch off ys xs) = (if ys = [] then max off (length xs) else max (off + length ys) (length xs))"
  by (auto simp: patch_def max_def min_def)

lemma seg_patch_same [range_simps]: "seg off (length ys) (patch off ys xs) = ys"
  by (simp add: seg_def patch_def min_def)

lemma seg_patch_below [range_simps]:
  "a + n \<le> off \<Longrightarrow> a + n \<le> length xs \<Longrightarrow> seg a n (patch off ys xs) = seg a n xs"
  by (simp add: seg_def patch_def take_drop min_def)

lemma seg_patch_above [range_simps]:
  assumes "off + length ys \<le> a"
  shows "seg a n (patch off ys xs) = seg a n xs"
proof (cases "off \<le> length xs")
  case True
  then show ?thesis
    using assms by (simp add: seg_def patch_def)
next
  case False
  then show ?thesis
    using assms by (simp add: seg_def patch_def)
qed

lemma patch_end: "patch (length xs) ys xs = xs @ ys"
  by (simp add: patch_def)

lemma seg_append_left [range_simps]:
  "a + n \<le> length xs \<Longrightarrow> seg a n (xs @ ys) = seg a n xs"
  by (simp add: seg_def)

lemma seg_append_right [range_simps]:
  "seg (length xs) (length ys) (xs @ ys) = ys"
  by (simp add: seg_def)

lemma seg_seg [range_simps]:
  "a + n \<le> m \<Longrightarrow> seg a n (seg b m xs) = seg (b + a) n xs"
  by (simp add: seg_def take_drop add.commute add.left_commute min_def)

lemma seg_add: "seg a (n + m) xs = seg a n xs @ seg (a + n) m xs"
  by (simp add: seg_def take_add) (metis add.commute)

lemma seg_0 [simp]: "seg a 0 xs = []"
  by (simp add: seg_def)

lemma seg_full [simp]: "length xs \<le> n \<Longrightarrow> seg 0 n xs = xs"
  by (simp add: seg_def)

text \<open>\<open>memcpy\<close> of a whole list over the front of a buffer.\<close>

definition overlay :: "'a list \<Rightarrow> 'a list \<Rightarrow> 'a list" where
  "overlay new old = new @ drop (length new) old"

lemma overlay_full [simp]: "length old \<le> length new \<Longrightarrow> overlay new old = new"
  by (simp add: overlay_def)

lemma take_overlay [simp]: "take (length new) (overlay new old) = new"
  by (simp add: overlay_def)

subsection \<open>Outcome of a call\<close>

text \<open>
  \<open>Ret r\<close>: the call returned \<open>r\<close>. \<open>Throw e\<close>: a \<open>CException\<close> with result \<open>e\<close> left it.
  \<open>Crash\<close>: it accessed memory outside every buffer.
\<close>

datatype outcome = Ret int | Throw int | Crash

end
