(* ===== verification/Data_Array.thy ===== *)
theory Data_Array
  imports Prelude
begin

text \<open>
  src/src/base/data_array.cpp: \<open>CDataArray\<close>, the scatter/gather list of a read or a write. An
  entry is a buffer (its bytes), a length and flags; the constructor takes each length from
  the low 24 bits of the caller's word and the flags from the high 8. The block of 1024 bytes
  the source keeps the entries in holds at most 113 of them, so the sums of lengths stay far
  below $2^{31}$ and are naturals here.
\<close>

definition F_CDARRAY_VLEN :: byte where "F_CDARRAY_VLEN = 0x01"
definition F_DYNAMIC_ALLOCATE :: byte where "F_DYNAMIC_ALLOCATE = 0x02"

record data_array =
  da_count :: nat
  da_size :: nat
  da_fsize :: nat
  da_flags :: "byte list"
  da_lens :: "nat list"
  da_datas :: "bytes list"

definition da_empty :: data_array where
  "da_empty = \<lparr>da_count = 0, da_size = 0, da_fsize = 0, da_flags = [], da_lens = [], da_datas = []\<rparr>"

definition arg_len :: "u32 \<Rightarrow> nat" where
  "arg_len tmp = unat (0x00FFFFFF AND tmp)"

definition arg_flags :: "u32 \<Rightarrow> byte" where
  "arg_flags tmp = ucast (drop_bit 24 tmp AND 0xFF)"

fun da_args :: "(bytes \<times> u32) list \<Rightarrow> bool \<Rightarrow> data_array \<Rightarrow> data_array" where
  "da_args [] fixed d = d"
| "da_args ((p, tmp) # args) fixed d =
     (let fl = arg_flags tmp; len = arg_len tmp;
          fixed' = (if fl AND F_CDARRAY_VLEN \<noteq> 0 then False else fixed)
      in da_args args fixed'
           (d\<lparr>da_count := Suc (da_count d),
              da_size := da_size d + len,
              da_fsize := (if fixed' then da_fsize d + len else da_fsize d),
              da_flags := da_flags d @ [fl],
              da_lens := da_lens d @ [len],
              da_datas := da_datas d @ [p]\<rparr>))"

definition da_new :: "(bytes \<times> u32) list \<Rightarrow> data_array" where
  "da_new args = da_args args True da_empty"

definition da_copy :: "data_array \<Rightarrow> data_array" where
  \<comment> \<open>the copy constructor: one block that holds the pointers, lengths and flags of all entries\<close>
  "da_copy source =
     \<lparr>da_count = da_count source, da_size = da_size source, da_fsize = da_fsize source,
      da_flags = take (da_count source) (da_flags source), da_lens = take (da_count source) (da_lens source),
      da_datas = take (da_count source) (da_datas source)\<rparr>"

definition da_data :: "data_array \<Rightarrow> int \<Rightarrow> bytes option" where
  "da_data d index =
     (if 0 \<le> index \<and> index < int (da_count d) then Some (da_datas d ! nat index) else None)"

definition da_len :: "data_array \<Rightarrow> int \<Rightarrow> nat" where
  "da_len d index =
     (if 0 \<le> index \<and> index < int (da_count d) then da_lens d ! nat index else 0)"

definition da_flag :: "data_array \<Rightarrow> int \<Rightarrow> byte" where
  "da_flag d index =
     (if 0 \<le> index \<and> index < int (da_count d) then da_flags d ! nat index else 0)"

text \<open>
  \<open>setFromBuffer\<close>: the loop hands the buffer out to the entries. The result pairs what each
  entry's memory holds afterwards with the return value; \<open>Crash\<close> is a \<open>memcpy\<close> with a
  negative length.
\<close>

fun sfb_loop :: "(bytes \<times> nat \<times> byte) list \<Rightarrow> bytes \<Rightarrow> int \<Rightarrow> bytes list \<times> outcome" where
  "sfb_loop [] buf dlen = ([], Ret 0)"
| "sfb_loop ((item, len, fl) # items) buf dlen =
     (let vlen = (fl AND F_CDARRAY_VLEN \<noteq> 0);
          alloc = (vlen \<and> fl AND F_DYNAMIC_ALLOCATE \<noteq> 0);
          item' = (if alloc then [] else item);
          bcpy = (if alloc then dlen else if vlen then (if dlen > int len then int len else dlen)
                  else int len);
          idata = (if vlen then dlen else int len)
      in if dlen < bcpy then (item' # map fst items, Ret (-1))
         else if bcpy < 0 then (item' # map fst items, Crash)
         else (let (rest, r) = sfb_loop items (drop (nat idata) buf) (dlen - idata)
               in (overlay (take (nat bcpy) buf) item' # rest, r)))"

definition setFromBuffer :: "data_array \<Rightarrow> bytes \<Rightarrow> int \<Rightarrow> data_array \<times> outcome" where
  "setFromBuffer d buf dlen =
     (let (datas, r) = sfb_loop (zip (da_datas d) (zip (da_lens d) (da_flags d))) buf dlen
      in (d\<lparr>da_datas := datas\<rparr>, r))"

subsection \<open>The shapes the library uses\<close>

text \<open>One fixed buffer; one fixed buffer followed by one of variable length.\<close>

lemma arg_len_bound: "arg_len x < 2 ^ 24"
proof -
  have "(0x00FFFFFF AND x) \<le> (0x00FFFFFF :: u32)"
    by (rule word_and_le2)
  then show ?thesis
    by (simp add: arg_len_def word_le_nat_alt)
qed

lemma arg_small:
  assumes "x < 2 ^ 24"
  shows "arg_len (word_of_nat x) = x" "arg_flags (word_of_nat x) = 0"
proof -
  have m: "(0x00FFFFFF :: u32) = mask 24"
    by (simp add: mask_eq_exp_minus_1)
  have u: "unat (word_of_nat x :: u32) = x"
    using assms by (simp add: unat_of_nat)
  have lt: "(word_of_nat x :: u32) < 2 ^ 24"
    using assms by (simp add: word_less_nat_alt u)
  show "arg_len (word_of_nat x) = x"
    using assms by (simp add: arg_len_def m and.commute [of "mask 24"] flip: take_bit_eq_mask)
      (simp add: unsigned_take_bit_eq u take_bit_nat_eq_self)
  have "drop_bit 24 (word_of_nat x :: u32) = 0"
    using lt assms by (simp add: drop_bit_eq_div word_arith_nat_div u)
  then show "arg_flags (word_of_nat x) = 0"
    by (simp add: arg_flags_def)
qed

lemma da_new_fields [simp]:
  "da_count (da_new [(p, x)]) = 1" "da_size (da_new [(p, x)]) = arg_len x"
  "da_datas (da_new [(p, x)]) = [p]" "da_lens (da_new [(p, x)]) = [arg_len x]"
  "da_flags (da_new [(p, x)]) = [arg_flags x]"
  "da_count (da_new [(p, x), (q, y)]) = 2"
  "da_size (da_new [(p, x), (q, y)]) = arg_len x + arg_len y"
  "da_datas (da_new [(p, x), (q, y)]) = [p, q]"
  "da_lens (da_new [(p, x), (q, y)]) = [arg_len x, arg_len y]"
  "da_flags (da_new [(p, x), (q, y)]) = [arg_flags x, arg_flags y]"
  by (simp_all add: da_new_def da_empty_def Let_def)

lemma da_args_lengths:
  assumes "length (da_flags d) = da_count d" "length (da_lens d) = da_count d" "length (da_datas d) = da_count d"
  shows "length (da_flags (da_args args b d)) = da_count (da_args args b d)
    \<and> length (da_lens (da_args args b d)) = da_count (da_args args b d)
    \<and> length (da_datas (da_args args b d)) = da_count (da_args args b d)"
  using assms by (induction args b d rule: da_args.induct) (simp_all add: Let_def)

lemma da_copy_new: "da_copy (da_new args) = da_new args"
  using da_args_lengths [of da_empty args True] by (simp add: da_copy_def da_new_def da_empty_def)

lemma da_size_sum: "da_size (da_args args b d) = da_size d + sum_list (map (arg_len \<circ> snd) args)"
  by (induction args b d rule: da_args.induct) (auto simp: Let_def)

lemma da_update_datas [simp]:
  "da_count (d\<lparr>da_datas := x\<rparr>) = da_count d" "da_lens (d\<lparr>da_datas := x\<rparr>) = da_lens d"
  by simp_all

lemma sfb_fixed:
  "length p = n \<Longrightarrow> n < 2 ^ 24 \<Longrightarrow> n \<le> length buf \<Longrightarrow>
     setFromBuffer (da_new [(p, word_of_nat n)]) buf (int n)
       = ((da_new [(p, word_of_nat n)])\<lparr>da_datas := [take n buf]\<rparr>, Ret 0)"
  by (simp add: setFromBuffer_def arg_small Let_def overlay_def)

text \<open>\<open>vlen_word\<close> is the macro \<open>_DAPSF(P, S, F_CDARRAY_VLEN)\<close>: the flag goes into the high byte.\<close>

definition vlen_word :: "u32 \<Rightarrow> u32" where
  "vlen_word s = s OR push_bit 24 (ucast F_CDARRAY_VLEN)"

lemma vlen_small:
  assumes "x < 2 ^ 24"
  shows "arg_len (vlen_word (word_of_nat x)) = x" "arg_flags (vlen_word (word_of_nat x)) = F_CDARRAY_VLEN"
proof -
  have m: "(0x00FFFFFF :: u32) = mask 24"
    by (simp add: mask_eq_exp_minus_1)
  let ?w = "word_of_nat x :: u32"
  have v: "vlen_word ?w = ?w OR push_bit 24 1"
    by (simp add: vlen_word_def F_CDARRAY_VLEN_def)
  have "bit (mask 24 AND (?w OR push_bit 24 1)) i = bit (mask 24 AND ?w) i" for i
    by (simp only: bit_and_iff bit_or_iff bit_mask_iff bit_push_bit_iff bit_1_iff) auto
  then have "0x00FFFFFF AND vlen_word ?w = 0x00FFFFFF AND ?w"
    unfolding m v by (intro bit_word_eqI)
  then show "arg_len (vlen_word ?w) = x"
    using arg_small(1) [OF assms] by (simp add: arg_len_def)
  have "drop_bit 24 (push_bit 24 1 :: u32) = 1"
    by simp
  then have "drop_bit 24 (vlen_word ?w) = drop_bit 24 ?w OR 1"
    by (simp only: v drop_bit_or)
  moreover have "drop_bit 24 ?w = 0"
    using assms by (simp add: drop_bit_eq_div word_arith_nat_div unat_of_nat)
  ultimately show "arg_flags (vlen_word ?w) = F_CDARRAY_VLEN"
    by (simp add: arg_flags_def F_CDARRAY_VLEN_def)
qed

lemma sfb_fixed_vlen:
  assumes "length p = n" and "n < 2 ^ 24" and "m < 2 ^ 24" and "n \<le> length buf"
  shows "setFromBuffer (da_new [(p, word_of_nat n), (q, vlen_word (word_of_nat m))]) buf (int (length buf))
     = ((da_new [(p, word_of_nat n), (q, vlen_word (word_of_nat m))])
          \<lparr>da_datas := [take n buf, overlay (take m (drop n buf)) q]\<rparr>, Ret 0)"
  using assms
  by (auto simp: setFromBuffer_def arg_small vlen_small Let_def F_CDARRAY_VLEN_def
      F_DYNAMIC_ALLOCATE_def overlay_def nat_diff_distrib)

end
