(* ===== verification/Crc32.thy ===== *)
theory Crc32
  imports Crc_Tables
begin

text \<open>
  src/src/base/crc32.cpp: the checksum of every stored record and the zero test of a record.
  \<open>crc32\<close> is the routine as written (sixteen-fold unrolled blocks of eight bytes, then
  single blocks, then bytes); \<open>crc_ref\<close> is the byte-at-a-time definition it is an
  optimisation of. The loads \<open>*cur32b++\<close> are little-endian (\<open>le_dec\<close>).
\<close>

subsection \<open>The routine of the source\<close>

definition tab :: "u32 list \<Rightarrow> u32 \<Rightarrow> u32" where
  "tab t x = t ! unat (x AND 0xFF)"

definition crc_block :: "u32 \<Rightarrow> u32 \<Rightarrow> u32 \<Rightarrow> u32" where
  "crc_block crc w1 w2 =
     (let p1 = w1 XOR crc; p2 = w2
      in tab crc_t0 (drop_bit 24 p2) XOR tab crc_t1 (drop_bit 16 p2)
         XOR tab crc_t2 (drop_bit 8 p2) XOR tab crc_t3 p2
         XOR tab crc_t4 (drop_bit 24 p1) XOR tab crc_t5 (drop_bit 16 p1)
         XOR tab crc_t6 (drop_bit 8 p1) XOR tab crc_t7 p1)"

fun crc_blocks :: "nat \<Rightarrow> u32 \<Rightarrow> bytes \<Rightarrow> u32 \<times> bytes" where
  "crc_blocks 0 crc bs = (crc, bs)"
| "crc_blocks (Suc n) crc bs =
     crc_blocks n (crc_block crc (le_dec (take 4 bs)) (le_dec (take 4 (drop 4 bs)))) (drop 8 bs)"

lemma crc_blocks_rest: "snd (crc_blocks n crc bs) = drop (8 * n) bs"
  by (induction n arbitrary: crc bs) (auto simp: add.commute)

function crc_loop128 :: "u32 \<Rightarrow> bytes \<Rightarrow> u32 \<times> bytes" where
  "crc_loop128 crc bs =
     (if 128 \<le> length bs
      then (let r = crc_blocks 16 crc bs in crc_loop128 (fst r) (snd r))
      else (crc, bs))"
  by pat_completeness auto
termination
  by (relation "measure (\<lambda>(crc, bs). length bs)") (auto simp: crc_blocks_rest)

function crc_loop8 :: "u32 \<Rightarrow> bytes \<Rightarrow> u32 \<times> bytes" where
  "crc_loop8 crc bs =
     (if 8 \<le> length bs
      then (let r = crc_blocks 1 crc bs in crc_loop8 (fst r) (snd r))
      else (crc, bs))"
  by pat_completeness auto
termination
  by (relation "measure (\<lambda>(crc, bs). length bs)") (auto simp: crc_blocks_rest)

fun crc_tail :: "u32 \<Rightarrow> bytes \<Rightarrow> u32" where
  "crc_tail crc [] = crc"
| "crc_tail crc (b # bs) =
     crc_tail (drop_bit 8 crc XOR crc_t0 ! unat ((crc AND 0xFF) XOR ucast b)) bs"

definition crc32 :: "bytes \<Rightarrow> u32 \<Rightarrow> u32" where
  "crc32 bs initcrc =
     (let (crc, rest) = crc_loop128 (NOT initcrc) bs;
          (crc', rest') = crc_loop8 crc rest
      in NOT (crc_tail crc' rest'))"

declare crc_loop128.simps [simp del] crc_loop8.simps [simp del]

fun words_zero :: "nat \<Rightarrow> bytes \<Rightarrow> bool" where
  "words_zero 0 bs = True"
| "words_zero (Suc n) bs =
     (if (le_dec (take 4 bs) :: u32) \<noteq> 0 then False else words_zero n (drop 4 bs))"

function memzero_loop :: "nat \<Rightarrow> bytes \<Rightarrow> bytes option" where
  \<comment> \<open>the two word loops: \<open>n\<close> words a turn; \<open>None\<close> is \<open>return false\<close>\<close>
  "memzero_loop n bs =
     (if 0 < n \<and> 4 * n \<le> length bs
      then (if words_zero n bs then memzero_loop n (drop (4 * n) bs) else None)
      else Some bs)"
  by pat_completeness auto
termination
  by (relation "measure (\<lambda>(n, bs). length bs)") auto

declare memzero_loop.simps [simp del]

definition memzero :: "bytes \<Rightarrow> bool" where
  "memzero bs =
     (case memzero_loop 32 bs of
        None \<Rightarrow> False
      | Some rest \<Rightarrow>
          (case memzero_loop 1 rest of
             None \<Rightarrow> False
           | Some rest' \<Rightarrow> list_all (\<lambda>b. b = 0) rest'))"

subsection \<open>The tables are linear\<close>

text \<open>
  Each table is the XOR-span of eight of its entries (those at 128, 64, ..., 1), which the
  simplifier checks against the literals; everything else about a table follows from that.
\<close>

fun span_table :: "u32 list \<Rightarrow> u32 list" where
  "span_table [] = [0]"
| "span_table (b # bs) = (let t = span_table bs in t @ map (\<lambda>x. x XOR b) t)"

fun lin :: "u32 list \<Rightarrow> (nat \<Rightarrow> bool) \<Rightarrow> u32" where
  "lin [] p = 0"
| "lin (b # bs) p = (if p (length bs) then b else 0) XOR lin bs p"

lemma lin_cong: "(\<And>j. j < length bs \<Longrightarrow> p j = q j) \<Longrightarrow> lin bs p = lin bs q"
  by (induction bs) auto

lemma lin_xor: "lin bs (\<lambda>j. p j \<noteq> q j) = lin bs p XOR lin bs q"
  by (induction bs) (auto simp: ac_simps)

lemma length_span_table [simp]: "length (span_table bs) = 2 ^ length bs"
  by (induction bs) (auto simp: Let_def)

lemma span_table_nth: "i < 2 ^ length bs \<Longrightarrow> span_table bs ! i = lin bs (bit i)"
proof (induction bs arbitrary: i)
  case Nil
  then show ?case by simp
next
  case (Cons b bs)
  let ?n = "length bs"
  show ?case
  proof (cases "i < 2 ^ ?n")
    case True
    then have "\<not> bit i ?n"
      by (simp add: bit_iff_odd)
    with True show ?thesis
      by (simp add: Let_def nth_append Cons.IH)
  next
    case False
    define k where "k = i - 2 ^ ?n"
    from False Cons.prems have i: "i = k + 2 ^ ?n" and k: "k < 2 ^ ?n"
      by (auto simp: k_def)
    have div1: "i div 2 ^ ?n = 1"
      using k div_add_self2 [of "2 ^ ?n" k] by (simp add: i)
    have "bit i j = bit k j" if "j < ?n" for j
    proof -
      have "take_bit ?n i = take_bit ?n k"
        by (simp add: i take_bit_eq_mod)
      then show ?thesis
        using that by (metis bit_take_bit_iff)
    qed
    then have "lin bs (bit i) = lin bs (bit k)"
      by (rule lin_cong)
    moreover have "bit i ?n"
      by (simp add: bit_iff_odd div1)
    ultimately show ?thesis
      using False k by (simp add: Let_def nth_append Cons.IH i xor.commute)
  qed
qed

definition basis0 :: "u32 list" where
  "basis0 = [0x690CE0EE, 0x34867077, 0x9823B6E0, 0x4C11DB70, 0x2608EDB8, 0x130476DC, 0x09823B6E, 0x04C11DB7]"
definition basis1 :: "u32 list" where
  "basis1 = [0xF94E8A93, 0xFEC7CB92, 0xC53105CF, 0xE0F80C3C, 0x9B10682B, 0x2484D4FB, 0x9022E4A6, 0xA37D1C66]"
definition basis2 :: "u32 list" where
  "basis2 = [0x28A753CD, 0x2C61C73B, 0x65001C21, 0xE1DE0EF8, 0xB3F36DE9, 0xA2D7B2BC, 0xEB393958, 0xB680F639]"
definition basis3 :: "u32 list" where
  "basis3 = [0x6C6FB119, 0xFF55C736, 0x9C87AB4B, 0xAF51CEBF, 0xE7D3251B, 0x8890C1A8, 0x5E747F86, 0xF64D1D69]"
definition basis4 :: "u32 list" where
  "basis4 = [0x6EB444CE, 0xCE4B75E5, 0x1F513CBD, 0x85DE610D, 0x67BDC334, 0xD7AF2B77, 0x73D4D923, 0x8E9A7B85]"
definition basis5 :: "u32 list" where
  "basis5 = [0x616A84D7, 0xD2A20667, 0x8CEC5A91, 0x314858B2, 0xC751A68F, 0xFE24E2C9, 0x951344E0, 0x7E4711FE]"
definition basis6 :: "u32 list" where
  "basis6 = [0x0FBD7168, 0xB2303494, 0x2150CA73, 0xB48DFE48, 0x51840CF5, 0x7FBD4474, 0xC53C353D, 0xB5481A12]"
definition basis7 :: "u32 list" where
  "basis7 = [0x8AA2965E, 0x36AB7D76, 0xEDD66BF4, 0x123A1031, 0x9E2C126E, 0xF3CFD67F, 0xE53AD776, 0x4526A804]"

lemmas basis_defs = basis0_def basis1_def basis2_def basis3_def
  basis4_def basis5_def basis6_def basis7_def

lemma crc_t0_span: "crc_t0 = span_table basis0" by (simp add: crc_t0_def basis0_def)
lemma crc_t1_span: "crc_t1 = span_table basis1" by (simp add: crc_t1_def basis1_def)
lemma crc_t2_span: "crc_t2 = span_table basis2" by (simp add: crc_t2_def basis2_def)
lemma crc_t3_span: "crc_t3 = span_table basis3" by (simp add: crc_t3_def basis3_def)
lemma crc_t4_span: "crc_t4 = span_table basis4" by (simp add: crc_t4_def basis4_def)
lemma crc_t5_span: "crc_t5 = span_table basis5" by (simp add: crc_t5_def basis5_def)
lemma crc_t6_span: "crc_t6 = span_table basis6" by (simp add: crc_t6_def basis6_def)
lemma crc_t7_span: "crc_t7 = span_table basis7" by (simp add: crc_t7_def basis7_def)

lemma length_basis [simp]:
  "length basis0 = 8" "length basis1 = 8" "length basis2 = 8" "length basis3 = 8"
  "length basis4 = 8" "length basis5 = 8" "length basis6 = 8" "length basis7 = 8"
  by (simp_all add: basis_defs)

lemma tab_span:
  assumes "t = span_table bs" and "length bs = 8"
  shows "tab t x = lin bs (bit x)"
proof -
  have m: "(0xFF :: u32) = mask 8"
    by (simp add: mask_eq_exp_minus_1)
  have "unat (x AND 0xFF) < 2 ^ 8"
    using word_and_le1 [of x 255] by (simp add: word_le_nat_alt)
  then have "tab t x = lin bs (bit (unat (x AND 0xFF)))"
    using assms by (simp add: tab_def span_table_nth)
  also have "\<dots> = lin bs (bit x)"
    using assms(2) by (intro lin_cong) (auto simp: m bit_simps)
  finally show ?thesis .
qed

subsection \<open>The byte step\<close>

text \<open>
  \<open>crc_step\<close> shifts one zero byte through the register; feeding byte \<open>b\<close> is the same after
  \<open>b\<close> has been XORed into the low byte. It is linear, and injective because the high bytes
  of the entries of \<open>crc_t0\<close> are all different.
\<close>

definition crc_step :: "u32 \<Rightarrow> u32" where
  "crc_step x = drop_bit 8 x XOR tab crc_t0 x"

definition crc_byte :: "u32 \<Rightarrow> byte \<Rightarrow> u32" where
  "crc_byte c b = crc_step (c XOR ucast b)"

definition crc_ref :: "bytes \<Rightarrow> u32 \<Rightarrow> u32" where
  "crc_ref bs initcrc = NOT (foldl crc_byte (NOT initcrc) bs)"

lemma crc_step_lin: "crc_step x = drop_bit 8 x XOR lin basis0 (bit x)"
  by (simp add: crc_step_def tab_span [OF crc_t0_span])

lemma crc_step_xor: "crc_step (x XOR y) = crc_step x XOR crc_step y"
proof -
  have "bit (x XOR y) = (\<lambda>j. bit x j \<noteq> bit y j)"
    by (rule ext) (simp add: bit_simps)
  then show ?thesis
    by (simp only: crc_step_lin lin_xor drop_bit_xor ac_simps)
qed

lemma crc_step_0 [simp]: "crc_step 0 = 0"
  using crc_step_xor [of 0 0] by simp

lemma crc_steps_xor: "(crc_step ^^ n) (x XOR y) = (crc_step ^^ n) x XOR (crc_step ^^ n) y"
  by (induction n) (auto simp: crc_step_xor)

lemma crc_step_lin_basis: "crc_step (lin bs p) = lin (map crc_step bs) p"
  by (induction bs) (auto simp: crc_step_xor)

lemma basis_step:
  "map crc_step basis0 = basis1" "map crc_step basis1 = basis2" "map crc_step basis2 = basis3"
  "map crc_step basis3 = basis4" "map crc_step basis4 = basis5" "map crc_step basis5 = basis6"
  "map crc_step basis6 = basis7"
  by (simp_all add: basis_defs crc_step_lin)

lemma lin_none: "(\<And>j. j < length bs \<Longrightarrow> \<not> p j) \<Longrightarrow> lin bs p = 0"
  by (induction bs) auto

lemma crc_step_low: "crc_step (take_bit 8 x) = lin basis0 (bit x)"
proof -
  have "drop_bit 8 (take_bit 8 x) = 0"
    by (rule bit_word_eqI) (simp add: bit_simps)
  moreover have "lin basis0 (bit (take_bit 8 x)) = lin basis0 (bit x)"
    by (rule lin_cong) (simp add: bit_simps)
  ultimately show ?thesis
    by (simp add: crc_step_lin)
qed

lemma funpow_numeral:
  "(f ^^ 1) x = f x" "(f ^^ 2) x = f (f x)" "(f ^^ 3) x = f (f (f x))"
  "(f ^^ 4) x = f (f (f (f x)))" "(f ^^ 5) x = f (f (f (f (f x))))"
  "(f ^^ 6) x = f (f (f (f (f (f x)))))" "(f ^^ 7) x = f (f (f (f (f (f (f x))))))"
  "(f ^^ 8) x = f (f (f (f (f (f (f (f x)))))))"
  by (simp_all add: eval_nat_numeral)

lemma funpow_plus_numeral:
  "(f ^^ (n + 1)) x = (f ^^ n) (f x)" "(f ^^ (n + 2)) x = (f ^^ n) (f (f x))"
  "(f ^^ (n + 3)) x = (f ^^ n) (f (f (f x)))"
  by (simp_all add: funpow_add funpow_numeral funpow_swap1)

lemma tab_steps:
  "tab crc_t0 x = (crc_step ^^ 1) (take_bit 8 x)" "tab crc_t1 x = (crc_step ^^ 2) (take_bit 8 x)"
  "tab crc_t2 x = (crc_step ^^ 3) (take_bit 8 x)" "tab crc_t3 x = (crc_step ^^ 4) (take_bit 8 x)"
  "tab crc_t4 x = (crc_step ^^ 5) (take_bit 8 x)" "tab crc_t5 x = (crc_step ^^ 6) (take_bit 8 x)"
  "tab crc_t6 x = (crc_step ^^ 7) (take_bit 8 x)" "tab crc_t7 x = (crc_step ^^ 8) (take_bit 8 x)"
  by (simp_all add: funpow_numeral crc_step_low crc_step_lin_basis basis_step
      tab_span [OF crc_t0_span] tab_span [OF crc_t1_span] tab_span [OF crc_t2_span]
      tab_span [OF crc_t3_span] tab_span [OF crc_t4_span] tab_span [OF crc_t5_span]
      tab_span [OF crc_t6_span] tab_span [OF crc_t7_span])

lemma crc_step_push: "crc_step (push_bit 8 y) = take_bit 24 y"
proof -
  have "drop_bit 8 (push_bit 8 y) = take_bit 24 y"
    by (rule bit_word_eqI) (auto simp: bit_simps)
  moreover have "lin basis0 (bit (push_bit 8 y)) = 0"
    by (rule lin_none) (simp add: bit_simps)
  ultimately show ?thesis
    by (simp add: crc_step_lin)
qed

lemma crc_step_push_low:
  "k \<le> 2 \<Longrightarrow> crc_step (push_bit (8 * Suc k) (take_bit 8 x)) = push_bit (8 * k) (take_bit 8 x)"
proof -
  assume k: "k \<le> 2"
  have "push_bit (8 * Suc k) (take_bit 8 x) = push_bit 8 (push_bit (8 * k) (take_bit 8 x))"
    by simp
  then have "crc_step (push_bit (8 * Suc k) (take_bit 8 x))
               = take_bit 24 (push_bit (8 * k) (take_bit 8 x))"
    by (simp only: crc_step_push)
  also have "\<dots> = push_bit (8 * k) (take_bit 8 x)"
    using k by (intro bit_word_eqI) (auto simp: bit_simps)
  finally show ?thesis .
qed

lemma word_bytes:
  "(x :: u32) = take_bit 8 x XOR push_bit 8 (take_bit 8 (drop_bit 8 x))
     XOR push_bit 16 (take_bit 8 (drop_bit 16 x)) XOR push_bit 24 (take_bit 8 (drop_bit 24 x))"
  by (rule bit_word_eqI) (auto simp: bit_simps)

lemma crc_steps_push:
  "(crc_step ^^ (n + 1)) (push_bit 8 (take_bit 8 x)) = (crc_step ^^ n) (take_bit 8 x)"
  "(crc_step ^^ (n + 2)) (push_bit 16 (take_bit 8 x)) = (crc_step ^^ n) (take_bit 8 x)"
  "(crc_step ^^ (n + 3)) (push_bit 24 (take_bit 8 x)) = (crc_step ^^ n) (take_bit 8 x)"
  using crc_step_push_low [of 0 x] crc_step_push_low [of 1 x] crc_step_push_low [of 2 x]
  by (simp_all only: funpow_plus_numeral) simp_all

lemma crc_steps_bytes:
  "(crc_step ^^ (n + 4)) x =
     (crc_step ^^ (n + 4)) (take_bit 8 x) XOR (crc_step ^^ (n + 3)) (take_bit 8 (drop_bit 8 x))
     XOR (crc_step ^^ (n + 2)) (take_bit 8 (drop_bit 16 x))
     XOR (crc_step ^^ (n + 1)) (take_bit 8 (drop_bit 24 x))"
proof -
  have e: "n + 4 = (n + 3) + 1" "n + 4 = (n + 2) + 2" "n + 4 = (n + 1) + 3"
    by auto
  have "(crc_step ^^ (n + 4)) x =
     (crc_step ^^ (n + 4)) (take_bit 8 x XOR push_bit 8 (take_bit 8 (drop_bit 8 x))
     XOR push_bit 16 (take_bit 8 (drop_bit 16 x)) XOR push_bit 24 (take_bit 8 (drop_bit 24 x)))"
    by (subst word_bytes) simp
  also have "\<dots> = (crc_step ^^ (n + 4)) (take_bit 8 x)
      XOR (crc_step ^^ ((n + 3) + 1)) (push_bit 8 (take_bit 8 (drop_bit 8 x)))
      XOR (crc_step ^^ ((n + 2) + 2)) (push_bit 16 (take_bit 8 (drop_bit 16 x)))
      XOR (crc_step ^^ ((n + 1) + 3)) (push_bit 24 (take_bit 8 (drop_bit 24 x)))"
    by (simp only: crc_steps_xor e [symmetric])
  finally show ?thesis
    by (simp only: crc_steps_push)
qed

lemma crc_block_steps: "crc_block crc w1 w2 = (crc_step ^^ 8) (crc XOR w1) XOR (crc_step ^^ 4) w2"
  using crc_steps_bytes [of 4 "w1 XOR crc"] crc_steps_bytes [of 0 w2]
  by (simp add: crc_block_def tab_steps funpow_numeral ac_simps)

lemma le_dec_byte:
  assumes "k < length bs" and "k < 4"
  shows "take_bit 8 (drop_bit (8 * k) (le_dec bs :: u32)) = ucast (bs ! k)"
proof (rule bit_word_eqI)
  fix n :: nat
  assume "n < LENGTH(32)"
  show "bit (take_bit 8 (drop_bit (8 * k) (le_dec bs :: u32))) n = bit (ucast (bs ! k) :: u32) n"
  proof (cases "n < 8")
    case True
    with assms show ?thesis
      by (auto simp: bit_simps bit_le_dec)
  next
    case False
    then have "\<not> bit (bs ! k) n"
      using bit_imp_le_length [of "bs ! k" n] by auto
    with False show ?thesis
      by (simp add: bit_simps)
  qed
qed

text \<open>Up to four bytes enter the register as one word.\<close>

lemma le_dec_Cons_xor: "(le_dec (b # bs) :: u32) = ucast b XOR push_bit 8 (le_dec bs)"
proof (rule bit_word_eqI)
  fix n :: nat
  assume "n < LENGTH(32)"
  have "bit b n \<Longrightarrow> n < 8"
    using bit_imp_le_length [of b n] by auto
  then show "bit (le_dec (b # bs) :: u32) n = bit (ucast b XOR push_bit 8 (le_dec bs) :: u32) n"
    by (auto simp: bit_simps)
qed

lemma take_bit_24_le_dec:
  "length bs \<le> 3 \<Longrightarrow> take_bit 24 (le_dec bs :: u32) = le_dec bs"
  by (rule bit_word_eqI) (auto simp: bit_simps bit_le_dec)

lemma foldl_crc_word:
  "length bs \<le> 4 \<Longrightarrow> foldl crc_byte c bs = (crc_step ^^ length bs) (c XOR le_dec bs)"
proof (induction bs arbitrary: c)
  case Nil
  then show ?case by simp
next
  case (Cons b bs)
  have "crc_step (c XOR ucast b) XOR le_dec bs = crc_step (c XOR le_dec (b # bs))"
    using Cons.prems take_bit_24_le_dec [of bs]
    by (simp add: le_dec_Cons_xor crc_step_xor crc_step_push ac_simps del: le_dec.simps)
  with Cons show ?case
    by (simp add: crc_byte_def funpow_swap1 del: le_dec.simps)
qed

lemma crc_block_foldl:
  assumes "8 \<le> length bs"
  shows "crc_block crc (le_dec (take 4 bs)) (le_dec (take 4 (drop 4 bs)))
           = foldl crc_byte crc (take 8 bs)"
proof -
  have split: "take 8 bs = take 4 bs @ take 4 (drop 4 bs)"
    using take_add [of 4 4 bs] by simp
  have "(crc_step ^^ 8) x = (crc_step ^^ 4) ((crc_step ^^ 4) x)" for x
    by (simp add: funpow_numeral)
  with assms show ?thesis
    by (simp add: crc_block_steps split foldl_crc_word crc_steps_xor)
qed

lemma crc_blocks_foldl:
  "8 * n \<le> length bs \<Longrightarrow>
     crc_blocks n crc bs = (foldl crc_byte crc (take (8 * n) bs), drop (8 * n) bs)"
proof (induction n arbitrary: crc bs)
  case 0
  then show ?case by simp
next
  case (Suc n)
  have "take (8 * Suc n) bs = take 8 bs @ take (8 * n) (drop 8 bs)"
    using take_add [of 8 "8 * n" bs] by (simp add: add.commute)
  with Suc show ?case
    by (simp add: crc_block_foldl add.commute)
qed

lemma crc_loop128_foldl:
  "foldl crc_byte (fst (crc_loop128 crc bs)) (snd (crc_loop128 crc bs)) = foldl crc_byte crc bs"
proof (induction crc bs rule: crc_loop128.induct)
  case (1 crc bs)
  show ?case
  proof (cases "128 \<le> length bs")
    case True
    then have "foldl crc_byte crc bs = foldl crc_byte (foldl crc_byte crc (take 128 bs)) (drop 128 bs)"
      by (metis append_take_drop_id foldl_append)
    with True 1 show ?thesis
      by (simp add: crc_loop128.simps [of crc bs] crc_blocks_foldl)
  next
    case False
    then show ?thesis by (simp add: crc_loop128.simps [of crc bs])
  qed
qed

lemma crc_loop8_foldl:
  "foldl crc_byte (fst (crc_loop8 crc bs)) (snd (crc_loop8 crc bs)) = foldl crc_byte crc bs"
proof (induction crc bs rule: crc_loop8.induct)
  case (1 crc bs)
  show ?case
  proof (cases "8 \<le> length bs")
    case True
    then have "foldl crc_byte crc bs = foldl crc_byte (foldl crc_byte crc (take 8 bs)) (drop 8 bs)"
      by (metis append_take_drop_id foldl_append)
    with True 1 show ?thesis
      by (simp add: crc_loop8.simps [of crc bs] crc_blocks_foldl del: crc_blocks.simps)
  next
    case False
    then show ?thesis by (simp add: crc_loop8.simps [of crc bs])
  qed
qed

lemma crc_tail_step:
  "drop_bit 8 crc XOR crc_t0 ! unat ((crc AND 0xFF) XOR ucast b) = crc_byte crc b"
proof -
  have m: "(0xFF :: u32) = mask 8"
    by (simp add: mask_eq_exp_minus_1)
  have b: "bit b n \<Longrightarrow> n < 8" for n
    using bit_imp_le_length [of b n] by auto
  have "(crc XOR ucast b) AND 0xFF = (crc AND 0xFF) XOR (ucast b :: u32)"
    unfolding m by (rule bit_word_eqI) (auto simp: bit_simps dest: b)
  moreover have "drop_bit 8 (ucast b :: u32) = 0"
    by (rule bit_word_eqI) (auto simp: bit_simps dest: b)
  ultimately show ?thesis
    by (simp add: crc_byte_def crc_step_def tab_def)
qed

lemma crc_tail_foldl: "crc_tail crc bs = foldl crc_byte crc bs"
  by (induction bs arbitrary: crc) (simp_all add: crc_tail_step)

lemma crc32_foldl: "crc32 bs initcrc = NOT (foldl crc_byte (NOT initcrc) bs)"
  using crc_loop128_foldl [of "NOT initcrc" bs]
    crc_loop8_foldl [of "fst (crc_loop128 (NOT initcrc) bs)" "snd (crc_loop128 (NOT initcrc) bs)"]
  by (simp add: crc32_def crc_tail_foldl split_beta)

subsection \<open>Detection\<close>

lemma crc_t0_high: "list_all (\<lambda>x. drop_bit 24 x \<noteq> 0) (tl crc_t0)"
  by code_simp

lemma length_crc_t0: "length crc_t0 = 256"
  by (simp add: crc_t0_span)

lemma crc_t0_high_nth:
  assumes "i < 256" and "drop_bit 24 (crc_t0 ! i) = 0"
  shows "i = 0"
proof (cases i)
  case (Suc k)
  with assms have "k < length (tl crc_t0)"
    by (simp add: length_crc_t0)
  with crc_t0_high have "drop_bit 24 (tl crc_t0 ! k) \<noteq> 0"
    by (auto simp: list_all_length)
  with assms Suc show ?thesis
    using \<open>k < length (tl crc_t0)\<close> by (simp add: nth_tl)
qed simp

lemma xor_zero_iff: "x XOR y = 0 \<longleftrightarrow> (x :: u32) = y"
  by (metis xor.assoc xor.left_neutral xor_self_eq)

lemma crc_step_eq_0:
  assumes "crc_step z = 0"
  shows "z = 0"
proof -
  have m: "(0xFF :: u32) = mask 8"
    by (simp add: mask_eq_exp_minus_1)
  let ?i = "unat (z AND 0xFF)"
  have i: "?i < 256"
    using word_and_le1 [of z 255] by (simp add: word_le_nat_alt)
  from assms have e: "crc_t0 ! ?i = drop_bit 8 z"
    by (simp add: crc_step_def tab_def xor_zero_iff)
  have "drop_bit 24 (drop_bit 8 z) = 0"
    by (rule bit_word_eqI) (auto simp: bit_simps dest: bit_imp_le_length)
  with e i have "?i = 0"
    using crc_t0_high_nth by simp
  then have low: "z AND 0xFF = 0"
    by (simp add: unat_eq_0)
  then have "tab crc_t0 z = 0"
    by (simp add: tab_def crc_t0_def)
  with assms have "drop_bit 8 z = 0"
    by (simp add: crc_step_def)
  moreover have "z = (z AND mask 8) XOR push_bit 8 (drop_bit 8 z)"
    by (rule bit_word_eqI) (auto simp: bit_simps)
  ultimately show ?thesis
    using low unfolding m by simp
qed

lemma crc_step_inj: "crc_step x = crc_step y \<longleftrightarrow> x = y"
  using crc_step_eq_0 [of "x XOR y"] by (auto simp: crc_step_xor xor_zero_iff)

lemma crc_steps_inj: "(crc_step ^^ n) x = (crc_step ^^ n) y \<longleftrightarrow> x = y"
  by (induction n) (auto simp: crc_step_inj)

lemma xor_left_inj: "c XOR x = c XOR y \<longleftrightarrow> (x :: u32) = y"
  by (metis xor.left_commute xor.right_neutral xor_self_eq)

lemma foldl_crc_inj: "foldl crc_byte c bs = foldl crc_byte d bs \<longleftrightarrow> c = d"
  by (induction bs arbitrary: c d)
    (auto simp: crc_byte_def crc_step_inj xor.commute [of _ "ucast _"] xor_left_inj)

lemma le_dec_inj:
  assumes "(le_dec xs :: u32) = le_dec ys" and "length xs = length ys" and "length xs \<le> 4"
  shows "xs = ys"
proof -
  have l: "8 * length xs \<le> LENGTH(32)"
    using assms(3) by simp
  have "xs = le_enc (length xs) (le_dec xs :: u32)"
    by (rule le_enc_le_dec [OF refl l, symmetric])
  also have "\<dots> = ys"
    unfolding assms(1) by (rule le_enc_le_dec [OF assms(2) [symmetric] l])
  finally show ?thesis .
qed

subsection \<open>The zero test\<close>

lemma le_enc_0: "le_enc n (0 :: 'a::len word) = replicate n 0"
  by (induction n) auto

lemma le_dec_zeros: "le_dec (replicate n 0) = (0 :: 'a::len word)"
  by (induction n) auto

lemma le_dec_4_zero:
  assumes "length bs = 4"
  shows "(le_dec bs :: u32) = 0 \<longleftrightarrow> list_all (\<lambda>b. b = 0) bs"
proof
  assume "(le_dec bs :: u32) = 0"
  then have "bs = replicate 4 0"
    using le_enc_le_dec [of bs 4, where 'a = 32] assms le_enc_0 [of 4, where 'a = 32] by simp
  then show "list_all (\<lambda>b. b = 0) bs"
    by (simp add: list_all_iff)
next
  assume "list_all (\<lambda>b. b = 0) bs"
  then have "bs = replicate 4 0"
    using assms by (simp add: list_all_iff replicate_eqI)
  then show "(le_dec bs :: u32) = 0"
    by (simp only: le_dec_zeros)
qed

lemma words_zero_iff:
  "4 * n \<le> length bs \<Longrightarrow> words_zero n bs \<longleftrightarrow> list_all (\<lambda>b. b = 0) (take (4 * n) bs)"
proof (induction n arbitrary: bs)
  case 0
  then show ?case by simp
next
  case (Suc n)
  have "take (4 * Suc n) bs = take 4 bs @ take (4 * n) (drop 4 bs)"
    using take_add [of 4 "4 * n" bs] by (simp add: add.commute)
  with Suc show ?case
    by (auto simp: le_dec_4_zero)
qed

lemma memzero_loop_iff:
  "(case memzero_loop n bs of
      None \<Rightarrow> False
    | Some r \<Rightarrow> list_all (\<lambda>b. b = 0) r) = list_all (\<lambda>b. b = (0 :: byte)) bs"
proof (induction n bs rule: memzero_loop.induct)
  case (1 n bs)
  show ?case
  proof (cases "0 < n \<and> 4 * n \<le> length bs")
    case True
    have "list_all (\<lambda>b. b = 0) bs \<longleftrightarrow>
        list_all (\<lambda>b. b = 0) (take (4 * n) bs) \<and> list_all (\<lambda>b. b = 0) (drop (4 * n) bs)"
      by (metis append_take_drop_id list_all_append)
    with True 1 show ?thesis
      by (auto simp: memzero_loop.simps [of n bs] words_zero_iff)
  next
    case False
    then show ?thesis
      by (auto simp: memzero_loop.simps [of n bs])
  qed
qed

text \<open>The word-wise zero test holds exactly for the buffers of zero bytes.\<close>

lemma memzero_iff: "memzero bs \<longleftrightarrow> (\<forall>b \<in> set bs. b = 0)"
proof -
  have "memzero bs \<longleftrightarrow> list_all (\<lambda>b. b = 0) bs"
    using memzero_loop_iff [of 32 bs] memzero_loop_iff [of 1 "the (memzero_loop 32 bs)"]
    by (auto simp: memzero_def split: option.splits)
  then show ?thesis
    by (simp add: list_all_iff)
qed

lemma replicate_26: "replicate 26 x = [x, x, x, x, x, x, x, x, x, x, x, x, x,
    x, x, x, x, x, x, x, x, x, x, x, x, x]"
  by (simp add: eval_nat_numeral)

lemma crc32_from_0: "crc32 bs 0 = 0xFFFFFFFF XOR foldl crc_byte 0xFFFFFFFF bs"
proof -
  have "(0xFFFFFFFF :: u32) = - 1"
    by simp
  then show ?thesis
    by (simp only: crc32_foldl) (simp flip: not_eq_complement)
qed

lemmas crc_eval = crc32_from_0 crc_byte_def crc_step_lin basis0_def

lemma replicate_13: "replicate 13 x = [x, x, x, x, x, x, x, x, x, x, x, x, x]"
  by (simp add: eval_nat_numeral)

text \<open>A hole of the index file (26 zero bytes, a zero checksum) or of the log (13) is not a record.\<close>

lemma hole_sizes: "crc32 (replicate 26 0) 0 \<noteq> 0" "crc32 (replicate 13 0) 0 \<noteq> 0"
  unfolding replicate_26 replicate_13 by (simp_all add: crc_eval)

subsection \<open>Properties\<close>

text \<open>Property (C15): the unrolled slicing-by-eight routine computes the byte-at-a-time checksum,
  for every buffer of every length and every initial value.\<close>

theorem crc32_is_bytewise: "crc32 bs initcrc = crc_ref bs initcrc"
  by (simp add: crc32_foldl crc_ref_def)

text \<open>A checksum can be continued: the checksum of a buffer is that of its
  second part started from the checksum of its first.\<close>

lemma crc32_append: "crc32 (xs @ ys) initcrc = crc32 ys (crc32 xs initcrc)"
  by (simp add: crc32_foldl)

text \<open>Damage confined to at most four consecutive bytes always changes the checksum, whatever surrounds it.\<close>

lemma crc32_detects_burst:
  assumes "length old = length new" and "length old \<le> 4" and "old \<noteq> new"
  shows "crc32 (before @ old @ after) initcrc \<noteq> crc32 (before @ new @ after) initcrc"
proof
  assume "crc32 (before @ old @ after) initcrc = crc32 (before @ new @ after) initcrc"
  then have "foldl crc_byte (foldl crc_byte (NOT initcrc) before) old
               = foldl crc_byte (foldl crc_byte (NOT initcrc) before) new"
    by (simp add: crc32_foldl foldl_crc_inj)
  with assms have "(le_dec old :: u32) = le_dec new"
    by (simp add: foldl_crc_word crc_steps_inj xor_left_inj)
  with assms show False
    using le_dec_inj by blast
qed

end
