(* ===== verification/Base_File.thy ===== *)
theory Base_File
  imports Data_Array Crc32 "HOL-Library.Monad_Syntax"
begin

text \<open>
  src/src/lib/base_safe_file.cpp and src/src/include/base_safe_file.h: a file of records, each
  followed by its checksum, behind an optional read cache.

  \<open>os_file\<close> is what the operating system keeps of a file: its bytes, the size it may grow to
  (a write beyond it is cut short, one that starts there fails), whether it exists and who may
  open it. \<open>base_file\<close> is the object: the descriptor is \<open>fd_open\<close> (\<open>fd >= 0\<close>), the cache is
  its bytes, the work area is its size (its bytes are the values the operations build in it).
  Memory allocation is taken to succeed. Operations take the object and the file and return
  both; two objects on one file are two \<open>base_file\<close>s over one \<open>os_file\<close>.
\<close>

subsection \<open>Constants\<close>

definition F_CSFILE_WR :: u32 where "F_CSFILE_WR = 0x0001"
definition F_CSFILE_CREATE :: u32 where "F_CSFILE_CREATE = 0x0002"
definition F_CSFILE_TRUNCATE :: u32 where "F_CSFILE_TRUNCATE = 0x0004"
definition F_CSFILE_DYNAMIC :: u32 where "F_CSFILE_DYNAMIC = 0x0008"
definition F_CSFILE_EXCEPTIONS :: u32 where "F_CSFILE_EXCEPTIONS = 0x0010"
definition F_CSFILE_AUTOSYNC :: u32 where "F_CSFILE_AUTOSYNC = 0x0020"
definition F_CSFILE_EMPTY_DATA :: u32 where "F_CSFILE_EMPTY_DATA = 0x0040"
definition F_CSFILE_IGNORE_CRC :: u32 where "F_CSFILE_IGNORE_CRC = 0x0080"
definition F_CSFILE_CHECK_FLAGS :: u32 where "F_CSFILE_CHECK_FLAGS = 0x0100"

definition C_CSFILE_ENDFILE :: int where "C_CSFILE_ENDFILE = 0x4000000000000000"
definition C_CSFILE_CURRPOS :: int where "C_CSFILE_CURRPOS = 0x4000000000000001"

definition E_CSFILE_EOF :: int where "E_CSFILE_EOF = - 40"
definition E_CSFILE_OPEN_FILE :: int where "E_CSFILE_OPEN_FILE = - 50"
definition E_CSFILE_READ_SEEK :: int where "E_CSFILE_READ_SEEK = - 52"
definition E_CSFILE_WRITE_SEEK :: int where "E_CSFILE_WRITE_SEEK = - 53"
definition E_CSFILE_CRC :: int where "E_CSFILE_CRC = - 54"
definition E_CSFILE_READ :: int where "E_CSFILE_READ = - 55"
definition E_CSFILE_WRITE :: int where "E_CSFILE_WRITE = - 56"
definition E_CSFILE_DATA_TOO_BIG :: int where "E_CSFILE_DATA_TOO_BIG = - 58"
definition E_CSFILE_COPY_NOT_ALLOWED :: int where "E_CSFILE_COPY_NOT_ALLOWED = - 60"
definition E_CSFILE_EMPTY_DATA :: int where "E_CSFILE_EMPTY_DATA = - 70"
definition E_CSFILE_CHANGE_FLAGS :: int where "E_CSFILE_CHANGE_FLAGS = - 80"

lemmas csfile_errors = E_CSFILE_EOF_def E_CSFILE_OPEN_FILE_def E_CSFILE_READ_SEEK_def
  E_CSFILE_WRITE_SEEK_def E_CSFILE_CRC_def E_CSFILE_READ_def E_CSFILE_WRITE_def
  E_CSFILE_DATA_TOO_BIG_def E_CSFILE_COPY_NOT_ALLOWED_def E_CSFILE_EMPTY_DATA_def
  E_CSFILE_CHANGE_FLAGS_def

lemmas csfile_flags = F_CSFILE_WR_def F_CSFILE_CREATE_def F_CSFILE_TRUNCATE_def
  F_CSFILE_DYNAMIC_def F_CSFILE_EXCEPTIONS_def F_CSFILE_AUTOSYNC_def F_CSFILE_EMPTY_DATA_def
  F_CSFILE_IGNORE_CRC_def F_CSFILE_CHECK_FLAGS_def

definition has_flag :: "u32 \<Rightarrow> u32 \<Rightarrow> bool" where
  "has_flag flags m \<longleftrightarrow> flags AND m \<noteq> 0"

definition WORK_AREA_RESERV_SIZE :: int where "WORK_AREA_RESERV_SIZE = 128"

subsection \<open>The operating system's side\<close>

record os_file =
  fbytes :: bytes
  flimit :: nat
  fexists :: bool
  freadable :: bool
  fwritable :: bool
  fowned :: bool

definition fsize :: "os_file \<Rightarrow> int" where
  "fsize os = int (length (fbytes os))"

definition ENOENT :: int where "ENOENT = 2"
definition EACCES :: int where "EACCES = 13"
definition EPERM :: int where "EPERM = 1"

text \<open>\<open>open\<close> with \<open>O_NOATIME\<close>, which only the owner of the file may ask for.\<close>

definition os_open :: "bool \<Rightarrow> bool \<Rightarrow> bool \<Rightarrow> os_file \<Rightarrow> int + os_file" where
  "os_open rdwr creat trunc os =
     (if \<not> fexists os
      then (if creat
            then Inr (os\<lparr>fbytes := [], fexists := True, freadable := True, fwritable := True,
                         fowned := True\<rparr>)
            else Inl ENOENT)
      else if \<not> freadable os \<or> rdwr \<and> \<not> fwritable os then Inl EACCES
      else if \<not> fowned os then Inl EPERM
      else Inr (if trunc then os\<lparr>fbytes := []\<rparr> else os))"

definition os_read :: "int \<Rightarrow> int \<Rightarrow> os_file \<Rightarrow> int \<times> bytes" where
  "os_read pos count os =
     (if pos < 0 \<or> count < 0 then (- 1, [])
      else (let got = seg (nat pos) (nat count) (fbytes os) in (int (length got), got)))"

definition os_write :: "bool \<Rightarrow> int \<Rightarrow> bytes \<Rightarrow> os_file \<Rightarrow> int \<times> os_file" where
  "os_write wr pos bs os =
     (if \<not> wr \<or> pos < 0 then (- 1, os)
      else if bs = [] then (0, os)
      else (let n = min (length bs) (flimit os - nat pos)
            in if n = 0 then (- 1, os)
               else (int n, os\<lparr>fbytes := patch (nat pos) (take n bs) (fbytes os)\<rparr>)))"

subsection \<open>The object\<close>

record base_file =
  fd_open :: bool
  f_write_mode :: bool
  f_new_file :: bool
  cache :: bytes
  cache_size :: int
  cache_offset :: int
  cache_len :: int
  current_offset :: int
  last_offset :: int
  work_area_size :: int
  max_data_size :: int
  bflags :: u32
  delta_page :: int
  alignment :: int
  filename :: string
  falias :: string

datatype 'a result = Ok 'a | Err int | Fault

definition bf_new :: "u32 \<Rightarrow> int \<Rightarrow> int \<Rightarrow> int \<Rightarrow> int \<Rightarrow> base_file" where
  \<comment> \<open>the constructor; without a maximum record size the source leaves \<open>work_area_size\<close> unset,
     which no class of the library does\<close>
  "bf_new flags csize mdsize dpage align =
     \<lparr>fd_open = False, f_write_mode = False, f_new_file = False,
      cache = [], cache_size = csize, cache_offset = - 1, cache_len = 0,
      current_offset = 0, last_offset = 0,
      work_area_size = (if mdsize > 0 then WORK_AREA_RESERV_SIZE + mdsize else 0),
      max_data_size = mdsize, bflags = flags, delta_page = dpage, alignment = align,
      filename = [], falias = []\<rparr>"

definition allocateCache :: "base_file \<Rightarrow> base_file" where
  "allocateCache f = f\<lparr>cache_len := 0, cache_offset := - 1, cache := []\<rparr>"

definition setMaxDataSize :: "int \<Rightarrow> base_file \<Rightarrow> base_file" where
  "setMaxDataSize value f =
     (if max_data_size f = value then f
      else f\<lparr>max_data_size := value,
             work_area_size := (if value > 0 then WORK_AREA_RESERV_SIZE + value else 0)\<rparr>)"

definition setCacheSize :: "int \<Rightarrow> base_file \<Rightarrow> base_file" where
  "setCacheSize value f =
     (if cache_size f = value then f else allocateCache (f\<lparr>cache_size := value\<rparr>))"

definition bf_close :: "base_file \<Rightarrow> int \<times> base_file" where
  "bf_close f = (0, f\<lparr>fd_open := False, f_write_mode := False, f_new_file := False\<rparr>)"

definition goTop :: "base_file \<Rightarrow> base_file" where
  "goTop f = f\<lparr>current_offset := 0\<rparr>"

definition autoAlias :: "string \<Rightarrow> string" where
  "autoAlias fname =
     (if CHR ''.'' \<notin> set fname then []
      else (let ext = rev (takeWhile (\<lambda>c. c \<noteq> CHR ''.'') (rev fname))
            in if length ext \<ge> 5 then drop (length fname + 1 - 5) fname else ext))"

text \<open>
  \<open>open\<close>: the loop retries with \<open>O_CREAT\<close> after every failure that is not a final \<open>ENOENT\<close>;
  \<open>None\<close> is a call that does not return.
\<close>

partial_function (option) bf_open_loop ::
  "u32 \<Rightarrow> bool \<Rightarrow> bool \<Rightarrow> bool \<Rightarrow> base_file \<Rightarrow> os_file \<Rightarrow> (outcome \<times> base_file \<times> os_file) option"
where
  "bf_open_loop flags rdwr creat trunc f os =
     (case os_open rdwr creat trunc os of
        Inr os' \<Rightarrow> Some (Ret 0, f\<lparr>fd_open := True\<rparr>, os')
      | Inl errno \<Rightarrow>
          (if (\<not> has_flag flags F_CSFILE_CREATE \<or> creat) \<and> errno = ENOENT
           then Some ((if has_flag flags F_CSFILE_EXCEPTIONS then Throw E_CSFILE_OPEN_FILE
                       else Ret E_CSFILE_OPEN_FILE), f\<lparr>fd_open := False\<rparr>, os)
           else bf_open_loop flags rdwr True trunc (f\<lparr>fd_open := False, f_new_file := True\<rparr>) os))"

declare bf_open_loop.simps [code]

definition bf_open ::
  "string \<Rightarrow> u32 \<Rightarrow> base_file \<Rightarrow> os_file \<Rightarrow> (outcome \<times> base_file \<times> os_file) option" where
  "bf_open fname flags f os =
     (let flags = (if has_flag flags F_CSFILE_CREATE then flags OR F_CSFILE_WR else flags);
          wr = has_flag flags F_CSFILE_WR;
          trunc = (wr \<and> has_flag flags F_CSFILE_TRUNCATE)
      in bf_open_loop flags wr trunc trunc
           (f\<lparr>filename := fname, falias := autoAlias fname, f_write_mode := wr\<rparr>) os)"

text \<open>\<open>setFlags\<close>: check or change the mode of an open file.\<close>

definition os_access :: "bool \<Rightarrow> os_file \<Rightarrow> bool" where
  "os_access wr os \<longleftrightarrow> fexists os \<and> freadable os \<and> (wr \<longrightarrow> fwritable os)"

definition bf_setFlags :: "u32 \<Rightarrow> base_file \<Rightarrow> os_file \<Rightarrow> int \<times> base_file" where
  "bf_setFlags flags f os =
     (let flags = (if has_flag flags F_CSFILE_CREATE then flags OR F_CSFILE_WR else flags);
          new_mode = has_flag flags F_CSFILE_WR
      in if new_mode = f_write_mode f \<or> \<not> fd_open f then (0, f)
         else if has_flag flags F_CSFILE_CHECK_FLAGS
         then ((if os_access new_mode os then 0 else E_CSFILE_CHANGE_FLAGS), f)
         else (case os_open new_mode False False os of
                 Inr _ \<Rightarrow> (0, f\<lparr>f_write_mode := new_mode\<rparr>)
               | Inl _ \<Rightarrow> (E_CSFILE_CHANGE_FLAGS, f)))"

definition bf_sizeOf :: "int \<Rightarrow> base_file \<Rightarrow> int" where
  "bf_sizeOf sz f = sz + 4 + (if has_flag (bflags f) F_CSFILE_DYNAMIC then 4 else 0)"

subsection \<open>Reading\<close>

definition checkWorkAreaSize :: "int \<Rightarrow> base_file \<Rightarrow> base_file" where
  "checkWorkAreaSize len f =
     (let need = i32 (len + WORK_AREA_RESERV_SIZE)
      in if work_area_size f \<ge> need then f
         else f\<lparr>work_area_size :=
                  (need div delta_page f + (if need mod delta_page f \<noteq> 0 then 1 else 0))
                  * delta_page f\<rparr>)"

definition bf_seek :: "int \<Rightarrow> int \<Rightarrow> bool \<Rightarrow> base_file \<Rightarrow> os_file \<Rightarrow> int result" where
  "bf_seek loff len write f os =
     (let seek_err = (if write then E_CSFILE_WRITE_SEEK else E_CSFILE_READ_SEEK)
      in if \<not> fd_open f then Err seek_err
         else
           let loff = (if loff = C_CSFILE_CURRPOS
                       then (if current_offset f < 0 then - 1 else current_offset f) else loff);
               end = fsize os;
               loff = (if loff = C_CSFILE_ENDFILE then end else loff)
           in if loff + len > end \<and> \<not> f_write_mode f then Err E_CSFILE_EOF
              else if loff < 0 then Err seek_err
              else Ok loff)"

text \<open>The cached read loop; the state is the object, the position, what is left, what was copied
  and the result of the last \<open>read\<close>.\<close>

definition cache_hit :: "base_file \<Rightarrow> int \<Rightarrow> bool" where
  "cache_hit f loff \<longleftrightarrow>
     \<not> (cache_offset f < 0 \<or> loff < cache_offset f \<or> loff \<ge> cache_offset f + cache_len f)"

function read_loop ::
  "base_file \<Rightarrow> os_file \<Rightarrow> int \<Rightarrow> int \<Rightarrow> bytes \<Rightarrow> int \<Rightarrow> base_file \<times> int \<times> int \<times> bytes \<times> int"
where
  "read_loop f os loff len acc rc =
     (if len > 0
      then (if \<not> cache_hit f loff
            then (let (n, got) = os_read loff (cache_size f) os;
                      f' = f\<lparr>cache_offset := loff, cache_len := 0\<rparr>
                  in if n \<le> 0 then (f', loff, len, acc, n)
                     else read_loop (f'\<lparr>cache := got, cache_len := n\<rparr>) os loff len acc n)
            else (let start = loff - cache_offset f;
                      clen = (if cache_len f - start > len then len else cache_len f - start)
                  in read_loop f os (loff + clen) (len - clen)
                       (acc @ seg (nat start) (nat clen) (cache f)) rc))
      else (f, loff, len, acc, rc))"
  by pat_completeness auto
termination
proof (relation "measure (\<lambda>(f, os, loff, len, acc, rc). 2 * nat len + (if cache_hit f loff then 0 else 1))",
    goal_cases)
  case 1
  then show ?case by simp
next
  case (2 f os loff len acc rc x n got f')
  then show ?case
    by (auto simp: cache_hit_def os_read_def Let_def split: if_splits)
next
  case (3 f os loff len acc rc start clen)
  then show ?case
    by (auto simp: cache_hit_def split: if_splits)
qed

declare read_loop.simps [simp del]

text \<open>
  \<open>readWorkArea\<close>: the bytes it stores at \<open>work_area + skip\<close> and the position after them.
  Storing past the work area is \<open>Fault\<close>.
\<close>

definition readWorkArea ::
  "int \<Rightarrow> int \<Rightarrow> int \<Rightarrow> bool \<Rightarrow> base_file \<Rightarrow> os_file \<Rightarrow> (bytes \<times> int) result \<times> base_file" where
  "readWorkArea loff len skip set_last f os =
     (let f = checkWorkAreaSize len f; len = i32 (len - skip)
      in case bf_seek loff len False f os of
           Err e \<Rightarrow> (Err e, f)
         | Fault \<Rightarrow> (Fault, f)
         | Ok pos \<Rightarrow>
             let f = (if set_last then f\<lparr>last_offset := pos\<rparr> else f)
             in if cache_size f > 0
                then (let (f, pos, left, got, rc) = read_loop f os pos len [] 1
                      in if skip + int (length got) > work_area_size f then (Fault, f)
                         else if left > 0 \<and> rc = 0 then (Err E_CSFILE_EMPTY_DATA, f)
                         else if left > 0 then (Err E_CSFILE_READ, f)
                         else (Ok (got, pos), f))
                else (let (n, got) = os_read pos len os
                      in if skip + int (length got) > work_area_size f then (Fault, f)
                         else if n = 0 then (Err E_CSFILE_EMPTY_DATA, f)
                         else if n \<noteq> len then (Err E_CSFILE_READ, f)
                         else (Ok (got, pos + n), f)))"

text \<open>
  \<open>read\<close>. \<open>read_frame\<close> is its first part: for a dynamic record the length word is read into the
  work area first. The result is the work area so far, the position, \<open>skip\<close> and \<open>len\<close>.
\<close>

definition read_frame ::
  "int \<Rightarrow> u32 \<Rightarrow> data_array \<Rightarrow> base_file \<Rightarrow> os_file \<Rightarrow> (bytes \<times> int \<times> int \<times> int) result \<times> base_file" where
  "read_frame loff flags da f os =
     (if has_flag flags F_CSFILE_DYNAMIC
      then (case readWorkArea loff 4 0 True f os of
              (Ok (wa, pos), f) \<Rightarrow>
                let vlen = dec_i32 wa in (Ok (wa, pos, 4, i32 (vlen - 4)), f)
            | (Err e, f) \<Rightarrow> (Err e, f)
            | (Fault, f) \<Rightarrow> (Fault, f))
      else (Ok ([], loff, 0, int (da_size da)), f))"

definition check_record ::
  "u32 \<Rightarrow> bytes \<Rightarrow> int \<Rightarrow> int \<Rightarrow> data_array \<Rightarrow> int result \<times> data_array" where
  "check_record flags wa skip len da =
     (if len < 0 then (Fault, da)
      else
        let crc = crc32 (take (nat len) wa) 0;
            dcrc = (le_dec (seg (nat len) 4 wa) :: u32);
            len = (if has_flag flags F_CSFILE_DYNAMIC then len - 4 else len);
            zero = (if len < 0 then False else memzero (take (nat len) wa))
        in if dcrc \<noteq> crc \<and> zero \<and> dcrc = 0 \<and> has_flag flags F_CSFILE_EMPTY_DATA
           then (Err E_CSFILE_EMPTY_DATA, da)
           else if dcrc \<noteq> crc \<and> \<not> has_flag flags F_CSFILE_IGNORE_CRC
           then (Err E_CSFILE_CRC, da)
           else (case setFromBuffer da (drop (nat skip) wa) len of
                   (da, Crash) \<Rightarrow> (Fault, da)
                 | (da, _) \<Rightarrow> (Ok len, da)))"

definition finish :: "u32 \<Rightarrow> int result \<Rightarrow> outcome" where
  \<comment> \<open>the \<open>catch\<close> clause\<close>
  "finish flags r =
     (case r of Ok n \<Rightarrow> Ret n
      | Err e \<Rightarrow> (if has_flag flags F_CSFILE_EXCEPTIONS then Throw e else Ret e)
      | Fault \<Rightarrow> Crash)"

definition bf_read ::
  "int \<Rightarrow> u32 \<Rightarrow> data_array \<Rightarrow> base_file \<Rightarrow> os_file \<Rightarrow> outcome \<times> data_array \<times> base_file" where
  "bf_read loff flags da f os =
     (let flags = flags OR bflags f
      in case read_frame loff flags da f os of
           (Err e, f) \<Rightarrow> (finish flags (Err e), da, f)
         | (Fault, f) \<Rightarrow> (Crash, da, f)
         | (Ok (wa, pos, skip, len), f) \<Rightarrow>
             (case readWorkArea pos (i32 (len + 4)) skip False f os of
                (Err e, f) \<Rightarrow> (finish flags (Err e), da, f)
              | (Fault, f) \<Rightarrow> (Crash, da, f)
              | (Ok (got, pos), f) \<Rightarrow>
                  let f = f\<lparr>current_offset := pos\<rparr>;
                      (r, da) = check_record flags (wa @ got) skip len da
                  in (finish flags r, da, f)))"

subsection \<open>Writing\<close>

definition clearCache :: "int \<Rightarrow> int \<Rightarrow> base_file \<Rightarrow> base_file" where
  "clearCache loff len f =
     (if cache_offset f < 0 \<or> cache_len f = 0 then f
      else if loff < cache_offset f + cache_len f \<and> loff + len > cache_offset f
      then f\<lparr>cache_offset := - 1, cache_len := 0\<rparr> else f)"

text \<open>\<open>fillWorkArea\<close>: the work area up to and including the checksum.\<close>

definition da_content :: "data_array \<Rightarrow> bytes" where
  "da_content da = concat (map (\<lambda>(p, n). take n p) (zip (da_datas da) (da_lens da)))"

definition fillWorkArea :: "int \<Rightarrow> data_array \<Rightarrow> int \<Rightarrow> base_file \<Rightarrow> bytes result \<times> base_file" where
  "fillWorkArea len da offset_len f =
     (let f = checkWorkAreaSize (int (da_size da) + len) f
      in if int (da_size da) > work_area_size f - len then (Err E_CSFILE_DATA_TOO_BIG, f)
         else
           let wa = replicate (nat len) 0 @ da_content da;
               n = int (length wa);
               wa = (if offset_len \<ge> 0 then patch (nat offset_len) (enc_i32 (n + 4)) wa else wa);
               wa = wa @ le_enc 4 (crc32 wa 0)
           in if int (length wa) > work_area_size f then (Fault, f) else (Ok wa, f))"

definition writeWorkArea ::
  "int \<Rightarrow> bytes \<Rightarrow> int \<Rightarrow> base_file \<Rightarrow> os_file \<Rightarrow> int result \<times> base_file \<times> os_file" where
  "writeWorkArea loff wa skip f os =
     (let f = checkWorkAreaSize (int (length wa)) f;
          pos = (if \<not> fd_open f then - 1
                 else if loff = C_CSFILE_ENDFILE then fsize os
                 else if loff < 0 then - 1 else loff);
          f = f\<lparr>last_offset := pos\<rparr>
      in if pos < 0 then (Err E_CSFILE_WRITE_SEEK, f, os)
         else
           let bs = drop (nat skip) wa;
               (n, os) = os_write (f_write_mode f) pos bs os;
               f = clearCache pos (int (length bs)) f
           in if n \<noteq> int (length bs) then (Err E_CSFILE_WRITE, f, os)
              else (Ok (pos + int (length bs)), f, os))"

definition bf_write ::
  "int \<Rightarrow> u32 \<Rightarrow> data_array \<Rightarrow> base_file \<Rightarrow> os_file \<Rightarrow> outcome \<times> base_file \<times> os_file" where
  "bf_write loff flags da f os =
     (let flags = flags OR bflags f
      in case (if has_flag flags F_CSFILE_DYNAMIC then fillWorkArea 4 da 0 f
               else fillWorkArea 0 da (- 1) f) of
           (Err e, f) \<Rightarrow> (finish flags (Err e), f, os)
         | (Fault, f) \<Rightarrow> (Crash, f, os)
         | (Ok wa, f) \<Rightarrow>
             (case writeWorkArea loff wa 0 f os of
                (Err e, f, os) \<Rightarrow> (finish flags (Err e), f, os)
              | (Fault, f, os) \<Rightarrow> (Crash, f, os)
              | (Ok pos, f, os) \<Rightarrow>
                  (Ret (int (length wa)), f\<lparr>current_offset := pos\<rparr>, os)))"

end
