(* ===== verification/Base_File_Read.thy ===== *)
theory Base_File_Read
  imports Base_File
begin

text \<open>
  What a read of \<open>Base_File\<close> returns, in terms of the bytes of the file: the work area always
  has room, the cache is transparent as long as it is coherent with the file, and a fixed-size
  record is returned exactly when its checksum matches (\<open>slot_at\<close>).
\<close>

subsection \<open>The work area\<close>

lemma round_up_ge:
  assumes "(0 :: int) < d"
  shows "n \<le> (n div d + (if n mod d \<noteq> 0 then 1 else 0)) * d"
proof -
  have eq: "n div d * d + n mod d = n"
    by (rule div_mult_mod_eq)
  have lt: "n mod d < d"
    using assms by simp
  have "(n div d + 1) * d = n div d * d + d"
    by (simp only: distrib_right mult_1)
  then have "n \<le> (n div d + 1) * d"
    using eq lt by linarith
  moreover have "n \<le> n div d * d" if "n mod d = 0"
    using eq that by linarith
  ultimately show ?thesis
    by auto
qed

lemma checkWorkAreaSize_room:
  assumes "0 < delta_page f" and "is_i32 (len + 128)"
  shows "len + 128 \<le> work_area_size (checkWorkAreaSize len f)"
  using round_up_ge [OF assms(1), of "len + 128"] assms(2)
  by (simp add: checkWorkAreaSize_def WORK_AREA_RESERV_SIZE_def Let_def)

lemma checkWorkAreaSize_eq:
  "checkWorkAreaSize len f = f\<lparr>work_area_size := work_area_size (checkWorkAreaSize len f)\<rparr>"
  by (simp add: checkWorkAreaSize_def Let_def)

subsection \<open>The cache\<close>

definition coherent :: "base_file \<Rightarrow> os_file \<Rightarrow> bool" where
  "coherent f os \<longleftrightarrow>
     0 \<le> cache_len f \<and>
     (0 \<le> cache_offset f \<and> 0 < cache_len f \<longrightarrow>
        cache_len f = int (length (cache f)) \<and>
        seg (nat (cache_offset f)) (length (cache f)) (fbytes os) = cache f)"

definition same_handle :: "base_file \<Rightarrow> base_file \<Rightarrow> bool" where
  "same_handle f f' \<longleftrightarrow>
     fd_open f' = fd_open f \<and> f_write_mode f' = f_write_mode f \<and> bflags f' = bflags f \<and>
     delta_page f' = delta_page f \<and> cache_size f' = cache_size f"

lemma same_handle_refl [simp, intro]: "same_handle f f"
  by (simp add: same_handle_def)

lemma same_handle_trans [trans]: "same_handle f g \<Longrightarrow> same_handle g h \<Longrightarrow> same_handle f h"
  by (simp add: same_handle_def)

lemma same_handle_check [simp]: "same_handle f (checkWorkAreaSize len f)"
  by (simp add: same_handle_def checkWorkAreaSize_def Let_def)

lemma coherent_check [simp]: "coherent (checkWorkAreaSize len f) os = coherent f os"
  by (simp add: coherent_def checkWorkAreaSize_def Let_def)

text \<open>What the loop copies: all of the file from \<open>loff\<close> on, up to \<open>len\<close> bytes.\<close>

definition avail :: "int \<Rightarrow> int \<Rightarrow> os_file \<Rightarrow> int" where
  "avail loff len os = min len (max 0 (fsize os - loff))"

lemma avail_step:
  assumes "0 \<le> loff" and "0 \<le> c" and "c \<le> len" and "loff + c \<le> fsize os"
  shows "avail loff len os = c + avail (loff + c) (len - c) os"
    and "seg (nat loff) (nat (avail loff len os)) (fbytes os)
           = seg (nat loff) (nat c) (fbytes os)
             @ seg (nat (loff + c)) (nat (avail (loff + c) (len - c) os)) (fbytes os)"
proof -
  show e: "avail loff len os = c + avail (loff + c) (len - c) os"
    using assms by (auto simp: avail_def min_def max_def)
  have "nat (c + avail (loff + c) (len - c) os) = nat c + nat (avail (loff + c) (len - c) os)"
    using assms by (intro nat_add_distrib) (auto simp: avail_def)
  moreover have "nat (loff + c) = nat loff + nat c"
    using assms by (simp add: nat_add_distrib)
  ultimately show "seg (nat loff) (nat (avail loff len os)) (fbytes os)
           = seg (nat loff) (nat c) (fbytes os)
             @ seg (nat (loff + c)) (nat (avail (loff + c) (len - c) os)) (fbytes os)"
    by (simp add: e seg_add)
qed

lemma coherent_part:
  assumes "coherent f os" and "cache_hit f loff" and "0 \<le> c" and "c \<le> cache_len f - (loff - cache_offset f)"
  shows "seg (nat (loff - cache_offset f)) (nat c) (cache f) = seg (nat loff) (nat c) (fbytes os)"
    and "loff + c \<le> fsize os"
proof -
  let ?o = "nat (cache_offset f)" and ?s = "nat (loff - cache_offset f)"
  have pos: "0 \<le> cache_offset f" "cache_offset f \<le> loff" "loff < cache_offset f + cache_len f"
    using assms(2) by (auto simp: cache_hit_def)
  with assms(1) have len: "cache_len f = int (length (cache f))"
    and c: "seg ?o (length (cache f)) (fbytes os) = cache f"
    by (auto simp: coherent_def)
  have fit: "?s + nat c \<le> length (cache f)"
    using assms(3,4) pos len by linarith
  have "seg ?s (nat c) (seg ?o (length (cache f)) (fbytes os)) = seg (?o + ?s) (nat c) (fbytes os)"
    using fit by (rule seg_seg)
  moreover have "?o + ?s = nat loff"
    using pos by simp
  ultimately show "seg ?s (nat c) (cache f) = seg (nat loff) (nat c) (fbytes os)"
    using c by simp
  have "length (cache f) \<le> length (fbytes os) - ?o"
    using arg_cong [OF c, of length] by (simp add: length_seg)
  moreover have "0 < length (cache f)"
    using pos len by linarith
  ultimately show "loff + c \<le> fsize os"
    using assms(4) pos len by (simp add: fsize_def)
qed

lemma cache_miss_refill:
  assumes "0 \<le> loff" and "got = seg (nat loff) (nat n) (fbytes os)" and "0 < length got"
  shows "coherent (f\<lparr>cache_offset := loff, cache_len := int (length got), cache := got\<rparr>) os"
proof -
  have "seg (nat loff) (length got) (fbytes os) = got"
    unfolding assms(2) by (simp add: seg_def min_def)
  then show ?thesis
    by (simp add: coherent_def)
qed

definition loop_result :: "base_file \<Rightarrow> os_file \<Rightarrow> int \<Rightarrow> int \<Rightarrow> bytes
    \<Rightarrow> base_file \<times> int \<times> int \<times> bytes \<times> int \<Rightarrow> bool" where
  "loop_result f os loff len acc r =
     (case r of (f', loff', left, acc', rc') \<Rightarrow>
        loff' = loff + max 0 (avail loff len os) \<and> left = len - max 0 (avail loff len os)
        \<and> acc' = acc @ seg (nat loff) (nat (avail loff len os)) (fbytes os)
        \<and> (0 < left \<longrightarrow> rc' = 0)
        \<and> coherent f' os \<and> same_handle f f' \<and> work_area_size f' = work_area_size f
        \<and> last_offset f' = last_offset f \<and> current_offset f' = current_offset f)"

lemma read_loop_spec:
  assumes "coherent f os" and "0 \<le> loff" and "0 < cache_size f"
  shows "loop_result f os loff len acc (read_loop f os loff len acc rc)"
  using assms
proof (induction f os loff len acc rc rule: read_loop.induct)
  case (1 f os loff len acc rc)
  show ?case
  proof (cases "len > 0")
    case False
    then have "avail loff len os \<le> 0" and "max 0 (avail loff len os) = 0"
      by (auto simp: avail_def)
    with False "1.prems" show ?thesis
      by (simp add: read_loop.simps [of f os loff len] loop_result_def)
  next
    case len: True
    show ?thesis
    proof (cases "cache_hit f loff")
      case hit: True
      let ?start = "loff - cache_offset f"
      define c where "c = (if cache_len f - ?start > len then len else cache_len f - ?start)"
      have c: "0 \<le> c" "c \<le> len" "c \<le> cache_len f - ?start"
        using hit len by (auto simp: c_def cache_hit_def)
      note part = coherent_part [OF "1.prems"(1) hit c(1,3)]
      have step: "read_loop f os loff len acc rc =
          read_loop f os (loff + c) (len - c) (acc @ seg (nat loff) (nat c) (fbytes os)) rc"
        using len hit by (simp add: read_loop.simps [of f os loff len] Let_def c_def part(1) [unfolded c_def])
      have "loop_result f os (loff + c) (len - c) (acc @ seg (nat loff) (nat c) (fbytes os))
          (read_loop f os (loff + c) (len - c) (acc @ seg (nat loff) (nat c) (fbytes os)) rc)"
        using "1.IH"(2) [OF len _ refl c_def] hit "1.prems" c by (simp add: part(1))
      moreover have "0 \<le> avail (loff + c) (len - c) os"
        using c by (simp add: avail_def)
      moreover note e = avail_step [OF "1.prems"(2) c(1,2) part(2)]
      moreover have "seg (nat loff) (nat (c + avail (loff + c) (len - c) os)) (fbytes os)
          = seg (nat loff) (nat c) (fbytes os)
            @ seg (nat (loff + c)) (nat (avail (loff + c) (len - c) os)) (fbytes os)"
        using e(2) unfolding e(1) .
      ultimately show ?thesis
        unfolding step loop_result_def e(1)
        using c by (simp add: split_beta max_absorb2)
    next
      case miss: False
      define got where "got = seg (nat loff) (nat (cache_size f)) (fbytes os)"
      have rd: "os_read loff (cache_size f) os = (int (length got), got)"
        using "1.prems" by (simp add: os_read_def got_def Let_def)
      let ?f = "f\<lparr>cache_offset := loff, cache_len := 0\<rparr>"
      show ?thesis
      proof (cases "got = []")
        case True
        then have "avail loff len os = 0"
          using "1.prems" len by (auto simp: got_def seg_def avail_def fsize_def)
        with True len miss rd "1.prems" show ?thesis
          by (auto simp: read_loop.simps [of f os loff len] loop_result_def coherent_def same_handle_def)
      next
        case False
        let ?g = "?f\<lparr>cache := got, cache_len := int (length got)\<rparr>"
        have coh: "coherent ?g os"
          using cache_miss_refill [OF "1.prems"(2) got_def] False
          by (simp add: coherent_def)
        have "loop_result ?g os loff len acc (read_loop ?g os loff len acc (int (length got)))"
          using "1.IH"(1) [OF len miss rd [symmetric] refl refl] False coh "1.prems" by simp
        moreover have "read_loop f os loff len acc rc = read_loop ?g os loff len acc (int (length got))"
          using len miss rd False by (simp add: read_loop.simps [of f os loff len])
        ultimately show ?thesis
          by (auto simp: loop_result_def same_handle_def)
      qed
    qed
  qed
qed

subsection \<open>One run of \<open>readWorkArea\<close>\<close>

definition handle_ok :: "base_file \<Rightarrow> os_file \<Rightarrow> bool" where
  "handle_ok f os \<longleftrightarrow> fd_open f \<and> 0 < delta_page f \<and> bflags f = 0 \<and> coherent f os"

text \<open>After a read: a handle for the same file, coherent, at these two offsets.\<close>

definition after_read :: "base_file \<Rightarrow> os_file \<Rightarrow> int \<Rightarrow> int \<Rightarrow> base_file \<Rightarrow> bool" where
  "after_read f os cur lst f' \<longleftrightarrow>
     same_handle f f' \<and> coherent f' os \<and> current_offset f' = cur \<and> last_offset f' = lst"

lemma handle_ok_after: "handle_ok f os \<Longrightarrow> after_read f os c l f' \<Longrightarrow> handle_ok f' os"
  by (simp add: handle_ok_def after_read_def same_handle_def)

lemma bf_seek_check [simp]: "bf_seek loff n w (checkWorkAreaSize len f) os = bf_seek loff n w f os"
  by (simp add: bf_seek_def checkWorkAreaSize_def Let_def)

lemma bf_seek_nonneg: "bf_seek loff n w f os = Ok pos \<Longrightarrow> 0 \<le> pos"
  by (auto simp: bf_seek_def Let_def split: if_splits)

lemma bf_seek_plain:
  assumes "fd_open f" and "0 \<le> loff" and "loff < C_CSFILE_ENDFILE" and "f_write_mode f \<or> loff + n \<le> fsize os"
  shows "bf_seek loff n w f os = Ok loff"
  using assms by (auto simp: bf_seek_def Let_def C_CSFILE_CURRPOS_def C_CSFILE_ENDFILE_def)

lemma os_read_avail:
  assumes "0 \<le> pos" and "0 < n"
  shows "os_read pos n os =
           (max 0 (avail pos n os), seg (nat pos) (nat (avail pos n os)) (fbytes os))"
proof -
  have "seg (nat pos) (nat n) (fbytes os) = seg (nat pos) (nat (avail pos n os)) (fbytes os)"
    using assms by (auto simp: seg_def avail_def fsize_def min_def max_def)
  moreover have "int (length (seg (nat pos) (nat n) (fbytes os))) = max 0 (avail pos n os)"
    using assms by (auto simp: length_seg avail_def fsize_def)
  ultimately show ?thesis
    using assms by (simp add: os_read_def Let_def)
qed

lemma readWorkArea_cases:
  assumes ok: "handle_ok f os" and seek: "bf_seek loff (len - skip) False f os = Ok pos"
    and n: "0 < len - skip" "0 \<le> skip" and i32: "is_i32 (len + 128)"
  shows "\<exists>f'. readWorkArea loff len skip b f os =
           ((if pos + (len - skip) \<le> fsize os
             then Ok (seg (nat pos) (nat (len - skip)) (fbytes os), pos + (len - skip))
             else if 0 < cache_size f \<or> fsize os \<le> pos then Err E_CSFILE_EMPTY_DATA
             else Err E_CSFILE_READ), f')
         \<and> after_read f os (current_offset f) (if b then pos else last_offset f) f'"
proof -
  define n where "n = len - skip"
  have i: "i32 (len - skip) = n"
    using n i32 by (simp add: n_def is_i32_def)
  have pos: "0 \<le> pos"
    using seek by (rule bf_seek_nonneg)
  have n0: "0 < n" using assms by (simp add: n_def)
  have av: "avail pos n os \<le> n" "(avail pos n os = n) = (pos + n \<le> fsize os)"
    "(avail pos n os \<le> 0) = (fsize os \<le> pos)" "0 \<le> avail pos n os"
    using n0 by (auto simp: avail_def)
  define g where "g = checkWorkAreaSize len f"
  define h where "h = (if b then g\<lparr>last_offset := pos\<rparr> else g)"
  have g: "same_handle f g" "coherent g os" "current_offset g = current_offset f"
      "last_offset g = last_offset f"
    using ok by (simp_all add: g_def handle_ok_def) (simp_all add: checkWorkAreaSize_def Let_def)
  then have h: "same_handle f h" "coherent h os" "current_offset h = current_offset f"
      "last_offset h = (if b then pos else last_offset f)" "cache_size h = cache_size f"
    by (simp_all add: h_def same_handle_def coherent_def)
  have sg: "bf_seek loff n False g os = Ok pos"
    using seek by (simp add: g_def n_def)
  have unf: "readWorkArea loff len skip b f os =
      (if cache_size h > 0
       then (let (f, pos, left, got, rc) = read_loop h os pos n [] 1
             in if skip + int (length got) > work_area_size f then (Fault, f)
                else if left > 0 \<and> rc = 0 then (Err E_CSFILE_EMPTY_DATA, f)
                else if left > 0 then (Err E_CSFILE_READ, f)
                else (Ok (got, pos), f))
       else (let (k, got) = os_read pos n os
             in if skip + int (length got) > work_area_size h then (Fault, h)
                else if k = 0 then (Err E_CSFILE_EMPTY_DATA, h)
                else if k \<noteq> n then (Err E_CSFILE_READ, h)
                else (Ok (got, pos + k), h)))"
    unfolding readWorkArea_def Let_def i g_def [symmetric] sg result.case h_def [symmetric] ..
  have "len + 128 \<le> work_area_size h"
    using checkWorkAreaSize_room [OF _ i32] ok by (simp add: h_def g_def handle_ok_def)
  then have room: "\<not> skip + int (nat (avail pos n os)) > work_area_size h"
    using av n_def by linarith
  have lenseg: "length (seg (nat pos) (nat (avail pos n os)) (fbytes os)) = nat (avail pos n os)"
    using pos by (auto simp: length_seg avail_def fsize_def)
  show ?thesis
  proof (cases "0 < cache_size f")
    case True
    obtain f' p l a rc where r: "read_loop h os pos n [] 1 = (f', p, l, a, rc)"
      by (cases "read_loop h os pos n [] 1") auto
    have "loop_result h os pos n [] (f', p, l, a, rc)"
      using read_loop_spec [of h os pos n "[]" 1] h True pos r by simp
    then have res: "p = pos + avail pos n os" "l = n - avail pos n os"
        "a = seg (nat pos) (nat (avail pos n os)) (fbytes os)" "0 < l \<longrightarrow> rc = 0"
        "coherent f' os" "same_handle h f'" "work_area_size f' = work_area_size h"
        "last_offset f' = last_offset h" "current_offset f' = current_offset h"
      using av by (simp_all add: loop_result_def max_absorb2)
    have "readWorkArea loff len skip b f os =
        (if l > 0 then Err E_CSFILE_EMPTY_DATA else Ok (a, p), f')"
      using True room res h lenseg by (auto simp: unf r)
    moreover have "after_read f os (current_offset f) (if b then pos else last_offset f) f'"
      using res h by (auto simp: after_read_def same_handle_def)
    ultimately show ?thesis
      using av res True by (auto simp: n_def [symmetric])
  next
    case False
    have "readWorkArea loff len skip b f os =
        (if avail pos n os = 0 then Err E_CSFILE_EMPTY_DATA
         else if avail pos n os \<noteq> n then Err E_CSFILE_READ
         else Ok (seg (nat pos) (nat n) (fbytes os), pos + n), h)"
      using False room h lenseg av by (auto simp: unf os_read_avail [OF pos n0, of os] max_absorb2)
    moreover have "after_read f os (current_offset f) (if b then pos else last_offset f) h"
      using h by (simp add: after_read_def)
    ultimately show ?thesis
      using av n0 False by (auto simp: n_def [symmetric])
  qed
qed

end
