(* ===== verification/Safe_File.thy ===== *)
theory Safe_File
  imports Base_File_Read
begin

text \<open>
  src/src/include/safe_file.h: the template \<open>CSafeFile<R>\<close>, a \<open>CBaseSafeFile\<close> whose records are
  structures \<open>R\<close>. A structure in memory is its bytes; \<open>n\<close> is \<open>sizeof(R)\<close>. Then what these
  reads return for the bytes a file holds.
\<close>

definition sf_new :: "nat \<Rightarrow> u32 \<Rightarrow> int \<Rightarrow> int \<Rightarrow> int \<Rightarrow> int \<Rightarrow> base_file" where
  "sf_new n flags csize mdsize dpage align = bf_new flags csize (int n + mdsize) dpage align"

definition sf_sizeOf :: "nat \<Rightarrow> base_file \<Rightarrow> int" where
  "sf_sizeOf n f = bf_sizeOf (int n) f"

text \<open>Reading and writing a single buffer: the overloads of \<open>CBaseSafeFile::read\<close> and \<open>write\<close>.\<close>

definition bf_read_one :: "int \<Rightarrow> u32 \<Rightarrow> bytes \<Rightarrow> u32 \<Rightarrow> base_file \<Rightarrow> os_file \<Rightarrow> outcome \<times> bytes \<times> base_file" where
  "bf_read_one loff flags buf dlen f os =
     (let (r, da, f) = bf_read loff flags (da_new [(buf, dlen)]) f os
      in (r, hd (da_datas da), f))"

definition bf_write_one :: "int \<Rightarrow> u32 \<Rightarrow> bytes \<Rightarrow> u32 \<Rightarrow> base_file \<Rightarrow> os_file \<Rightarrow> outcome \<times> base_file \<times> os_file" where
  "bf_write_one loff flags data dlen f os = bf_write loff flags (da_new [(data, dlen)]) f os"

definition sf_read :: "nat \<Rightarrow> int \<Rightarrow> u32 \<Rightarrow> bytes \<Rightarrow> base_file \<Rightarrow> os_file \<Rightarrow> outcome \<times> bytes \<times> base_file" where
  "sf_read n loff flags buf f os = bf_read_one loff flags buf (word_of_nat n) f os"

definition sf_read_data ::
  "nat \<Rightarrow> int \<Rightarrow> bytes \<Rightarrow> bytes \<Rightarrow> u32 \<Rightarrow> base_file \<Rightarrow> os_file \<Rightarrow> outcome \<times> bytes \<times> bytes \<times> base_file" where
  "sf_read_data n loff buf ddata dlen f os =
     (let (r, da, f) = bf_read loff F_CSFILE_DYNAMIC
                         (da_new [(buf, word_of_nat n), (ddata, vlen_word dlen)]) f os
      in (r, da_datas da ! 0, da_datas da ! 1, f))"

definition sf_readIndex :: "nat \<Rightarrow> int \<Rightarrow> bytes \<Rightarrow> base_file \<Rightarrow> os_file \<Rightarrow> outcome \<times> bytes \<times> base_file" where
  "sf_readIndex n index buf f os = sf_read n (index * sf_sizeOf n f) F_CSFILE_EMPTY_DATA buf f os"

definition sf_write :: "nat \<Rightarrow> int \<Rightarrow> bytes \<Rightarrow> base_file \<Rightarrow> os_file \<Rightarrow> outcome \<times> base_file \<times> os_file" where
  "sf_write n loff data f os = bf_write_one loff 0 data (word_of_nat n) f os"

definition sf_writeIndex :: "nat \<Rightarrow> int \<Rightarrow> bytes \<Rightarrow> base_file \<Rightarrow> os_file \<Rightarrow> outcome \<times> base_file \<times> os_file" where
  "sf_writeIndex n index data f os = sf_write n (index * sf_sizeOf n f) data f os"

definition sf_write_at ::
  "nat \<Rightarrow> int \<Rightarrow> bytes \<Rightarrow> bytes \<Rightarrow> u32 \<Rightarrow> base_file \<Rightarrow> os_file \<Rightarrow> outcome \<times> base_file \<times> os_file" where
  "sf_write_at n loff data ddata dlen f os =
     bf_write loff F_CSFILE_DYNAMIC (da_new [(data, word_of_nat n), (ddata, dlen)]) f os"

definition sf_append ::
  "nat \<Rightarrow> bytes \<Rightarrow> bytes option \<Rightarrow> u32 \<Rightarrow> base_file \<Rightarrow> os_file \<Rightarrow> outcome \<times> base_file \<times> os_file" where
  "sf_append n data ddata dlen f os =
     bf_write C_CSFILE_ENDFILE F_CSFILE_DYNAMIC
       (da_new (case ddata of None \<Rightarrow> [(data, word_of_nat n)]
                | Some q \<Rightarrow> [(data, word_of_nat n), (q, dlen)])) f os"

subsection \<open>Records in a file\<close>

definition fixed_rec :: "bytes \<Rightarrow> bytes" where
  "fixed_rec p = p @ le_enc 4 (crc32 p 0)"

definition dyn_rec :: "bytes \<Rightarrow> bytes" where
  "dyn_rec p = fixed_rec (enc_i32 (int (length p) + 8) @ p)"

datatype slot = Good bytes | Hole | Bad

text \<open>What stands in the \<open>n + 4\<close> bytes from \<open>off\<close> on.\<close>

definition slot_at :: "nat \<Rightarrow> nat \<Rightarrow> bytes \<Rightarrow> slot" where
  "slot_at off n bs =
     (let p = seg off n bs; c = (le_dec (seg (off + n) 4 bs) :: u32)
      in if c = crc32 p 0 then Good p
         else if c = 0 \<and> (\<forall>b \<in> set p. b = 0) then Hole else Bad)"

lemma length_fixed_rec [simp]: "length (fixed_rec p) = length p + 4"
  by (simp add: fixed_rec_def)

lemma length_dyn_rec [simp]: "length (dyn_rec p) = length p + 8"
  by (simp add: dyn_rec_def)

lemma slot_at_fixed_rec:
  assumes "seg off (length p + 4) bs = fixed_rec p"
  shows "slot_at off (length p) bs = Good p"
proof -
  have "seg off (length p) bs = seg 0 (length p) (fixed_rec p)"
    unfolding assms [symmetric] by (simp add: seg_seg)
  also have "\<dots> = p"
    by (simp add: fixed_rec_def seg_def)
  finally have p: "seg off (length p) bs = p" .
  have "seg (off + length p) 4 bs = seg (length p) 4 (fixed_rec p)"
    unfolding assms [symmetric] by (simp add: seg_seg)
  also have "\<dots> = le_enc 4 (crc32 p 0)"
    by (simp add: fixed_rec_def seg_def)
  finally show ?thesis
    using p by (simp add: slot_at_def le_dec_le_enc_full)
qed

lemma slot_at_seg_cong:
  assumes "seg off (n + 4) bs = seg off' (n + 4) bs'"
  shows "slot_at off n bs = slot_at off' n bs'"
proof -
  have "seg off n bs = seg 0 n (seg off (n + 4) bs)" "seg (off + n) 4 bs = seg n 4 (seg off (n + 4) bs)"
    "seg off' n bs' = seg 0 n (seg off' (n + 4) bs')" "seg (off' + n) 4 bs' = seg n 4 (seg off' (n + 4) bs')"
    by (simp_all add: seg_seg)
  then show ?thesis
    using assms by (simp add: slot_at_def)
qed

subsection \<open>Reading a fixed-size record\<close>

definition plain_flags :: "u32 \<Rightarrow> bool" where
  "plain_flags fl \<longleftrightarrow> \<not> has_flag fl F_CSFILE_DYNAMIC \<and> \<not> has_flag fl F_CSFILE_EXCEPTIONS
     \<and> \<not> has_flag fl F_CSFILE_IGNORE_CRC"

lemma plain_flags_used [simp]: "plain_flags 0" "plain_flags F_CSFILE_EMPTY_DATA"
  by (simp_all add: plain_flags_def has_flag_def csfile_flags)

text \<open>The result of reading a slot, and of reading where the file ends too early.\<close>

definition slot_result :: "u32 \<Rightarrow> nat \<Rightarrow> bytes \<Rightarrow> slot \<Rightarrow> outcome \<times> bytes" where
  "slot_result fl n buf s =
     (case s of
        Good p \<Rightarrow> (Ret (int n), p)
      | Hole \<Rightarrow> (Ret (if has_flag fl F_CSFILE_EMPTY_DATA then E_CSFILE_EMPTY_DATA else E_CSFILE_CRC), buf)
      | Bad \<Rightarrow> (Ret E_CSFILE_CRC, buf))"

definition short_result :: "base_file \<Rightarrow> os_file \<Rightarrow> int \<Rightarrow> int" where
  "short_result f os pos =
     (if 0 < cache_size f \<or> fsize os \<le> pos then E_CSFILE_EMPTY_DATA else E_CSFILE_READ)"

lemma check_record_fixed:
  assumes "plain_flags fl" and "length buf = n" and "n < 2 ^ 24" and "length got = n + 4"
  shows "check_record fl got 0 (int n) (da_new [(buf, word_of_nat n)]) =
      (case slot_at 0 n got of
         Good p \<Rightarrow> (Ok (int n), (da_new [(buf, word_of_nat n)])\<lparr>da_datas := [p]\<rparr>)
       | Hole \<Rightarrow> (Err (if has_flag fl F_CSFILE_EMPTY_DATA then E_CSFILE_EMPTY_DATA else E_CSFILE_CRC),
                 da_new [(buf, word_of_nat n)])
       | Bad \<Rightarrow> (Err E_CSFILE_CRC, da_new [(buf, word_of_nat n)]))"
proof -
  have "take n got = seg 0 n got"
    by (simp add: seg_def)
  moreover have "setFromBuffer (da_new [(buf, word_of_nat n)]) got (int n)
      = ((da_new [(buf, word_of_nat n)])\<lparr>da_datas := [seg 0 n got]\<rparr>, Ret 0)"
    using sfb_fixed [of buf n got] assms by (simp add: seg_def)
  ultimately show ?thesis
    using assms
    by (auto simp: check_record_def slot_at_def plain_flags_def Let_def memzero_iff)
qed

lemma finish_simps [simp]:
  "finish fl (Ok n) = Ret n"
  "\<not> has_flag fl F_CSFILE_EXCEPTIONS \<Longrightarrow> finish fl (Err e) = Ret e"
  by (simp_all add: finish_def)

lemma sf_read_spec_cur:
  assumes ok: "handle_ok f os" and seek: "bf_seek loff (int n + 4) False f os = Ok pos"
    and fl: "plain_flags fl" and buf: "length buf = n" and n: "n < 2 ^ 24"
  shows "\<exists>f' cur. sf_read n loff fl buf f os =
           (let (r, b) = (if pos + int n + 4 \<le> fsize os
                          then slot_result fl n buf (slot_at (nat pos) n (fbytes os))
                          else (Ret (short_result f os pos), buf))
            in (r, b, f'))
         \<and> after_read f os cur (last_offset f) f'
         \<and> (pos + int n + 4 \<le> fsize os \<longrightarrow> cur = pos + int n + 4)"
proof -
  let ?da = "da_new [(buf, word_of_nat n)]"
  have fl': "fl OR bflags f = fl"
    using ok by (simp add: handle_ok_def)
  have al: "arg_len (word_of_nat n) = n"
    using n by (rule arg_small)
  have i: "i32 (int n + 4) = int n + 4"
    using n by (simp add: is_i32_def)
  obtain f1 where rw: "readWorkArea loff (int n + 4) 0 False f os =
        ((if pos + (int n + 4) \<le> fsize os
             then Ok (seg (nat pos) (n + 4) (fbytes os), pos + (int n + 4))
             else if 0 < cache_size f \<or> fsize os \<le> pos then Err E_CSFILE_EMPTY_DATA
             else Err E_CSFILE_READ), f1)"
    and f1: "after_read f os (current_offset f) (last_offset f) f1"
    using readWorkArea_cases [OF ok, of loff "int n + 4" 0 pos False] seek n
    by (auto simp: is_i32_def nat_add_distrib)
  have unf: "bf_read loff fl ?da f os =
      (case readWorkArea loff (int n + 4) 0 False f os of
                (Err e, f) \<Rightarrow> (finish fl (Err e), ?da, f)
              | (Fault, f) \<Rightarrow> (Crash, ?da, f)
              | (Ok (got, pos), f) \<Rightarrow>
                  let f = f\<lparr>current_offset := pos\<rparr>;
                      (r, da) = check_record fl ([] @ got) 0 (int n) ?da
                  in (finish fl r, da, f))"
    using fl unfolding bf_read_def read_frame_def fl' Let_def [of "fl"]
    by (simp add: plain_flags_def al i)
  show ?thesis
  proof (cases "pos + (int n + 4) \<le> fsize os")
    case True
    let ?got = "seg (nat pos) (n + 4) (fbytes os)"
    have pos: "0 \<le> pos"
      using seek by (rule bf_seek_nonneg)
    have len: "length ?got = n + 4"
      using True pos by (simp add: length_seg fsize_def)
    have "slot_at 0 n ?got = slot_at (nat pos) n (fbytes os)"
      by (rule slot_at_seg_cong) (simp add: len)
    with True fl f1 show ?thesis
      by (intro exI [of _ "f1\<lparr>current_offset := pos + (int n + 4)\<rparr>"] exI [of _ "pos + (int n + 4)"])
        (auto simp: sf_read_def bf_read_one_def unf rw check_record_fixed [OF fl buf n len] slot_result_def Let_def
          plain_flags_def after_read_def same_handle_def coherent_def split: slot.split)
  next
    case False
    with fl f1 show ?thesis
      by (intro exI [of _ f1] exI [of _ "current_offset f"])
        (auto simp: sf_read_def bf_read_one_def unf rw plain_flags_def short_result_def)
  qed
qed

lemma sf_read_spec:
  assumes ok: "handle_ok f os" and seek: "bf_seek loff (int n + 4) False f os = Ok pos"
    and fl: "plain_flags fl" and buf: "length buf = n" and n: "n < 2 ^ 24"
  shows "\<exists>f' cur. sf_read n loff fl buf f os =
           (let (r, b) = (if pos + int n + 4 \<le> fsize os
                          then slot_result fl n buf (slot_at (nat pos) n (fbytes os))
                          else (Ret (short_result f os pos), buf))
            in (r, b, f'))
         \<and> after_read f os cur (last_offset f) f'"
  using sf_read_spec_cur [OF assms] by blast

lemma sf_read_eof:
  assumes ok: "handle_ok f os" and "\<not> f_write_mode f" and "0 \<le> loff" and "loff < C_CSFILE_ENDFILE"
    and "fsize os < loff + int n + 4" and fl: "plain_flags fl" and n: "n < 2 ^ 24"
  shows "\<exists>f'. sf_read n loff fl buf f os = (Ret E_CSFILE_EOF, buf, f')
         \<and> after_read f os (current_offset f) (last_offset f) f'"
proof -
  let ?da = "da_new [(buf, word_of_nat n)]"
  have fl': "fl OR bflags f = fl"
    using ok by (simp add: handle_ok_def)
  have al: "arg_len (word_of_nat n) = n"
    using n by (rule arg_small)
  have i: "i32 (int n + 4) = int n + 4"
    using n by (simp add: is_i32_def)
  have "bf_seek loff (int n + 4) False f os = Err E_CSFILE_EOF"
    using assms by (simp add: bf_seek_def Let_def handle_ok_def C_CSFILE_ENDFILE_def C_CSFILE_CURRPOS_def)
  then have "readWorkArea loff (int n + 4) 0 False f os =
      (Err E_CSFILE_EOF, checkWorkAreaSize (int n + 4) f)"
    by (simp add: readWorkArea_def i)
  then have "sf_read n loff fl buf f os = (Ret E_CSFILE_EOF, buf, checkWorkAreaSize (int n + 4) f)"
    using fl by (simp add: sf_read_def bf_read_one_def bf_read_def read_frame_def fl' plain_flags_def al i)
  moreover have "after_read f os (current_offset f) (last_offset f) (checkWorkAreaSize (int n + 4) f)"
    using ok by (simp add: after_read_def handle_ok_def) (simp add: checkWorkAreaSize_def Let_def)
  ultimately show ?thesis
    by blast
qed

end
