(* ===== verification/Safe_File_Write.thy ===== *)
theory Safe_File_Write
  imports Safe_File
begin

text \<open>
  Writing records: the work area always holds the record (\<open>E_CSFILE_DATA_TOO_BIG\<close> cannot
  happen), the file afterwards is the old one patched with the record and its checksum, the
  cache stays coherent, and a record just written reads back.
\<close>

subsection \<open>Filling the work area\<close>

definition args_ok :: "(bytes \<times> u32) list \<Rightarrow> bool" where
  \<comment> \<open>every buffer has the bytes its length word announces\<close>
  "args_ok args \<longleftrightarrow> (\<forall>(p, x) \<in> set args. arg_len x \<le> length p)"

definition args_bytes :: "(bytes \<times> u32) list \<Rightarrow> bytes" where
  "args_bytes args = concat (map (\<lambda>(p, x). take (arg_len x) p) args)"

lemma da_args_lists:
  "da_datas (da_args args b d) = da_datas d @ map fst args"
  "da_lens (da_args args b d) = da_lens d @ map (arg_len \<circ> snd) args"
  by (induction args b d rule: da_args.induct) (auto simp: Let_def)

lemma da_content_new: "da_content (da_new args) = args_bytes args"
proof -
  have "map (\<lambda>(p, n). take n p) (zip (map fst args) (map (arg_len \<circ> snd) args))
      = map (\<lambda>(p, x). take (arg_len x) p) args"
    by (induction args) auto
  then show ?thesis
    by (simp add: da_content_def args_bytes_def da_new_def da_empty_def da_args_lists)
qed

lemma length_args_bytes: "args_ok args \<Longrightarrow> length (args_bytes args) = da_size (da_new args)"
  by (induction args) (auto simp: args_ok_def args_bytes_def da_new_def da_empty_def da_size_sum
      simp del: da_args.simps)

definition filled :: "nat \<Rightarrow> int \<Rightarrow> bytes \<Rightarrow> bytes" where
  "filled skip offset_len content =
     (let wa = replicate skip 0 @ content;
          wa = (if offset_len \<ge> 0 then patch (nat offset_len) (enc_i32 (int (length wa) + 4)) wa else wa)
      in fixed_rec wa)"

lemma filled_fixed: "filled 0 (- 1) p = fixed_rec p"
  by (simp add: filled_def)

lemma filled_dyn: "filled 4 0 p = dyn_rec p"
  by (simp add: filled_def dyn_rec_def patch_def Let_def add.commute)

lemma length_filled_le:
  "offset_len < 0 \<or> offset_len + 4 \<le> int skip \<Longrightarrow> length (filled skip offset_len p) = skip + length p + 4"
  by (auto simp: filled_def Let_def length_patch dest!: arg_cong [where f = length])

lemma fillWorkArea_ok:
  assumes "0 < delta_page f" and "args_ok args" and "offset_len < 0 \<or> offset_len + 4 \<le> int skip"
    and "is_i32 (int (da_size (da_new args)) + int skip + 128)"
  shows "fillWorkArea (int skip) (da_new args) offset_len f =
      (Ok (filled skip offset_len (args_bytes args)),
       checkWorkAreaSize (int (da_size (da_new args)) + int skip) f)"
proof -
  let ?n = "int (da_size (da_new args)) + int skip"
  have room: "?n + 128 \<le> work_area_size (checkWorkAreaSize ?n f)"
    using checkWorkAreaSize_room [OF assms(1,4)] .
  have len: "int (length (filled skip offset_len (args_bytes args))) = ?n + 4"
    using assms by (simp add: length_filled_le length_args_bytes)
  show ?thesis
    using room len
    by (simp add: fillWorkArea_def Let_def da_content_new filled_def fixed_rec_def)
qed

subsection \<open>Storing the work area\<close>

definition write_pos :: "int \<Rightarrow> os_file \<Rightarrow> int" where
  "write_pos loff os = (if loff = C_CSFILE_ENDFILE then fsize os else loff)"

lemma clearCache_same [simp]:
  "same_handle f (clearCache a b f)" "current_offset (clearCache a b f) = current_offset f"
  "last_offset (clearCache a b f) = last_offset f"
  by (simp_all add: clearCache_def same_handle_def)

lemma clearCache_coherent:
  assumes "coherent f os" and "0 \<le> pos" and "length ys \<le> length bs"
  shows "coherent (clearCache pos (int (length bs)) f) (os\<lparr>fbytes := patch (nat pos) ys (fbytes os)\<rparr>)"
proof (cases "cache_offset f < 0 \<or> cache_len f = 0")
  case True
  then show ?thesis
    using assms(1) by (auto simp: clearCache_def coherent_def)
next
  case False
  let ?o = "nat (cache_offset f)"
  have c: "0 \<le> cache_offset f" "0 < cache_len f" "cache_len f = int (length (cache f))"
      "seg ?o (length (cache f)) (fbytes os) = cache f"
    using False assms(1) by (auto simp: coherent_def)
  show ?thesis
  proof (cases "pos < cache_offset f + cache_len f \<and> pos + int (length bs) > cache_offset f")
    case True
    then show ?thesis
      using c False by (simp add: clearCache_def coherent_def)
  next
    case apart: False
    have fit: "?o + length (cache f) \<le> length (fbytes os)"
    proof -
      have "length (cache f) \<le> length (fbytes os) - ?o"
        using arg_cong [OF c(4), of length] by (simp add: length_seg)
      moreover have "0 < length (cache f)"
        using c(2,3) by simp
      ultimately show ?thesis by arith
    qed
    have "seg ?o (length (cache f)) (patch (nat pos) ys (fbytes os)) = cache f"
    proof (cases "cache_offset f + cache_len f \<le> pos")
      case True
      then show ?thesis
        using c fit by (subst seg_patch_below) auto
    next
      case False
      with apart c assms show ?thesis
        by (subst seg_patch_above) auto
    qed
    then show ?thesis
      using c False apart by (auto simp: clearCache_def coherent_def)
  qed
qed

lemma handle_ok_check [simp]: "handle_ok (checkWorkAreaSize n f) os = handle_ok f os"
  by (simp add: handle_ok_def) (simp add: checkWorkAreaSize_def Let_def)

lemma check_fields [simp]:
  "f_write_mode (checkWorkAreaSize n f) = f_write_mode f" "fd_open (checkWorkAreaSize n f) = fd_open f"
  "current_offset (checkWorkAreaSize n f) = current_offset f"
  "last_offset (checkWorkAreaSize n f) = last_offset f" "bflags (checkWorkAreaSize n f) = bflags f"
  "cache_size (checkWorkAreaSize n f) = cache_size f"
  by (simp_all add: checkWorkAreaSize_def Let_def)

lemma writeWorkArea_ok:
  assumes ok: "handle_ok f os" and wr: "f_write_mode f" and pos: "0 \<le> write_pos loff os"
    and wa: "wa \<noteq> []" and room: "nat (write_pos loff os) + length wa \<le> flimit os"
  shows "\<exists>f'. writeWorkArea loff wa 0 f os =
           (Ok (write_pos loff os + int (length wa)), f',
            os\<lparr>fbytes := patch (nat (write_pos loff os)) wa (fbytes os)\<rparr>)
         \<and> after_read f (os\<lparr>fbytes := patch (nat (write_pos loff os)) wa (fbytes os)\<rparr>)
             (current_offset f) (write_pos loff os) f'"
proof -
  define p where "p = write_pos loff os"
  define g where "g = (checkWorkAreaSize (int (length wa)) f)\<lparr>last_offset := p\<rparr>"
  have g: "same_handle f g" "coherent g os" "current_offset g = current_offset f" "last_offset g = p"
      "f_write_mode g"
    using ok wr by (simp_all add: g_def handle_ok_def same_handle_def coherent_def)
      (simp_all add: checkWorkAreaSize_def Let_def)
  have w: "os_write (f_write_mode g) p wa os
      = (int (length wa), os\<lparr>fbytes := patch (nat p) wa (fbytes os)\<rparr>)"
    using wa room pos g by (auto simp: os_write_def p_def [symmetric] Let_def min_def)
  have "writeWorkArea loff wa 0 f os =
      (Ok (p + int (length wa)), clearCache p (int (length wa)) g,
       os\<lparr>fbytes := patch (nat p) wa (fbytes os)\<rparr>)"
    using ok pos w by (auto simp: writeWorkArea_def Let_def handle_ok_def write_pos_def p_def g_def
        split: if_splits)
  moreover have "after_read f (os\<lparr>fbytes := patch (nat p) wa (fbytes os)\<rparr>) (current_offset f) p
      (clearCache p (int (length wa)) g)"
    using g clearCache_coherent [OF g(2), of p wa wa] pos
    by (auto simp: after_read_def p_def intro: same_handle_trans)
  ultimately show ?thesis
    unfolding p_def by blast
qed

lemma bf_write_ok:
  assumes ok: "handle_ok f os" and wr: "f_write_mode f" and pos: "0 \<le> write_pos loff os"
    and args: "args_ok args" "is_i32 (int (da_size (da_new args)) + 132)"
    and rec: "wa = (if has_flag fl F_CSFILE_DYNAMIC then dyn_rec (args_bytes args) else fixed_rec (args_bytes args))"
    and room: "nat (write_pos loff os) + length wa \<le> flimit os"
  shows "\<exists>f'. bf_write loff fl (da_new args) f os =
           (Ret (int (length wa)), f', os\<lparr>fbytes := patch (nat (write_pos loff os)) wa (fbytes os)\<rparr>)
         \<and> after_read f (os\<lparr>fbytes := patch (nat (write_pos loff os)) wa (fbytes os)\<rparr>)
             (write_pos loff os + int (length wa)) (write_pos loff os) f'"
proof -
  have fl': "fl OR bflags f = fl"
    using ok by (simp add: handle_ok_def)
  have dp: "0 < delta_page f" using ok by (simp add: handle_ok_def)
  define m where "m = int (da_size (da_new args)) + (if has_flag fl F_CSFILE_DYNAMIC then 4 else 0)"
  have fill: "(if has_flag fl F_CSFILE_DYNAMIC then fillWorkArea 4 (da_new args) 0 f
               else fillWorkArea 0 (da_new args) (- 1) f) = (Ok wa, checkWorkAreaSize m f)"
  proof (cases "has_flag fl F_CSFILE_DYNAMIC")
    case True
    then show ?thesis
      using fillWorkArea_ok [OF dp args(1), of 0 4] args(2) rec
      by (simp add: filled_dyn is_i32_def m_def)
  next
    case False
    then show ?thesis
      using fillWorkArea_ok [OF dp args(1), of "- 1" 0] args(2) rec
      by (simp add: filled_fixed is_i32_def m_def)
  qed
  have "4 \<le> length wa"
    using rec by (cases "has_flag fl F_CSFILE_DYNAMIC") simp_all
  then have "wa \<noteq> []"
    by auto
  then obtain f' where w: "writeWorkArea loff wa 0 (checkWorkAreaSize m f) os =
           (Ok (write_pos loff os + int (length wa)), f',
            os\<lparr>fbytes := patch (nat (write_pos loff os)) wa (fbytes os)\<rparr>)"
    and f': "after_read (checkWorkAreaSize m f)
              (os\<lparr>fbytes := patch (nat (write_pos loff os)) wa (fbytes os)\<rparr>)
              (current_offset f) (write_pos loff os) f'"
    using writeWorkArea_ok [of "checkWorkAreaSize m f" os loff wa] ok wr pos room by auto
  have "bf_write loff fl (da_new args) f os =
      (Ret (int (length wa)), f'\<lparr>current_offset := write_pos loff os + int (length wa)\<rparr>,
       os\<lparr>fbytes := patch (nat (write_pos loff os)) wa (fbytes os)\<rparr>)"
    by (simp add: bf_write_def fl' fill w)
  moreover have "same_handle f f'"
    by (rule same_handle_trans [OF same_handle_check [of f m]]) (use f' in \<open>simp add: after_read_def\<close>)
  ultimately show ?thesis
    using f' by (simp add: after_read_def same_handle_def coherent_def)
qed

subsection \<open>The typed writes\<close>

lemma args_one: "length p = n \<Longrightarrow> n < 2 ^ 24 \<Longrightarrow> args_ok [(p, word_of_nat n)]"
  "length p = n \<Longrightarrow> n < 2 ^ 24 \<Longrightarrow> args_bytes [(p, word_of_nat n)] = p"
  by (simp_all add: args_ok_def args_bytes_def arg_small)

lemma sf_write_ok:
  assumes "handle_ok f os" and "f_write_mode f" and "0 \<le> loff" and "loff < C_CSFILE_ENDFILE"
    and "length data = n" and "n < 2 ^ 24" and "nat loff + n + 4 \<le> flimit os"
  shows "\<exists>f'. sf_write n loff data f os =
           (Ret (int n + 4), f', os\<lparr>fbytes := patch (nat loff) (fixed_rec data) (fbytes os)\<rparr>)
         \<and> after_read f (os\<lparr>fbytes := patch (nat loff) (fixed_rec data) (fbytes os)\<rparr>)
             (loff + int n + 4) loff f'"
  using bf_write_ok [OF assms(1,2), of loff "[(data, word_of_nat n)]" "fixed_rec data" 0] assms
  by (simp add: sf_write_def bf_write_one_def args_one write_pos_def has_flag_def arg_small is_i32_def add.assoc)

definition append_args :: "nat \<Rightarrow> bytes \<Rightarrow> bytes option \<Rightarrow> u32 \<Rightarrow> (bytes \<times> u32) list" where
  "append_args n data ddata dlen =
     (case ddata of None \<Rightarrow> [(data, word_of_nat n)]
      | Some q \<Rightarrow> [(data, word_of_nat n), (q, dlen)])"

definition append_bytes :: "bytes \<Rightarrow> bytes option \<Rightarrow> u32 \<Rightarrow> bytes" where
  "append_bytes data ddata dlen =
     data @ (case ddata of None \<Rightarrow> [] | Some q \<Rightarrow> take (arg_len dlen) q)"

lemma append_args_props:
  assumes "length data = n" and "n < 2 ^ 24" and "\<And>q. ddata = Some q \<Longrightarrow> arg_len dlen \<le> length q"
  shows "args_ok (append_args n data ddata dlen)"
    and "args_bytes (append_args n data ddata dlen) = append_bytes data ddata dlen"
    and "int (da_size (da_new (append_args n data ddata dlen))) < 2 ^ 25"
  using assms arg_len_bound [of dlen]
  by (auto simp: append_args_def append_bytes_def args_ok_def args_bytes_def arg_small split: option.split)

lemma sf_append_ok:
  assumes "handle_ok f os" and "f_write_mode f"
    and "length data = n" and "n < 2 ^ 24" and "\<And>q. ddata = Some q \<Longrightarrow> arg_len dlen \<le> length q"
    and "length (fbytes os) + length (append_bytes data ddata dlen) + 8 \<le> flimit os"
  shows "\<exists>f'. sf_append n data ddata dlen f os =
           (Ret (int (length (append_bytes data ddata dlen)) + 8), f',
            os\<lparr>fbytes := fbytes os @ dyn_rec (append_bytes data ddata dlen)\<rparr>)
         \<and> after_read f (os\<lparr>fbytes := fbytes os @ dyn_rec (append_bytes data ddata dlen)\<rparr>)
             (fsize os + int (length (append_bytes data ddata dlen)) + 8) (fsize os) f'"
proof -
  note props = append_args_props [of data n ddata dlen, OF assms(3,4,5)]
  have dyn: "has_flag F_CSFILE_DYNAMIC F_CSFILE_DYNAMIC"
    by (simp add: has_flag_def F_CSFILE_DYNAMIC_def)
  have pos: "write_pos C_CSFILE_ENDFILE os = fsize os" "nat (fsize os) = length (fbytes os)" "0 \<le> fsize os"
    by (simp_all add: write_pos_def fsize_def)
  have "is_i32 (int (da_size (da_new (append_args n data ddata dlen))) + 132)"
    using props(3) by (simp add: is_i32_def)
  then show ?thesis
    using bf_write_ok [OF assms(1,2) _ props(1), of C_CSFILE_ENDFILE
        "dyn_rec (append_bytes data ddata dlen)" F_CSFILE_DYNAMIC] assms(6) dyn props(2)
    by (simp add: sf_append_def append_args_def [symmetric] pos patch_end add.assoc)
qed

subsection \<open>Reading a record of variable length\<close>

lemma has_dyn: "has_flag F_CSFILE_DYNAMIC F_CSFILE_DYNAMIC"
  "\<not> has_flag F_CSFILE_DYNAMIC F_CSFILE_EXCEPTIONS" "\<not> has_flag F_CSFILE_DYNAMIC F_CSFILE_IGNORE_CRC"
  "\<not> has_flag F_CSFILE_DYNAMIC F_CSFILE_EMPTY_DATA"
  by (simp_all add: has_flag_def csfile_flags)

lemma check_record_dyn:
  assumes "length h = n" and "length buf = n" and "n < 2 ^ 24" and "m < 2 ^ 24"
  shows "check_record F_CSFILE_DYNAMIC (dyn_rec (h @ d)) 4 (int (length (h @ d)) + 4)
           (da_new [(buf, word_of_nat n), (q, vlen_word (word_of_nat m))])
         = (Ok (int (length (h @ d))),
            (da_new [(buf, word_of_nat n), (q, vlen_word (word_of_nat m))])
              \<lparr>da_datas := [h, overlay (take m d) q]\<rparr>)"
proof -
  define w where "w = enc_i32 (int (length (h @ d)) + 8) @ (h @ d)"
  have rec: "dyn_rec (h @ d) = w @ le_enc 4 (crc32 w 0)"
    by (simp only: dyn_rec_def fixed_rec_def w_def)
  have lw: "nat (int (length (h @ d)) + 4) = length w"
    by (simp add: w_def nat_add_distrib)
  have d4: "drop (nat 4) (dyn_rec (h @ d)) = (h @ d) @ le_enc 4 (crc32 w 0)"
    by (simp add: rec w_def)
  let ?da = "da_new [(buf, word_of_nat n), (q, vlen_word (word_of_nat m))]"
  have sfb: "setFromBuffer ?da ((h @ d) @ x) (int (length (h @ d)))
      = (?da\<lparr>da_datas := [h, overlay (take m d) q]\<rparr>, Ret 0)" for x
    using assms
    by (auto simp: setFromBuffer_def arg_small vlen_small Let_def F_CDARRAY_VLEN_def
        F_DYNAMIC_ALLOCATE_def overlay_def)
  have crc: "le_dec (seg (length w) 4 (dyn_rec (h @ d))) = crc32 w 0"
    by (simp add: rec seg_def le_dec_le_enc_full)
  have tk: "take (length w) (dyn_rec (h @ d)) = w"
    by (simp add: rec)
  show ?thesis
    unfolding check_record_def lw Let_def crc tk d4
    using has_dyn sfb [of "le_enc 4 (crc32 w 0)"] by simp
qed

lemma sf_read_data_ok:
  assumes ok: "handle_ok f os" and seek: "bf_seek loff 4 False f os = Ok pos"
    and rec: "seg (nat pos) (length (h @ d) + 8) (fbytes os) = dyn_rec (h @ d)"
    and fits: "pos + int (length (h @ d)) + 8 \<le> fsize os" "fsize os < C_CSFILE_ENDFILE"
    and n: "length h = n" "length buf = n" "n < 2 ^ 24" "m < 2 ^ 24"
    and small: "is_i32 (int (length (h @ d)) + 136)"
  shows "\<exists>f'. sf_read_data n loff buf q (word_of_nat m) f os =
           (Ret (int (length (h @ d))), h, overlay (take m d) q, f')
         \<and> after_read f os (pos + int (length (h @ d)) + 8) pos f'"
proof -
  define L where "L = length (h @ d)"
  define w where "w = enc_i32 (int L + 8)"
  let ?da = "da_new [(buf, word_of_nat n), (q, vlen_word (word_of_nat m))]"
  have fl': "F_CSFILE_DYNAMIC OR bflags f = F_CSFILE_DYNAMIC"
    using ok by (simp add: handle_ok_def)
  have pos: "0 \<le> pos"
    using seek by (rule bf_seek_nonneg)
  have rec': "seg (nat pos) (L + 8) (fbytes os) = dyn_rec (h @ d)"
    using rec by (simp only: L_def)
  have small': "int L + 136 \<le> 2147483647"
    using small by (simp only: L_def is_i32_def)
  have fit: "pos + int L + 8 \<le> fsize os"
    using fits(1) by (simp only: L_def)
  have e: "seg (nat pos) 4 (fbytes os) = w"
  proof -
    have "seg (nat pos) 4 (fbytes os) = seg 0 4 (seg (nat pos) (L + 8) (fbytes os))"
      by (simp add: seg_seg)
    then show ?thesis
      unfolding rec' by (simp add: dyn_rec_def fixed_rec_def seg_def w_def L_def)
  qed
  have i4: "is_i32 (4 + 128)" by (simp add: is_i32_def)
  obtain f1 where r1: "readWorkArea loff 4 0 True f os = (Ok (w, pos + 4), f1)"
    and f1: "after_read f os (current_offset f) pos f1"
    using readWorkArea_cases [OF ok, of loff 4 0 pos True, OF _ _ _ i4] seek fit by (auto simp: e)
  have ok1: "handle_ok f1 os"
    using ok f1 by (rule handle_ok_after)
  have vl: "dec_i32 w = int L + 8" "i32 (int L + 8 - 4) = int L + 4" "i32 (int L + 4 + 4) = int L + 8"
    using small' by (simp_all add: w_def dec_enc_i32 is_i32_def)
  have seek2: "bf_seek (pos + 4) (int L + 8 - 4) False f1 os = Ok (pos + 4)"
    using ok1 pos fit fits(2) by (intro bf_seek_plain) (auto simp: handle_ok_def)
  have p4: "nat (pos + 4) = nat pos + 4"
    using pos by simp
  have body: "w @ seg (nat pos + 4) (L + 4) (fbytes os) = dyn_rec (h @ d)"
    using seg_add [of "nat pos" 4 "L + 4" "fbytes os"] rec' by (simp add: e add.commute [of 8 L])
  have i8: "is_i32 (int L + 8 + 128)"
    using small' by (simp add: is_i32_def)
  have nL: "nat (int L + 8 - 4) = L + 4" by simp
  obtain f2 where r2: "readWorkArea (pos + 4) (int L + 8) 4 False f1 os =
        (Ok (seg (nat pos + 4) (L + 4) (fbytes os), pos + int L + 8), f2)"
    and f2: "after_read f1 os (current_offset f) pos f2"
    using readWorkArea_cases [OF ok1 seek2 _ _ i8, of False] fit f1
    unfolding nL p4 by (auto simp: after_read_def)
  have chk: "check_record F_CSFILE_DYNAMIC (dyn_rec (h @ d)) 4 (int L + 4) ?da
      = (Ok (int L), ?da\<lparr>da_datas := [h, overlay (take m d) q]\<rparr>)"
    using check_record_dyn [OF n(1,2,3,4), of d q] by (simp only: L_def)
  have "bf_read loff F_CSFILE_DYNAMIC ?da f os =
      (Ret (int L), ?da\<lparr>da_datas := [h, overlay (take m d) q]\<rparr>,
       f2\<lparr>current_offset := pos + int L + 8\<rparr>)"
    unfolding bf_read_def fl' read_frame_def Let_def
    by (simp only: has_dyn(1) if_True r1 vl prod.case result.case r2 body chk finish_simps)
  then show ?thesis
    using f1 f2 unfolding L_def
    by (auto simp: sf_read_data_def after_read_def same_handle_def coherent_def)
qed

end
