(* ===== verification/Record_Table.thy ===== *)
theory Record_Table
  imports Safe_File_Write
begin

text \<open>
  A file of fixed-size records seen as a table: \<open>rec_at n i os\<close> is the record with index \<open>i\<close>, if
  it was written and is intact. What \<open>readIndex\<close> returns (\<open>miss_code\<close> when there is none), and
  how \<open>writeIndex\<close> changes the table. The interface its clients need is the locale
  \<open>record_table\<close>, interpreted on \<open>CSafeFile\<close>; \<open>data_rec\<close> is its counterpart for the appended
  records of variable length.
\<close>

subsection \<open>The table of a file\<close>

definition rec_at :: "nat \<Rightarrow> int \<Rightarrow> os_file \<Rightarrow> bytes option" where
  "rec_at n i os =
     (let off = nat i * (n + 4)
      in if off + n + 4 \<le> length (fbytes os)
         then (case slot_at off n (fbytes os) of Good p \<Rightarrow> Some p | _ \<Rightarrow> None) else None)"

definition miss_code :: "nat \<Rightarrow> int \<Rightarrow> base_file \<Rightarrow> os_file \<Rightarrow> int" where
  "miss_code n i f os =
     (let pos = i * (int n + 4)
      in if pos + int n + 4 \<le> fsize os
         then (if slot_at (nat i * (n + 4)) n (fbytes os) = Hole then E_CSFILE_EMPTY_DATA else E_CSFILE_CRC)
         else if \<not> f_write_mode f then E_CSFILE_EOF else short_result f os pos)"

lemma miss_code_neg: "miss_code n i f os < 0"
  by (simp add: miss_code_def short_result_def csfile_errors Let_def)

lemma miss_code_same [simp]: "same_handle f f' \<Longrightarrow> miss_code n i f' os = miss_code n i f os"
  by (simp add: miss_code_def short_result_def same_handle_def Let_def)

lemma length_rec_at: "rec_at n i os = Some p \<Longrightarrow> length p = n"
  by (auto simp: rec_at_def slot_at_def Let_def length_seg split: if_splits slot.splits)

lemma sizeOf_plain: "bflags f = 0 \<Longrightarrow> sf_sizeOf n f = int n + 4"
  by (simp add: sf_sizeOf_def bf_sizeOf_def has_flag_def)

lemma nat_pos: "0 \<le> i \<Longrightarrow> nat (i * (int n + 4)) = nat i * (n + 4)"
  by (simp add: nat_mult_distrib nat_add_distrib)

lemma pos_fits:
  assumes "0 \<le> i"
  shows "(i * (int n + 4) + int n + 4 \<le> fsize os) = (nat i * (n + 4) + n + 4 \<le> length (fbytes os))"
proof -
  have "i * (int n + 4) + int n + 4 = int (nat i * (n + 4) + n + 4)"
    using assms by simp
  then show ?thesis
    by (simp only: fsize_def of_nat_le_iff)
qed

lemma sf_readIndex_cases:
  assumes ok: "handle_ok f os" and i: "0 \<le> i" "i * (int n + 4) < C_CSFILE_ENDFILE"
    and buf: "length buf = n" and n: "n < 2 ^ 24"
  shows "\<exists>f' cur. sf_readIndex n i buf f os =
           (case rec_at n i os of Some p \<Rightarrow> (Ret (int n), p, f')
            | None \<Rightarrow> (Ret (miss_code n i f os), buf, f'))
         \<and> after_read f os cur (last_offset f) f'"
proof -
  define pos where "pos = i * (int n + 4)"
  have pos: "0 \<le> pos" "pos < C_CSFILE_ENDFILE" "nat pos = nat i * (n + 4)"
    using i by (simp_all add: pos_def nat_pos)
  have fits: "(pos + int n + 4 \<le> fsize os) = (nat i * (n + 4) + n + 4 \<le> length (fbytes os))"
    unfolding pos_def by (rule pos_fits [OF i(1)])
  have unf: "sf_readIndex n i buf f os = sf_read n pos F_CSFILE_EMPTY_DATA buf f os"
    using ok by (simp add: sf_readIndex_def sizeOf_plain handle_ok_def pos_def)
  have fl: "plain_flags F_CSFILE_EMPTY_DATA" "has_flag F_CSFILE_EMPTY_DATA F_CSFILE_EMPTY_DATA"
    by simp (simp add: has_flag_def F_CSFILE_EMPTY_DATA_def)
  show ?thesis
  proof (cases "f_write_mode f \<or> pos + int n + 4 \<le> fsize os")
    case True
    then have "bf_seek pos (int n + 4) False f os = Ok pos"
      using ok pos by (intro bf_seek_plain) (auto simp: handle_ok_def)
    from sf_read_spec [OF ok this fl(1) buf n] True fl(2) fits pos(3)
    show ?thesis
      by (fastforce simp: unf rec_at_def miss_code_def slot_result_def Let_def pos_def [symmetric]
          split: slot.splits)
  next
    case False
    then obtain f' where "sf_read n pos F_CSFILE_EMPTY_DATA buf f os = (Ret E_CSFILE_EOF, buf, f')"
        "after_read f os (current_offset f) (last_offset f) f'"
      using sf_read_eof [OF ok _ pos(1,2) _ fl(1) n] by force
    moreover have "rec_at n i os = None" "miss_code n i f os = E_CSFILE_EOF"
      using False fits by (auto simp: rec_at_def miss_code_def Let_def pos_def [symmetric])
    ultimately show ?thesis
      by (auto simp: unf)
  qed
qed

subsection \<open>Writing a record of the table\<close>

definition whole :: "nat \<Rightarrow> os_file \<Rightarrow> bool" where
  \<comment> \<open>the file holds whole records\<close>
  "whole n os \<longleftrightarrow> length (fbytes os) mod (n + 4) = 0"

definition put_rec :: "nat \<Rightarrow> int \<Rightarrow> bytes \<Rightarrow> os_file \<Rightarrow> os_file" where
  "put_rec n i data os = os\<lparr>fbytes := patch (nat i * (n + 4)) (fixed_rec data) (fbytes os)\<rparr>"

lemma put_rec_fields [simp]: "flimit (put_rec n i data os) = flimit os"
  by (simp add: put_rec_def)

lemma fixed_rec_nonempty [simp]: "fixed_rec p \<noteq> []"
  using length_fixed_rec [of p] by (metis add_is_0 list.size(3) zero_neq_numeral)

lemma length_put_rec:
  "length data = n \<Longrightarrow>
     length (fbytes (put_rec n i data os)) = max (nat i * (n + 4) + n + 4) (length (fbytes os))"
  by (simp add: put_rec_def length_patch add.assoc)

lemma whole_put_rec: "whole n os \<Longrightarrow> length data = n \<Longrightarrow> whole n (put_rec n i data os)"
proof -
  assume "whole n os" "length data = n"
  moreover have "(nat i * (n + 4) + n + 4) mod (n + 4) = 0"
    using mod_mult_self2_is_0 [of "nat i + 1" "n + 4"] by (simp add: add.assoc del: mod_mult_self2_is_0)
  ultimately show ?thesis
    by (auto simp: whole_def length_put_rec max_def)
qed

lemma rec_at_put_same: "length data = n \<Longrightarrow> 0 \<le> i \<Longrightarrow> rec_at n i (put_rec n i data os) = Some data"
  using slot_at_fixed_rec [of "nat i * (n + 4)" data "fbytes (put_rec n i data os)"]
    seg_patch_same [of "nat i * (n + 4)" "fixed_rec data" "fbytes os"]
  by (simp add: rec_at_def length_put_rec) (simp add: put_rec_def add.assoc)

lemma zero_seg_hole:
  assumes "crc32 (replicate n 0) 0 \<noteq> 0" and "seg off (n + 4) bs = replicate (n + 4) 0"
  shows "slot_at off n bs = Hole"
proof -
  have "seg off n bs = seg 0 n (seg off (n + 4) bs)" "seg (off + n) 4 bs = seg n 4 (seg off (n + 4) bs)"
    by (simp_all add: seg_seg)
  then have "seg off n bs = replicate n 0" "seg (off + n) 4 bs = replicate 4 0"
    unfolding assms(2) by (simp_all add: seg_def min_def)
  then show ?thesis
    using assms(1) le_dec_zeros [of 4, where 'a = 32] by (simp add: slot_at_def Let_def)
qed

lemma seg_patch_gap:
  "length xs \<le> a \<Longrightarrow> a + n \<le> off \<Longrightarrow> seg a n (patch off ys xs) = replicate n 0"
  by (simp add: seg_def patch_def min_def)

lemma rec_at_put_other:
  assumes "whole n os" and "length data = n" and "0 \<le> i" "0 \<le> j" "i \<noteq> j"
    and hole: "crc32 (replicate n 0) 0 \<noteq> 0"
  shows "rec_at n j (put_rec n i data os) = rec_at n j os"
proof -
  let ?m = "n + 4" and ?bs = "fbytes os"
  let ?a = "nat j * ?m" and ?off = "nat i * ?m"
  let ?new = "patch ?off (fixed_rec data) ?bs"
  have apart: "?a + ?m \<le> ?off \<or> ?off + ?m \<le> ?a"
  proof -
    have "Suc (nat j) \<le> nat i \<or> Suc (nat i) \<le> nat j"
      using assms by linarith
    then show ?thesis
      using mult_le_mono1 [of "Suc (nat j)" "nat i" ?m] mult_le_mono1 [of "Suc (nat i)" "nat j" ?m]
      by auto
  qed
  obtain q where q: "length ?bs = q * ?m"
    using assms(1) by (auto simp: whole_def)
  have in_or_out: "?a + ?m \<le> length ?bs \<or> length ?bs \<le> ?a"
  proof (cases "q \<le> nat j")
    case True
    then show ?thesis using q mult_le_mono1 [of q "nat j" ?m] by simp
  next
    case False
    then show ?thesis using q mult_le_mono1 [of "Suc (nat j)" q ?m] by simp
  qed
  have len: "length ?new = max (?off + ?m) (length ?bs)"
    using length_put_rec [OF assms(2), of i os] by (simp add: put_rec_def add.assoc)
  have reads: "rec_at n j (put_rec n i data os) =
      (if ?a + ?m \<le> length ?new then case slot_at ?a n ?new of Good p \<Rightarrow> Some p | _ \<Rightarrow> None else None)"
    by (simp add: rec_at_def put_rec_def add.assoc)
  consider (old) "?a + ?m \<le> length ?bs" | (gap) "length ?bs \<le> ?a" "?a + ?m \<le> ?off" | (past) "length ?bs \<le> ?a" "?off + ?m \<le> ?a"
    using apart in_or_out by blast
  then show ?thesis
  proof cases
    case old
    have "seg ?a ?m ?new = seg ?a ?m ?bs"
      using apart old assms(2) by (auto intro: seg_patch_below seg_patch_above)
    then have "slot_at ?a n ?new = slot_at ?a n ?bs"
      by (rule slot_at_seg_cong)
    moreover have "?a + ?m \<le> length ?new"
      using old len by simp
    ultimately show ?thesis
      using old unfolding reads by (simp add: rec_at_def add.assoc)
  next
    case gap
    then have "slot_at ?a n ?new = Hole"
      by (intro zero_seg_hole [OF hole] seg_patch_gap)
    then show ?thesis
      using gap unfolding reads by (simp add: rec_at_def)
  next
    case past
    then have "\<not> ?a + ?m \<le> length ?new" "\<not> ?a + ?m \<le> length ?bs"
      unfolding len le_max_iff_disj by linarith+
    then show ?thesis
      unfolding reads by (simp add: rec_at_def add.assoc)
  qed
qed

lemma sf_writeIndex_ok:
  assumes "handle_ok f os" and "f_write_mode f" and "0 \<le> i" and "i * (int n + 4) < C_CSFILE_ENDFILE"
    and "length data = n" and "n < 2 ^ 24" and "nat i * (n + 4) + n + 4 \<le> flimit os"
  shows "\<exists>f'. sf_writeIndex n i data f os = (Ret (int n + 4), f', put_rec n i data os)
         \<and> after_read f (put_rec n i data os) (i * (int n + 4) + int n + 4) (i * (int n + 4)) f'"
  using sf_write_ok [OF assms(1,2), of "i * (int n + 4)" data n] assms
  by (simp add: sf_writeIndex_def sizeOf_plain handle_ok_def put_rec_def nat_pos)

subsection \<open>The interface\<close>

locale record_table =
  fixes lookup :: "'f \<Rightarrow> int \<Rightarrow> 'r option"
    and store :: "int \<Rightarrow> 'r \<Rightarrow> 'f \<Rightarrow> 'f"
    and sound :: "'f \<Rightarrow> bool"
    and record_ok :: "'r \<Rightarrow> bool"
  assumes lookup_store:
      "\<lbrakk> sound f; record_ok r; 0 \<le> i; 0 \<le> j \<rbrakk> \<Longrightarrow> lookup (store i r f) j = (if j = i then Some r else lookup f j)"
    and sound_store: "\<lbrakk> sound f; record_ok r; 0 \<le> i \<rbrakk> \<Longrightarrow> sound (store i r f)"
begin

definition stores :: "(int \<times> 'r) list \<Rightarrow> 'f \<Rightarrow> 'f" where
  "stores = fold (\<lambda>(i, r). store i r)"

lemma sound_stores:
  "sound f \<Longrightarrow> (\<And>i r. (i, r) \<in> set xs \<Longrightarrow> record_ok r \<and> 0 \<le> i) \<Longrightarrow> sound (stores xs f)"
  by (induction xs arbitrary: f) (fastforce simp: stores_def sound_store)+

lemma lookup_stores:
  "\<lbrakk> sound f; \<And>i r. (i, r) \<in> set xs \<Longrightarrow> record_ok r \<and> 0 \<le> i; 0 \<le> j \<rbrakk>
     \<Longrightarrow> lookup (stores xs f) j = (case map_of (rev xs) j of Some r \<Rightarrow> Some r | None \<Rightarrow> lookup f j)"
proof (induction xs rule: rev_induct)
  case Nil
  then show ?case by (simp add: stores_def)
next
  case (snoc x xs)
  obtain i r where x: "x = (i, r)" by (cases x)
  have "sound (stores xs f)"
    using snoc.prems by (intro sound_stores) auto
  then have "lookup (store i r (stores xs f)) j = (if j = i then Some r else lookup (stores xs f) j)"
    using snoc.prems x by (intro lookup_store) auto
  then show ?case
    using snoc x by (auto simp: stores_def)
qed

end

interpretation index_table:
  record_table "\<lambda>os i. rec_at 26 i os" "put_rec 26" "whole 26" "\<lambda>r. length r = 26"
  by unfold_locales (auto simp: rec_at_put_same rec_at_put_other hole_sizes whole_put_rec)

interpretation log_table:
  record_table "\<lambda>os i. rec_at 13 i os" "put_rec 13" "whole 13" "\<lambda>r. length r = 13"
  by unfold_locales (auto simp: rec_at_put_same rec_at_put_other hole_sizes whole_put_rec)

subsection \<open>Appended records\<close>

definition data_rec :: "int \<Rightarrow> os_file \<Rightarrow> bytes option" where
  "data_rec off os =
     (let n = dec_i32 (seg (nat off) 4 (fbytes os));
          p = seg (nat off + 4) (nat n - 8) (fbytes os)
      in if 0 \<le> off \<and> 8 \<le> n \<and> off + n \<le> fsize os \<and> seg (nat off) (nat n) (fbytes os) = dyn_rec p
         then Some p else None)"

lemma data_rec_D:
  assumes "data_rec off os = Some p"
  shows "seg (nat off) (length p + 8) (fbytes os) = dyn_rec p" "0 \<le> off"
    "off + int (length p) + 8 \<le> fsize os" "is_i32 (int (length p) + 8)"
proof -
  let ?n = "dec_i32 (seg (nat off) 4 (fbytes os))"
  have c: "0 \<le> off" "8 \<le> ?n" "off + ?n \<le> fsize os" "seg (nat off) (nat ?n) (fbytes os) = dyn_rec p"
    using assms by (auto simp: data_rec_def Let_def split: if_splits)
  have "length (seg (nat off) (nat ?n) (fbytes os)) = nat ?n"
    using c(1-3) by (simp add: length_seg fsize_def)
  then have l: "length p + 8 = nat ?n"
    unfolding c(4) by simp
  with c show "seg (nat off) (length p + 8) (fbytes os) = dyn_rec p" "0 \<le> off"
    "off + int (length p) + 8 \<le> fsize os"
    by simp_all
  have "int (length p) + 8 = ?n"
    using l c(2) by simp
  then show "is_i32 (int (length p) + 8)"
    by simp
qed

lemma data_rec_I:
  assumes "seg (nat off) (length p + 8) (fbytes os) = dyn_rec p" and "0 \<le> off"
    and "off + int (length p) + 8 \<le> fsize os" and "is_i32 (int (length p) + 8)"
  shows "data_rec off os = Some p"
proof -
  have "seg (nat off) 4 (fbytes os) = seg 0 4 (seg (nat off) (length p + 8) (fbytes os))"
    by (simp add: seg_seg)
  also have "\<dots> = enc_i32 (int (length p) + 8)"
    unfolding assms(1) by (simp add: dyn_rec_def fixed_rec_def seg_def)
  finally have n: "dec_i32 (seg (nat off) 4 (fbytes os)) = int (length p) + 8"
    using assms(4) by (simp add: dec_enc_i32)
  have "seg (nat off + 4) (length p) (fbytes os) = seg 4 (length p) (seg (nat off) (length p + 8) (fbytes os))"
    by (simp add: seg_seg)
  also have "\<dots> = p"
    unfolding assms(1) by (simp add: dyn_rec_def fixed_rec_def seg_def)
  finally have p: "seg (nat off + 4) (length p) (fbytes os) = p" .
  have "nat (int (length p) + 8) = length p + 8" "nat (int (length p) + 8) - 8 = length p"
    by simp_all
  then show ?thesis
    using assms n p by (simp add: data_rec_def)
qed

text \<open>Appending keeps every record and adds one at the old end.\<close>

lemma data_rec_append:
  "data_rec off os = Some p \<Longrightarrow> data_rec off (os\<lparr>fbytes := fbytes os @ x\<rparr>) = Some p"
  by (frule data_rec_D(1), frule data_rec_D(2), frule data_rec_D(3), drule data_rec_D(4))
    (rule data_rec_I, auto simp: seg_append_left fsize_def)

lemma data_rec_new:
  "is_i32 (int (length p) + 8) \<Longrightarrow> data_rec (fsize os) (os\<lparr>fbytes := fbytes os @ dyn_rec p\<rparr>) = Some p"
  by (rule data_rec_I) (auto simp: fsize_def seg_append_right [where ys = "dyn_rec p", simplified])

lemma sf_read_data_rec:
  assumes ok: "handle_ok f os" and rec: "data_rec off os = Some (h @ x)"
    and "fsize os < C_CSFILE_ENDFILE" and "length h = n" "length buf = n" "n < 2 ^ 24" "m < 2 ^ 24"
    and "is_i32 (int (length (h @ x)) + 136)"
  shows "\<exists>f'. sf_read_data n off buf q (word_of_nat m) f os =
           (Ret (int (length (h @ x))), h, overlay (take m x) q, f')
         \<and> after_read f os (off + int (length (h @ x)) + 8) off f'"
proof -
  note D = data_rec_D [OF rec]
  have "bf_seek off 4 False f os = Ok off"
    using ok D assms(3) by (intro bf_seek_plain) (auto simp: handle_ok_def)
  from sf_read_data_ok [OF ok this D(1) D(3) assms(3-8)] show ?thesis .
qed

end
