(* ===== verification/Base_File_Props.thy ===== *)
theory Base_File_Props
  imports Record_Table
begin

text \<open>
  What \<open>CBaseSafeFile\<close> and \<open>CSafeFile\<close> promise: an open that returns, an open that does not,
  every outcome of a write, round trips through the cache, damage that is noticed.
\<close>

subsection \<open>Opening\<close>

definition may_open :: "bool \<Rightarrow> os_file \<Rightarrow> bool" where
  "may_open wr os \<longleftrightarrow> freadable os \<and> (wr \<longrightarrow> fwritable os) \<and> fowned os"

definition created :: "os_file \<Rightarrow> os_file" where
  "created os = os\<lparr>fbytes := [], fexists := True, freadable := True, fwritable := True, fowned := True\<rparr>"

lemma os_open_cases:
  "os_open wr creat trunc os =
     (if \<not> fexists os then (if creat then Inr (created os) else Inl ENOENT)
      else if may_open wr os then Inr (if trunc then os\<lparr>fbytes := []\<rparr> else os)
      else if \<not> freadable os \<or> wr \<and> \<not> fwritable os then Inl EACCES else Inl EPERM)"
  by (auto simp: os_open_def may_open_def created_def)

lemma open_loop_stuck:
  "bf_open_loop flags wr creat trunc f os = Some y \<Longrightarrow> \<not> (fexists os \<and> \<not> may_open wr os)"
  by (rule bf_open_loop.raw_induct
        [where P = "\<lambda>fl wr cr tr f os y. \<not> (fexists os \<and> \<not> may_open wr os)"])
    (auto simp: os_open_cases ENOENT_def EACCES_def EPERM_def split: if_splits)

lemma open_loop_none:
  "fexists os \<Longrightarrow> \<not> may_open wr os \<Longrightarrow> bf_open_loop flags wr creat trunc f os = None"
  using open_loop_stuck [of flags wr creat trunc f os]
  by (cases "bf_open_loop flags wr creat trunc f os") auto

lemma open_loop_eq:
  "bf_open_loop flags wr creat trunc f os =
     (if fexists os
      then (if may_open wr os
            then Some (Ret 0, f\<lparr>fd_open := True\<rparr>, if trunc then os\<lparr>fbytes := []\<rparr> else os) else None)
      else if creat then Some (Ret 0, f\<lparr>fd_open := True\<rparr>, created os)
      else if has_flag flags F_CSFILE_CREATE
      then Some (Ret 0, f\<lparr>f_new_file := True, fd_open := True\<rparr>, created os)
      else Some (if has_flag flags F_CSFILE_EXCEPTIONS then Throw E_CSFILE_OPEN_FILE
                 else Ret E_CSFILE_OPEN_FILE, f\<lparr>fd_open := False\<rparr>, os))"
proof (cases "fexists os")
  case True
  then show ?thesis
    using open_loop_none [of os wr]
    by (cases "may_open wr os")
      (simp_all add: bf_open_loop.simps [of flags wr creat trunc f os, unfolded os_open_cases])
next
  case False
  moreover have "bf_open_loop flags wr True trunc g os = Some (Ret 0, g\<lparr>fd_open := True\<rparr>, created os)" for g
    using False by (simp add: bf_open_loop.simps os_open_cases)
  ultimately show ?thesis
    by (simp add: bf_open_loop.simps [of flags wr creat trunc f os] os_open_cases)
qed

text \<open>Property (C21): \<open>open\<close> on every file: one that exists and may be opened in the mode asked for
  is opened, and cut to nothing only if the caller said so; one that does not exist is created
  or reported; one that exists and may not be opened (permission, or \<open>O_NOATIME\<close> on somebody
  else's file) keeps the loop retrying for ever.\<close>

theorem open_every_case:
  "bf_open fname flags f os =
     (let creat = has_flag flags F_CSFILE_CREATE;
          wr = (creat \<or> has_flag flags F_CSFILE_WR);
          trunc = (wr \<and> has_flag flags F_CSFILE_TRUNCATE);
          g = f\<lparr>filename := fname, falias := autoAlias fname, f_write_mode := wr\<rparr>
      in if fexists os
         then (if may_open wr os
               then Some (Ret 0, g\<lparr>fd_open := True\<rparr>, if trunc then os\<lparr>fbytes := []\<rparr> else os) else None)
         else if trunc then Some (Ret 0, g\<lparr>fd_open := True\<rparr>, created os)
         else if creat then Some (Ret 0, g\<lparr>f_new_file := True, fd_open := True\<rparr>, created os)
         else Some (if has_flag flags F_CSFILE_EXCEPTIONS then Throw E_CSFILE_OPEN_FILE
                    else Ret E_CSFILE_OPEN_FILE, g\<lparr>fd_open := False\<rparr>, os))"
proof -
  define fl where "fl = (if has_flag flags F_CSFILE_CREATE then flags OR F_CSFILE_WR else flags)"
  have or: "has_flag (x OR y) m \<longleftrightarrow> has_flag x m \<or> has_flag y m" for x y m
    by (auto simp: has_flag_def word_ao_dist or_eq_0_iff)
  have fl: "has_flag fl F_CSFILE_WR \<longleftrightarrow> has_flag flags F_CSFILE_CREATE \<or> has_flag flags F_CSFILE_WR"
    "has_flag fl F_CSFILE_CREATE = has_flag flags F_CSFILE_CREATE"
    "has_flag fl F_CSFILE_TRUNCATE = has_flag flags F_CSFILE_TRUNCATE"
    "has_flag fl F_CSFILE_EXCEPTIONS = has_flag flags F_CSFILE_EXCEPTIONS"
    unfolding fl_def by (auto simp: or) (auto simp: has_flag_def csfile_flags)
  show ?thesis
    unfolding bf_open_def fl_def [symmetric] Let_def open_loop_eq fl by simp
qed

subsection \<open>Appending and scanning\<close>

text \<open>A program that appends records, and one that reads from the current position until an error.\<close>

fun append_all ::
  "nat \<Rightarrow> (bytes \<times> bytes) list \<Rightarrow> base_file \<Rightarrow> os_file \<Rightarrow> (base_file \<times> os_file) option" where
  "append_all n [] f os = Some (f, os)"
| "append_all n ((h, d) # rs) f os =
     (case sf_append n h (Some d) (word_of_nat (length d)) f os of
        (Ret r, f, os) \<Rightarrow> (if r < 0 then None else append_all n rs f os)
      | _ \<Rightarrow> None)"

fun scan :: "nat \<Rightarrow> nat \<Rightarrow> nat \<Rightarrow> base_file \<Rightarrow> os_file \<Rightarrow> (bytes \<times> bytes) list \<times> outcome" where
  "scan n m 0 f os = ([], Ret 0)"
| "scan n m (Suc k) f os =
     (case sf_read_data n C_CSFILE_CURRPOS (replicate n 0) (replicate m 0) (word_of_nat m) f os of
        (Ret r, h, d, f) \<Rightarrow>
          (if r < 0 then ([], Ret r)
           else (let (rest, e) = scan n m k f os in ((h, take (nat r - n) d) # rest, e)))
      | (e, _) \<Rightarrow> ([], e))"

definition image :: "(bytes \<times> bytes) list \<Rightarrow> bytes" where
  "image rs = concat (map (\<lambda>(h, d). dyn_rec (h @ d)) rs)"

definition records_fit :: "nat \<Rightarrow> nat \<Rightarrow> (bytes \<times> bytes) list \<Rightarrow> bool" where
  "records_fit n m rs \<longleftrightarrow> (\<forall>(h, d) \<in> set rs. length h = n \<and> length d \<le> m)"

lemma append_all_ok:
  assumes "handle_ok f os" and "f_write_mode f" and "records_fit n m rs" and "n < 2 ^ 24" "m < 2 ^ 24"
    and "length (fbytes os @ image rs) \<le> flimit os"
  shows "\<exists>f'. append_all n rs f os = Some (f', os\<lparr>fbytes := fbytes os @ image rs\<rparr>)
            \<and> handle_ok f' (os\<lparr>fbytes := fbytes os @ image rs\<rparr>) \<and> f_write_mode f'"
  using assms
proof (induction rs arbitrary: f os)
  case Nil
  then show ?case by (simp add: image_def)
next
  case (Cons r rs)
  obtain h d where r: "r = (h, d)" by (cases r)
  let ?os = "os\<lparr>fbytes := fbytes os @ dyn_rec (h @ d)\<rparr>"
  have fit: "length h = n" "length d < 2 ^ 24" and rs: "records_fit n m rs"
    using Cons.prems r by (auto simp: records_fit_def)
  have img: "image (r # rs) = dyn_rec (h @ d) @ image rs"
    by (simp add: image_def r)
  have b: "append_bytes h (Some d) (word_of_nat (length d)) = h @ d"
    using fit by (simp add: append_bytes_def arg_small)
  obtain f1 where a: "sf_append n h (Some d) (word_of_nat (length d)) f os
      = (Ret (int (length (h @ d)) + 8), f1, ?os)"
    and f1: "after_read f ?os (fsize os + int (length (h @ d)) + 8) (fsize os) f1"
    using sf_append_ok [OF Cons.prems(1,2) fit(1) Cons.prems(4), of "Some d" "word_of_nat (length d)"]
      fit Cons.prems(6) img by (auto simp: b arg_small)
  have ok1: "handle_ok f1 ?os" "f_write_mode f1"
    using f1 Cons.prems(1,2) by (auto simp: handle_ok_def after_read_def same_handle_def)
  have "append_all n (r # rs) f os = append_all n rs f1 ?os"
    by (simp add: r a)
  moreover obtain f2 where "append_all n rs f1 ?os = Some (f2, ?os\<lparr>fbytes := fbytes ?os @ image rs\<rparr>)"
    "handle_ok f2 (?os\<lparr>fbytes := fbytes ?os @ image rs\<rparr>)" "f_write_mode f2"
    using Cons.IH [OF ok1 rs Cons.prems(4,5)] Cons.prems(6) img by auto
  ultimately show ?case
    by (intro exI [of _ f2]) (simp add: img)
qed

definition end_code :: "base_file \<Rightarrow> int" where
  "end_code f = (if f_write_mode f then E_CSFILE_EMPTY_DATA else E_CSFILE_EOF)"

lemma seek_current:
  assumes "fd_open f" and "0 \<le> current_offset f" and "current_offset f \<noteq> C_CSFILE_ENDFILE"
    and "f_write_mode f \<or> current_offset f + k \<le> fsize os"
  shows "bf_seek C_CSFILE_CURRPOS k False f os = Ok (current_offset f)"
  using assms by (auto simp: bf_seek_def Let_def)

lemma read_at_end:
  assumes ok: "handle_ok f os" and cur: "current_offset f = fsize os" and big: "fsize os < C_CSFILE_ENDFILE"
  shows "\<exists>h d f'. sf_read_data n C_CSFILE_CURRPOS buf q x f os = (Ret (end_code f), h, d, f')"
proof -
  have fl: "F_CSFILE_DYNAMIC OR bflags f = F_CSFILE_DYNAMIC"
    using ok by (simp add: handle_ok_def)
  have "\<exists>f'. readWorkArea C_CSFILE_CURRPOS 4 0 True f os = (Err (end_code f), f')"
  proof (cases "f_write_mode f")
    case True
    have "bf_seek C_CSFILE_CURRPOS (4 - 0) False f os = Ok (fsize os)"
      using seek_current [of f 4 os] ok True cur big by (simp add: handle_ok_def fsize_def)
    from readWorkArea_cases [OF ok this, of True] True show ?thesis
      by (auto simp: is_i32_def end_code_def)
  next
    case False
    then have "bf_seek C_CSFILE_CURRPOS 4 False f os = Err E_CSFILE_EOF"
      using ok cur big by (auto simp: bf_seek_def Let_def handle_ok_def fsize_def)
    then show ?thesis
      using False by (simp add: readWorkArea_def is_i32_def end_code_def)
  qed
  then show ?thesis
    by (auto simp: sf_read_data_def bf_read_def read_frame_def fl has_dyn finish_def)
qed

lemma scan_ok:
  assumes "handle_ok f os" and "fbytes os = before @ image rs" and "current_offset f = int (length before)"
    and "records_fit n m rs" and "n < 2 ^ 24" "m < 2 ^ 24" and "fsize os < C_CSFILE_ENDFILE"
  shows "scan n m (Suc (length rs)) f os = (rs, Ret (end_code f))"
  using assms
proof (induction rs arbitrary: f before)
  case Nil
  have "current_offset f = fsize os"
    using Nil.prems(2,3) by (simp add: fsize_def image_def)
  then obtain h d f' where "sf_read_data n C_CSFILE_CURRPOS (replicate n 0) (replicate m 0) (word_of_nat m) f os
      = (Ret (end_code f), h, d, f')"
    using read_at_end [OF Nil.prems(1) _ Nil.prems(7)] by blast
  moreover have "end_code f < 0"
    by (simp add: end_code_def csfile_errors)
  ultimately show ?case
    by simp
next
  case (Cons r rs)
  obtain h d where r: "r = (h, d)" by (cases r)
  let ?p = "h @ d" and ?pos = "int (length before)"
  have fit: "length h = n" "length d \<le> m" and rs: "records_fit n m rs"
    using Cons.prems r by (auto simp: records_fit_def)
  have bytes: "fbytes os = before @ dyn_rec ?p @ image rs"
    using Cons.prems(2) by (simp add: image_def r)
  have fits: "?pos + int (length ?p) + 8 \<le> fsize os"
    by (simp add: fsize_def bytes)
  have seek: "bf_seek C_CSFILE_CURRPOS 4 False f os = Ok ?pos"
    using seek_current [of f 4 os] Cons.prems(1,3,7) fits by (simp add: handle_ok_def)
  have at: "seg (nat ?pos) (length ?p + 8) (fbytes os) = dyn_rec ?p"
    by (simp add: bytes seg_def)
  have small: "is_i32 (int (length ?p) + 136)"
    using fit Cons.prems(5,6) by (simp add: is_i32_def)
  obtain f1 where
    rd: "sf_read_data n C_CSFILE_CURRPOS (replicate n 0) (replicate m 0) (word_of_nat m) f os
           = (Ret (int (length ?p)), h, overlay (take m d) (replicate m 0), f1)"
    and f1: "after_read f os (?pos + int (length ?p) + 8) ?pos f1"
    using sf_read_data_ok [OF Cons.prems(1) seek at fits Cons.prems(7) fit(1) _ Cons.prems(5,6) small,
        of "replicate n 0" "replicate m 0"]
    by auto
  have "handle_ok f1 os" "current_offset f1 = int (length (before @ dyn_rec ?p))" "end_code f1 = end_code f"
    using f1 Cons.prems(1) by (auto simp: handle_ok_def after_read_def same_handle_def end_code_def)
  then have "scan n m (Suc (length rs)) f1 os = (rs, Ret (end_code f))"
    using Cons.IH [of f1 "before @ dyn_rec ?p"] rs Cons.prems(5-7) bytes by simp
  moreover have "take (length d) (overlay (take m d) (replicate m 0)) = d"
    using fit by (simp add: overlay_def)
  ultimately show ?case
    using fit by (simp only: scan.simps list.size add_0_right add_Suc_right r)
      (simp add: rd nat_add_distrib del: scan.simps)
qed

text \<open>Property (C16): records appended to an empty file are read back, all of them, with their
  lengths and in order, by a scan from the top through the same (possibly cached) object, and
  the scan then stops with the error of the mode.\<close>

theorem appended_records_scan_back:
  assumes "handle_ok f os" and "f_write_mode f" and "fbytes os = []"
    and "\<forall>(h, d) \<in> set rs. length h = n \<and> length d \<le> m" and "n < 2 ^ 24" and "m < 2 ^ 24"
    and "sum_list (map (\<lambda>(h, d). length h + length d + 8) rs) \<le> flimit os"
    and "sum_list (map (\<lambda>(h, d). length h + length d + 8) rs) < 2 ^ 62"
  shows "case append_all n rs f os of None \<Rightarrow> False
         | Some (f', os') \<Rightarrow> scan n m (Suc (length rs)) (goTop f') os' = (rs, Ret E_CSFILE_EMPTY_DATA)"
proof -
  have len: "length (image xs) = sum_list (map (\<lambda>(h, d). length h + length d + 8) xs)" for xs
    by (induction xs) (auto simp: image_def)
  have fit: "records_fit n m rs"
    using assms(4) by (simp add: records_fit_def)
  obtain f' where a: "append_all n rs f os = Some (f', os\<lparr>fbytes := image rs\<rparr>)"
    and ok: "handle_ok f' (os\<lparr>fbytes := image rs\<rparr>)" "f_write_mode f'"
    using append_all_ok [OF assms(1,2) fit assms(5,6)] assms(3,7) by (auto simp: len)
  have top: "handle_ok (goTop f') (os\<lparr>fbytes := image rs\<rparr>)" "end_code (goTop f') = E_CSFILE_EMPTY_DATA"
    using ok by (auto simp: goTop_def handle_ok_def coherent_def end_code_def)
  have "scan n m (Suc (length rs)) (goTop f') (os\<lparr>fbytes := image rs\<rparr>) = (rs, Ret (end_code (goTop f')))"
    using assms(5,6,8) by (intro scan_ok [OF top(1), where before = "[]"])
      (auto simp: fit fsize_def len C_CSFILE_ENDFILE_def goTop_def)
  then show ?thesis
    by (simp add: a top(2) del: scan.simps)
qed

subsection \<open>Demonstration handle\<close>

text \<open>A writable handle with a cache of 64 bytes on an empty file with room for a megabyte.\<close>

definition demo_os :: os_file where
  "demo_os = \<lparr>fbytes = [], flimit = 1000000, fexists = True, freadable = True, fwritable = True, fowned = True\<rparr>"

definition demo_handle :: base_file where
  "demo_handle = (bf_new 0 64 16 4096 0)\<lparr>fd_open := True, f_write_mode := True\<rparr>"

lemma demo_handle_ok: "handle_ok demo_handle (demo_os\<lparr>fbytes := bs\<rparr>)" "f_write_mode demo_handle"
  "handle_ok demo_handle demo_os"
  by (simp_all add: demo_handle_def demo_os_def handle_ok_def bf_new_def coherent_def)

theorem appended_records_scan_back_witness:
  "case append_all 1 [([1], [2, 3]), ([4], []), ([5], [6])] demo_handle demo_os of None \<Rightarrow> False
   | Some (f', os') \<Rightarrow>
       scan 1 2 (Suc (length [([1 :: byte], [2, 3]), ([4], []), ([5], [6 :: byte])])) (goTop f') os'
         = ([([1], [2, 3]), ([4], []), ([5], [6])], Ret E_CSFILE_EMPTY_DATA)"
  by (rule appended_records_scan_back) (simp_all add: demo_handle_ok, simp_all add: demo_os_def)

subsection \<open>Tables of fixed-size records\<close>

lemma slot_at_put_other:
  assumes "whole n os" and "length data = n" and "0 \<le> i" "0 \<le> j" "i \<noteq> j"
    and "nat j * (n + 4) + n + 4 \<le> length (fbytes os)"
  shows "slot_at (nat j * (n + 4)) n (fbytes (put_rec n i data os)) = slot_at (nat j * (n + 4)) n (fbytes os)"
proof -
  have "Suc (nat j) \<le> nat i \<or> Suc (nat i) \<le> nat j"
    using assms by linarith
  then have "nat j * (n + 4) + (n + 4) \<le> nat i * (n + 4) \<or> nat i * (n + 4) + (n + 4) \<le> nat j * (n + 4)"
    using mult_le_mono1 [of "Suc (nat j)" "nat i" "n + 4"] mult_le_mono1 [of "Suc (nat i)" "nat j" "n + 4"]
    by auto
  then show ?thesis
    using assms by (intro slot_at_seg_cong) (auto simp: put_rec_def intro: seg_patch_below seg_patch_above)
qed

text \<open>A slot beyond the end of a table of whole records is empty, and stays so.\<close>

lemma slot_past_end:
  assumes "whole n os" and "0 \<le> j" and "\<not> nat j * (n + 4) + n + 4 \<le> length (fbytes os)"
  shows "length (fbytes os) \<le> nat j * (n + 4)"
proof -
  obtain q where q: "length (fbytes os) = q * (n + 4)"
    using assms(1) by (auto simp: whole_def)
  then have "q \<le> nat j"
    using assms(3) mult_le_mono1 [of "Suc (nat j)" q "n + 4"] by (cases "q \<le> nat j") auto
  then show ?thesis
    using q mult_le_mono1 [of q "nat j" "n + 4"] by simp
qed

lemma miss_code_past:
  assumes "length (fbytes os) \<le> nat j * (n + 4)" and "0 \<le> j" and "f_write_mode f"
  shows "miss_code n j f os = E_CSFILE_EMPTY_DATA"
proof -
  have "int (nat j * (n + 4)) = j * (int n + 4)"
    using assms(2) by simp
  then have "fsize os \<le> j * (int n + 4)"
    using assms(1) by (metis fsize_def of_nat_le_iff)
  then show ?thesis
    using assms(3) by (simp add: miss_code_def short_result_def)
qed

lemma miss_code_put_other:
  assumes "whole n os" and "length data = n" and "0 \<le> i" "0 \<le> j" "i \<noteq> j" and wr: "f_write_mode f"
    and hole: "crc32 (replicate n 0) 0 \<noteq> 0"
  shows "miss_code n j f (put_rec n i data os) = miss_code n j f os"
proof (cases "nat j * (n + 4) + n + 4 \<le> length (fbytes os)")
  case True
  then have "nat j * (n + 4) + n + 4 \<le> length (fbytes (put_rec n i data os))"
    using assms(2) by (simp add: length_put_rec)
  then show ?thesis
    using True slot_at_put_other [OF assms(1-5) True] assms(4)
    by (simp add: miss_code_def pos_fits)
next
  case False
  have past: "length (fbytes os) \<le> nat j * (n + 4)"
    by (rule slot_past_end [OF assms(1,4) False])
  have old: "miss_code n j f os = E_CSFILE_EMPTY_DATA"
    by (rule miss_code_past [OF past assms(4) wr])
  show ?thesis
  proof (cases "nat j * (n + 4) + n + 4 \<le> length (fbytes (put_rec n i data os))")
    case True
    have "\<not> Suc (nat i) \<le> nat j"
    proof
      assume "Suc (nat i) \<le> nat j"
      then have "nat i * (n + 4) + n + 4 \<le> nat j * (n + 4)"
        using mult_le_mono1 [of "Suc (nat i)" "nat j" "n + 4"] by simp
      then show False
        using True past assms(2) by (simp add: length_put_rec)
    qed
    then have "Suc (nat j) \<le> nat i"
      using assms(3,4,5) by linarith
    then have "nat j * (n + 4) + (n + 4) \<le> nat i * (n + 4)"
      using mult_le_mono1 [of "Suc (nat j)" "nat i" "n + 4"] by simp
    then have "slot_at (nat j * (n + 4)) n (fbytes (put_rec n i data os)) = Hole"
      using past by (intro zero_seg_hole [OF hole]) (simp add: put_rec_def seg_patch_gap)
    then have "miss_code n j f (put_rec n i data os) = E_CSFILE_EMPTY_DATA"
      using True assms(4) by (simp add: miss_code_def pos_fits)
    then show ?thesis
      by (simp only: old)
  next
    case False
    then have "length (fbytes (put_rec n i data os)) \<le> nat j * (n + 4)"
      by (rule slot_past_end [OF whole_put_rec [OF assms(1,2)] assms(4)])
    then show ?thesis
      using miss_code_past [OF _ assms(4) wr] by (simp add: old)
  qed
qed

text \<open>Property (C17): \<open>writeIndex\<close> then \<open>readIndex\<close> through the same handle, cached or not: the record
  written is returned with its length, and every other index answers as before, error codes
  included, also when the write left a gap before it.\<close>

theorem write_index_read_index:
  assumes "handle_ok f os" and "f_write_mode f" and "whole n os" and "crc32 (replicate n 0) 0 \<noteq> 0"
    and "0 \<le> i" "i * (int n + 4) < 2 ^ 62" "0 \<le> j" "j * (int n + 4) < 2 ^ 62"
    and "length data = n" "length buf = n" "n < 2 ^ 24"
    and "nat i * (n + 4) + n + 4 \<le> flimit os"
  shows "case sf_writeIndex n i data f os of (r, f1, os1) \<Rightarrow>
           r = Ret (int n + 4) \<and>
           (case sf_readIndex n j buf f1 os1 of (r1, b1, _) \<Rightarrow>
              (r1, b1) = (if j = i then (Ret (int n), data)
                          else (case sf_readIndex n j buf f os of (r0, b0, _) \<Rightarrow> (r0, b0))))"
proof -
  have lt: "i * (int n + 4) < C_CSFILE_ENDFILE" "j * (int n + 4) < C_CSFILE_ENDFILE"
    using assms(6,8) by (simp_all add: C_CSFILE_ENDFILE_def)
  obtain f1 where w: "sf_writeIndex n i data f os = (Ret (int n + 4), f1, put_rec n i data os)"
    and f1: "after_read f (put_rec n i data os) (i * (int n + 4) + int n + 4) (i * (int n + 4)) f1"
    using sf_writeIndex_ok [OF assms(1,2,5) lt(1) assms(9,11,12)] by blast
  have ok1: "handle_ok f1 (put_rec n i data os)" and same: "same_handle f f1"
    using f1 assms(1) by (auto simp: handle_ok_def after_read_def same_handle_def)
  obtain f2 where r1: "sf_readIndex n j buf f1 (put_rec n i data os) =
      (case rec_at n j (put_rec n i data os) of Some p \<Rightarrow> (Ret (int n), p, f2)
       | None \<Rightarrow> (Ret (miss_code n j f1 (put_rec n i data os)), buf, f2))"
    using sf_readIndex_cases [OF ok1 assms(7) lt(2) assms(10,11)] by blast
  obtain f3 where r0: "sf_readIndex n j buf f os =
      (case rec_at n j os of Some p \<Rightarrow> (Ret (int n), p, f3)
       | None \<Rightarrow> (Ret (miss_code n j f os), buf, f3))"
    using sf_readIndex_cases [OF assms(1,7) lt(2) assms(10,11)] by blast
  show ?thesis
  proof (cases "j = i")
    case True
    then show ?thesis
      using w r1 rec_at_put_same [OF assms(9,5)] by simp
  next
    case False
    then show ?thesis
      using w r1 r0 rec_at_put_other [OF assms(3,9,5,7) _ assms(4)]
        miss_code_put_other [OF assms(3,9,5,7) _ assms(2,4)] same
      by (auto split: option.split)
  qed
qed

theorem write_index_read_index_witness:
  "case sf_writeIndex 26 2 (replicate 26 7) demo_handle demo_os of (r, f1, os1) \<Rightarrow>
     r = Ret (int 26 + 4) \<and>
     (case sf_readIndex 26 1 (replicate 26 9) f1 os1 of (r1, b1, _) \<Rightarrow>
        (r1, b1) = (if (1 :: int) = 2 then (Ret (int 26), replicate 26 7)
                    else (case sf_readIndex 26 1 (replicate 26 9) demo_handle demo_os of (r0, b0, _) \<Rightarrow> (r0, b0))))"
  by (rule write_index_read_index)
    (simp_all add: demo_handle_ok hole_sizes, simp_all add: demo_os_def whole_def)

subsection \<open>Damage\<close>

definition residue :: u32 where
  \<comment> \<open>what the checksum register holds after a record and its checksum\<close>
  "residue = (crc_step ^^ 4) (- 1)"

lemma good_iff_residue:
  assumes "length c = 4"
  shows "(le_dec c :: u32) = crc32 p 0 \<longleftrightarrow> foldl crc_byte (NOT 0) (p @ c) = residue"
proof -
  let ?s = "foldl crc_byte (NOT 0) p"
  have "foldl crc_byte (NOT 0) (p @ c) = residue \<longleftrightarrow> ?s XOR le_dec c = - 1"
    using assms by (simp add: foldl_crc_word residue_def funpow_numeral crc_step_inj)
  also have "\<dots> \<longleftrightarrow> ?s XOR le_dec c = ?s XOR NOT ?s"
    by simp
  also have "\<dots> \<longleftrightarrow> le_dec c = NOT ?s"
    by (rule xor_left_inj)
  finally show ?thesis
    by (simp add: crc32_foldl)
qed

lemma slot_good_iff:
  assumes "off + n + 4 \<le> length bs"
  shows "(\<exists>p. slot_at off n bs = Good p) \<longleftrightarrow> foldl crc_byte (NOT 0) (seg off (n + 4) bs) = residue"
proof -
  have "length (seg (off + n) 4 bs) = 4" "seg off (n + 4) bs = seg off n bs @ seg (off + n) 4 bs"
    using assms by (simp_all add: length_seg seg_add)
  then show ?thesis
    using good_iff_residue [of "seg (off + n) 4 bs" "seg off n bs"] by (simp add: slot_at_def Let_def)
qed

lemma burst_changes_crc:
  assumes "length old = length new" and "length old \<le> 4" and "old \<noteq> new"
  shows "foldl crc_byte c (a @ old @ z) \<noteq> foldl crc_byte c (a @ new @ z)"
proof
  assume "foldl crc_byte c (a @ old @ z) = foldl crc_byte c (a @ new @ z)"
  then have "foldl crc_byte (foldl crc_byte c a) old = foldl crc_byte (foldl crc_byte c a) new"
    by (simp add: foldl_crc_inj)
  with assms have "(le_dec old :: u32) = le_dec new"
    by (simp add: foldl_crc_word crc_steps_inj xor_left_inj)
  with assms show False
    using le_dec_inj by blast
qed

lemma seg_around:
  assumes "off \<le> length a" and "length a + length x \<le> off + n"
  shows "seg off n (a @ x @ z) = drop off a @ x @ take (off + n - length a - length x) z"
  using assms by (simp add: seg_def add.commute)

text \<open>Property (C20): damage to at most four consecutive bytes of a stored record, in its data, in
  its checksum or across both, makes the read fail with \<open>E_CSFILE_CRC\<close> and leaves the caller's
  buffer alone.\<close>

theorem damaged_record_is_rejected:
  assumes "handle_ok f os" and "fbytes os = a @ new @ z"
    and "slot_at off n (a @ old @ z) = Good p"
    and "length old = length new" "length old \<le> 4" "old \<noteq> new"
    and "off \<le> length a" "length a + length old \<le> off + n + 4" "off + n + 4 \<le> length (a @ old @ z)"
    and "length buf = n" "n < 2 ^ 24" "off < 2 ^ 62"
  shows "case sf_read n (int off) 0 buf f os of (r, b, _) \<Rightarrow> r = Ret E_CSFILE_CRC \<and> b = buf"
proof -
  have in_new: "off + n + 4 \<le> length (fbytes os)"
    using assms(2,4,9) by simp
  have segs: "seg off (n + 4) (a @ old @ z) = drop off a @ old @ take (off + (n + 4) - length a - length old) z"
    "seg off (n + 4) (fbytes os) = drop off a @ new @ take (off + (n + 4) - length a - length old) z"
    using assms(2,4,7,8) seg_around [of off a old "n + 4" z] seg_around [of off a new "n + 4" z] by simp_all
  have "foldl crc_byte (NOT 0) (seg off (n + 4) (a @ old @ z)) = residue"
    using assms(3) slot_good_iff [OF assms(9)] by blast
  then have "foldl crc_byte (NOT 0) (seg off (n + 4) (fbytes os)) \<noteq> residue"
    unfolding segs using burst_changes_crc [OF assms(4-6)] by metis
  then have bad: "slot_at off n (fbytes os) = Hole \<or> slot_at off n (fbytes os) = Bad"
    using slot_good_iff [OF in_new] by (cases "slot_at off n (fbytes os)") auto
  have "int off + int n + 4 \<le> fsize os"
    using in_new by (simp add: fsize_def)
  moreover from this have "bf_seek (int off) (int n + 4) False f os = Ok (int off)"
    using assms(1,12) by (intro bf_seek_plain) (auto simp: handle_ok_def C_CSFILE_ENDFILE_def)
  ultimately show ?thesis
    using sf_read_spec [OF assms(1) _ _ assms(10,11), of "int off" "int off" 0] bad
    by (auto simp: slot_result_def has_flag_def Let_def)
qed

theorem damaged_record_is_rejected_witness:
  "case sf_read 2 (int 0) 0 [9, 9] demo_handle
          (demo_os\<lparr>fbytes := [1] @ [3, le_enc 4 (crc32 [1, 2] 0) ! 0] @ drop 1 (le_enc 4 (crc32 [1, 2] 0))\<rparr>)
   of (r, b, _) \<Rightarrow> r = Ret E_CSFILE_CRC \<and> b = [9, 9]"
proof (rule damaged_record_is_rejected [where old = "[2, le_enc 4 (crc32 [1, 2] 0) ! 0]" and off = 0
      and a = "[1]" and z = "drop 1 (le_enc 4 (crc32 [1, 2] 0))" and p = "[1, 2]"])
  let ?c = "le_enc 4 (crc32 [1, 2] 0)"
  have "?c = ?c ! 0 # drop 1 ?c"
    by (metis Cons_nth_drop_Suc One_nat_def drop_0 length_le_enc zero_less_numeral)
  then have rec: "[1] @ [2, ?c ! 0] @ drop 1 ?c = fixed_rec [1, 2]"
    by (simp add: fixed_rec_def)
  have "slot_at 0 (length [1 :: byte, 2]) (fixed_rec [1, 2]) = Good [1, 2]"
    by (rule slot_at_fixed_rec) simp
  then show "slot_at 0 2 ([1] @ [2, ?c ! 0] @ drop 1 ?c) = Good [1, 2]"
    unfolding rec by (simp add: numeral_2_eq_2)
  show "length [2, ?c ! 0] = length [3, ?c ! 0]" "[2, ?c ! 0] \<noteq> [3, ?c ! 0]"
    by simp_all
qed (simp_all add: demo_handle_ok)

subsection \<open>Every outcome of a write\<close>

lemma clearCache_drop: "coherent f os \<Longrightarrow> coherent (clearCache a b f) os"
  by (simp add: clearCache_def coherent_def)

lemma coherent_fields [simp]:
  "coherent (f\<lparr>current_offset := x\<rparr>) os = coherent f os"
  "coherent (f\<lparr>last_offset := x\<rparr>) os = coherent f os"
  by (simp_all add: coherent_def)

text \<open>Property (C22): every outcome of a write. It never overruns the work area and never reports
  the data as too big; a closed file or a bad offset is \<open>E_CSFILE_WRITE_SEEK\<close>; a read-only object or a
  full disk is \<open>E_CSFILE_WRITE\<close>, the latter with the bytes that fitted; else the whole record is stored at
  the offset, or at the end, and its stored size returned. The cache agrees with the file afterwards.\<close>

theorem write_every_case:
  assumes "0 < delta_page f" and "args_ok args" and "da_size (da_new args) < 2 ^ 30" and "coherent f os"
  shows "let fl = flags OR bflags f;
             fail = (\<lambda>e. if has_flag fl F_CSFILE_EXCEPTIONS then Throw e else Ret e);
             wa = (if has_flag fl F_CSFILE_DYNAMIC then dyn_rec (args_bytes args) else fixed_rec (args_bytes args));
             pos = (if loff = C_CSFILE_ENDFILE then fsize os else loff)
         in case bf_write loff flags (da_new args) f os of (r, f', os') \<Rightarrow>
           (r, os') = (if \<not> fd_open f \<or> pos < 0 then (fail E_CSFILE_WRITE_SEEK, os)
              else if \<not> f_write_mode f \<or> flimit os \<le> nat pos then (fail E_CSFILE_WRITE, os)
              else if flimit os < nat pos + length wa
              then (fail E_CSFILE_WRITE, os\<lparr>fbytes := patch (nat pos) (take (flimit os - nat pos) wa) (fbytes os)\<rparr>)
              else (Ret (int (length wa)), os\<lparr>fbytes := patch (nat pos) wa (fbytes os)\<rparr>))
           \<and> coherent f' os'"
proof -
  define fl where "fl = flags OR bflags f"
  define wa where "wa = (if has_flag fl F_CSFILE_DYNAMIC then dyn_rec (args_bytes args) else fixed_rec (args_bytes args))"
  define pos where "pos = (if loff = C_CSFILE_ENDFILE then fsize os else loff)"
  define k where "k = int (da_size (da_new args)) + (if has_flag fl F_CSFILE_DYNAMIC then 4 else 0)"
  have "is_i32 (int (da_size (da_new args)) + 132)"
    using assms(3) by (simp add: is_i32_def)
  then have fill: "(if has_flag fl F_CSFILE_DYNAMIC then fillWorkArea 4 (da_new args) 0 f
               else fillWorkArea 0 (da_new args) (- 1) f) = (Ok wa, checkWorkAreaSize k f)"
    using fillWorkArea_ok [OF assms(1,2), of 0 4] fillWorkArea_ok [OF assms(1,2), of "- 1" 0]
    by (auto simp: filled_dyn filled_fixed wa_def k_def is_i32_def)
  define g where "g = (checkWorkAreaSize (int (length wa)) (checkWorkAreaSize k f))\<lparr>last_offset := pos\<rparr>"
  have g: "coherent g os" "fd_open g = fd_open f" "f_write_mode g = f_write_mode f"
    using assms(4) by (simp_all add: g_def)
  have wa: "wa \<noteq> []"
    by (auto simp: wa_def dyn_rec_def)
  have run: "bf_write loff flags (da_new args) f os =
      (case writeWorkArea loff wa 0 (checkWorkAreaSize k f) os of
                (Err e, f, os) \<Rightarrow> (finish fl (Err e), f, os)
              | (Fault, f, os) \<Rightarrow> (Crash, f, os)
              | (Ok pos, f, os) \<Rightarrow> (Ret (int (length wa)), f\<lparr>current_offset := pos\<rparr>, os))"
    by (simp only: bf_write_def Let_def fl_def [symmetric] fill) simp
  have work: "writeWorkArea loff wa 0 (checkWorkAreaSize k f) os =
      (if \<not> fd_open f \<or> pos < 0 then (Err E_CSFILE_WRITE_SEEK, g\<lparr>last_offset := - 1\<rparr>, os)
       else (let (n, os) = os_write (f_write_mode f) pos wa os;
                 f = clearCache pos (int (length wa)) g
             in if n \<noteq> int (length wa) then (Err E_CSFILE_WRITE, f, os)
                else (Ok (pos + int (length wa)), f, os)))"
    by (auto simp: writeWorkArea_def g_def pos_def Let_def C_CSFILE_ENDFILE_def fsize_def split: prod.split)
  have fail: "finish fl (Err e) = (if has_flag fl F_CSFILE_EXCEPTIONS then Throw e else Ret e)" for e
    by (simp add: finish_def)
  have cut: "coherent (clearCache pos (int (length wa)) g)
       (os\<lparr>fbytes := patch (nat pos) (take m wa) (fbytes os)\<rparr>)" if "0 \<le> pos" for m
    using that g(1) by (intro clearCache_coherent) simp_all
  consider (seek) "\<not> fd_open f \<or> pos < 0"
    | (refused) "fd_open f" "0 \<le> pos" "\<not> f_write_mode f \<or> flimit os \<le> nat pos"
    | (short) "fd_open f" "0 \<le> pos" "f_write_mode f" "nat pos < flimit os" "flimit os < nat pos + length wa"
    | (full) "fd_open f" "0 \<le> pos" "f_write_mode f" "nat pos + length wa \<le> flimit os"
    by linarith
  then have "case bf_write loff flags (da_new args) f os of (r, f', os') \<Rightarrow>
      (r, os') = (if \<not> fd_open f \<or> pos < 0 then (finish fl (Err E_CSFILE_WRITE_SEEK), os)
              else if \<not> f_write_mode f \<or> flimit os \<le> nat pos then (finish fl (Err E_CSFILE_WRITE), os)
              else if flimit os < nat pos + length wa
              then (finish fl (Err E_CSFILE_WRITE),
                    os\<lparr>fbytes := patch (nat pos) (take (flimit os - nat pos) wa) (fbytes os)\<rparr>)
              else (Ret (int (length wa)), os\<lparr>fbytes := patch (nat pos) wa (fbytes os)\<rparr>))
      \<and> coherent f' os'"
  proof cases
    case seek
    then show ?thesis
      using g by (simp add: run work)
  next
    case refused
    then have "os_write (f_write_mode f) pos wa os = (- 1, os)"
      using wa by (auto simp: os_write_def Let_def)
    then show ?thesis
      using refused g clearCache_drop by (simp add: run work)
  next
    case short
    then have "os_write (f_write_mode f) pos wa os = (int (flimit os - nat pos),
        os\<lparr>fbytes := patch (nat pos) (take (flimit os - nat pos) wa) (fbytes os)\<rparr>)"
      using wa by (auto simp: os_write_def Let_def min_def)
    moreover have "int (flimit os) - pos \<noteq> int (length wa)"
      using short by linarith
    ultimately show ?thesis
      using short cut by (simp add: run work Let_def)
  next
    case full
    then have pos_room: "\<not> flimit os \<le> nat pos" "\<not> flimit os < nat pos + length wa"
      using wa full by (cases wa; simp)+
    have "os_write (f_write_mode f) pos wa os = (int (length wa),
        os\<lparr>fbytes := patch (nat pos) wa (fbytes os)\<rparr>)"
      using wa full by (auto simp: os_write_def Let_def min_def)
    then show ?thesis
      using full cut [of "length wa"] pos_room by (simp add: run work Let_def)
  qed
  then show ?thesis
    unfolding Let_def fl_def [symmetric] pos_def [symmetric] wa_def [symmetric] fail .
qed

theorem write_every_case_witness:
  "let fl = F_CSFILE_DYNAMIC OR bflags demo_handle;
       fail = (\<lambda>e. if has_flag fl F_CSFILE_EXCEPTIONS then Throw e else Ret e);
       wa = (if has_flag fl F_CSFILE_DYNAMIC then dyn_rec (args_bytes [([1, 2], 2), ([3], 1)])
             else fixed_rec (args_bytes [([1, 2], 2), ([3], 1)]));
       pos = (if C_CSFILE_ENDFILE = C_CSFILE_ENDFILE then fsize demo_os else C_CSFILE_ENDFILE)
   in case bf_write C_CSFILE_ENDFILE F_CSFILE_DYNAMIC (da_new [([1, 2], 2), ([3], 1)]) demo_handle demo_os
      of (r, f', os') \<Rightarrow>
     (r, os') = (if \<not> fd_open demo_handle \<or> pos < 0 then (fail E_CSFILE_WRITE_SEEK, demo_os)
        else if \<not> f_write_mode demo_handle \<or> flimit demo_os \<le> nat pos then (fail E_CSFILE_WRITE, demo_os)
        else if flimit demo_os < nat pos + length wa
        then (fail E_CSFILE_WRITE,
              demo_os\<lparr>fbytes := patch (nat pos) (take (flimit demo_os - nat pos) wa) (fbytes demo_os)\<rparr>)
        else (Ret (int (length wa)), demo_os\<lparr>fbytes := patch (nat pos) wa (fbytes demo_os)\<rparr>))
     \<and> coherent f' os'"
  using demo_handle_ok(3)
  by (intro write_every_case) (auto simp: handle_ok_def args_ok_def arg_len_def)

subsection \<open>The cache\<close>

lemma handle_ok_setCacheSize: "handle_ok f os \<Longrightarrow> handle_ok (setCacheSize c f) os"
  by (auto simp: handle_ok_def setCacheSize_def allocateCache_def coherent_def)

lemma setCacheSize_fields [simp]:
  "fd_open (setCacheSize c f) = fd_open f" "f_write_mode (setCacheSize c f) = f_write_mode f"
  "cache_size (setCacheSize c f) = c"
  by (auto simp: setCacheSize_def allocateCache_def)

text \<open>Property (C36): the size of the cache, and what is in it, make no difference to reading a record
  the file holds: a good record is returned, an empty or damaged one reported, the same way.\<close>

theorem cache_is_transparent:
  assumes "handle_ok f os" and "plain_flags fl" and "0 \<le> off" "off < 2 ^ 62" "off + int n + 4 \<le> fsize os"
    and "length buf = n" "n < 2 ^ 24"
  shows "case sf_read n off fl buf f os of (r, b, _) \<Rightarrow>
         (case sf_read n off fl buf (setCacheSize c f) os of (r', b', _) \<Rightarrow>
            (r, b) = (r', b')
            \<and> (r, b) = (case slot_at (nat off) n (fbytes os) of
                          Good p \<Rightarrow> (Ret (int n), p)
                        | Hole \<Rightarrow> (Ret (if has_flag fl F_CSFILE_EMPTY_DATA then E_CSFILE_EMPTY_DATA
                                       else E_CSFILE_CRC), buf)
                        | Bad \<Rightarrow> (Ret E_CSFILE_CRC, buf)))"
proof -
  have both: "\<exists>g'. sf_read n off fl buf g os
      = (fst (slot_result fl n buf (slot_at (nat off) n (fbytes os))),
         snd (slot_result fl n buf (slot_at (nat off) n (fbytes os))), g')"
    if "handle_ok g os" for g
  proof -
    have "bf_seek off (int n + 4) False g os = Ok off"
      using that assms(3-5) by (intro bf_seek_plain) (auto simp: handle_ok_def C_CSFILE_ENDFILE_def)
    from sf_read_spec [OF that this assms(2,6,7)] assms(5) show ?thesis
      by (cases "slot_result fl n buf (slot_at (nat off) n (fbytes os))") (auto simp: Let_def)
  qed
  from both [OF assms(1)] both [OF handle_ok_setCacheSize [OF assms(1), of c]] show ?thesis
    by (auto simp: slot_result_def split: slot.split)
qed

theorem cache_is_transparent_witness:
  "case sf_read 2 1 0 [8, 8] demo_handle (demo_os\<lparr>fbytes := [5, 0, 0, 0, 0, 0, 0, 1]\<rparr>) of (r, b, _) \<Rightarrow>
   (case sf_read 2 1 0 [8, 8] (setCacheSize 0 demo_handle) (demo_os\<lparr>fbytes := [5, 0, 0, 0, 0, 0, 0, 1]\<rparr>)
    of (r', b', _) \<Rightarrow>
      (r, b) = (r', b')
      \<and> (r, b) = (case slot_at (nat 1) 2 (fbytes (demo_os\<lparr>fbytes := [5, 0, 0, 0, 0, 0, 0, 1]\<rparr>)) of
                    Good p \<Rightarrow> (Ret (int 2), p)
                  | Hole \<Rightarrow> (Ret (if has_flag 0 F_CSFILE_EMPTY_DATA then E_CSFILE_EMPTY_DATA
                                 else E_CSFILE_CRC), [8, 8])
                  | Bad \<Rightarrow> (Ret E_CSFILE_CRC, [8, 8])))"
  by (rule cache_is_transparent) (simp_all add: demo_handle_ok fsize_def)

subsection \<open>Long data\<close>

lemma arg_len_mod: "x < 2 ^ 32 \<Longrightarrow> arg_len (word_of_nat x) = x mod 2 ^ 24"
proof -
  assume x: "x < 2 ^ 32"
  have m: "(0x00FFFFFF :: u32) = mask 24"
    by (simp add: mask_eq_exp_minus_1)
  have u: "unat (word_of_nat x :: u32) = x"
    using x by (simp add: unat_of_nat)
  have "arg_len (word_of_nat x) = unat (take_bit 24 (word_of_nat x :: u32))"
    by (simp only: arg_len_def m and.commute [of "mask 24"] take_bit_eq_mask)
  also have "\<dots> = take_bit 24 (unat (word_of_nat x :: u32))"
    by (rule unsigned_take_bit_eq)
  finally show ?thesis
    by (simp only: u take_bit_eq_mod)
qed

text \<open>Property (C40): the length of the data of an append is cut to its low 24 bits: data of $2^{24}$
  bytes and more is stored shortened, with a valid checksum, and the call reports success.\<close>

theorem append_keeps_24_bits_of_length:
  assumes "handle_ok f os" and "f_write_mode f" and "length h = n" and "n < 2 ^ 24" and "length d < 2 ^ 32"
    and "length (fbytes os) + n + length d mod 2 ^ 24 + 8 \<le> flimit os"
  shows "case sf_append n h (Some d) (word_of_nat (length d)) f os of (r, f', os') \<Rightarrow>
           r = Ret (int n + int (length d mod 2 ^ 24) + 8)
           \<and> os' = os\<lparr>fbytes := fbytes os @ dyn_rec (h @ take (length d mod 2 ^ 24) d)\<rparr>"
proof -
  have b: "append_bytes h (Some d) (word_of_nat (length d)) = h @ take (length d mod 2 ^ 24) d"
    using assms(5) by (simp add: append_bytes_def arg_len_mod)
  have l: "length (take (length d mod 2 ^ 24) d) = length d mod 2 ^ 24"
    by simp
  show ?thesis
    using sf_append_ok [OF assms(1-4), of "Some d" "word_of_nat (length d)"] assms(3,5,6)
    unfolding b length_append l by (auto simp: arg_len_mod)
qed

theorem append_keeps_24_bits_of_length_witness:
  "case sf_append 1 [7] (Some (replicate 16777221 3)) (word_of_nat (length (replicate 16777221 (3 :: byte))))
          demo_handle demo_os of (r, f', os') \<Rightarrow>
     r = Ret (int 1 + int (length (replicate 16777221 (3 :: byte)) mod 2 ^ 24) + 8)
     \<and> os' = demo_os\<lparr>fbytes := fbytes demo_os
           @ dyn_rec ([7] @ take (length (replicate 16777221 (3 :: byte)) mod 2 ^ 24) (replicate 16777221 3))\<rparr>"
  by (rule append_keeps_24_bits_of_length) (simp_all add: demo_handle_ok, simp_all add: demo_os_def)

subsection \<open>The alias\<close>

text \<open>The alias derived from a file name and its terminator fit the five bytes of the
  field, and the alias is a suffix of the name.\<close>

lemma alias_fits:
  "length (autoAlias fname) + 1 \<le> 5 \<and> autoAlias fname = drop (length fname - length (autoAlias fname)) fname"
proof -
  let ?e = "takeWhile (\<lambda>c. c \<noteq> CHR ''.'') (rev fname)"
  have pre: "?e = take (length ?e) (rev fname)"
    by (metis takeWhile_eq_take)
  have "rev ?e = drop (length fname - length ?e) fname"
    by (subst pre) (simp add: rev_take)
  moreover have "length ?e \<le> length fname"
    using length_takeWhile_le [of _ "rev fname"] by simp
  ultimately show ?thesis
    by (auto simp: autoAlias_def Let_def)
qed

end
