(* ===== verification/Signature_Scan.thy ===== *)
theory Signature_Scan
  imports Safe_File
begin

text \<open>
  \<open>CBaseSafeFile::findLastSignatureReg\<close> of src/src/lib/base_safe_file.cpp: a scan of the file from
  its end, window by window, for records with a signature. It prints the offsets it finds; here they
  are a list. \<open>None\<close> is a call that does not return: a division by zero, a read outside the buffer
  \<open>tmp\<close>, or a loop without end.
\<close>

definition round_up :: "int \<Rightarrow> int \<Rightarrow> int option" where
  \<comment> \<open>\<open>%\<close> of C takes the sign of its first operand\<close>
  "round_up n align =
     (if align = 0 then None
      else (let r = sgn n * (\<bar>n\<bar> mod \<bar>align\<bar>) in Some (if r \<noteq> 0 then n + (align - r) else n)))"

definition window_size :: "int \<Rightarrow> int \<Rightarrow> int option" where
  "window_size max_size align =
     (if align = 0 then None
      else if \<bar>max_size\<bar> mod \<bar>align\<bar> \<noteq> 0
        then Some ((sgn max_size * sgn align * (\<bar>max_size\<bar> div \<bar>align\<bar>) + 1) * align) else Some max_size)"

text \<open>What the inner loop finds at the start of the window; \<open>dynamic\<close> is the flag of the file.\<close>

definition sig_match :: "bool \<Rightarrow> u32 \<Rightarrow> u32 \<Rightarrow> int \<Rightarrow> bytes \<Rightarrow> bool option" where
  "sig_match dynamic signature sign_mask sig_off tmp =
     (if sig_off < 0 \<or> int (length tmp) < sig_off + 4 then None
      else if (le_dec (seg (nat sig_off) 4 tmp) AND sign_mask) \<noteq> signature then Some False
      else if \<not> dynamic then Some False
      else (let dlen = unat (le_dec (seg 0 4 tmp) :: u32)
            in if length tmp < dlen + 4 then None
               else Some (le_dec (seg dlen 4 tmp) = crc32 (take dlen tmp) 0)))"

partial_function (option) sig_inner ::
  "bool \<Rightarrow> u32 \<Rightarrow> u32 \<Rightarrow> int \<Rightarrow> int \<Rightarrow> bytes \<Rightarrow> int \<Rightarrow> int \<Rightarrow> int list option" where
  \<comment> \<open>\<open>pSign\<close> stays where it is\<close>
  "sig_inner dynamic signature sign_mask sig_off align tmp offset n =
     (if n > sig_off + 4
      then Option.bind (sig_match dynamic signature sign_mask sig_off tmp) (\<lambda>hit.
             Option.bind (sig_inner dynamic signature sign_mask sig_off align tmp offset
                            (n - (if align > 0 then align else 0)))
               (\<lambda>rest. Some (if hit then offset # rest else rest)))
      else Some [])"

definition window_read :: "int \<Rightarrow> int \<Rightarrow> base_file \<Rightarrow> os_file \<Rightarrow> int" where
  \<comment> \<open>what \<open>read\<close> returns\<close>
  "window_read offset max_size f os =
     (if fd_open f then max 0 (min max_size (fsize os - offset)) else - 1)"

partial_function (option) sig_outer ::
  "u32 \<Rightarrow> u32 \<Rightarrow> int \<Rightarrow> int \<Rightarrow> base_file \<Rightarrow> os_file \<Rightarrow> bytes \<Rightarrow> int \<Rightarrow> int list option" where
  "sig_outer signature sign_mask sig_off max_size f os tmp offset =
     (if offset > 0
      then (let offset = (if offset > max_size then offset - max_size else 0);
                n = window_read offset max_size f os;
                tmp = (if n > 0 then overlay (seg (nat offset) (nat n) (fbytes os)) tmp else tmp)
            in Option.bind (sig_inner (has_flag (bflags f) F_CSFILE_DYNAMIC) signature sign_mask sig_off
                              (alignment f) tmp offset n) (\<lambda>found.
               Option.bind (sig_outer signature sign_mask sig_off max_size f os tmp offset)
                 (\<lambda>rest. Some (found @ rest))))
      else Some [])"

definition findLastSignatureReg ::
  "bytes \<Rightarrow> int \<Rightarrow> u32 \<Rightarrow> u32 \<Rightarrow> int \<Rightarrow> base_file \<Rightarrow> os_file \<Rightarrow> int list option" where
  \<comment> \<open>\<open>fresh\<close>: the bytes of the block that \<open>malloc\<close> returns, as many as are asked for\<close>
  "findLastSignatureReg fresh max_size signature sign_mask sig_off f os =
     do { offset \<leftarrow> round_up (if fd_open f then fsize os else - 1) (alignment f);
          max_size \<leftarrow> window_size max_size (alignment f);
          sig_outer signature sign_mask sig_off max_size f os (take (nat max_size) fresh) offset }"

declare sig_inner.simps [code] sig_outer.simps [code]

text \<open>In a file of fixed records nothing is ever found, and the scan ends.\<close>

lemma sig_match_fixed:
  "0 \<le> sig_off \<Longrightarrow> sig_off + 4 \<le> int (length tmp) \<Longrightarrow> sig_match False signature sign_mask sig_off tmp = Some False"
  by (simp add: sig_match_def)

lemma sig_inner_fixed:
  assumes "0 < align" "0 \<le> sig_off" "n \<le> int (length tmp)"
  shows "sig_inner False signature sign_mask sig_off align tmp offset n = Some []"
  using assms(3)
proof (induction "nat n" arbitrary: n rule: less_induct)
  case less
  show ?case
  proof (cases "n > sig_off + 4")
    case True
    then have "nat (n - align) < nat n"
      using assms by simp
    then have "sig_inner False signature sign_mask sig_off align tmp offset (n - align) = Some []"
      using less assms(1) by simp
    then show ?thesis
      using True less(2) assms by (subst sig_inner.simps) (simp add: sig_match_fixed)
  qed (subst sig_inner.simps, simp)
qed

lemma sig_outer_fixed:
  assumes "\<not> has_flag (bflags f) F_CSFILE_DYNAMIC" "0 < alignment f" "0 \<le> sig_off" "0 < max_size"
    and "length tmp = nat max_size"
  shows "sig_outer signature sign_mask sig_off max_size f os tmp offset = Some []"
  using assms(5)
proof (induction "nat offset" arbitrary: offset tmp rule: less_induct)
  case less
  show ?case
  proof (cases "offset > 0")
    case True
    define off where "off = (if offset > max_size then offset - max_size else 0)"
    define n where "n = window_read off max_size f os"
    define tmp' where "tmp' = (if n > 0 then overlay (seg (nat off) (nat n) (fbytes os)) tmp else tmp)"
    have n: "n \<le> max_size" "0 < n \<Longrightarrow> off + n \<le> fsize os" "0 \<le> off"
      using assms(4) by (auto simp: n_def window_read_def off_def)
    then have "0 < n \<Longrightarrow> length (seg (nat off) (nat n) (fbytes os)) = nat n"
      by (simp add: length_seg fsize_def nat_le_iff flip: nat_add_distrib)
    then have tmp': "length tmp' = nat max_size"
      using less(2) n(1) by (simp add: tmp'_def overlay_def)
    have "nat off < nat offset"
      using True assms(4) by (auto simp: off_def)
    then have "sig_outer signature sign_mask sig_off max_size f os tmp' off = Some []"
      using less(1) tmp' by blast
    moreover have "sig_inner False signature sign_mask sig_off (alignment f) tmp' off n = Some []"
      using assms n(1) tmp' by (intro sig_inner_fixed) simp_all
    ultimately show ?thesis
      using True assms(1) by (subst sig_outer.simps) (auto simp: Let_def tmp'_def simp flip: off_def n_def)
  qed (subst sig_outer.simps, simp)
qed

text \<open>
  A window that holds exactly one dynamic record: its length field counts the checksum, so the scan looks for
  the checksum behind the record, outside the buffer.
\<close>

lemma scan_reads_past_record:
  assumes "le_dec (seg (nat sig_off) 4 (dyn_rec p)) AND sign_mask = signature" "0 \<le> sig_off"
    and "sig_off + 4 < int (length (dyn_rec p))" "is_i32 (int (length p) + 8)"
  shows "sig_inner True signature sign_mask sig_off align (dyn_rec p) offset (int (length (dyn_rec p))) = None"
proof -
  have "le_dec (seg 0 4 (dyn_rec p)) = (word_of_int (int (length p) + 8) :: u32)"
    by (simp add: dyn_rec_def fixed_rec_def seg_def enc_i32_def le_dec_le_enc_full)
  moreover have "length (dyn_rec p) = length p + 8"
    by (simp add: dyn_rec_def fixed_rec_def)
  moreover have "unat (word_of_nat (length p + 8) :: u32) = length p + 8"
    using assms(4) by (simp only: unsigned_of_nat) (simp add: is_i32_def take_bit_nat_eq_self_iff)
  then have "unat (word_of_int (int (length p) + 8) :: u32) = length p + 8"
    using of_int_of_nat_eq [of "length p + 8", where 'a = "32 word"] by simp
  ultimately have "sig_match True signature sign_mask sig_off (dyn_rec p) = None"
    using assms(1,2) by (simp add: sig_match_def)
  then show ?thesis
    using assms(3) by (subst sig_inner.simps) simp
qed

end
