(* ===== verification/Storage_Types.thy ===== *)
theory Storage_Types
  imports Prelude
begin

text \<open>
  The packed structures of src/src/include/safe_storage_imp.h as records, with their layout
  in memory and on disk (little endian, no padding): a structure goes to a file through its \<open>enc\<close> function and
  comes back through its \<open>dec\<close> function; its \<open>well\<close> predicate says that every field fits its C type; for such a value the
  two are inverse. Then the four files of a storage and the constants of
  src/include/safe_storage.h.
\<close>

subsection \<open>Constants\<close>

definition E_CSTORAGE_OK :: int where "E_CSTORAGE_OK = 0"
definition E_CSTORAGE_ERROR :: int where "E_CSTORAGE_ERROR = - 500"
definition E_CSTORAGE_CREATE_FILE_EXISTS :: int where "E_CSTORAGE_CREATE_FILE_EXISTS = - 502"
definition E_CSTORAGE_OPEN_FILE_NO_ACCESS :: int where "E_CSTORAGE_OPEN_FILE_NO_ACCESS = - 503"
definition E_CSTORAGE_DATA_READ :: int where "E_CSTORAGE_DATA_READ = - 504"
definition E_CSTORAGE_SERIAL_NOT_FOUND :: int where "E_CSTORAGE_SERIAL_NOT_FOUND = - 505"
definition E_CSTORAGE_NO_ROLLBACK_IN_AUTOCOMMIT :: int where
  "E_CSTORAGE_NO_ROLLBACK_IN_AUTOCOMMIT = - 508"
definition E_CSTORAGE_SEQUENCE_NOT_FOUND :: int where "E_CSTORAGE_SEQUENCE_NOT_FOUND = - 509"
definition E_CSTORAGE_NOT_ENOUGH_DATA :: int where "E_CSTORAGE_NOT_ENOUGH_DATA = - 516"
definition E_CSTORAGE_NOT_VALID_DATA :: int where "E_CSTORAGE_NOT_VALID_DATA = - 517"

lemmas cstorage_errors = E_CSTORAGE_OK_def E_CSTORAGE_ERROR_def E_CSTORAGE_CREATE_FILE_EXISTS_def
  E_CSTORAGE_OPEN_FILE_NO_ACCESS_def E_CSTORAGE_DATA_READ_def E_CSTORAGE_SERIAL_NOT_FOUND_def
  E_CSTORAGE_NO_ROLLBACK_IN_AUTOCOMMIT_def E_CSTORAGE_SEQUENCE_NOT_FOUND_def
  E_CSTORAGE_NOT_ENOUGH_DATA_def E_CSTORAGE_NOT_VALID_DATA_def

definition F_CSTORAGE_WR :: u32 where "F_CSTORAGE_WR = 0x1"
definition F_CSTORAGE_CREATE :: u32 where "F_CSTORAGE_CREATE = 0x2"
definition F_CSTORAGE_SET_HASH_KEY :: u32 where "F_CSTORAGE_SET_HASH_KEY = 0x1000"
definition F_CSTORAGE_AUTO_COMMIT :: u32 where "F_CSTORAGE_AUTO_COMMIT = 0x10000"
definition F_CSTORAGE_READ_MODE_MASK :: u32 where "F_CSTORAGE_READ_MODE_MASK = 0x300000"
definition F_CSTORAGE_DIRTY_READ :: u32 where "F_CSTORAGE_DIRTY_READ = 0x100000"

definition E_CSTORAGE_FAIL_HK_INDEX :: int where "E_CSTORAGE_FAIL_HK_INDEX = 1"
definition E_CSTORAGE_FAIL_HK_STATE :: int where "E_CSTORAGE_FAIL_HK_STATE = 2"
definition E_CSTORAGE_FAIL_HK_LOG :: int where "E_CSTORAGE_FAIL_HK_LOG = 4"

definition T_CSTORAGE_COMMIT :: u32 where "T_CSTORAGE_COMMIT = 1"
definition T_CSTORAGE_WRITE :: u32 where "T_CSTORAGE_WRITE = 2"
definition T_CSTORAGE_ROLLBACK_BEGIN :: u32 where "T_CSTORAGE_ROLLBACK_BEGIN = 3"
definition T_CSTORAGE_ROLLBACK_END :: u32 where "T_CSTORAGE_ROLLBACK_END = 4"
definition T_CSTORAGE_STATUS :: u32 where "T_CSTORAGE_STATUS = 5"

lemmas cstorage_types = T_CSTORAGE_COMMIT_def T_CSTORAGE_WRITE_def T_CSTORAGE_ROLLBACK_BEGIN_def
  T_CSTORAGE_ROLLBACK_END_def T_CSTORAGE_STATUS_def

definition CSTORAGE_SIGNATURE :: u32 where "CSTORAGE_SIGNATURE = 0x51213298"
definition CSTORAGE_SIGNATURE_TYPE_MASK :: u32 where "CSTORAGE_SIGNATURE_TYPE_MASK = 0x00000007"
definition CSTORAGE_SIGNATURE_SIGN_MASK :: u32 where "CSTORAGE_SIGNATURE_SIGN_MASK = 0xFFFFFFF8"
definition F_CSTORAGE_DF_AUTO_COMMIT :: byte where "F_CSTORAGE_DF_AUTO_COMMIT = 0x01"
definition C_STORAGE_STATUS_FREQ :: int where "C_STORAGE_STATUS_FREQ = 50"
definition N_SS_LAST_OFFSETS :: int where "N_SS_LAST_OFFSETS = 16"

subsection \<open>The data record\<close>

record data_reg =
  r_signature :: u32
  r_serial :: int
  r_sequence :: int
  r_len :: int
  r_flags :: byte

definition zero_data :: data_reg where
  "zero_data = \<lparr>r_signature = 0, r_serial = 0, r_sequence = 0, r_len = 0, r_flags = 0\<rparr>"

definition enc_data :: "data_reg \<Rightarrow> bytes" where
  "enc_data r = le_enc 4 (r_signature r) @ enc_i32 (r_serial r) @ enc_i32 (r_sequence r)
     @ enc_i32 (r_len r) @ [r_flags r]"

definition dec_data :: "bytes \<Rightarrow> data_reg" where
  "dec_data bs = \<lparr>r_signature = le_dec (seg 0 4 bs), r_serial = dec_i32 (seg 4 4 bs),
     r_sequence = dec_i32 (seg 8 4 bs), r_len = dec_i32 (seg 12 4 bs), r_flags = bs ! 16\<rparr>"

definition well_data :: "data_reg \<Rightarrow> bool" where
  "well_data r \<longleftrightarrow> is_i32 (r_serial r) \<and> is_i32 (r_sequence r) \<and> is_i32 (r_len r)"

subsection \<open>The index record: two versions of a serial\<close>

text \<open>An array of two is a pair, indexed by \<open>at2\<close> and \<open>set2\<close>.\<close>

definition at2 :: "'a \<times> 'a \<Rightarrow> int \<Rightarrow> 'a" where
  "at2 p i = (if i = 0 then fst p else snd p)"

definition set2 :: "'a \<times> 'a \<Rightarrow> int \<Rightarrow> 'a \<Rightarrow> 'a \<times> 'a" where
  "set2 p i x = (if i = 0 then (x, snd p) else (fst p, x))"

record index_reg =
  x_offsets :: "int \<times> int"
  x_sequences :: "int \<times> int"
  x_flags :: "byte \<times> byte"

definition zero_index :: index_reg where
  "zero_index = \<lparr>x_offsets = (0, 0), x_sequences = (0, 0), x_flags = (0, 0)\<rparr>"

definition enc_index :: "index_reg \<Rightarrow> bytes" where
  "enc_index r = enc_i64 (fst (x_offsets r)) @ enc_i64 (snd (x_offsets r))
     @ enc_i32 (fst (x_sequences r)) @ enc_i32 (snd (x_sequences r)) @ [fst (x_flags r), snd (x_flags r)]"

definition dec_index :: "bytes \<Rightarrow> index_reg" where
  "dec_index bs = \<lparr>x_offsets = (dec_i64 (seg 0 8 bs), dec_i64 (seg 8 8 bs)),
     x_sequences = (dec_i32 (seg 16 4 bs), dec_i32 (seg 20 4 bs)), x_flags = (bs ! 24, bs ! 25)\<rparr>"

definition well_index :: "index_reg \<Rightarrow> bool" where
  "well_index r \<longleftrightarrow> is_i64 (fst (x_offsets r)) \<and> is_i64 (snd (x_offsets r))
     \<and> is_i32 (fst (x_sequences r)) \<and> is_i32 (snd (x_sequences r))"

subsection \<open>The log record\<close>

record log_reg =
  l_offset :: int
  l_serial :: int
  l_type :: byte

definition zero_log :: log_reg where
  "zero_log = \<lparr>l_offset = 0, l_serial = 0, l_type = 0\<rparr>"

definition enc_log :: "log_reg \<Rightarrow> bytes" where
  "enc_log r = enc_i64 (l_offset r) @ enc_i32 (l_serial r) @ [l_type r]"

definition dec_log :: "bytes \<Rightarrow> log_reg" where
  "dec_log bs = \<lparr>l_offset = dec_i64 (seg 0 8 bs), l_serial = dec_i32 (seg 8 4 bs), l_type = bs ! 12\<rparr>"

definition well_log :: "log_reg \<Rightarrow> bool" where
  "well_log r \<longleftrightarrow> is_i64 (l_offset r) \<and> is_i32 (l_serial r)"

subsection \<open>The state record\<close>

record st_reg =
  st_hash_key :: u32
  st_last_updated :: u32
  st_count :: int
  st_commit_count :: int
  st_rollback_begin_count :: int
  st_rollback_end_count :: int
  st_data_count :: int
  st_last_offset_index :: int
  st_last_commit_sequence :: int
  st_last_rollback_sequence :: int
  st_last_close_sequence :: int
  st_last_sequence :: int
  st_last_close_offset :: "64 word"
  st_last_offsets :: "64 word list"

definition zero_state :: st_reg where
  "zero_state = \<lparr>st_hash_key = 0, st_last_updated = 0, st_count = 0, st_commit_count = 0,
     st_rollback_begin_count = 0, st_rollback_end_count = 0, st_data_count = 0, st_last_offset_index = 0,
     st_last_commit_sequence = 0, st_last_rollback_sequence = 0, st_last_close_sequence = 0,
     st_last_sequence = 0, st_last_close_offset = 0, st_last_offsets = replicate 16 0\<rparr>"

fun enc_words :: "64 word list \<Rightarrow> bytes" where
  "enc_words [] = []"
| "enc_words (w # ws) = le_enc 8 w @ enc_words ws"

fun dec_words :: "nat \<Rightarrow> bytes \<Rightarrow> 64 word list" where
  "dec_words 0 bs = []"
| "dec_words (Suc n) bs = le_dec (take 8 bs) # dec_words n (drop 8 bs)"

definition enc_state :: "st_reg \<Rightarrow> bytes" where
  "enc_state s = le_enc 4 (st_hash_key s) @ le_enc 4 (st_last_updated s) @ enc_i32 (st_count s)
     @ enc_i32 (st_commit_count s) @ enc_i32 (st_rollback_begin_count s) @ enc_i32 (st_rollback_end_count s)
     @ enc_i32 (st_data_count s) @ [word_of_int (st_last_offset_index s)]
     @ enc_i32 (st_last_commit_sequence s) @ enc_i32 (st_last_rollback_sequence s)
     @ enc_i32 (st_last_close_sequence s) @ enc_i32 (st_last_sequence s)
     @ le_enc 8 (st_last_close_offset s) @ enc_words (st_last_offsets s)"

definition dec_state :: "bytes \<Rightarrow> st_reg" where
  "dec_state bs = \<lparr>st_hash_key = le_dec (seg 0 4 bs), st_last_updated = le_dec (seg 4 4 bs),
     st_count = dec_i32 (seg 8 4 bs), st_commit_count = dec_i32 (seg 12 4 bs),
     st_rollback_begin_count = dec_i32 (seg 16 4 bs), st_rollback_end_count = dec_i32 (seg 20 4 bs),
     st_data_count = dec_i32 (seg 24 4 bs), st_last_offset_index = sint (bs ! 28),
     st_last_commit_sequence = dec_i32 (seg 29 4 bs), st_last_rollback_sequence = dec_i32 (seg 33 4 bs),
     st_last_close_sequence = dec_i32 (seg 37 4 bs), st_last_sequence = dec_i32 (seg 41 4 bs),
     st_last_close_offset = le_dec (seg 45 8 bs), st_last_offsets = dec_words 16 (seg 53 128 bs)\<rparr>"

definition well_state :: "st_reg \<Rightarrow> bool" where
  "well_state s \<longleftrightarrow> is_i32 (st_count s) \<and> is_i32 (st_commit_count s) \<and> is_i32 (st_rollback_begin_count s)
     \<and> is_i32 (st_rollback_end_count s) \<and> is_i32 (st_data_count s)
     \<and> - 128 \<le> st_last_offset_index s \<and> st_last_offset_index s \<le> 127
     \<and> is_i32 (st_last_commit_sequence s) \<and> is_i32 (st_last_rollback_sequence s)
     \<and> is_i32 (st_last_close_sequence s) \<and> is_i32 (st_last_sequence s) \<and> length (st_last_offsets s) = 16"

text \<open>
  The union of a header record (\<open>CSafeStorageHashReg\<close>): 26 bytes, the size of its largest
  member; the key is the first four.
\<close>

definition h_size :: nat where "h_size = 26"

definition h_set :: "u32 \<Rightarrow> bytes" where
  "h_set key = le_enc 4 key @ replicate 22 0"

definition h_key :: "bytes \<Rightarrow> u32" where
  "h_key h = le_dec (take 4 h)"

subsection \<open>Layout facts\<close>

lemma seg_front [codec_simps]: "length a = n \<Longrightarrow> seg 0 n (a @ b) = a"
  by (simp add: seg_def)

lemma seg_skip: "length a \<le> k \<Longrightarrow> seg k n (a @ b) = seg (k - length a) n b"
  by (simp add: seg_def)

lemma seg_skip_cons: "0 < k \<Longrightarrow> seg k n (x # xs) = seg (k - 1) n xs"
  by (cases k) (simp_all add: seg_def)

lemma nth_skip: "length a \<le> k \<Longrightarrow> (a @ b) ! k = b ! (k - length a)"
  by (simp add: nth_append)

lemma length_enc_words [simp]: "length (enc_words ws) = 8 * length ws"
  by (induction ws) auto

lemma length_encs [simp]:
  "length (enc_data r) = 17" "length (enc_index i) = 26" "length (enc_log l) = 13"
  "length (h_set k) = 26" "length (st_last_offsets s) = 16 \<Longrightarrow> length (enc_state s) = 181"
  by (simp_all add: enc_data_def enc_index_def enc_log_def enc_state_def h_set_def)

lemma dec_enc_data [codec_simps]: "well_data r \<Longrightarrow> dec_data (enc_data r) = r"
  by (simp add: dec_data_def enc_data_def seg_front seg_skip seg_skip_cons nth_skip dec_enc_i32
      le_dec_le_enc_full well_data_def)

lemma dec_enc_index [codec_simps]: "well_index r \<Longrightarrow> dec_index (enc_index r) = r"
  by (simp add: dec_index_def enc_index_def seg_front seg_skip seg_skip_cons nth_skip dec_enc_i32 dec_enc_i64
      well_index_def)

lemma dec_enc_log [codec_simps]: "well_log r \<Longrightarrow> dec_log (enc_log r) = r"
  by (simp add: dec_log_def enc_log_def seg_front seg_skip seg_skip_cons nth_skip dec_enc_i32 dec_enc_i64
      well_log_def)

lemma dec_enc_words [codec_simps]: "length ws = n \<Longrightarrow> dec_words n (enc_words ws) = ws"
  by (induction ws arbitrary: n) (auto simp: le_dec_le_enc_full)

lemma sint_byte: "- 128 \<le> x \<Longrightarrow> x \<le> 127 \<Longrightarrow> sint (word_of_int x :: byte) = x"
  by (simp add: sint_sbintrunc' signed_take_bit_id)

lemma dec_enc_state [codec_simps]: "well_state s \<Longrightarrow> dec_state (enc_state s) = s"
  by (simp add: dec_state_def enc_state_def seg_front seg_skip seg_skip_cons nth_skip dec_enc_i32
      dec_enc_words le_dec_le_enc_full sint_byte well_state_def)

lemma well_dec [simp]: "well_data (dec_data bs)" "well_index (dec_index bs)" "well_log (dec_log bs)"
  by (simp_all add: dec_data_def dec_index_def dec_log_def well_data_def well_index_def well_log_def)

lemma length_dec_words [simp]: "length (dec_words n bs) = n"
  by (induction n arbitrary: bs) auto

lemma well_dec_state [simp]: "well_state (dec_state bs)"
  using sint_lt [of "bs ! 28"] sint_ge [of "bs ! 28"] by (simp add: dec_state_def well_state_def)

lemma well_zero [simp]: "well_data zero_data" "well_index zero_index" "well_log zero_log"
  "well_state zero_state"
  by (simp_all add: zero_data_def zero_index_def zero_log_def zero_state_def well_data_def
      well_index_def well_log_def well_state_def is_i32_def is_i64_def)

lemma h_key_set [codec_simps]: "h_key (h_set k) = k"
  by (simp add: h_key_def h_set_def le_dec_le_enc_full)

subsection \<open>The four files\<close>

datatype file_id = DataF | IndexF | LogF | StateF

instantiation file_id :: enum
begin

definition "enum_file_id = [DataF, IndexF, LogF, StateF]"
definition "enum_all_file_id P \<longleftrightarrow> P DataF \<and> P IndexF \<and> P LogF \<and> P StateF"
definition "enum_ex_file_id P \<longleftrightarrow> P DataF \<or> P IndexF \<or> P LogF \<or> P StateF"

instance
proof
  have u: "UNIV = {DataF, IndexF, LogF, StateF}"
    using file_id.exhaust by auto
  show "UNIV = set (enum_class.enum :: file_id list)"
    by (simp add: enum_file_id_def u)
  show "distinct (enum_class.enum :: file_id list)"
    by (simp add: enum_file_id_def)
  show "enum_class.enum_all P \<longleftrightarrow> Ball UNIV P" for P :: "file_id \<Rightarrow> bool"
    unfolding u by (simp add: enum_all_file_id_def)
  show "enum_class.enum_ex P \<longleftrightarrow> Bex UNIV P" for P :: "file_id \<Rightarrow> bool"
    unfolding u by (simp add: enum_ex_file_id_def)
qed

end

lemma all_files: "(\<forall>k. P k) \<longleftrightarrow> P DataF \<and> P IndexF \<and> P LogF \<and> P StateF"
  by (metis file_id.exhaust)

definition extension :: "file_id \<Rightarrow> string" where
  "extension k = (case k of DataF \<Rightarrow> '''' | IndexF \<Rightarrow> ''.idx'' | LogF \<Rightarrow> ''.rlg'' | StateF \<Rightarrow> ''.st'')"

definition rec_size :: "file_id \<Rightarrow> nat" where
  "rec_size k = (case k of DataF \<Rightarrow> 17 | IndexF \<Rightarrow> 26 | LogF \<Rightarrow> 13 | StateF \<Rightarrow> 181)"

lemma rec_size_simps [simp]:
  "rec_size DataF = 17" "rec_size IndexF = 26" "rec_size LogF = 13" "rec_size StateF = 181"
  by (simp_all add: rec_size_def)

end
