(* ===== verification/Storage.thy ===== *)
theory Storage
  imports Storage_Types Safe_File
begin

text \<open>
  src/src/lib/safe_storage.cpp: the class \<open>CSafeStorage\<close>, four files with one name prefix and
  an in-memory state. \<open>storage\<close> is the object, \<open>disk\<close> the four files of its prefix; \<open>files\<close>
  are the members \<open>fdata\<close>, \<open>findex\<close>, \<open>flog\<close> and \<open>fstate\<close>, indexed by \<open>file_id\<close> in the order in
  which the constructor lists them. \<open>dirtySerials\<close> holds the entries below \<open>dirtySerialIndex\<close>.

  An operation returns \<open>None\<close> when the call does not return to its caller: it accessed memory
  outside every buffer, let an exception escape, or never ends. Calls of \<open>sync\<close> (\<open>fsync\<close>) have
  no effect on the contents and are left out, as is logging.
\<close>

type_synonym disk = "file_id \<Rightarrow> os_file"

record storage =
  files :: "file_id \<Rightarrow> base_file"
  dirtySerials :: "int list"
  dirtySerialSize :: int
  cursor :: int
  state :: st_reg
  ss_last_offset :: int
  fauto_commit :: bool
  rdwr :: bool
  rebuilding :: bool

definition all_ids :: "file_id list" where
  "all_ids = [DataF, IndexF, LogF, StateF]"

definition D_DELTA_PAGE :: int where "D_DELTA_PAGE = 1024"
definition D_CSTORAGE_DATA_INIT_SIZE :: int where "D_CSTORAGE_DATA_INIT_SIZE = 32 * 1024"
definition D_CSTORAGE_DATA_DELTA_SIZE :: int where "D_CSTORAGE_DATA_DELTA_SIZE = 16 * 1024"

definition ss_new :: storage where
  "ss_new = \<lparr>files = (\<lambda>k. case k of
        DataF \<Rightarrow> sf_new 17 0 0 D_CSTORAGE_DATA_INIT_SIZE D_CSTORAGE_DATA_DELTA_SIZE 1
      | IndexF \<Rightarrow> sf_new 26 0 0 0 D_DELTA_PAGE 1
      | LogF \<Rightarrow> sf_new 13 0 0 0 D_DELTA_PAGE 1
      | StateF \<Rightarrow> sf_new 181 0 0 0 D_DELTA_PAGE 1),
     dirtySerials = [], dirtySerialSize = 0, cursor = - 1, state = zero_state,
     ss_last_offset = 0, fauto_commit = False, rdwr = False, rebuilding = False\<rparr>"

subsection \<open>Access to the files\<close>

definition ret_of :: "outcome \<Rightarrow> int option" where
  "ret_of r = (case r of Ret n \<Rightarrow> Some n | _ \<Rightarrow> None)"

definition set_file :: "file_id \<Rightarrow> base_file \<Rightarrow> storage \<Rightarrow> storage" where
  "set_file k f s = s\<lparr>files := (files s)(k := f)\<rparr>"

definition io_read :: "file_id \<Rightarrow> int \<Rightarrow> bytes \<Rightarrow> storage \<Rightarrow> disk \<Rightarrow> (int \<times> bytes \<times> storage) option" where
  "io_read k loff buf s d =
     (let (r, b, f) = sf_read (rec_size k) loff 0 buf (files s k) (d k)
      in do { n \<leftarrow> ret_of r; Some (n, b, set_file k f s) })"

definition io_readIndex ::
  "file_id \<Rightarrow> int \<Rightarrow> bytes \<Rightarrow> storage \<Rightarrow> disk \<Rightarrow> (int \<times> bytes \<times> storage) option" where
  "io_readIndex k index buf s d =
     (let (r, b, f) = sf_readIndex (rec_size k) index buf (files s k) (d k)
      in do { n \<leftarrow> ret_of r; Some (n, b, set_file k f s) })"

definition io_read_data ::
  "int \<Rightarrow> bytes \<Rightarrow> bytes \<Rightarrow> u32 \<Rightarrow> storage \<Rightarrow> disk \<Rightarrow> (int \<times> bytes \<times> bytes \<times> storage) option" where
  "io_read_data loff buf ddata dlen s d =
     (let (r, b, q, f) = sf_read_data (rec_size DataF) loff buf ddata dlen (files s DataF) (d DataF)
      in do { n \<leftarrow> ret_of r; Some (n, b, q, set_file DataF f s) })"

definition io_write :: "file_id \<Rightarrow> int \<Rightarrow> bytes \<Rightarrow> storage \<Rightarrow> disk \<Rightarrow> (int \<times> storage \<times> disk) option" where
  "io_write k loff data s d =
     (let (r, f, os) = sf_write (rec_size k) loff data (files s k) (d k)
      in do { n \<leftarrow> ret_of r; Some (n, set_file k f s, d(k := os)) })"

definition io_writeIndex ::
  "file_id \<Rightarrow> int \<Rightarrow> bytes \<Rightarrow> storage \<Rightarrow> disk \<Rightarrow> (int \<times> storage \<times> disk) option" where
  "io_writeIndex k index data s d =
     (let (r, f, os) = sf_writeIndex (rec_size k) index data (files s k) (d k)
      in do { n \<leftarrow> ret_of r; Some (n, set_file k f s, d(k := os)) })"

definition io_append ::
  "bytes \<Rightarrow> bytes option \<Rightarrow> u32 \<Rightarrow> storage \<Rightarrow> disk \<Rightarrow> (int \<times> storage \<times> disk) option" where
  "io_append data ddata dlen s d =
     (let (r, f, os) = sf_append (rec_size DataF) data ddata dlen (files s DataF) (d DataF)
      in do { n \<leftarrow> ret_of r; Some (n, set_file DataF f s, d(DataF := os)) })"

subsection \<open>State file\<close>

definition saveState :: "storage \<Rightarrow> disk \<Rightarrow> (storage \<times> disk) option" where
  "saveState s d =
     (if rebuilding s \<or> \<not> rdwr s then Some (s, d)
      else do { (r, s, d) \<leftarrow> io_write StateF 0 (enc_state (state s)) s d; Some (s, d) })"

definition loadState :: "storage \<Rightarrow> disk \<Rightarrow> storage option" where
  "loadState s d =
     do { (r, b, s) \<leftarrow> io_read StateF 0 (enc_state (state s)) s d;
          Some (s\<lparr>state := dec_state b\<rparr>) }"

subsection \<open>Dirty serials\<close>

definition C_DIRTY_SERIAL_SIZE :: int where "C_DIRTY_SERIAL_SIZE = 4 * 1024"

definition clearDirtySerials :: "storage \<Rightarrow> storage" where
  "clearDirtySerials s = s\<lparr>dirtySerials := []\<rparr>"

definition addDirtySerial :: "int \<Rightarrow> storage \<Rightarrow> storage" where
  "addDirtySerial serial s =
     (let s = (if int (length (dirtySerials s)) \<ge> dirtySerialSize s
               then s\<lparr>dirtySerialSize := dirtySerialSize s + C_DIRTY_SERIAL_SIZE\<rparr> else s)
      in s\<lparr>dirtySerials := dirtySerials s @ [serial]\<rparr>)"

subsection \<open>Index records\<close>

definition setOldestOffset :: "index_reg \<Rightarrow> int \<Rightarrow> int \<Rightarrow> byte \<Rightarrow> bool \<Rightarrow> index_reg" where
  "setOldestOffset index offset sequence flags init =
     (if init
      then \<lparr>x_offsets = (offset, - 1), x_sequences = (sequence, 0), x_flags = (flags, 0)\<rparr>
      else (let pos = (if snd (x_sequences index) > fst (x_sequences index) then 0 else 1)
            in \<lparr>x_offsets = set2 (x_offsets index) pos offset,
                x_sequences = set2 (x_sequences index) pos sequence,
                x_flags = set2 (x_flags index) pos flags\<rparr>))"

text \<open>The source stores \<open>offset\<close>, not \<open>sequence\<close>, as the sequence.\<close>

definition setNewestOffset :: "index_reg \<Rightarrow> int \<Rightarrow> int \<Rightarrow> byte \<Rightarrow> index_reg" where
  "setNewestOffset index offset sequence flags =
     (let pos = (if snd (x_sequences index) > fst (x_sequences index) then 1 else 0)
      in \<lparr>x_offsets = set2 (x_offsets index) pos offset,
          x_sequences = set2 (x_sequences index) pos (i32 offset),
          x_flags = set2 (x_flags index) pos flags\<rparr>)"

definition offset_step :: "index_reg \<Rightarrow> int \<Rightarrow> bool \<Rightarrow> int \<times> int \<Rightarrow> int \<Rightarrow> int \<times> int" where
  "offset_step index commit_seq dirtyRead = (\<lambda>(result, lastseq) i.
     if at2 (x_sequences index) i \<ge> lastseq
        \<and> (at2 (x_flags index) i AND F_CSTORAGE_DF_AUTO_COMMIT \<noteq> 0
           \<or> at2 (x_sequences index) i \<le> commit_seq \<or> dirtyRead)
     then (at2 (x_offsets index) i, at2 (x_sequences index) i)
     else (result, lastseq))"

definition getLastOffset :: "index_reg \<Rightarrow> u32 \<Rightarrow> storage \<Rightarrow> int" where
  "getLastOffset index flags s =
     (let dirtyRead = (has_flag flags F_CSTORAGE_READ_MODE_MASK \<or> rdwr s)
      in fst (foldl (offset_step index (st_last_commit_sequence (state s)) dirtyRead) (- 1, 0) [0, 1]))"

subsection \<open>Appending a record to the data file\<close>

definition writeData ::
  "data_reg \<Rightarrow> bytes option \<Rightarrow> u32 \<Rightarrow> storage \<Rightarrow> disk \<Rightarrow> (int \<times> storage \<times> disk) option" where
  "writeData r_data data dlen s d =
     do { (result, s, d) \<leftarrow> (if rebuilding s then Some (0, s, d)
                             else io_append (enc_data r_data) data dlen s d);
          if result < 0 then Some (result, s, d)
          else
            let st = state s;
                i = (st_last_offset_index st + 1) mod N_SS_LAST_OFFSETS;
                offset = (word_of_int (last_offset (files s DataF)) :: 64 word)
            in Some (sint offset,
                     s\<lparr>state := st\<lparr>st_last_offset_index := i,
                                   st_last_offsets := (st_last_offsets st)[nat i := offset]\<rparr>\<rparr>, d) }"

subsection \<open>\<open>writeFiles\<close>\<close>

definition tick :: "int \<Rightarrow> storage \<Rightarrow> storage" where
  \<comment> \<open>\<open>++state.count; state.last_sequence = \<dots>\<close>\<close>
  "tick seq s = s\<lparr>state := (state s)\<lparr>st_count := i32 (st_count (state s) + 1), st_last_sequence := seq\<rparr>\<rparr>"

definition record_type :: "data_reg \<Rightarrow> u32" where
  "record_type r_data = r_signature r_data AND CSTORAGE_SIGNATURE_TYPE_MASK"

definition writeSyncStateLogSync :: "log_reg \<Rightarrow> storage \<Rightarrow> disk \<Rightarrow> (storage \<times> disk) option" where
  "writeSyncStateLogSync r_log s d =
     do { (r, s, d) \<leftarrow> io_writeIndex LogF (st_last_sequence (state s)) (enc_log r_log) s d; Some (s, d) }"

definition write_case ::
  "data_reg \<Rightarrow> bytes option \<Rightarrow> u32 \<Rightarrow> log_reg \<Rightarrow> storage \<Rightarrow> disk \<Rightarrow> ((int + int) \<times> storage \<times> disk) option" where
  \<comment> \<open>\<open>case T_CSTORAGE_WRITE\<close>: \<open>Inl\<close> is the early return, \<open>Inr\<close> the \<open>result\<close> at the \<open>break\<close>\<close>
  "write_case r_data data dlen r_log s d =
     do { (offset, s, d) \<leftarrow> writeData r_data data dlen s d;
          let r_log = r_log\<lparr>l_offset := offset\<rparr>;
              s = s\<lparr>state := (state s)\<lparr>st_data_count := i32 (st_data_count (state s) + 1)\<rparr>\<rparr>
          in do { (found, b, s) \<leftarrow> io_readIndex IndexF (r_serial r_data) (enc_index zero_index) s d;
                  let r_index = setOldestOffset (dec_index b) offset (r_sequence r_data)
                                  (r_flags r_data) (found < 0)
                  in if offset < 0 then Some (Inl (- 1), s, d)
                     else
                       let s = (if fauto_commit s then s else addDirtySerial (r_serial r_data) s)
                       in do { (s, d) \<leftarrow> saveState s d;
                               (r, s, d) \<leftarrow> io_writeIndex LogF (r_sequence r_data) (enc_log r_log) s d;
                               (r, s, d) \<leftarrow> io_writeIndex IndexF (r_serial r_data) (enc_index r_index) s d;
                               Some (Inr (sint dlen), s, d) } } }"

definition serial_at :: "bytes \<Rightarrow> nat \<Rightarrow> int option" where
  \<comment> \<open>\<open>serials[i]\<close>\<close>
  "serial_at mem i = (if 4 * i + 4 \<le> length mem then Some (dec_i32 (seg (4 * i) 4 mem)) else None)"

fun rollback_loop ::
  "nat \<Rightarrow> nat \<Rightarrow> bytes \<Rightarrow> index_reg \<Rightarrow> storage \<Rightarrow> disk \<Rightarrow> (storage \<times> disk) option" where
  "rollback_loop 0 index serials r_index s d = Some (s, d)"
| "rollback_loop (Suc n) index serials r_index s d =
     do { serial \<leftarrow> serial_at serials index;
          (r, b, s) \<leftarrow> io_readIndex IndexF serial (enc_index r_index) s d;
          let r_index = setNewestOffset (dec_index b) (- 1) 0 0
          in do { (r, s, d) \<leftarrow> io_writeIndex IndexF serial (enc_index r_index) s d;
                  rollback_loop n (Suc index) serials r_index s d } }"

definition rollback_begin_case ::
  "data_reg \<Rightarrow> bytes option \<Rightarrow> u32 \<Rightarrow> log_reg \<Rightarrow> storage \<Rightarrow> disk \<Rightarrow> (storage \<times> disk) option" where
  "rollback_begin_case r_data data dlen r_log s d =
     do { (r, s, d) \<leftarrow> writeData r_data data dlen s d;
          (s, d) \<leftarrow> writeSyncStateLogSync r_log s d;
          serials \<leftarrow> data;
          n \<leftarrow> serial_at serials 0;
          rollback_loop (nat n) 1 serials zero_index s d }"

definition rollback_end_case ::
  "data_reg \<Rightarrow> log_reg \<Rightarrow> storage \<Rightarrow> disk \<Rightarrow> (storage \<times> disk) option" where
  "rollback_end_case r_data r_log s d =
     do { (r, s, d) \<leftarrow> writeData r_data None 0 s d;
          writeSyncStateLogSync r_log s d }"

definition commit_case ::
  "data_reg \<Rightarrow> log_reg \<Rightarrow> storage \<Rightarrow> disk \<Rightarrow> (storage \<times> disk) option" where
  "commit_case r_data r_log s d =
     do { (offset, s, d) \<leftarrow> writeData r_data None 0 s d;
          let st = state s;
              s = s\<lparr>state := st\<lparr>st_commit_count := i32 (st_commit_count st + 1),
                               st_last_commit_sequence := r_sequence r_data\<rparr>\<rparr>
          in writeSyncStateLogSync (r_log\<lparr>l_offset := offset\<rparr>) s d }"

definition status_snapshot :: "storage \<Rightarrow> disk \<Rightarrow> (storage \<times> disk) option" where
  "status_snapshot s d =
     (if \<not> (0 \<le> st_count (state s) \<and> st_count (state s) mod C_STORAGE_STATUS_FREQ = C_STORAGE_STATUS_FREQ - 1)
      then Some (s, d)
      else
        let r_data = zero_data\<lparr>r_signature := CSTORAGE_SIGNATURE OR T_CSTORAGE_STATUS,
                               r_sequence := i32 (st_last_sequence (state s) + 1)\<rparr>;
            s = tick (r_sequence r_data) s
        in do { (offset, s, d) \<leftarrow> writeData r_data None 0 s d;
                (r, s, d) \<leftarrow> io_writeIndex LogF (st_last_sequence (state s))
                   (enc_log (zero_log\<lparr>l_serial := r_serial r_data, l_type := ucast T_CSTORAGE_STATUS,
                                      l_offset := offset\<rparr>)) s d;
                saveState s d })"

definition writeFiles ::
  "data_reg \<Rightarrow> bytes option \<Rightarrow> u32 \<Rightarrow> storage \<Rightarrow> disk \<Rightarrow> (int \<times> storage \<times> disk) option" where
  "writeFiles r_data data dlen s d =
     (let type = record_type r_data;
          s = tick (r_sequence r_data) s;
          r_log = zero_log\<lparr>l_serial := r_serial r_data, l_type := ucast type\<rparr>
      in do { (result, s, d) \<leftarrow>
                (if type = T_CSTORAGE_WRITE then write_case r_data data dlen r_log s d
                 else do { (s, d) \<leftarrow>
                             (if type = T_CSTORAGE_ROLLBACK_BEGIN then rollback_begin_case r_data data dlen r_log s d
                              else if type = T_CSTORAGE_ROLLBACK_END then rollback_end_case r_data r_log s d
                              else if type = T_CSTORAGE_COMMIT then commit_case r_data r_log s d
                              else Some (s, d));
                           Some (Inr E_CSTORAGE_OK, s, d) });
              case result of
                Inl r \<Rightarrow> Some (r, s, d)
              | Inr r \<Rightarrow> do { (s, d) \<leftarrow> status_snapshot s d; Some (r, s, d) } })"

end
