(* ===== verification/Storage_Ops.thy ===== *)
theory Storage_Ops
  imports Storage
begin

text \<open>
  The public operations of \<open>CSafeStorage\<close> (src/src/lib/safe_storage.cpp) on top of
  \<open>Storage.writeFiles\<close>: reading and writing, transactions, opening and creating, verification
  and rebuilding.
\<close>

subsection \<open>Writing, committing, rolling back\<close>

definition ss_write :: "int \<Rightarrow> bytes option \<Rightarrow> u32 \<Rightarrow> storage \<Rightarrow> disk \<Rightarrow> (int \<times> storage \<times> disk) option" where
  "ss_write serial data dlen s d =
     writeFiles \<lparr>r_signature = CSTORAGE_SIGNATURE OR T_CSTORAGE_WRITE, r_serial = serial,
                 r_sequence = i32 (st_last_sequence (state s) + 1), r_len = sint dlen,
                 r_flags = (if fauto_commit s then F_CSTORAGE_DF_AUTO_COMMIT else 0)\<rparr> data dlen s d"

definition ss_commit :: "storage \<Rightarrow> disk \<Rightarrow> (int \<times> storage \<times> disk) option" where
  "ss_commit s d =
     (if fauto_commit s then Some (E_CSTORAGE_OK, s, d)
      else do { (result, s, d) \<leftarrow>
                  writeFiles (zero_data\<lparr>r_signature := CSTORAGE_SIGNATURE OR T_CSTORAGE_COMMIT,
                                        r_sequence := i32 (st_last_sequence (state s) + 1)\<rparr>) None 0 s d;
                Some (result, clearDirtySerials s, d) })"

definition serial_array :: "int list \<Rightarrow> bytes" where
  "serial_array ss = concat (map enc_i32 (int (length ss) # ss))"

definition ss_rollback :: "storage \<Rightarrow> disk \<Rightarrow> (int \<times> storage \<times> disk) option" where
  "ss_rollback s d =
     (if fauto_commit s then Some (E_CSTORAGE_NO_ROLLBACK_IN_AUTOCOMMIT, s, d)
      else
        let serials = serial_array (dirtySerials s);
            dlen = word_of_nat (4 * (length (dirtySerials s) + 1))
        in do { (result, s, d) \<leftarrow>
                  writeFiles (zero_data\<lparr>r_signature := CSTORAGE_SIGNATURE OR T_CSTORAGE_ROLLBACK_BEGIN,
                                        r_sequence := i32 (st_last_sequence (state s) + 1)\<rparr>)
                    (Some serials) dlen s d;
                (result, s, d) \<leftarrow>
                  writeFiles (zero_data\<lparr>r_signature := CSTORAGE_SIGNATURE OR T_CSTORAGE_ROLLBACK_END,
                                        r_sequence := i32 (st_last_sequence (state s) + 1)\<rparr>) None 0 s d;
                Some (result, clearDirtySerials s, d) })"

definition ss_applyLog :: "bytes \<Rightarrow> u32 \<Rightarrow> storage \<Rightarrow> disk \<Rightarrow> (int \<times> storage \<times> disk) option" where
  "ss_applyLog data dlen s d =
     (if dlen < 17 then Some (E_CSTORAGE_NOT_ENOUGH_DATA, s, d)
      else writeFiles (dec_data (take 17 data)) (Some (drop 17 data)) (dlen - 17) s d)"

subsection \<open>Reading\<close>

text \<open>The buffer of the caller is its bytes before and after; \<open>dlen\<close> is the length it passes.\<close>

definition ss_read ::
  "int \<Rightarrow> bytes \<Rightarrow> u32 \<Rightarrow> u32 \<Rightarrow> storage \<Rightarrow> disk \<Rightarrow> (int \<times> bytes \<times> storage) option" where
  "ss_read serial data dlen flags s d =
     do { s \<leftarrow> (if rdwr s then Some (s\<lparr>cursor := serial\<rparr>) else loadState (s\<lparr>cursor := serial\<rparr>) d);
          (result, b, s) \<leftarrow> io_readIndex IndexF serial (enc_index zero_index) s d;
          if result = E_CSFILE_EMPTY_DATA then Some (E_CSTORAGE_SERIAL_NOT_FOUND, data, s)
          else if result < 0 then Some (result, data, s)
          else
            let s = s\<lparr>ss_last_offset := getLastOffset (dec_index b) flags s\<rparr>
            in if ss_last_offset s \<le> 0 then Some (E_CSTORAGE_SERIAL_NOT_FOUND, data, s)
               else do { (result, h, data, s) \<leftarrow>
                           io_read_data (ss_last_offset s) (enc_data zero_data) data dlen s d;
                         Some (if result < 0 then result else i32 (result - 17), data, s) } }"

definition ss_readLog ::
  "int \<Rightarrow> bytes \<Rightarrow> u32 \<Rightarrow> storage \<Rightarrow> disk \<Rightarrow> (int \<times> bytes \<times> storage) option" where
  "ss_readLog seq data dlen s d =
     do { s \<leftarrow> (if rdwr s then Some s else loadState s d);
          (result, b, s) \<leftarrow> io_readIndex LogF seq (enc_log zero_log) s d;
          if result < 0 then Some (result, data, s)
          else
            let offset = l_offset (dec_log b)
            in if offset < 0 then Some (E_CSTORAGE_SEQUENCE_NOT_FOUND, data, s)
               else if dlen < 17 then Some (E_CSTORAGE_NOT_ENOUGH_DATA, data, s)
               else do { (result, h, rest, s) \<leftarrow>
                           io_read_data offset (take 17 data) (drop 17 data) (dlen - 17) s d;
                         Some (result, h @ rest, s) } }"

definition ss_readLogReg ::
  "int \<Rightarrow> int \<Rightarrow> byte \<Rightarrow> storage \<Rightarrow> disk \<Rightarrow> (int \<times> int \<times> byte \<times> storage) option" where
  "ss_readLogReg seq serial type s d =
     do { (result, b, s) \<leftarrow> io_readIndex LogF seq (enc_log zero_log) s d;
          if result < 0 then Some (result, serial, type, s)
          else Some (0, l_serial (dec_log b), l_type (dec_log b), s) }"

definition ss_goTop :: "storage \<Rightarrow> int \<times> storage" where
  "ss_goTop s = (E_CSTORAGE_OK, s\<lparr>cursor := - 1\<rparr>)"

definition ss_goPos :: "int \<Rightarrow> storage \<Rightarrow> int \<times> storage" where
  "ss_goPos serial s = (E_CSTORAGE_OK, s\<lparr>cursor := (if serial < 0 then - 1 else serial - 1)\<rparr>)"

definition ss_getLastOffset :: "storage \<Rightarrow> int" where
  "ss_getLastOffset s = ss_last_offset s"

record storage_info =
  i_hash_key :: u32
  i_last_updated :: u32
  i_version :: u32
  i_count :: int
  i_commit_count :: int
  i_rollback_begin_count :: int
  i_rollback_end_count :: int
  i_last_commit_sequence :: int
  i_last_rollback_sequence :: int
  i_last_sequence :: int

definition ss_getInfo :: "storage \<Rightarrow> int \<times> storage_info" where
  "ss_getInfo s =
     (E_CSTORAGE_OK,
      \<lparr>i_hash_key = st_hash_key (state s), i_last_updated = st_last_updated (state s), i_version = 0,
       i_count = st_count (state s), i_commit_count = st_commit_count (state s),
       i_rollback_begin_count = st_rollback_begin_count (state s),
       i_rollback_end_count = st_rollback_end_count (state s),
       i_last_commit_sequence = st_last_commit_sequence (state s),
       i_last_rollback_sequence = st_last_rollback_sequence (state s),
       i_last_sequence = st_last_sequence (state s)\<rparr>)"

definition ss_getParam :: "string \<Rightarrow> storage \<Rightarrow> int" where
  "ss_getParam name s =
     (if name = ''index_cache_size'' then cache_size (files s IndexF)
      else if name = ''log_cache_size'' then cache_size (files s LogF) else - 1)"

definition ss_setParam :: "string \<Rightarrow> int \<Rightarrow> storage \<Rightarrow> int \<times> storage" where
  \<comment> \<open>\<open>c_log_level\<close> sets the level of the logger, which is no part of the object\<close>
  "ss_setParam name value s =
     (if name = ''index_cache_size''
      then (E_CSTORAGE_OK, set_file IndexF (setCacheSize value (files s IndexF)) s)
      else if name = ''log_cache_size''
      then (E_CSTORAGE_OK, set_file LogF (setCacheSize value (files s LogF)) s)
      else if name = ''c_log_level'' then (E_CSTORAGE_OK, s) else (- 1, s))"

record log_info =
  li_serial :: int
  li_sequence :: int
  li_len :: int
  li_flags :: u32
  li_type :: byte

definition getLogReg :: "bytes \<Rightarrow> u32 \<Rightarrow> log_info \<Rightarrow> int \<times> log_info" where
  "getLogReg data dlen linfo =
     (if 17 > dlen then (E_CSTORAGE_NOT_VALID_DATA, linfo)
      else
        let dreg = dec_data (take 17 data)
        in if r_signature dreg AND CSTORAGE_SIGNATURE_SIGN_MASK \<noteq> CSTORAGE_SIGNATURE
           then (E_CSTORAGE_NOT_VALID_DATA, linfo)
           else (E_CSTORAGE_OK,
                 \<lparr>li_serial = r_serial dreg, li_sequence = r_sequence dreg, li_len = r_len dreg,
                  li_flags = ucast (r_flags dreg),
                  li_type = ucast (r_signature dreg AND CSTORAGE_SIGNATURE_TYPE_MASK)\<rparr>))"

subsection \<open>Hash keys\<close>

definition writeHashKey :: "u32 \<Rightarrow> storage \<Rightarrow> disk \<Rightarrow> (int \<times> storage \<times> disk) option" where
  "writeHashKey key s d =
     do { (r, s, d) \<leftarrow> (if rebuilding s then Some (0, s, d)
                        else io_write DataF 0 (take 17 (h_set key)) s d);
          (r, s, d) \<leftarrow> io_write LogF 0 (take 13 (h_set key)) s d;
          (r, s, d) \<leftarrow> io_write IndexF 0 (take 26 (h_set key)) s d;
          (s, d) \<leftarrow> saveState (s\<lparr>state := (state s)\<lparr>st_hash_key := key\<rparr>\<rparr>) d;
          Some (0, s, d) }"

definition read_header :: "file_id \<Rightarrow> bytes \<Rightarrow> storage \<Rightarrow> disk \<Rightarrow> (int \<times> bytes \<times> storage) option" where
  \<comment> \<open>a read at 0 into the front of the union \<open>h\<close>\<close>
  "read_header k h s d =
     do { (r, b, s) \<leftarrow> io_read k 0 (take (rec_size k) h) s d; Some (r, overlay b h, s) }"

definition checkHashKey :: "storage \<Rightarrow> disk \<Rightarrow> (int \<times> storage) option" where
  "checkHashKey s d =
     do { (r, h, s) \<leftarrow> read_header DataF (replicate h_size 0) s d;
          let key = h_key h
          in do { (r, h, s) \<leftarrow> read_header LogF h s d;
                  let result = (if h_key h \<noteq> key then E_CSTORAGE_FAIL_HK_LOG else E_CSTORAGE_OK)
                  in do { (r, h, s) \<leftarrow> read_header IndexF h s d;
                          let result = (if h_key h \<noteq> key then result OR E_CSTORAGE_FAIL_HK_INDEX else result)
                          in do { s \<leftarrow> (if rdwr s then Some s else loadState s d);
                                  Some (if st_hash_key (state s) \<noteq> key
                                        then result OR E_CSTORAGE_FAIL_HK_STATE else result, s) } } } }"

definition getHashKey :: "u32 \<Rightarrow> storage \<Rightarrow> disk \<Rightarrow> (int \<times> u32 \<times> storage) option" where
  "getHashKey key s d =
     do { (r, h, s) \<leftarrow> read_header DataF (replicate h_size 0) s d;
          Some (if r = 17 then (E_CSTORAGE_OK, h_key h, s) else (r, key, s)) }"

subsection \<open>Opening, creating, closing\<close>

definition normalizeFilename :: "string \<Rightarrow> string" where
  "normalizeFilename fname =
     (let ext = extension DataF; extlen = length ext
      in if drop (length fname - extlen) fname = ext then take (length fname - extlen) fname else fname)"

definition checkFilesPresent :: "bool \<Rightarrow> disk \<Rightarrow> int" where
  \<comment> \<open>how many files are missing or not accessible\<close>
  "checkFilesPresent wr d = foldl (\<lambda>n k. if os_access wr (d k) then n else n + 1) 0 all_ids"

definition checkAnyFilePresent :: "disk \<Rightarrow> int" where
  "checkAnyFilePresent d = int (length all_ids) - checkFilesPresent False d"

definition ss_close :: "storage \<Rightarrow> disk \<Rightarrow> (int \<times> storage \<times> disk) option" where
  "ss_close s d =
     do { (s, d) \<leftarrow> saveState s d;
          let s = foldl (\<lambda>s k. set_file k (snd (bf_close (files s k))) s) s all_ids
          in Some (E_CSTORAGE_OK, (clearDirtySerials s)\<lparr>fauto_commit := False\<rparr>, d) }"

text \<open>The loop over \<open>files\<close>; \<open>Inl\<close> is the exception that ends it.\<close>

fun open_files ::
  "file_id list \<Rightarrow> string \<Rightarrow> (file_id \<Rightarrow> u32) \<Rightarrow> storage \<Rightarrow> disk \<Rightarrow> ((int + unit) \<times> storage \<times> disk) option" where
  "open_files [] basename flags s d = Some (Inr (), s, d)"
| "open_files (k # ks) basename flags s d =
     do { (r, f, os) \<leftarrow> bf_open (basename @ extension k) (flags k) (files s k) (d k);
          case r of
            Ret n \<Rightarrow> open_files ks basename flags (set_file k f s) (d(k := os))
          | Throw e \<Rightarrow> Some (Inl e, set_file k f s, d(k := os))
          | Crash \<Rightarrow> None }"

definition close_with :: "int \<Rightarrow> storage \<Rightarrow> disk \<Rightarrow> (int \<times> storage \<times> disk) option" where
  \<comment> \<open>the \<open>catch\<close> clause\<close>
  "close_with e s d = do { (r, s, d) \<leftarrow> ss_close s d; Some (e, s, d) }"

definition set_auto_commit :: "u32 \<Rightarrow> storage \<Rightarrow> storage" where
  "set_auto_commit flags s =
     (if has_flag flags F_CSTORAGE_AUTO_COMMIT then s\<lparr>fauto_commit := True\<rparr> else s)"

text \<open>\<open>rnd\<close> is what \<open>generateHashKey\<close> draws from /dev/random.\<close>

text \<open>
  The key of a new storage. \<open>fd\<close> and \<open>got\<close> are what \<open>open\<close> of /dev/random and \<open>read\<close> from it return, \<open>dev\<close> is
  what is read and \<open>clock_rand\<close> the first number of \<open>rand\<close> after \<open>srand\<close> with the time. The argument \<open>rnd\<close>
  of the operations below is the result.
\<close>

definition generateHashKey :: "int \<Rightarrow> int \<Rightarrow> u32 \<Rightarrow> u32 \<Rightarrow> u32" where
  "generateHashKey fd got dev clock_rand =
     (if fd \<ge> 0 \<and> got = 4 then dev else clock_rand)"

definition ss_create ::
  "u32 \<Rightarrow> string \<Rightarrow> u32 \<Rightarrow> u32 \<Rightarrow> storage \<Rightarrow> disk \<Rightarrow> (int \<times> storage \<times> disk) option" where
  "ss_create rnd fname flags key s d =
     (let s = s\<lparr>fauto_commit := False\<rparr>; basename = normalizeFilename fname
      in if \<not> rebuilding s \<and> checkAnyFilePresent d \<noteq> 0 then Some (E_CSTORAGE_CREATE_FILE_EXISTS, s, d)
         else
           let nflags = flags OR (F_CSFILE_EXCEPTIONS OR F_CSFILE_CREATE OR F_CSFILE_WR OR F_CSFILE_TRUNCATE);
               flags_of = (\<lambda>k. if k = DataF \<and> rebuilding s then flags else nflags)
           in do { (r, s, d) \<leftarrow> open_files all_ids basename flags_of s d;
                   case r of
                     Inl e \<Rightarrow> close_with e s d
                   | Inr _ \<Rightarrow>
                       do { (key, s) \<leftarrow>
                              (if rebuilding s then do { (r, key, s) \<leftarrow> getHashKey key s d; Some (key, s) }
                               else Some (if has_flag flags F_CSTORAGE_SET_HASH_KEY then key else rnd, s));
                            (r, s, d) \<leftarrow> writeHashKey key s d;
                            Some (0, set_auto_commit flags s, d) } })"

definition ss_open ::
  "u32 \<Rightarrow> string \<Rightarrow> u32 \<Rightarrow> u32 \<Rightarrow> storage \<Rightarrow> disk \<Rightarrow> (int \<times> storage \<times> disk) option" where
  "ss_open rnd fname flags key s d =
     (let s = s\<lparr>fauto_commit := False\<rparr>;
          flags = flags OR F_CSFILE_EXCEPTIONS;
          basename = normalizeFilename fname;
          s = s\<lparr>rdwr := has_flag flags F_CSTORAGE_WR\<rparr>;
          count = checkFilesPresent (has_flag flags F_CSTORAGE_WR) d
      in if count > 0
         then (if count = int (length all_ids) \<and> has_flag flags F_CSTORAGE_CREATE
               then ss_create rnd basename flags key s d
               else Some (E_CSTORAGE_OPEN_FILE_NO_ACCESS, s, d))
         else
           do { (r, s, d) \<leftarrow> open_files all_ids basename (\<lambda>k. flags) s d;
                case r of
                  Inl e \<Rightarrow> close_with e s d
                | Inr _ \<Rightarrow>
                    do { s \<leftarrow> loadState s d;
                         (result, s) \<leftarrow> checkHashKey s d;
                         if result \<noteq> E_CSTORAGE_OK then close_with result s d
                         else Some (E_CSTORAGE_OK, set_auto_commit flags s, d) } })"

text \<open>
  \<open>setFlags\<close>: two passes over \<open>files\<close>, with one iterator that is not set back in between.
\<close>

fun setFlags_pass ::
  "bool \<Rightarrow> u32 \<Rightarrow> file_id list \<Rightarrow> storage \<Rightarrow> disk \<Rightarrow> int option \<times> file_id list \<times> storage" where
  "setFlags_pass check flags [] s d = (None, [], s)"
| "setFlags_pass check flags (k # ks) s d =
     (let (result, f) = bf_setFlags (flags OR (if check then F_CSFILE_CHECK_FLAGS else 0)) (files s k) (d k)
      in if check \<and> result < 0 then (Some E_CSTORAGE_ERROR, k # ks, set_file k f s)
         else setFlags_pass check flags ks (set_file k f s) d)"

definition ss_setFlags :: "u32 \<Rightarrow> storage \<Rightarrow> disk \<Rightarrow> int \<times> storage" where
  "ss_setFlags flags s d =
     (let (e, it, s) = setFlags_pass True flags all_ids s d
      in case e of Some r \<Rightarrow> (r, s)
         | None \<Rightarrow> (let (e, it, s) = setFlags_pass False flags it s d in (0, s)))"

definition removeFiles :: "disk \<Rightarrow> int \<times> disk" where
  "removeFiles d =
     foldl (\<lambda>(r, d) k. if fexists (d k) then (r, d(k := (d k)\<lparr>fexists := False, fbytes := []\<rparr>))
                       else (r - 1, d)) (0, d) all_ids"

subsection \<open>Verification\<close>

definition verify_step :: "data_reg \<Rightarrow> int \<Rightarrow> st_reg \<Rightarrow> st_reg option" where
  "verify_step r_data offset st =
     (let type = record_type r_data;
          close = (\<lambda>st. st\<lparr>st_last_close_sequence := r_sequence r_data,
                           st_last_close_offset := word_of_int offset\<rparr>)
      in do { st \<leftarrow>
                (if type = T_CSTORAGE_COMMIT
                 then Some ((close st)\<lparr>st_last_commit_sequence := r_sequence r_data,
                                       st_commit_count := i32 (st_commit_count st + 1)\<rparr>)
                 else if type = T_CSTORAGE_WRITE
                 then Some (st\<lparr>st_data_count := i32 (st_data_count st + 1)\<rparr>)
                 else if type = T_CSTORAGE_ROLLBACK_BEGIN
                 then Some (st\<lparr>st_rollback_begin_count := i32 (st_rollback_begin_count st + 1)\<rparr>)
                 else if type = T_CSTORAGE_ROLLBACK_END
                 then Some ((close st)\<lparr>st_rollback_end_count := i32 (st_rollback_end_count st + 1)\<rparr>)
                 else if type = T_CSTORAGE_STATUS then Some st else None);
              Some (st\<lparr>st_last_sequence := r_sequence r_data, st_count := i32 (st_count st + 1)\<rparr>) })"

partial_function (option) verify_loop ::
  "st_reg \<Rightarrow> data_reg \<Rightarrow> storage \<Rightarrow> disk \<Rightarrow> ((int + int \<times> st_reg) \<times> storage) option" where
  "verify_loop st r_data s d =
     do { (result, b, s) \<leftarrow> io_read DataF C_CSFILE_CURRPOS (enc_data r_data) s d;
          if result > 0
          then (case verify_step (dec_data b) (last_offset (files s DataF)) st of
                  None \<Rightarrow> Some (Inl E_CSTORAGE_DATA_READ, s)
                | Some st \<Rightarrow> verify_loop st (dec_data b) s d)
          else Some (Inr (result, st), s) }"

text \<open>\<open>CMP_STRUCT_FIELD\<close>: the result of comparing two equal fields is 1, and is or-ed in.\<close>

definition cmp_states :: "st_reg \<Rightarrow> st_reg \<Rightarrow> int \<Rightarrow> int" where
  "cmp_states a b result =
     foldl (\<lambda>r same. r OR (if same then 1 else 0)) result
       ([st_count a = st_count b, st_data_count a = st_data_count b,
         st_commit_count a = st_commit_count b,
         st_rollback_begin_count a = st_rollback_begin_count b,
         st_rollback_end_count a = st_rollback_end_count b,
         st_last_offset_index a = st_last_offset_index b,
         st_last_commit_sequence a = st_last_commit_sequence b,
         st_last_rollback_sequence a = st_last_rollback_sequence b,
         st_last_close_sequence a = st_last_close_sequence b,
         st_last_sequence a = st_last_sequence b]
        @ map2 (=) (st_last_offsets a) (st_last_offsets b))"

definition ss_verify :: "storage \<Rightarrow> disk \<Rightarrow> (int \<times> storage) option" where
  "ss_verify s d =
     do { (result, b, s) \<leftarrow> io_read DataF 0 (enc_data zero_data) s d;
          if result > 0 then Some (E_CSTORAGE_DATA_READ, s)
          else do { (r, s) \<leftarrow> verify_loop zero_state (dec_data b) s d;
                    case r of
                      Inl e \<Rightarrow> Some (e, s)
                    | Inr (result, st) \<Rightarrow> Some (cmp_states (state s) st result, s) } }"

partial_function (option) recover_loop ::
  "data_reg \<Rightarrow> storage \<Rightarrow> disk \<Rightarrow> (int \<times> storage) option" where
  "recover_loop r_data s d =
     do { (result, b, s) \<leftarrow> io_read DataF C_CSFILE_CURRPOS (enc_data r_data) s d;
          if result > 0
          then (if record_type (dec_data b) \<noteq> T_CSTORAGE_WRITE then Some (E_CSTORAGE_DATA_READ, s)
                else recover_loop (dec_data b)
                       (if r_flags (dec_data b) AND F_CSTORAGE_DF_AUTO_COMMIT = 0
                        then addDirtySerial (r_serial (dec_data b)) s else s) d)
          else Some (result, s) }"

definition recoverDirtySerials :: "storage \<Rightarrow> disk \<Rightarrow> (int \<times> storage) option" where
  "recoverDirtySerials s d =
     do { (result, b, s) \<leftarrow> io_read DataF (sint (st_last_close_offset (state s))) (enc_data zero_data)
                               (clearDirtySerials s) d;
          if result > 0 then Some (E_CSTORAGE_DATA_READ, s)
          else if record_type (dec_data b) \<notin> {T_CSTORAGE_COMMIT, T_CSTORAGE_ROLLBACK_BEGIN, T_CSTORAGE_ROLLBACK_END}
          then Some (E_CSTORAGE_DATA_READ, s)
          else recover_loop (dec_data b) s d }"

subsection \<open>Rebuilding\<close>

definition REBUILD_BUFFER :: nat where "REBUILD_BUFFER = 1024 * 1024"

partial_function (option) rebuild_loop ::
  "data_reg \<Rightarrow> bytes \<Rightarrow> storage \<Rightarrow> disk \<Rightarrow> (int \<times> storage \<times> disk) option" where
  "rebuild_loop r_data data s d =
     do { (result, b, data, s) \<leftarrow>
            io_read_data C_CSFILE_CURRPOS (enc_data r_data) data (word_of_nat REBUILD_BUFFER) s d;
          if result > 0
          then do { (r, s, d) \<leftarrow> writeFiles (dec_data b) (Some data) (word_of_int (r_len (dec_data b))) s d;
                    rebuild_loop (dec_data b) data s d }
          else Some (result, s, d) }"

text \<open>\<open>data\<close> is the block of memory \<open>malloc\<close> returns.\<close>

definition ss_rebuild ::
  "bytes \<Rightarrow> u32 \<Rightarrow> string \<Rightarrow> u32 \<Rightarrow> storage \<Rightarrow> disk \<Rightarrow> (int \<times> storage \<times> disk) option" where
  "ss_rebuild data rnd fname flags s d =
     do { (result, s, d) \<leftarrow> ss_create rnd fname flags 0 (s\<lparr>rebuilding := True\<rparr>) d;
          if result \<noteq> E_CSTORAGE_OK then Some (result, s, d)
          else do { (result, h, s) \<leftarrow> read_header DataF (replicate h_size 0) s d;
                    if result < 0 then Some (E_CSTORAGE_DATA_READ, s, d)
                    else do { (result, s, d) \<leftarrow> rebuild_loop zero_data data s d;
                              let s = s\<lparr>rebuilding := False\<rparr>
                              in do { (s, d) \<leftarrow> saveState s d; Some (result, s, d) } } } }"

end
