(* ===== verification/Storage_Io.thy ===== *)
theory Storage_Io
  imports Storage_Ops Record_Table
begin

text \<open>
  What the file accesses of a storage do, in terms of the tables and records of its four
  files. \<open>live\<close>: every handle is open and coherent with its file. \<open>moved s s' d\<close>: \<open>s'\<close> is \<open>s\<close>
  but for caches, work areas and positions, and is live on \<open>d\<close>.
\<close>

definition live :: "storage \<Rightarrow> disk \<Rightarrow> bool" where
  "live s d \<longleftrightarrow> (\<forall>k. handle_ok (files s k) (d k))"

definition moved :: "storage \<Rightarrow> storage \<Rightarrow> disk \<Rightarrow> bool" where
  "moved s s' d \<longleftrightarrow> s' = s\<lparr>files := files s'\<rparr> \<and> (\<forall>k. same_handle (files s k) (files s' k)) \<and> live s' d"

lemma moved_refl: "live s d \<Longrightarrow> moved s s d"
  by (simp add: moved_def)

lemma moved_trans [trans]: "moved s s1 d1 \<Longrightarrow> moved s1 s2 d2 \<Longrightarrow> moved s s2 d2"
  unfolding moved_def
  by (metis same_handle_trans storage.surjective storage.update_convs(1))

lemma moved_live: "moved s s' d \<Longrightarrow> live s' d"
  by (simp add: moved_def)

lemma moved_eq: "moved s s' d \<Longrightarrow> \<exists>fs. s' = s\<lparr>files := fs\<rparr>"
  unfolding moved_def by blast

lemma moved_fields:
  assumes "moved s s' d"
  shows "state s' = state s" "dirtySerials s' = dirtySerials s" "rdwr s' = rdwr s"
    "dirtySerialSize s' = dirtySerialSize s"
    "rebuilding s' = rebuilding s" "fauto_commit s' = fauto_commit s"
    "ss_last_offset s' = ss_last_offset s" "cursor s' = cursor s"
  using moved_eq [OF assms] by auto

lemma moved_handle: "moved s s' d \<Longrightarrow> same_handle (files s k) (files s' k)"
  by (simp add: moved_def)

lemma moved_write_mode: "moved s s' d \<Longrightarrow> f_write_mode (files s' k) = f_write_mode (files s k)"
  using moved_handle by (fastforce simp: same_handle_def)

lemma moved_set_file:
  assumes "live s d" and "after_read (files s k) os cur lst f"
  shows "moved s (set_file k f s) (d(k := os))"
proof -
  have "handle_ok (files s k) (d k)"
    using assms(1) by (simp add: live_def)
  then have "handle_ok f os"
    using assms(2) by (simp add: handle_ok_def after_read_def same_handle_def)
  then show ?thesis
    using assms by (auto simp: moved_def set_file_def live_def after_read_def)
qed

lemma moved_set_file_same:
  "live s d \<Longrightarrow> after_read (files s k) (d k) cur lst f \<Longrightarrow> moved s (set_file k f s) d"
  using moved_set_file [of s d k "d k"] by simp

subsection \<open>Fixed-size records\<close>

lemma rec_size_small: "rec_size k < 2 ^ 24" "0 < rec_size k"
  by (cases k; simp)+

lemma index_pos: "is_i32 i \<Longrightarrow> i * (int (rec_size k) + 4) < C_CSFILE_ENDFILE"
  by (cases k) (simp_all add: is_i32_def C_CSFILE_ENDFILE_def)

definition got :: "file_id \<Rightarrow> int \<Rightarrow> bytes \<Rightarrow> storage \<Rightarrow> disk \<Rightarrow> int \<times> bytes" where
  "got k i buf s d =
     (case rec_at (rec_size k) i (d k) of
        Some p \<Rightarrow> (int (rec_size k), p)
      | None \<Rightarrow> (miss_code (rec_size k) i (files s k) (d k), buf))"

lemma io_readIndex_ok:
  assumes "live s d" and "0 \<le> i" and "is_i32 i" and "length buf = rec_size k"
  shows "\<exists>s'. io_readIndex k i buf s d = Some (fst (got k i buf s d), snd (got k i buf s d), s')
           \<and> moved s s' d"
proof -
  have ok: "handle_ok (files s k) (d k)"
    using assms(1) by (simp add: live_def)
  obtain f' cur where "sf_readIndex (rec_size k) i buf (files s k) (d k) =
      (case rec_at (rec_size k) i (d k) of Some p \<Rightarrow> (Ret (int (rec_size k)), p, f')
       | None \<Rightarrow> (Ret (miss_code (rec_size k) i (files s k) (d k)), buf, f'))"
    and a: "after_read (files s k) (d k) cur (last_offset (files s k)) f'"
    using sf_readIndex_cases [OF ok assms(2) index_pos [OF assms(3)] assms(4) rec_size_small(1)] by blast
  then have "io_readIndex k i buf s d =
      Some (fst (got k i buf s d), snd (got k i buf s d), set_file k f' s)"
    by (auto simp: io_readIndex_def got_def ret_of_def split: option.split)
  with moved_set_file_same [OF assms(1) a] show ?thesis
    by blast
qed

lemma io_readIndex_files:
  "io_readIndex k i buf s d = Some (r, b, s') \<Longrightarrow> j \<noteq> k \<Longrightarrow> files s' j = files s j"
  by (auto simp: io_readIndex_def set_file_def Let_def ret_of_def split: prod.splits outcome.splits)

lemma got_found: "rec_at (rec_size k) i (d k) = Some p \<Longrightarrow> got k i buf s d = (int (rec_size k), p)"
  by (simp add: got_def)

lemma got_missing: "rec_at (rec_size k) i (d k) = None \<Longrightarrow>
    got k i buf s d = (miss_code (rec_size k) i (files s k) (d k), buf)"
  by (simp add: got_def)

lemma got_neg: "fst (got k i buf s d) < 0 \<longleftrightarrow> rec_at (rec_size k) i (d k) = None"
  by (auto simp: got_def miss_code_neg split: option.split)

lemma got_moved: "moved s s' d' \<Longrightarrow> got k i buf s' d = got k i buf s d"
  using miss_code_same [OF moved_handle [of s s' d' k]] by (simp add: got_def split: option.split)

lemma io_writeIndex_ok:
  assumes "live s d" and "f_write_mode (files s k)" and "0 \<le> i" and "is_i32 i"
    and "length data = rec_size k" and "nat i * (rec_size k + 4) + rec_size k + 4 \<le> flimit (d k)"
  shows "\<exists>s'. io_writeIndex k i data s d =
             Some (int (rec_size k) + 4, s', d(k := put_rec (rec_size k) i data (d k)))
           \<and> moved s s' (d(k := put_rec (rec_size k) i data (d k)))
           \<and> (\<forall>j. j \<noteq> k \<longrightarrow> files s' j = files s j)"
proof -
  have ok: "handle_ok (files s k) (d k)"
    using assms(1) by (simp add: live_def)
  obtain f' cur lst where "sf_writeIndex (rec_size k) i data (files s k) (d k) =
      (Ret (int (rec_size k) + 4), f', put_rec (rec_size k) i data (d k))"
    and "after_read (files s k) (put_rec (rec_size k) i data (d k)) cur lst f'"
    using sf_writeIndex_ok [OF ok assms(2,3) index_pos [OF assms(4)] assms(5) rec_size_small(1) assms(6)]
    by blast
  with moved_set_file [OF assms(1)] show ?thesis
    by (fastforce simp: io_writeIndex_def ret_of_def set_file_def)
qed

lemma sizeOf_live: "live s d \<Longrightarrow> sf_sizeOf (rec_size k) (files s k) = int (rec_size k) + 4"
  by (simp add: live_def handle_ok_def sizeOf_plain)

lemma io_write_0: "live s d \<Longrightarrow> io_write k 0 data s d = io_writeIndex k 0 data s d"
  by (simp add: io_write_def io_writeIndex_def sf_writeIndex_def)

lemma io_read_0:
  assumes "live s d" and "length buf = rec_size k"
  shows "\<exists>r s'. io_read k 0 buf s d = Some (r, snd (got k 0 buf s d), s') \<and> moved s s' d
     \<and> r = (case rec_at (rec_size k) 0 (d k) of Some p \<Rightarrow> int (rec_size k) | None \<Rightarrow> r) \<and> (0 < r \<longleftrightarrow> rec_at (rec_size k) 0 (d k) \<noteq> None)"
proof -
  have ok: "handle_ok (files s k) (d k)"
    using assms(1) by (simp add: live_def)
  let ?n = "rec_size k" and ?f = "files s k" and ?os = "d k"
  have "\<exists>r f' cur. sf_read ?n 0 0 buf ?f ?os = (Ret r, snd (got k 0 buf s d), f')
      \<and> after_read ?f ?os cur (last_offset ?f) f'
      \<and> (case rec_at ?n 0 ?os of Some p \<Rightarrow> r = int ?n | None \<Rightarrow> r < 0)"
  proof (cases "f_write_mode ?f \<or> 0 + int ?n + 4 \<le> fsize ?os")
    case True
    then have seek: "bf_seek 0 (int ?n + 4) False ?f ?os = Ok 0"
      using ok by (intro bf_seek_plain) (auto simp: handle_ok_def C_CSFILE_ENDFILE_def)
    obtain f' cur where r: "sf_read ?n 0 0 buf ?f ?os =
         (let (r, b) = (if 0 + int ?n + 4 \<le> fsize ?os
                        then slot_result 0 ?n buf (slot_at (nat 0) ?n (fbytes ?os))
                        else (Ret (short_result ?f ?os 0), buf))
          in (r, b, f'))" and a: "after_read ?f ?os cur (last_offset ?f) f'"
      using sf_read_spec [OF ok seek plain_flags_used(1) assms(2) rec_size_small(1)] by blast
    show ?thesis
      using a by (auto simp: r got_def rec_at_def slot_result_def short_result_def csfile_errors fsize_def
          has_flag_def Let_def split: slot.split)
  next
    case False
    then have "\<exists>f'. sf_read ?n 0 0 buf ?f ?os = (Ret E_CSFILE_EOF, buf, f')
        \<and> after_read ?f ?os (current_offset ?f) (last_offset ?f) f'"
      using rec_size_small(1) [of k] by (intro sf_read_eof ok) (auto simp: C_CSFILE_ENDFILE_def)
    then obtain f' where r: "sf_read ?n 0 0 buf ?f ?os = (Ret E_CSFILE_EOF, buf, f')"
        and a: "after_read ?f ?os (current_offset ?f) (last_offset ?f) f'"
      by blast
    have "rec_at ?n 0 ?os = None"
      using False by (simp add: rec_at_def fsize_def)
    then show ?thesis
      using r a by (auto simp: got_def csfile_errors)
  qed
  then obtain r f' cur where "sf_read ?n 0 0 buf ?f ?os = (Ret r, snd (got k 0 buf s d), f')"
    and a: "after_read ?f ?os cur (last_offset ?f) f'"
    and c: "case rec_at ?n 0 ?os of Some p \<Rightarrow> r = int ?n | None \<Rightarrow> r < 0"
    by blast
  then have "io_read k 0 buf s d = Some (r, snd (got k 0 buf s d), set_file k f' s)"
    by (simp add: io_read_def ret_of_def)
  moreover have "0 < r \<longleftrightarrow> rec_at ?n 0 ?os \<noteq> None" "case rec_at ?n 0 ?os of Some p \<Rightarrow> r = int ?n | None \<Rightarrow> True"
    using c rec_size_small(2) [of k] by (auto split: option.splits)
  ultimately show ?thesis
    using moved_set_file_same [OF assms(1) a] by (auto split: option.splits)
qed

subsection \<open>Data records\<close>

definition app_data :: "bytes \<Rightarrow> disk \<Rightarrow> disk" where
  "app_data p d = d(DataF := (d DataF)\<lparr>fbytes := fbytes (d DataF) @ dyn_rec p\<rparr>)"

lemma io_append_ok:
  assumes "live s d" and "f_write_mode (files s DataF)"
    and "length data = 17" and "\<And>q. ddata = Some q \<Longrightarrow> arg_len dlen \<le> length q"
    and "length (fbytes (d DataF)) + length (append_bytes data ddata dlen) + 8 \<le> flimit (d DataF)"
  shows "\<exists>s'. io_append data ddata dlen s d =
             Some (int (length (append_bytes data ddata dlen)) + 8, s', app_data (append_bytes data ddata dlen) d)
           \<and> moved s s' (app_data (append_bytes data ddata dlen) d)
           \<and> last_offset (files s' DataF) = fsize (d DataF)"
proof -
  have ok: "handle_ok (files s DataF) (d DataF)"
    using assms(1) by (simp add: live_def)
  let ?p = "append_bytes data ddata dlen"
  let ?os = "(d DataF)\<lparr>fbytes := fbytes (d DataF) @ dyn_rec ?p\<rparr>"
  obtain f' where f: "sf_append 17 data ddata dlen (files s DataF) (d DataF) =
      (Ret (int (length ?p) + 8), f', ?os)"
    and a: "after_read (files s DataF) ?os (fsize (d DataF) + int (length ?p) + 8) (fsize (d DataF)) f'"
    using sf_append_ok [OF ok assms(2,3) _ assms(4,5)] by (auto simp del: length_dyn_rec)
  have "io_append data ddata dlen s d = Some (int (length ?p) + 8, set_file DataF f' s, app_data ?p d)"
    using f by (simp add: io_append_def ret_of_def app_data_def)
  moreover have "moved s (set_file DataF f' s) (app_data ?p d)"
    unfolding app_data_def using moved_set_file [OF assms(1) a] .
  moreover have "last_offset (files (set_file DataF f' s) DataF) = fsize (d DataF)"
    using a by (simp add: set_file_def after_read_def)
  ultimately show ?thesis
    by blast
qed

lemma io_read_data_ok:
  assumes "live s d" and "data_rec off (d DataF) = Some (h @ x)" and "fsize (d DataF) < C_CSFILE_ENDFILE"
    and "length h = 17" "length buf = 17" "m < 2 ^ 24" and "is_i32 (int (length (h @ x)) + 136)"
  shows "\<exists>s'. io_read_data off buf q (word_of_nat m) s d =
           Some (int (length (h @ x)), h, overlay (take m x) q, s') \<and> moved s s' d"
proof -
  have ok: "handle_ok (files s DataF) (d DataF)"
    using assms(1) by (simp add: live_def)
  obtain f' cur lst where "sf_read_data 17 off buf q (word_of_nat m) (files s DataF) (d DataF) =
      (Ret (int (length (h @ x))), h, overlay (take m x) q, f')"
    and a: "after_read (files s DataF) (d DataF) cur lst f'"
    using sf_read_data_rec [OF ok assms(2,3,4,5) _ assms(6,7), of q] by fastforce
  with moved_set_file_same [OF assms(1) a] show ?thesis
    by (auto simp: io_read_data_def ret_of_def)
qed

subsection \<open>The state file\<close>

lemma saveState_ok:
  assumes "live s d" and "f_write_mode (files s StateF)" and "rdwr s" "\<not> rebuilding s"
    and "length (st_last_offsets (state s)) = 16" and "185 \<le> flimit (d StateF)"
  shows "\<exists>s'. saveState s d = Some (s', d(StateF := put_rec 181 0 (enc_state (state s)) (d StateF)))
           \<and> moved s s' (d(StateF := put_rec 181 0 (enc_state (state s)) (d StateF)))
           \<and> (\<forall>j. j \<noteq> StateF \<longrightarrow> files s' j = files s j)"
  using io_writeIndex_ok [OF assms(1,2), of 0 "enc_state (state s)"] assms
  by (fastforce simp: saveState_def io_write_0 is_i32_def)

lemma loadState_ok:
  assumes "live s d" and "rec_at 181 0 (d StateF) = Some p" and "well_state (state s)"
  shows "\<exists>s'. loadState s d = Some (s'\<lparr>state := dec_state p\<rparr>) \<and> moved s s' d"
proof -
  have "length (enc_state (state s)) = rec_size StateF"
    using assms(3) by (simp add: well_state_def)
  from io_read_0 [OF assms(1) this] obtain r s' where
    "io_read StateF 0 (enc_state (state s)) s d = Some (r, snd (got StateF 0 (enc_state (state s)) s d), s')"
    "moved s s' d" by blast
  then show ?thesis
    using assms(2) by (auto simp: loadState_def got_def)
qed

end
