(* ===== verification/Index_Versions.thy ===== *)
theory Index_Versions
  imports Storage
begin

text \<open>
  The two versions an index record keeps of a serial: which one a reader gets (\<open>version\<close>, the
  loop of \<open>getLastOffset\<close>), and what \<open>setOldestOffset\<close> and \<open>setNewestOffset\<close> do to it. This is
  what makes a record written in a transaction invisible until the commit, and what makes a
  rollback restore the version before, as long as the transaction writes the serial once.
\<close>

definition version :: "index_reg \<Rightarrow> int \<Rightarrow> bool \<Rightarrow> int" where
  "version x commit dirty = fst (foldl (offset_step x commit dirty) (- 1, 0) [0, 1])"

lemma getLastOffset_version:
  "getLastOffset x flags s =
     version x (st_last_commit_sequence (state s)) (has_flag flags F_CSTORAGE_READ_MODE_MASK \<or> rdwr s)"
  by (simp add: getLastOffset_def version_def Let_def)

definition auto_flag :: "byte \<Rightarrow> bool" where
  "auto_flag fl \<longleftrightarrow> fl AND F_CSTORAGE_DF_AUTO_COMMIT \<noteq> 0"

lemma auto_flag_simps [simp]: "\<not> auto_flag 0" "auto_flag F_CSTORAGE_DF_AUTO_COMMIT"
  by (simp_all add: auto_flag_def F_CSTORAGE_DF_AUTO_COMMIT_def)

text \<open>Sequences are -1 (rolled back) or more; the two differ unless both versions are gone.\<close>

definition seqs_ok :: "int \<Rightarrow> index_reg \<Rightarrow> bool" where
  "seqs_ok ub x \<longleftrightarrow> - 1 \<le> fst (x_sequences x) \<and> - 1 \<le> snd (x_sequences x)
     \<and> fst (x_sequences x) \<le> ub \<and> snd (x_sequences x) \<le> ub
     \<and> (fst (x_sequences x) = snd (x_sequences x) \<longrightarrow> fst (x_sequences x) = - 1)"

definition shown :: "index_reg \<Rightarrow> int \<Rightarrow> int \<Rightarrow> bool" where
  \<comment> \<open>version \<open>j\<close> is committed\<close>
  "shown x commit j \<longleftrightarrow> at2 (x_sequences x) j \<le> commit \<or> auto_flag (at2 (x_flags x) j)"

definition settled :: "index_reg \<Rightarrow> int \<Rightarrow> bool" where
  "settled x commit \<longleftrightarrow> shown x commit 0 \<and> shown x commit 1"

definition newest :: "index_reg \<Rightarrow> int" where
  "newest x = (if snd (x_sequences x) > fst (x_sequences x) then 1 else 0)"

definition pending :: "index_reg \<Rightarrow> int \<Rightarrow> bool" where
  \<comment> \<open>the newer version is not committed, the older one is\<close>
  "pending x commit \<longleftrightarrow> \<not> shown x commit (newest x) \<and> shown x commit (1 - newest x)"

lemma version_unfold:
  "version x commit dirty =
     (let v0 = fst (x_sequences x) \<ge> 0 \<and> (shown x commit 0 \<or> dirty);
          v1 = snd (x_sequences x) \<ge> (if v0 then fst (x_sequences x) else 0) \<and> (shown x commit 1 \<or> dirty)
      in if v1 then snd (x_offsets x) else if v0 then fst (x_offsets x) else - 1)"
  by (auto simp: version_def offset_step_def at2_def shown_def auto_flag_def Let_def)

lemmas index_simps = version_unfold setOldestOffset_def setNewestOffset_def shown_def settled_def
  pending_def newest_def seqs_ok_def at2_def set2_def Let_def

lemma version_of_write:
  assumes "seqs_ok ub x" and "ub < seq" and "0 < seq" and "dirty \<or> auto_flag fl \<or> seq \<le> commit"
  shows "version (setOldestOffset x off seq fl init) commit dirty = off"
  using assms by (auto simp: index_simps)

lemma committed_version_of_write:
  assumes "seqs_ok ub x" and "ub < seq" and "commit < seq" and "settled x commit" and "\<not> auto_flag fl"
  shows "version (setOldestOffset x off seq fl False) commit False = version x commit False"
  using assms by (auto simp: index_simps)

lemma committed_version_of_first_write:
  assumes "0 \<le> commit" and "commit < seq" and "\<not> auto_flag fl"
  shows "version (setOldestOffset x off seq fl True) commit False = - 1"
  using assms by (auto simp: index_simps)

lemma pending_of_write:
  assumes "seqs_ok ub x" and "ub < seq" and "commit < seq" and "settled x commit" and "\<not> auto_flag fl"
  shows "pending (setOldestOffset x off seq fl False) commit"
  using assms by (auto simp: index_simps)

lemma pending_of_first_write:
  assumes "0 \<le> commit" and "commit < seq" and "\<not> auto_flag fl"
  shows "pending (setOldestOffset x off seq fl True) commit"
  using assms by (auto simp: index_simps)

lemma settled_of_auto_write:
  assumes "settled x commit" and "auto_flag fl"
  shows "settled (setOldestOffset x off seq fl False) commit"
  using assms by (auto simp: index_simps)

lemma settled_of_first_auto_write:
  assumes "0 \<le> commit" and "auto_flag fl"
  shows "settled (setOldestOffset x off seq fl True) commit"
  using assms by (auto simp: index_simps)

lemma seqs_ok_write:
  assumes "seqs_ok ub x" and "ub < seq" and "0 < seq"
  shows "seqs_ok seq (setOldestOffset x off seq fl init)"
  using assms by (auto simp: index_simps)

lemma seqs_ok_mono: "seqs_ok ub x \<Longrightarrow> ub \<le> ub' \<Longrightarrow> seqs_ok ub' x"
  by (auto simp: seqs_ok_def)

lemma settled_mono: "settled x commit \<Longrightarrow> commit \<le> commit' \<Longrightarrow> settled x commit'"
  by (auto simp: settled_def shown_def)

lemma settled_last: "seqs_ok ub x \<Longrightarrow> ub \<le> commit \<Longrightarrow> settled x commit"
  by (auto simp: index_simps)

lemma version_settled: "settled x commit \<Longrightarrow> version x commit dirty = version x commit True"
  by (auto simp: version_unfold settled_def)

lemma version_dirty: "version x commit True = version x commit' True"
  by (simp add: version_unfold)

text \<open>Rolling back a pending serial: every reader then gets what the committed one got before.\<close>

lemma version_of_rollback:
  assumes "seqs_ok ub x" and "pending x commit" and "0 \<le> commit" and "commit \<le> commit'"
  shows "version (setNewestOffset x (- 1) 0 fl) commit' dirty = version x commit False"
  using assms by (auto simp: index_simps is_i32_def split: if_splits)

lemma settled_of_rollback:
  assumes "pending x commit" and "0 \<le> commit"
  shows "settled (setNewestOffset x (- 1) 0 fl) commit"
  using assms by (auto simp: index_simps is_i32_def split: if_splits)

lemma seqs_ok_rollback:
  assumes "seqs_ok ub x"  and "0 \<le> ub" and "pending x commit" and "0 \<le> commit"
  shows "seqs_ok ub (setNewestOffset x (- 1) 0 fl)"
  using assms by (auto simp: index_simps is_i32_def split: if_splits)

text \<open>A second write in one transaction destroys the committed version.\<close>

lemma version_lost:
  assumes "seqs_ok ub x" and "pending x commit" and "ub < seq" and "0 \<le> commit" and "\<not> auto_flag fl"
  shows "version (setOldestOffset x off seq fl False) commit False = - 1"
  using assms by (auto simp: index_simps)

end
