(* ===== verification/Storage_Write.thy ===== *)
theory Storage_Write
  imports Storage_Io Index_Versions
begin

text \<open>
  What \<open>writeFiles\<close> does to a healthy storage opened for writing (\<open>writer\<close>) with room left on
  the disk (\<open>room\<close>), case by case: each lemma gives the return value, the files afterwards and
  the state afterwards.
\<close>

definition writer :: "storage \<Rightarrow> disk \<Rightarrow> bool" where
  "writer s d \<longleftrightarrow> live s d \<and> (\<forall>k. f_write_mode (files s k)) \<and> rdwr s \<and> \<not> rebuilding s
     \<and> well_state (state s)"

definition disk_room :: "disk \<Rightarrow> nat \<Rightarrow> bool" where
  "disk_room d n \<longleftrightarrow> length (fbytes (d DataF)) + n \<le> flimit (d DataF)
     \<and> fsize (d DataF) + int n < C_CSFILE_ENDFILE \<and> 185 \<le> flimit (d StateF)"

definition seq_room :: "disk \<Rightarrow> int \<Rightarrow> bool" where
  "seq_room d q \<longleftrightarrow> q \<le> 2147483647 \<and> nat q * 17 + 17 \<le> flimit (d LogF)"

text \<open>Room for one operation that appends at most \<open>n\<close> bytes and uses at most four sequences.\<close>

definition room :: "storage \<Rightarrow> disk \<Rightarrow> nat \<Rightarrow> bool" where
  "room s d n \<longleftrightarrow> disk_room d n \<and> seq_room d (st_last_sequence (state s) + 4)"

lemma seq_room_mono: "seq_room d q \<Longrightarrow> p \<le> q \<Longrightarrow> seq_room d p"
  by (auto simp: seq_room_def)

lemma disk_room_mono: "disk_room d n \<Longrightarrow> m \<le> n \<Longrightarrow> disk_room d m"
  by (auto simp: disk_room_def)

lemma writer_moved: "writer s d \<Longrightarrow> moved s s' d' \<Longrightarrow> writer s' d'"
  using moved_write_mode [of s s' d'] moved_fields [of s s' d'] by (auto simp: writer_def moved_live)

text \<open>Changing the other fields of the object.\<close>

lemma moved_upd_state: "moved s s' d \<Longrightarrow> moved (s\<lparr>state := st\<rparr>) (s'\<lparr>state := st\<rparr>) d"
  by (auto simp: moved_def live_def) (metis storage.surjective storage.update_convs(1,5))

lemma moved_upd_dirty: "moved s s' d \<Longrightarrow> moved (s\<lparr>dirtySerials := x\<rparr>) (s'\<lparr>dirtySerials := x\<rparr>) d"
  by (auto simp: moved_def live_def) (metis storage.surjective storage.update_convs(1,2))

lemma moved_upd_size: "moved s s' d \<Longrightarrow> moved (s\<lparr>dirtySerialSize := x\<rparr>) (s'\<lparr>dirtySerialSize := x\<rparr>) d"
  by (auto simp: moved_def live_def) (metis storage.surjective storage.update_convs(1,3))

lemma moved_addDirty: "moved s s' d \<Longrightarrow> moved (addDirtySerial i s) (addDirtySerial i s') d"
  by (simp add: addDirtySerial_def Let_def moved_fields moved_upd_dirty moved_upd_size)

lemma writer_upd_state: "writer s d \<Longrightarrow> well_state st \<Longrightarrow> writer (s\<lparr>state := st\<rparr>) d"
  by (simp add: writer_def live_def)

lemma writer_addDirty: "writer (addDirtySerial i s) d = writer s d"
  by (simp add: writer_def live_def addDirtySerial_def Let_def)

lemma addDirty_fields [simp]:
  "state (addDirtySerial i s) = state s" "dirtySerials (addDirtySerial i s) = dirtySerials s @ [i]"
  "files (addDirtySerial i s) = files s" "fauto_commit (addDirtySerial i s) = fauto_commit s"
  "rdwr (addDirtySerial i s) = rdwr s" "rebuilding (addDirtySerial i s) = rebuilding s"
  by (simp_all add: addDirtySerial_def Let_def)

subsection \<open>\<open>writeData\<close>\<close>

definition note_offset :: "int \<Rightarrow> st_reg \<Rightarrow> st_reg" where
  "note_offset off st =
     (let i = (st_last_offset_index st + 1) mod N_SS_LAST_OFFSETS
      in st\<lparr>st_last_offset_index := i, st_last_offsets := (st_last_offsets st)[nat i := word_of_int off]\<rparr>)"

lemma note_offset_fields [simp]:
  "st_last_sequence (note_offset off st) = st_last_sequence st"
  "st_last_commit_sequence (note_offset off st) = st_last_commit_sequence st"
  "st_count (note_offset off st) = st_count st" "st_data_count (note_offset off st) = st_data_count st"
  "st_commit_count (note_offset off st) = st_commit_count st"
  "st_hash_key (note_offset off st) = st_hash_key st"
  by (simp_all add: note_offset_def Let_def)

lemma well_note_offset [simp]: "well_state st \<Longrightarrow> well_state (note_offset off st)"
proof -
  have "0 \<le> (st_last_offset_index st + 1) mod 16" "(st_last_offset_index st + 1) mod 16 < 16"
    by simp_all
  then have "- 128 \<le> (st_last_offset_index st + 1) mod 16" "(st_last_offset_index st + 1) mod 16 \<le> 127"
    by linarith+
  then show "well_state st \<Longrightarrow> well_state (note_offset off st)"
    by (simp add: well_state_def note_offset_def Let_def N_SS_LAST_OFFSETS_def)
qed

lemma sint_offset: "0 \<le> off \<Longrightarrow> off < C_CSFILE_ENDFILE \<Longrightarrow> sint (word_of_int off :: 64 word) = off"
  by (simp add: sint_sbintrunc' signed_take_bit_id C_CSFILE_ENDFILE_def)

lemma writeData_ok:
  assumes w: "writer s d" and dd: "\<And>q. ddata = Some q \<Longrightarrow> arg_len dlen \<le> length q"
    and sz: "length (fbytes (d DataF)) + length (append_bytes (enc_data r) ddata dlen) + 8 \<le> flimit (d DataF)"
      "fsize (d DataF) < C_CSFILE_ENDFILE"
  shows "\<exists>s'. writeData r ddata dlen s d =
             Some (fsize (d DataF), s', app_data (append_bytes (enc_data r) ddata dlen) d)
           \<and> moved (s\<lparr>state := note_offset (fsize (d DataF)) (state s)\<rparr>) s'
               (app_data (append_bytes (enc_data r) ddata dlen) d)"
proof -
  let ?p = "append_bytes (enc_data r) ddata dlen"
  have "live s d" "f_write_mode (files s DataF)" "\<not> rebuilding s"
    using w by (simp_all add: writer_def)
  from io_append_ok [OF this(1,2) _ dd sz(1)] this(3) obtain s1 where
    a: "io_append (enc_data r) ddata dlen s d = Some (int (length ?p) + 8, s1, app_data ?p d)"
    and m: "moved s s1 (app_data ?p d)" and l: "last_offset (files s1 DataF) = fsize (d DataF)"
    by auto
  have "writeData r ddata dlen s d =
      Some (fsize (d DataF), s1\<lparr>state := note_offset (fsize (d DataF)) (state s1)\<rparr>, app_data ?p d)"
    using \<open>\<not> rebuilding s\<close> a l sz sint_offset [of "fsize (d DataF)"]
    by (simp add: writeData_def Let_def note_offset_def fsize_def)
  moreover have "state s1 = state s"
    using m by (rule moved_fields)
  ultimately show ?thesis
    using moved_upd_state [OF m, of "note_offset (fsize (d DataF)) (state s)"] by auto
qed

lemma app_data_other [simp]: "k \<noteq> DataF \<Longrightarrow> app_data p d k = d k"
  by (simp add: app_data_def)

lemma app_data_data: "app_data p d DataF = (d DataF)\<lparr>fbytes := fbytes (d DataF) @ dyn_rec p\<rparr>"
  by (simp add: app_data_def)

lemma fsize_app_data: "fsize (app_data p d DataF) = fsize (d DataF) + int (length p) + 8"
  by (simp add: app_data_def fsize_def)

subsection \<open>\<open>case T_CSTORAGE_WRITE\<close>\<close>

definition state_after_write :: "int \<Rightarrow> st_reg \<Rightarrow> st_reg" where
  "state_after_write off st = (note_offset off st)\<lparr>st_data_count := i32 (st_data_count st + 1)\<rparr>"

definition index_after_write :: "int \<Rightarrow> int \<Rightarrow> int \<Rightarrow> byte \<Rightarrow> os_file \<Rightarrow> index_reg" where
  "index_after_write i off seq fl os =
     (case rec_at 26 i os of
        None \<Rightarrow> setOldestOffset zero_index off seq fl True
      | Some p \<Rightarrow> setOldestOffset (dec_index p) off seq fl False)"

definition dirty_after_write :: "int \<Rightarrow> storage \<Rightarrow> storage" where
  "dirty_after_write i s = (if fauto_commit s then s else addDirtySerial i s)"

definition disk_after_write ::
  "int \<Rightarrow> bytes \<Rightarrow> st_reg \<Rightarrow> int \<Rightarrow> log_reg \<Rightarrow> index_reg \<Rightarrow> disk \<Rightarrow> disk" where
  "disk_after_write i p st seq r_log x d =
     (app_data p d)(StateF := put_rec 181 0 (enc_state st) (d StateF),
                    LogF := put_rec 13 seq (enc_log r_log) (d LogF),
                    IndexF := put_rec 26 i (enc_index x) (d IndexF))"

lemma well_state_after_write [simp]: "well_state st \<Longrightarrow> well_state (state_after_write off st)"
  using well_note_offset [of st off] by (simp add: state_after_write_def well_state_def i32_range)

lemma moved_dirty_after: "moved s s' d \<Longrightarrow> moved (dirty_after_write i s) (dirty_after_write i s') d"
  by (simp add: dirty_after_write_def moved_fields moved_addDirty)

lemma write_case_ok:
  assumes w: "writer s d" and dd: "\<And>q. ddata = Some q \<Longrightarrow> arg_len dlen \<le> length q"
    and p: "p = append_bytes (enc_data r) ddata dlen"
    and sz: "length (fbytes (d DataF)) + length p + 8 \<le> flimit (d DataF)" "fsize (d DataF) < C_CSFILE_ENDFILE"
    and i: "0 \<le> r_serial r" "is_i32 (r_serial r)" "nat (r_serial r) * 30 + 30 \<le> flimit (d IndexF)"
    and seq: "0 \<le> r_sequence r" "is_i32 (r_sequence r)" "nat (r_sequence r) * 17 + 17 \<le> flimit (d LogF)"
    and st: "185 \<le> flimit (d StateF)"
    and off: "off = fsize (d DataF)"
    and s1: "s1 = s\<lparr>state := state_after_write off (state s)\<rparr>"
    and d': "d' = disk_after_write (r_serial r) p (state s1) (r_sequence r) (r_log\<lparr>l_offset := off\<rparr>)
                    (index_after_write (r_serial r) off (r_sequence r) (r_flags r) (d IndexF)) d"
  shows "\<exists>s'. write_case r ddata dlen r_log s d = Some (Inr (sint dlen), s', d')
           \<and> moved (dirty_after_write (r_serial r) s1) s' d'"
proof -
  let ?d1 = "app_data p d" and ?i = "r_serial r" and ?log = "r_log\<lparr>l_offset := off\<rparr>"
  let ?x = "index_after_write ?i off (r_sequence r) (r_flags r) (d IndexF)"
  let ?s1 = "dirty_after_write ?i s1"
  obtain sa where a: "writeData r ddata dlen s d = Some (off, sa, ?d1)"
    and ma: "moved (s\<lparr>state := note_offset off (state s)\<rparr>) sa ?d1"
    using writeData_ok [OF w dd] sz unfolding p off by blast
  have st_a: "state sa = note_offset off (state s)"
    using moved_fields(1) [OF ma] by simp
  let ?sb = "sa\<lparr>state := (state sa)\<lparr>st_data_count := i32 (st_data_count (state sa) + 1)\<rparr>\<rparr>"
  have mb: "moved s1 ?sb ?d1"
    using moved_upd_state [OF ma, of "state_after_write off (state s)"]
    by (simp add: s1 st_a state_after_write_def)
  obtain sc where c: "io_readIndex IndexF ?i (enc_index zero_index) ?sb ?d1 =
      Some (fst (got IndexF ?i (enc_index zero_index) ?sb ?d1), snd (got IndexF ?i (enc_index zero_index) ?sb ?d1), sc)"
    and mc: "moved ?sb sc ?d1"
    using io_readIndex_ok [OF moved_live [OF mb] i(1,2), of "enc_index zero_index" IndexF] by auto
  have x: "setOldestOffset (dec_index (snd (got IndexF ?i (enc_index zero_index) ?sb ?d1))) off
      (r_sequence r) (r_flags r) (fst (got IndexF ?i (enc_index zero_index) ?sb ?d1) < 0) = ?x"
    by (simp add: got_def index_after_write_def miss_code_neg dec_enc_index split: option.split)
  have md: "moved ?s1 (dirty_after_write ?i sc) ?d1"
    using moved_dirty_after [OF moved_trans [OF mb mc]] .
  have w1: "writer (dirty_after_write ?i sc) ?d1"
  proof -
    have well: "well_state (state s)"
      using w by (simp add: writer_def)
    have "writer sa ?d1"
      using writer_moved [OF writer_upd_state [OF w] ma] well by simp
    then have "writer ?sb ?d1"
      using well_state_after_write [OF well, of off]
      by (intro writer_upd_state) (simp_all add: st_a state_after_write_def)
    then have "writer sc ?d1"
      using mc by (rule writer_moved)
    then show ?thesis
      by (simp add: dirty_after_write_def writer_addDirty)
  qed
  have st1: "state (dirty_after_write ?i sc) = state s1"
    using moved_fields(1) [OF md] by (simp add: dirty_after_write_def)
  have len1: "length (st_last_offsets (state s1)) = 16"
    using w well_state_after_write [of "state s" off] by (simp add: s1 writer_def well_state_def)
  let ?d2 = "?d1(StateF := put_rec 181 0 (enc_state (state s1)) (d StateF))"
  obtain se where e: "saveState (dirty_after_write ?i sc) ?d1 = Some (se, ?d2)"
    and me: "moved (dirty_after_write ?i sc) se ?d2"
    using saveState_ok [of "dirty_after_write ?i sc" ?d1] w1 st1 st len1 by (auto simp: writer_def)
  let ?d3 = "?d2(LogF := put_rec 13 (r_sequence r) (enc_log ?log) (d LogF))"
  obtain sf where f: "io_writeIndex LogF (r_sequence r) (enc_log ?log) se ?d2 = Some (13 + 4, sf, ?d3)"
    and mf: "moved se sf ?d3"
    using io_writeIndex_ok [OF moved_live [OF me], of LogF "r_sequence r" "enc_log ?log"]
      writer_moved [OF w1 me] seq by (auto simp: writer_def)
  let ?d4 = "?d3(IndexF := put_rec 26 ?i (enc_index ?x) (d IndexF))"
  obtain sg where g: "io_writeIndex IndexF ?i (enc_index ?x) sf ?d3 = Some (26 + 4, sg, ?d4)"
    and mg: "moved sf sg ?d4"
    using io_writeIndex_ok [OF moved_live [OF mf], of IndexF ?i "enc_index ?x"]
      writer_moved [OF writer_moved [OF w1 me] mf] i by (auto simp: writer_def)
  have off0: "\<not> off < 0"
    by (simp add: off fsize_def)
  have fc: "fauto_commit sc = fauto_commit ?sb"
    using mc by (rule moved_fields)
  have "write_case r ddata dlen r_log s d = Some (Inr (sint dlen), sg, ?d4)"
    unfolding write_case_def using a c e f g off0
    by (simp add: Let_def x dirty_after_write_def)
  moreover have "moved ?s1 sg ?d4"
    using md me mf mg by (blast intro: moved_trans)
  ultimately show ?thesis
    by (auto simp: d' disk_after_write_def)
qed

subsection \<open>The other cases\<close>

lemma append_bytes_none [simp]: "append_bytes b None n = b"
  by (simp add: append_bytes_def)

lemma log_written:
  assumes w: "writer s d" and seq: "0 \<le> i" "is_i32 i" "nat i * 17 + 17 \<le> flimit (d LogF)"
  shows "\<exists>s'. io_writeIndex LogF i (enc_log l) s d = Some (17, s', d(LogF := put_rec 13 i (enc_log l) (d LogF)))
           \<and> moved s s' (d(LogF := put_rec 13 i (enc_log l) (d LogF)))"
  using io_writeIndex_ok [of s d LogF i "enc_log l"] w seq by (auto simp: writer_def)

definition disk_after_log :: "bytes \<Rightarrow> int \<Rightarrow> log_reg \<Rightarrow> disk \<Rightarrow> disk" where
  "disk_after_log p seq l d = (app_data p d)(LogF := put_rec 13 seq (enc_log l) (d LogF))"

definition state_after_commit :: "int \<Rightarrow> int \<Rightarrow> st_reg \<Rightarrow> st_reg" where
  "state_after_commit off seq st =
     (note_offset off st)\<lparr>st_commit_count := i32 (st_commit_count st + 1), st_last_commit_sequence := seq\<rparr>"

lemma well_state_after_commit [simp]:
  "well_state st \<Longrightarrow> is_i32 seq \<Longrightarrow> well_state (state_after_commit off seq st)"
  using well_note_offset [of st off] by (simp add: state_after_commit_def well_state_def i32_range)

text \<open>A record is appended and logged, the state changing in between by \<open>upd\<close>.\<close>

lemma append_then_log:
  assumes w: "writer s d" and dd: "\<And>q. ddata = Some q \<Longrightarrow> arg_len dlen \<le> length q"
    and p: "p = append_bytes (enc_data r) ddata dlen"
    and sz: "length (fbytes (d DataF)) + length p + 8 \<le> flimit (d DataF)" "fsize (d DataF) < C_CSFILE_ENDFILE"
    and seq: "0 \<le> seq" "is_i32 seq" "nat seq * 17 + 17 \<le> flimit (d LogF)"
    and off: "off = fsize (d DataF)"
    and st: "well_state st"
  shows "\<exists>sa s'. writeData r ddata dlen s d = Some (off, sa, app_data p d)
           \<and> state sa = note_offset off (state s)
           \<and> io_writeIndex LogF seq (enc_log l) (sa\<lparr>state := st\<rparr>) (app_data p d) = Some (17, s', disk_after_log p seq l d)
           \<and> moved (s\<lparr>state := st\<rparr>) s' (disk_after_log p seq l d)"
proof -
  obtain sa where a: "writeData r ddata dlen s d = Some (off, sa, app_data p d)"
    and ma: "moved (s\<lparr>state := note_offset off (state s)\<rparr>) sa (app_data p d)"
    using writeData_ok [OF w dd] sz unfolding p off by blast
  have st_a: "state sa = note_offset off (state s)"
    using moved_fields(1) [OF ma] by simp
  have mb: "moved (s\<lparr>state := st\<rparr>) (sa\<lparr>state := st\<rparr>) (app_data p d)"
    using moved_upd_state [OF ma, of st] by simp
  have "writer (sa\<lparr>state := st\<rparr>) (app_data p d)"
    using writer_moved [OF writer_upd_state [OF w st] mb] .
  from log_written [OF this seq(1,2)] seq(3) obtain s' where
    "io_writeIndex LogF seq (enc_log l) (sa\<lparr>state := st\<rparr>) (app_data p d) = Some (17, s', disk_after_log p seq l d)"
    "moved (sa\<lparr>state := st\<rparr>) s' (disk_after_log p seq l d)"
    by (auto simp: disk_after_log_def)
  with a st_a mb show ?thesis
    by (blast intro: moved_trans)
qed

lemma commit_case_ok:
  assumes w: "writer s d"
    and sz: "length (fbytes (d DataF)) + 25 \<le> flimit (d DataF)" "fsize (d DataF) < C_CSFILE_ENDFILE"
    and seq: "0 \<le> r_sequence r" "is_i32 (r_sequence r)" "nat (r_sequence r) * 17 + 17 \<le> flimit (d LogF)"
      "st_last_sequence (state s) = r_sequence r"
    and off: "off = fsize (d DataF)"
    and d': "d' = disk_after_log (enc_data r) (r_sequence r) (r_log\<lparr>l_offset := off\<rparr>) d"
  shows "\<exists>s'. commit_case r r_log s d = Some (s', d')
           \<and> moved (s\<lparr>state := state_after_commit off (r_sequence r) (state s)\<rparr>) s' d'"
proof -
  let ?st = "state_after_commit off (r_sequence r) (state s)"
  have st: "well_state ?st"
    using w seq(2) by (simp add: writer_def)
  have sz': "length (fbytes (d DataF)) + length (enc_data r) + 8 \<le> flimit (d DataF)"
    using sz by simp
  obtain sa s' where "writeData r None 0 s d = Some (off, sa, app_data (enc_data r) d)"
    "state sa = note_offset off (state s)"
    "io_writeIndex LogF (r_sequence r) (enc_log (r_log\<lparr>l_offset := off\<rparr>)) (sa\<lparr>state := ?st\<rparr>)
       (app_data (enc_data r) d) = Some (17, s', d')"
    "moved (s\<lparr>state := ?st\<rparr>) s' d'"
    using append_then_log [OF w _ append_bytes_none [symmetric] sz' sz(2) seq(1-3) off st,
        of 0 "r_log\<lparr>l_offset := off\<rparr>"]
    unfolding d' by blast
  then show ?thesis
    using seq(4) by (auto simp: commit_case_def writeSyncStateLogSync_def Let_def state_after_commit_def)
qed

lemma rollback_end_case_ok:
  assumes w: "writer s d"
    and sz: "length (fbytes (d DataF)) + 25 \<le> flimit (d DataF)" "fsize (d DataF) < C_CSFILE_ENDFILE"
    and seq: "0 \<le> r_sequence r" "is_i32 (r_sequence r)" "nat (r_sequence r) * 17 + 17 \<le> flimit (d LogF)"
      "st_last_sequence (state s) = r_sequence r"
    and off: "off = fsize (d DataF)"
    and d': "d' = disk_after_log (enc_data r) (r_sequence r) r_log d"
  shows "\<exists>s'. rollback_end_case r r_log s d = Some (s', d')
           \<and> moved (s\<lparr>state := note_offset off (state s)\<rparr>) s' d'"
proof -
  let ?st = "note_offset off (state s)"
  have st: "well_state ?st"
    using w by (simp add: writer_def)
  have sz': "length (fbytes (d DataF)) + length (enc_data r) + 8 \<le> flimit (d DataF)"
    using sz by simp
  obtain sa s' where "writeData r None 0 s d = Some (off, sa, app_data (enc_data r) d)"
    "state sa = ?st"
    "io_writeIndex LogF (r_sequence r) (enc_log r_log) (sa\<lparr>state := ?st\<rparr>)
       (app_data (enc_data r) d) = Some (17, s', d')"
    "moved (s\<lparr>state := ?st\<rparr>) s' d'"
    using append_then_log [OF w _ append_bytes_none [symmetric] sz' sz(2) seq(1-3) off st, of 0 r_log]
    unfolding d' by blast
  moreover have "sa\<lparr>state := ?st\<rparr> = sa"
    using \<open>state sa = ?st\<close> by simp
  ultimately show ?thesis
    using seq(4) by (auto simp: rollback_end_case_def writeSyncStateLogSync_def)
qed

text \<open>The loop of a rollback over the index file.\<close>

fun index_rollback :: "int list \<Rightarrow> index_reg \<Rightarrow> os_file \<Rightarrow> os_file" where
  "index_rollback [] x os = os"
| "index_rollback (i # is) x os =
     (let x' = setNewestOffset (case rec_at 26 i os of Some p \<Rightarrow> dec_index p | None \<Rightarrow> x) (- 1) 0 0
      in index_rollback is x' (put_rec 26 i (enc_index x') os))"

lemma well_setNewest: "well_index x \<Longrightarrow> is_i64 off \<Longrightarrow> well_index (setNewestOffset x off seq fl)"
  by (simp add: setNewestOffset_def well_index_def set2_def Let_def i32_range)

lemma flimit_index_rollback [simp]: "flimit (index_rollback is x os) = flimit os"
  by (induction "is" x os rule: index_rollback.induct) (simp_all add: Let_def)

lemma rollback_loop_ok:
  assumes "live s d" and "f_write_mode (files s IndexF)" and "well_index x"
    and "\<And>j. j < length is \<Longrightarrow> serial_at mem (k + j) = Some (is ! j)"
    and "\<And>i. i \<in> set is \<Longrightarrow> 0 \<le> i \<and> is_i32 i \<and> nat i * 30 + 30 \<le> flimit (d IndexF)"
  shows "\<exists>s'. rollback_loop (length is) k mem x s d = Some (s', d(IndexF := index_rollback is x (d IndexF)))
           \<and> moved s s' (d(IndexF := index_rollback is x (d IndexF)))
           \<and> (\<forall>j. j \<noteq> IndexF \<longrightarrow> files s' j = files s j)"
  using assms
proof (induction "is" arbitrary: k x s d)
  case Nil
  then show ?case
    by (auto intro: moved_refl)
next
  case (Cons i "is")
  let ?buf = "enc_index x"
  have i: "0 \<le> i" "is_i32 i" "nat i * 30 + 30 \<le> flimit (d IndexF)"
    using Cons.prems(5) by simp_all
  have at: "serial_at mem k = Some i"
    using Cons.prems(4) [of 0] by simp
  obtain sa where a: "io_readIndex IndexF i ?buf s d =
      Some (fst (got IndexF i ?buf s d), snd (got IndexF i ?buf s d), sa)" and ma: "moved s sa d"
    using io_readIndex_ok [of s d i ?buf IndexF] Cons.prems(1) i by auto
  let ?x = "setNewestOffset (case rec_at 26 i (d IndexF) of Some p \<Rightarrow> dec_index p | None \<Rightarrow> x) (- 1) 0 0"
  have x: "setNewestOffset (dec_index (snd (got IndexF i ?buf s d))) (- 1) 0 0 = ?x"
    using Cons.prems(3) by (simp add: got_def dec_enc_index split: option.split)
  have wx: "well_index ?x"
    using Cons.prems(3) by (intro well_setNewest) (simp_all add: is_i64_def split: option.split)
  have wa: "live sa d" "f_write_mode (files sa IndexF)"
    using moved_live [OF ma] moved_write_mode [OF ma] Cons.prems(2) by simp_all
  let ?d = "d(IndexF := put_rec 26 i (enc_index ?x) (d IndexF))"
  obtain sb where b: "io_writeIndex IndexF i (enc_index ?x) sa d = Some (30, sb, ?d)"
    and mb: "moved sa sb ?d" and fb: "\<forall>j. j \<noteq> IndexF \<longrightarrow> files sb j = files sa j"
    using io_writeIndex_ok [OF wa i(1,2), of "enc_index ?x"] i by auto
  have wb: "live sb ?d" "f_write_mode (files sb IndexF)"
    using moved_live [OF mb] moved_write_mode [OF mb] wa(2) by simp_all
  obtain s' where c: "rollback_loop (length is) (Suc k) mem ?x sb ?d =
      Some (s', ?d(IndexF := index_rollback is ?x (?d IndexF)))"
    and m: "moved sb s' (?d(IndexF := index_rollback is ?x (?d IndexF)))"
    and fc: "\<forall>j. j \<noteq> IndexF \<longrightarrow> files s' j = files sb j"
  proof -
    have "serial_at mem (Suc k + j) = Some (is ! j)" if "j < length is" for j
      using Cons.prems(4) [of "Suc j"] that by simp
    moreover have "0 \<le> l \<and> is_i32 l \<and> nat l * 30 + 30 \<le> flimit (?d IndexF)" if "l \<in> set is" for l
      using Cons.prems(5) [of l] that by simp
    ultimately show ?thesis
      using Cons.IH [OF wb wx, of "Suc k"] that by blast
  qed
  have "rollback_loop (length (i # is)) k mem x s d =
      Some (s', d(IndexF := index_rollback (i # is) x (d IndexF)))"
    using a b c at by (simp add: x Let_def)
  moreover have "moved s s' (d(IndexF := index_rollback (i # is) x (d IndexF)))"
    using moved_trans [OF ma moved_trans [OF mb m]] by (simp add: Let_def)
  moreover have "\<forall>j. j \<noteq> IndexF \<longrightarrow> files s' j = files s j"
    using fb fc io_readIndex_files [OF a] by simp
  ultimately show ?case
    by blast
qed

lemma length_serial_array [simp]: "length (serial_array ss) = 4 * (length ss + 1)"
proof -
  have "length (concat (map enc_i32 xs)) = 4 * length xs" for xs
    by (induction xs) auto
  then show ?thesis
    by (simp add: serial_array_def)
qed

lemma serial_at_concat:
  "j < length xs \<Longrightarrow> is_i32 (xs ! j) \<Longrightarrow> serial_at (concat (map enc_i32 xs)) j = Some (xs ! j)"
proof (induction xs arbitrary: j)
  case Nil
  then show ?case by simp
next
  case (Cons x xs)
  show ?case
  proof (cases j)
    case 0
    then show ?thesis
      using Cons.prems by (simp add: serial_at_def seg_front dec_enc_i32)
  next
    case (Suc k)
    then have "serial_at (concat (map enc_i32 (x # xs))) j = serial_at (concat (map enc_i32 xs)) k"
      by (simp add: serial_at_def seg_skip)
    then show ?thesis
      using Cons Suc by simp
  qed
qed

lemma serial_at_array:
  "is_i32 (int (length ss)) \<Longrightarrow> serial_at (serial_array ss) 0 = Some (int (length ss))"
  "j < length ss \<Longrightarrow> is_i32 (ss ! j) \<Longrightarrow> serial_at (serial_array ss) (1 + j) = Some (ss ! j)"
  using serial_at_concat [of 0 "int (length ss) # ss"] serial_at_concat [of "Suc j" "int (length ss) # ss"]
  by (simp_all add: serial_array_def)

lemma rollback_begin_case_ok:
  assumes w: "writer s d"
    and mem: "dlen = word_of_nat (4 * (length ss + 1))" "4 * (length ss + 1) < 2 ^ 24"
    and p: "p = enc_data r @ serial_array ss"
    and sz: "length (fbytes (d DataF)) + length p + 8 \<le> flimit (d DataF)" "fsize (d DataF) < C_CSFILE_ENDFILE"
    and seq: "0 \<le> r_sequence r" "is_i32 (r_sequence r)" "nat (r_sequence r) * 17 + 17 \<le> flimit (d LogF)"
      "st_last_sequence (state s) = r_sequence r"
    and ss: "\<And>i. i \<in> set ss \<Longrightarrow> 0 \<le> i \<and> is_i32 i \<and> nat i * 30 + 30 \<le> flimit (d IndexF)"
    and off: "off = fsize (d DataF)"
    and d': "d' = (disk_after_log p (r_sequence r) r_log d)(IndexF := index_rollback ss zero_index (d IndexF))"
  shows "\<exists>s'. rollback_begin_case r (Some (serial_array ss)) dlen r_log s d = Some (s', d')
           \<and> moved (s\<lparr>state := note_offset off (state s)\<rparr>) s' d'"
proof -
  let ?st = "note_offset off (state s)" and ?d1 = "disk_after_log p (r_sequence r) r_log d"
  have st: "well_state ?st"
    using w by (simp add: writer_def)
  have al: "arg_len dlen = length (serial_array ss)"
    using mem arg_small(1) [of "4 * (length ss + 1)"] by simp
  have pp: "p = append_bytes (enc_data r) (Some (serial_array ss)) dlen"
    by (simp add: append_bytes_def p al)
  obtain sa s1 where a: "writeData r (Some (serial_array ss)) dlen s d = Some (off, sa, app_data p d)"
    "state sa = ?st"
    and b: "io_writeIndex LogF (r_sequence r) (enc_log r_log) (sa\<lparr>state := ?st\<rparr>) (app_data p d) = Some (17, s1, ?d1)"
    and m1: "moved (s\<lparr>state := ?st\<rparr>) s1 ?d1"
    using append_then_log [OF w _ pp sz seq(1-3) off st, of r_log] al by auto
  have sa: "sa\<lparr>state := ?st\<rparr> = sa"
    using a(2) by simp
  have len: "is_i32 (int (length ss))"
    using mem(2) by (simp add: is_i32_def)
  have "writer s1 ?d1"
    using writer_moved [OF writer_upd_state [OF w st] m1] .
  moreover have "serial_at (serial_array ss) (1 + j) = Some (ss ! j)" if "j < length ss" for j
    using serial_at_array(2) [OF that] ss [OF nth_mem [OF that]] by simp
  moreover have "?d1 IndexF = d IndexF"
    by (simp add: disk_after_log_def)
  ultimately obtain s' where c: "rollback_loop (length ss) 1 (serial_array ss) zero_index s1 ?d1 = Some (s', d')"
    and m2: "moved s1 s' d'"
    using rollback_loop_ok [of s1 ?d1 zero_index ss "serial_array ss" 1] ss by (auto simp: d' writer_def)
  have "rollback_begin_case r (Some (serial_array ss)) dlen r_log s d = Some (s', d')"
    using a b c seq(4) sa serial_at_array(1) [OF len]
    by (simp add: rollback_begin_case_def writeSyncStateLogSync_def)
  then show ?thesis
    using moved_trans [OF m1 m2] by blast
qed

end
