(* ===== verification/History.thy ===== *)
theory History
  imports Storage_Write
begin

text \<open>
  The data file as a journal: the entries appended to it, what each entry does to the index file
  and to the sequence of the last commit, and \<open>extends\<close>, the relation between a storage before
  and after an operation that says that the operation did exactly what its entries say. Later
  \<open>Rebuild\<close> shows that reading the journal back does the same.
\<close>

type_synonym entry = "data_reg \<times> bytes"

definition entry_bytes :: "entry \<Rightarrow> bytes" where
  "entry_bytes e = enc_data (fst e) @ snd e"

definition journal :: "entry list \<Rightarrow> bytes" where
  "journal es = concat (map (\<lambda>e. dyn_rec (entry_bytes e)) es)"

lemma journal_simps [simp]:
  "journal [] = []" "journal (e # es) = dyn_rec (entry_bytes e) @ journal es"
  "journal (es @ fs) = journal es @ journal fs"
  by (simp_all add: journal_def)

lemma length_entry_bytes [simp]: "length (entry_bytes e) = 17 + length (snd e)"
  by (simp add: entry_bytes_def)

text \<open>The serials of a rollback entry: a count and that many serials.\<close>

definition serials_of :: "bytes \<Rightarrow> int list" where
  "serials_of y = map (\<lambda>j. dec_i32 (seg (4 * (1 + j)) 4 y)) [0..<nat (dec_i32 (seg 0 4 y))]"

lemma serials_of_array:
  assumes "is_i32 (int (length ss))" and "\<And>i. i \<in> set ss \<Longrightarrow> is_i32 i"
  shows "serials_of (serial_array ss) = ss"
proof -
  have n: "dec_i32 (seg 0 4 (serial_array ss)) = int (length ss)"
    using serial_at_array(1) [OF assms(1)] by (simp add: serial_at_def split: if_splits)
  have at: "dec_i32 (seg (4 * (1 + j)) 4 (serial_array ss)) = ss ! j" if "j < length ss" for j
    using serial_at_array(2) [OF that assms(2) [OF nth_mem [OF that]]]
    unfolding serial_at_def by (simp only: option.inject option.distinct split: if_splits)
  show ?thesis
  proof (rule nth_equalityI)
    show "serials_of (serial_array ss) ! j = ss ! j" if "j < length (serials_of (serial_array ss))" for j
      using at [of j] that by (simp add: serials_of_def n)
  qed (simp add: serials_of_def n)
qed

subsection \<open>What the entries do\<close>

definition entry_index :: "int \<Rightarrow> entry \<Rightarrow> os_file \<Rightarrow> os_file" where
  "entry_index off e os =
     (let r = fst e
      in if record_type r = T_CSTORAGE_WRITE
         then put_rec 26 (r_serial r) (enc_index
                (index_after_write (r_serial r) off (r_sequence r) (r_flags r) os)) os
         else if record_type r = T_CSTORAGE_ROLLBACK_BEGIN
         then index_rollback (serials_of (snd e)) zero_index os
         else os)"

fun replay_index :: "int \<Rightarrow> entry list \<Rightarrow> os_file \<Rightarrow> os_file" where
  "replay_index off [] os = os"
| "replay_index off (e # es) os =
     replay_index (off + int (length (entry_bytes e)) + 8) es (entry_index off e os)"

definition entry_commit :: "entry \<Rightarrow> int \<Rightarrow> int" where
  "entry_commit e c = (if record_type (fst e) = T_CSTORAGE_COMMIT then r_sequence (fst e) else c)"

definition replay_commit :: "entry list \<Rightarrow> int \<Rightarrow> int" where
  "replay_commit = fold entry_commit"

lemma replay_commit_simps [simp]:
  "replay_commit [] c = c" "replay_commit (e # es) c = replay_commit es (entry_commit e c)"
  "replay_commit (es @ fs) c = replay_commit fs (replay_commit es c)"
  by (simp_all add: replay_commit_def)

lemma replay_index_append:
  "replay_index off (es @ fs) os = replay_index (off + int (length (journal es))) fs (replay_index off es os)"
  by (induction es arbitrary: off os) (simp_all add: add.assoc)

text \<open>The bytes of the index file are all that counts.\<close>

lemma rec_at_cong: "fbytes os = fbytes os' \<Longrightarrow> rec_at n i os = rec_at n i os'"
  unfolding rec_at_def by (simp only:)

lemma fbytes_put_rec: "fbytes os = fbytes os' \<Longrightarrow> fbytes (put_rec n i p os) = fbytes (put_rec n i p os')"
  by (simp add: put_rec_def)

lemma index_rollback_cong:
  "fbytes os = fbytes os' \<Longrightarrow> fbytes (index_rollback ss x os) = fbytes (index_rollback ss x os')"
proof (induction ss x os arbitrary: os' rule: index_rollback.induct)
  case (2 i "is" x os)
  show ?case
    unfolding index_rollback.simps Let_def rec_at_cong [OF "2.prems", of 26 i, symmetric]
    by (rule "2.IH" [OF refl]) (rule fbytes_put_rec [OF "2.prems"])
qed simp

lemma entry_index_cong:
  assumes "fbytes os = fbytes os'"
  shows "fbytes (entry_index off e os) = fbytes (entry_index off e os')"
proof -
  have "index_after_write i off q fl os = index_after_write i off q fl os'" for i q fl
    unfolding index_after_write_def rec_at_cong [OF assms] ..
  then show ?thesis
    using index_rollback_cong [OF assms] fbytes_put_rec [OF assms] assms by (simp add: entry_index_def Let_def)
qed

lemma replay_index_cong:
  "fbytes os = fbytes os' \<Longrightarrow> fbytes (replay_index off es os) = fbytes (replay_index off es os')"
proof (induction es arbitrary: off os os')
  case (Cons e es)
  show ?case
    unfolding replay_index.simps by (rule Cons.IH [OF entry_index_cong [OF Cons.prems]])
qed simp

subsection \<open>Well-formed entries\<close>

text \<open>The operations append such entries: \<open>lim\<close> is the size the index file may grow to and \<open>q\<close> the
  last sequence used.\<close>

definition entry_wf :: "nat \<Rightarrow> int \<Rightarrow> entry \<Rightarrow> bool" where
  "entry_wf lim q e \<longleftrightarrow>
     (let r = fst e; t = record_type r
      in well_data r \<and> length (snd e) < 2 ^ 24 \<and> 0 < r_sequence r \<and> r_sequence r \<le> q
         \<and> (t = T_CSTORAGE_WRITE \<and> 0 \<le> r_serial r \<and> nat (r_serial r) * 30 + 30 \<le> lim
            \<or> t = T_CSTORAGE_ROLLBACK_BEGIN
              \<and> (\<exists>ss. snd e = serial_array ss \<and> (\<forall>i \<in> set ss. 0 < i \<and> is_i32 i \<and> nat i * 30 + 30 \<le> lim))
            \<or> t \<in> {T_CSTORAGE_ROLLBACK_END, T_CSTORAGE_COMMIT, T_CSTORAGE_STATUS}))"

lemma entry_wf_mono: "entry_wf lim q e \<Longrightarrow> lim \<le> lim' \<Longrightarrow> q \<le> q' \<Longrightarrow> entry_wf lim' q' e"
  unfolding entry_wf_def Let_def by (blast intro: order_trans)

subsection \<open>Operations extend the journal\<close>

definition extends_by :: "entry list \<Rightarrow> storage \<Rightarrow> disk \<Rightarrow> storage \<Rightarrow> disk \<Rightarrow> bool" where
  "extends_by es s d s' d' \<longleftrightarrow> st_last_sequence (state s) \<le> st_last_sequence (state s')
     \<and> fbytes (d' DataF) = fbytes (d DataF) @ journal es
     \<and> fbytes (d' IndexF) = fbytes (replay_index (fsize (d DataF)) es (d IndexF))
     \<and> st_last_commit_sequence (state s') = replay_commit es (st_last_commit_sequence (state s))
     \<and> (\<forall>e \<in> set es. entry_wf (flimit (d IndexF)) (st_last_sequence (state s')) e)"

text \<open>Of the entries of one operation only the first may have an effect; the others are quiet. \<open>still\<close>: there
  are only quiet ones.\<close>

definition quiet :: "entry list \<Rightarrow> bool" where
  "quiet es \<longleftrightarrow> (\<forall>e \<in> set es. record_type (fst e) \<in> {T_CSTORAGE_ROLLBACK_END, T_CSTORAGE_STATUS})"

definition extends :: "storage \<Rightarrow> disk \<Rightarrow> storage \<Rightarrow> disk \<Rightarrow> bool" where
  "extends s d s' d' \<longleftrightarrow> (\<exists>es. extends_by es s d s' d' \<and> quiet (tl es))"

definition still :: "storage \<Rightarrow> disk \<Rightarrow> storage \<Rightarrow> disk \<Rightarrow> bool" where
  "still s d s' d' \<longleftrightarrow> (\<exists>es. extends_by es s d s' d' \<and> quiet es)"

lemma quiet_simps [simp]:
  "quiet []" "quiet (es @ fs) \<longleftrightarrow> quiet es \<and> quiet fs"
  "quiet (e # es) \<longleftrightarrow> record_type (fst e) \<in> {T_CSTORAGE_ROLLBACK_END, T_CSTORAGE_STATUS} \<and> quiet es"
  by (auto simp: quiet_def)

lemma quiet_tl: "quiet es \<Longrightarrow> quiet (tl es)"
  by (cases es) simp_all

lemma still_extends: "still s d s' d' \<Longrightarrow> extends s d s' d'"
  using quiet_tl by (auto simp: still_def extends_def)

lemma still_refl [simp]: "still s d s d"
  unfolding still_def extends_by_def by (intro exI [of _ "[]"]) simp

lemma extends_refl [simp]: "extends s d s d"
  by (simp add: still_extends)

lemma extends_by_append:
  assumes a: "extends_by es s d s1 d1" and b: "extends_by fs s1 d1 s2 d2" and lim: "flimit (d1 IndexF) = flimit (d IndexF)"
  shows "extends_by (es @ fs) s d s2 d2"
proof -
  have q: "st_last_sequence (state s1) \<le> st_last_sequence (state s2)"
    using b by (simp add: extends_by_def)
  have sz: "fsize (d1 DataF) = fsize (d DataF) + int (length (journal es))"
    using a by (simp add: extends_by_def fsize_def)
  have "fbytes (d2 IndexF) = fbytes (replay_index (fsize (d1 DataF)) fs (d1 IndexF))"
    using b by (simp add: extends_by_def)
  also have "\<dots> = fbytes (replay_index (fsize (d1 DataF)) fs (replay_index (fsize (d DataF)) es (d IndexF)))"
    using a by (intro replay_index_cong) (simp add: extends_by_def)
  finally show ?thesis
    using a b q lim entry_wf_mono [OF _ order_refl q]
    unfolding extends_by_def by (auto simp: replay_index_append sz)
qed

lemma extends_still:
  assumes "extends s d s1 d1" and "still s1 d1 s2 d2" and "flimit (d1 IndexF) = flimit (d IndexF)"
  shows "extends s d s2 d2"
proof -
  obtain es fs where e: "extends_by es s d s1 d1" "quiet (tl es)" "extends_by fs s1 d1 s2 d2" "quiet fs"
    using assms(1,2) by (auto simp: extends_def still_def)
  have "quiet (tl (es @ fs))"
    using e(2,4) quiet_tl by (cases es) simp_all
  then show ?thesis
    using extends_by_append [OF e(1,3) assms(3)] by (auto simp: extends_def)
qed

lemma still_trans:
  assumes "still s d s1 d1" and "still s1 d1 s2 d2" and "flimit (d1 IndexF) = flimit (d IndexF)"
  shows "still s d s2 d2"
  using assms extends_by_append [of _ s d s1 d1] unfolding still_def by (meson quiet_simps(2))

text \<open>One entry.\<close>

lemma extends_by_one:
  assumes "fbytes (d' DataF) = fbytes (d DataF) @ dyn_rec (entry_bytes e)"
    and "fbytes (d' IndexF) = fbytes (entry_index (fsize (d DataF)) e (d IndexF))"
    and "st_last_commit_sequence (state s') = entry_commit e (st_last_commit_sequence (state s))"
    and "entry_wf (flimit (d IndexF)) (st_last_sequence (state s')) e"
    and "st_last_sequence (state s) \<le> st_last_sequence (state s')"
  shows "extends_by [e] s d s' d'"
  unfolding extends_by_def using assms by simp

lemma extends_one:
  "extends_by [e] s d s' d' \<Longrightarrow> extends s d s' d'"
  unfolding extends_def by (intro exI [of _ "[e]"]) simp

lemma still_one:
  "extends_by [e] s d s' d' \<Longrightarrow> record_type (fst e) \<in> {T_CSTORAGE_ROLLBACK_END, T_CSTORAGE_STATUS} \<Longrightarrow> still s d s' d'"
  unfolding still_def by (intro exI [of _ "[e]"]) simp

text \<open>Entries that touch neither the index nor the commit sequence, and those of a commit.\<close>

lemma entry_simps [simp]:
  "record_type r = T_CSTORAGE_WRITE \<Longrightarrow> entry_index off (r, y) os = put_rec 26 (r_serial r) (enc_index
     (index_after_write (r_serial r) off (r_sequence r) (r_flags r) os)) os"
  "record_type r = T_CSTORAGE_ROLLBACK_BEGIN \<Longrightarrow>
     entry_index off (r, y) os = index_rollback (serials_of y) zero_index os"
  "record_type r \<in> {T_CSTORAGE_ROLLBACK_END, T_CSTORAGE_COMMIT, T_CSTORAGE_STATUS} \<Longrightarrow>
     entry_index off (r, y) os = os"
  "record_type r = T_CSTORAGE_COMMIT \<Longrightarrow> entry_commit (r, y) c = r_sequence r"
  "record_type r \<in> {T_CSTORAGE_WRITE, T_CSTORAGE_ROLLBACK_BEGIN, T_CSTORAGE_ROLLBACK_END, T_CSTORAGE_STATUS} \<Longrightarrow>
     entry_commit (r, y) c = c"
  by (auto simp: entry_index_def entry_commit_def cstorage_types)

end
