(* ===== verification/Storage_Steps.thy ===== *)
theory Storage_Steps
  imports History
begin

text \<open>
  The operations that write, as steps of a healthy storage: what \<open>ss_write\<close>, \<open>ss_commit\<close> and
  \<open>ss_rollback\<close> return and which facts about the storage and the disk they establish. The
  status record that \<open>writeFiles\<close> appends after every fiftieth record is covered by \<open>snapped\<close>,
  which every step ends with.
\<close>

definition attrs :: "os_file \<Rightarrow> nat \<times> bool \<times> bool \<times> bool \<times> bool" where
  "attrs os = (flimit os, fexists os, freadable os, fwritable os, fowned os)"

lemma attrs_simps [simp]:
  "attrs (os\<lparr>fbytes := x\<rparr>) = attrs os" "attrs (put_rec n i data os) = attrs os"
  by (simp_all add: attrs_def put_rec_def)

lemma attrs_index_rollback [simp]: "attrs (index_rollback is x os) = attrs os"
  by (induction "is" x os rule: index_rollback.induct) (simp_all add: Let_def)

definition grown :: "disk \<Rightarrow> disk \<Rightarrow> nat \<Rightarrow> bool" where
  \<comment> \<open>the data file has been appended to, by at most \<open>n\<close> bytes\<close>
  "grown d d' n \<longleftrightarrow> (\<exists>z. fbytes (d' DataF) = fbytes (d DataF) @ z \<and> length z \<le> n) \<and> (\<forall>k. attrs (d' k) = attrs (d k))"

definition saved :: "storage \<Rightarrow> disk \<Rightarrow> bool" where
  "saved s d \<longleftrightarrow> rec_at 181 0 (d StateF) = Some (enc_state (state s))"

definition log_kept :: "int \<Rightarrow> disk \<Rightarrow> disk \<Rightarrow> bool" where
  "log_kept n d d' \<longleftrightarrow> (whole 13 (d LogF) \<longrightarrow> whole 13 (d' LogF)
     \<and> (\<forall>j. 0 \<le> j \<and> j \<le> n \<longrightarrow> rec_at 13 j (d' LogF) = rec_at 13 j (d LogF)))"

abbreviation last_seq :: "storage \<Rightarrow> int" where
  "last_seq s \<equiv> st_last_sequence (state s)"

abbreviation commit_seq :: "storage \<Rightarrow> int" where
  "commit_seq s \<equiv> st_last_commit_sequence (state s)"

lemma grown_refl [simp]: "grown d d n"
  by (simp add: grown_def)

lemma grown_trans: "grown d e m \<Longrightarrow> grown e d2 k \<Longrightarrow> m + k \<le> n \<Longrightarrow> grown d d2 n"
  unfolding grown_def by auto

lemma grown_attrs: "grown d d' n \<Longrightarrow> attrs (d' k) = attrs (d k)"
  by (simp add: grown_def)

lemma grown_limit: "grown d d' n \<Longrightarrow> flimit (d' k) = flimit (d k)"
  by (simp add: grown_def attrs_def)

lemma grown_app_data: "(\<forall>k. attrs (d' k) = attrs (d k)) \<Longrightarrow> d' DataF = app_data p d DataF \<Longrightarrow>
    length p + 8 \<le> n \<Longrightarrow> grown d d' n"
  by (auto simp: grown_def app_data_data)

lemma data_rec_cong: "fbytes os = fbytes os' \<Longrightarrow> data_rec off os = data_rec off os'"
  by (simp add: data_rec_def fsize_def)

lemma data_rec_grown:
  assumes "grown d d' n" and "data_rec off (d DataF) = Some p"
  shows "data_rec off (d' DataF) = Some p"
proof -
  obtain z where z: "fbytes (d' DataF) = fbytes (d DataF) @ z"
    using assms(1) by (auto simp: grown_def)
  have "data_rec off ((d DataF)\<lparr>fbytes := fbytes (d DataF) @ z\<rparr>) = Some p"
    using assms(2) by (rule data_rec_append)
  moreover have "data_rec off (d' DataF) = data_rec off ((d DataF)\<lparr>fbytes := fbytes (d DataF) @ z\<rparr>)"
    by (rule data_rec_cong) (simp add: z)
  ultimately show ?thesis
    by simp
qed

lemma fsize_grown: "grown d d' n \<Longrightarrow> fsize (d DataF) \<le> fsize (d' DataF) \<and> fsize (d' DataF) \<le> fsize (d DataF) + int n"
  by (auto simp: grown_def fsize_def)

lemma log_kept_trans: "log_kept n d d1 \<Longrightarrow> log_kept m d1 d2 \<Longrightarrow> n \<le> m \<Longrightarrow> log_kept n d d2"
  by (auto simp: log_kept_def)

lemma log_kept_put:
  assumes "d' LogF = put_rec 13 i (enc_log l) (d LogF)" and "n < i" and "0 \<le> i"
  shows "log_kept n d d'"
  using assms log_table.lookup_store [of "d LogF" "enc_log l" i] log_table.sound_store [of "d LogF" "enc_log l" i]
  by (auto simp: log_kept_def)

subsection \<open>The status record\<close>

lemma type_of_signature [simp]:
  "(CSTORAGE_SIGNATURE OR T_CSTORAGE_WRITE) AND CSTORAGE_SIGNATURE_TYPE_MASK = T_CSTORAGE_WRITE"
  "(CSTORAGE_SIGNATURE OR T_CSTORAGE_COMMIT) AND CSTORAGE_SIGNATURE_TYPE_MASK = T_CSTORAGE_COMMIT"
  "(CSTORAGE_SIGNATURE OR T_CSTORAGE_ROLLBACK_BEGIN) AND CSTORAGE_SIGNATURE_TYPE_MASK = T_CSTORAGE_ROLLBACK_BEGIN"
  "(CSTORAGE_SIGNATURE OR T_CSTORAGE_ROLLBACK_END) AND CSTORAGE_SIGNATURE_TYPE_MASK = T_CSTORAGE_ROLLBACK_END"
  "(CSTORAGE_SIGNATURE OR T_CSTORAGE_STATUS) AND CSTORAGE_SIGNATURE_TYPE_MASK = T_CSTORAGE_STATUS"
  by (simp_all add: CSTORAGE_SIGNATURE_def CSTORAGE_SIGNATURE_TYPE_MASK_def cstorage_types)

lemma types_distinct [simp]:
  "T_CSTORAGE_ROLLBACK_BEGIN \<noteq> T_CSTORAGE_WRITE" "T_CSTORAGE_ROLLBACK_END \<noteq> T_CSTORAGE_WRITE"
  "T_CSTORAGE_COMMIT \<noteq> T_CSTORAGE_WRITE" "T_CSTORAGE_ROLLBACK_END \<noteq> T_CSTORAGE_ROLLBACK_BEGIN"
  "T_CSTORAGE_COMMIT \<noteq> T_CSTORAGE_ROLLBACK_BEGIN" "T_CSTORAGE_COMMIT \<noteq> T_CSTORAGE_ROLLBACK_END"
  "T_CSTORAGE_STATUS \<noteq> T_CSTORAGE_WRITE" "T_CSTORAGE_STATUS \<noteq> T_CSTORAGE_COMMIT"
  by (simp_all add: cstorage_types)

definition tick_state :: "int \<Rightarrow> st_reg \<Rightarrow> st_reg" where
  "tick_state seq st = st\<lparr>st_count := i32 (st_count st + 1), st_last_sequence := seq\<rparr>"

lemma tick_eq: "tick seq s = s\<lparr>state := tick_state seq (state s)\<rparr>"
  by (simp add: tick_def tick_state_def)

lemma well_tick_state [simp]: "well_state st \<Longrightarrow> is_i32 seq \<Longrightarrow> well_state (tick_state seq st)"
  by (simp add: tick_state_def well_state_def i32_range)

lemma tick_state_fields [simp]:
  "st_last_sequence (tick_state seq st) = seq"
  "st_last_commit_sequence (tick_state seq st) = st_last_commit_sequence st"
  "st_hash_key (tick_state seq st) = st_hash_key st"
  "st_count (tick_state seq st) = i32 (st_count st + 1)"
  by (simp_all add: tick_state_def)

definition snapshot_due :: "st_reg \<Rightarrow> bool" where
  "snapshot_due st \<longleftrightarrow> 0 \<le> st_count st \<and> st_count st mod C_STORAGE_STATUS_FREQ = C_STORAGE_STATUS_FREQ - 1"

text \<open>The log names the record \<open>r\<close> with data \<open>y\<close> under the sequence \<open>q\<close>.\<close>

definition logs :: "int \<Rightarrow> data_reg \<Rightarrow> bytes \<Rightarrow> disk \<Rightarrow> bool" where
  "logs q r y d \<longleftrightarrow> (\<exists>e. rec_at 13 q (d LogF) = Some (enc_log e) \<and> well_log e \<and> 0 \<le> l_offset e
     \<and> data_rec (l_offset e) (d DataF) = Some (enc_data r @ y))"

definition status_reg :: "int \<Rightarrow> data_reg" where
  "status_reg q = zero_data\<lparr>r_signature := CSTORAGE_SIGNATURE OR T_CSTORAGE_STATUS, r_sequence := q\<rparr>"

definition status_logged :: "int \<Rightarrow> disk \<Rightarrow> storage \<Rightarrow> disk \<Rightarrow> bool" where
  \<comment> \<open>if the last sequence is not \<open>q\<close>, it is that of a status record\<close>
  "status_logged q d s' d' \<longleftrightarrow> (last_seq s' \<noteq> q \<longrightarrow> whole 13 (d LogF) \<longrightarrow>
     logs (last_seq s') (status_reg (last_seq s')) [] d')"

lemma logs_kept:
  assumes "logs q r y d" and "log_kept n d d'" and "grown d d' m" and "whole 13 (d LogF)" and "0 \<le> q" "q \<le> n"
  shows "logs q r y d'"
  using assms data_rec_grown [OF assms(3)] unfolding logs_def log_kept_def by fastforce

lemma logs_appended:
  assumes "whole 13 (d LogF)" and "0 \<le> q" and "well_log e" and "l_offset e = fsize (d DataF)"
    and "d' LogF = put_rec 13 q (enc_log e) (d LogF)" and "d' DataF = app_data (enc_data r @ y) d DataF"
    and "length y < 2 ^ 24"
  shows "logs q r y d'"
proof -
  have "data_rec (fsize (d DataF)) (d' DataF) = Some (enc_data r @ y)"
    unfolding assms(6) app_data_data using assms(7) by (intro data_rec_new) (simp add: is_i32_def)
  then show ?thesis
    using assms(1-5) unfolding logs_def
    by (intro exI [of _ e]) (simp add: rec_at_put_same fsize_def)
qed

definition snapped :: "storage \<Rightarrow> disk \<Rightarrow> storage \<Rightarrow> disk \<Rightarrow> bool" where
  "snapped s d s' d' \<longleftrightarrow> writer s' d' \<and> dirtySerials s' = dirtySerials s \<and> fauto_commit s' = fauto_commit s
     \<and> commit_seq s' = commit_seq s \<and> st_hash_key (state s') = st_hash_key (state s)
     \<and> last_seq s \<le> last_seq s' \<and> last_seq s' \<le> last_seq s + 1
     \<and> d' IndexF = d IndexF \<and> grown d d' 25 \<and> log_kept (last_seq s) d d'
     \<and> (saved s d \<longrightarrow> saved s' d') \<and> (\<not> snapshot_due (state s) \<longrightarrow> s' = s \<and> d' = d)
     \<and> status_logged (last_seq s) d s' d' \<and> still s d s' d'"

lemma status_snapshot_ok:
  assumes w: "writer s d" and r: "disk_room d 25" and seq: "0 \<le> last_seq s" "seq_room d (last_seq s + 1)"
  shows "\<exists>s' d'. status_snapshot s d = Some (s', d') \<and> snapped s d s' d'"
proof (cases "snapshot_due (state s)")
  case False
  have "log_kept (last_seq s) d d"
    by (simp add: log_kept_def)
  with False w show ?thesis
    by (auto simp: status_snapshot_def snapped_def snapshot_due_def status_logged_def)
next
  case True
  define q where "q = last_seq s + 1"
  have q: "i32 (last_seq s + 1) = q" "0 \<le> q" "is_i32 q" "nat q * 17 + 17 \<le> flimit (d LogF)"
    using seq by (simp_all add: q_def is_i32_def seq_room_def)
  let ?r = "zero_data\<lparr>r_signature := CSTORAGE_SIGNATURE OR T_CSTORAGE_STATUS, r_sequence := q\<rparr>"
  let ?off = "fsize (d DataF)" and ?p = "enc_data ?r"
  let ?s = "tick q s" and ?l = "zero_log\<lparr>l_serial := 0, l_type := ucast T_CSTORAGE_STATUS, l_offset := fsize (d DataF)\<rparr>"
  let ?st = "note_offset ?off (state ?s)"
  have w1: "writer ?s d"
    using w q by (simp add: tick_eq writer_upd_state writer_def live_def)
  have st: "well_state ?st"
    using w1 by (simp add: writer_def)
  have sz: "length (fbytes (d DataF)) + length ?p + 8 \<le> flimit (d DataF)" "fsize (d DataF) < C_CSFILE_ENDFILE"
    using r by (simp_all add: disk_room_def)
  obtain sa s1 where a: "writeData ?r None 0 ?s d = Some (?off, sa, app_data ?p d)" "state sa = ?st"
    and b: "io_writeIndex LogF q (enc_log ?l) (sa\<lparr>state := ?st\<rparr>) (app_data ?p d) = Some (17, s1, disk_after_log ?p q ?l d)"
    and m1: "moved (?s\<lparr>state := ?st\<rparr>) s1 (disk_after_log ?p q ?l d)"
    using append_then_log [OF w1 _ append_bytes_none [symmetric] sz q(2-4) refl st, of 0 ?l] by blast
  have w2: "writer s1 (disk_after_log ?p q ?l d)"
    using writer_moved [OF writer_upd_state [OF w1 st] m1] .
  have st1: "state s1 = ?st"
    using moved_fields(1) [OF m1] by simp
  let ?d2 = "(disk_after_log ?p q ?l d)(StateF := put_rec 181 0 (enc_state ?st) (d StateF))"
  obtain s2 where c: "saveState s1 (disk_after_log ?p q ?l d) = Some (s2, ?d2)" and m2: "moved s1 s2 ?d2"
    using saveState_ok [of s1 "disk_after_log ?p q ?l d"] w2 st1 st r
    by (auto simp: writer_def disk_after_log_def disk_room_def well_state_def)
  have sa: "sa\<lparr>state := ?st\<rparr> = sa" "last_seq sa = q"
    using a(2) by (simp_all add: tick_eq)
  have "status_snapshot s d = Some (s2, ?d2)"
    using True a(1) b c sa q(1) by (simp add: status_snapshot_def Let_def zero_data_def snapshot_due_def)
  moreover have "snapped s d s2 ?d2"
    unfolding snapped_def
  proof (intro conjI impI)
    show "writer s2 ?d2"
      using w2 m2 by (rule writer_moved)
    show "dirtySerials s2 = dirtySerials s" "fauto_commit s2 = fauto_commit s" "commit_seq s2 = commit_seq s"
      "st_hash_key (state s2) = st_hash_key (state s)"
      "last_seq s \<le> last_seq s2" "last_seq s2 \<le> last_seq s + 1"
      using moved_fields [OF m2] moved_fields [OF m1] by (simp_all add: tick_eq q_def)
    show "?d2 IndexF = d IndexF"
      by (simp add: disk_after_log_def)
    show "grown d ?d2 25"
      by (rule grown_app_data [where p = ?p]) (simp_all add: disk_after_log_def app_data_def)
    show "log_kept (last_seq s) d ?d2"
      by (rule log_kept_put [where i = q and l = ?l]) (use q(2) in \<open>simp_all add: disk_after_log_def q_def\<close>)
    show "saved s2 ?d2"
      using moved_fields(1) [OF m2] st1 st by (simp add: saved_def rec_at_put_same well_state_def)
    show "s2 = s" "?d2 = d" if "\<not> snapshot_due (state s)"
      using that True by simp_all
    have ls: "last_seq s2 = q"
      using moved_fields(1) [OF m2] moved_fields(1) [OF m1] by (simp add: tick_eq)
    show "status_logged (last_seq s) d s2 ?d2"
      unfolding status_logged_def ls status_reg_def
    proof (intro impI logs_appended [where d = d and e = ?l])
      show "well_log ?l"
        using sz(2) by (simp add: well_log_def is_i64_def is_i32_def fsize_def C_CSFILE_ENDFILE_def zero_log_def)
    qed (simp_all add: disk_after_log_def q(2))
    have type: "record_type ?r = T_CSTORAGE_STATUS"
      by (simp add: record_type_def)
    have "extends_by [(?r, [])] s d s2 ?d2"
    proof (rule extends_by_one)
      show "fbytes (?d2 IndexF) = fbytes (entry_index ?off (?r, []) (d IndexF))"
        "commit_seq s2 = entry_commit (?r, []) (commit_seq s)"
        "entry_wf (flimit (d IndexF)) (last_seq s2) (?r, [])"
        using type moved_fields(1) [OF m2] moved_fields(1) [OF m1] q(2,3) seq(1) q_def
        by (simp_all add: disk_after_log_def tick_eq entry_wf_def well_data_def zero_data_def is_i32_def)
    qed (use moved_fields(1) [OF m2] moved_fields(1) [OF m1] in
        \<open>simp_all add: disk_after_log_def app_data_def entry_bytes_def tick_eq q_def\<close>)
    then show "still s d s2 ?d2"
      by (rule still_one) (simp add: type)
  qed
  ultimately show ?thesis
    by blast
qed

lemma status_logged_after:
  assumes "snapped s d s' d'" and "whole 13 (d0 LogF) \<Longrightarrow> whole 13 (d LogF)"
  shows "status_logged (last_seq s) d0 s' d'"
  using assms by (simp add: snapped_def status_logged_def)

lemma extends_snapped:
  "extends s d s1 d1 \<Longrightarrow> snapped s1 d1 s' d' \<Longrightarrow> flimit (d1 IndexF) = flimit (d IndexF) \<Longrightarrow> extends s d s' d'"
  using extends_still [of s d s1 d1 s' d'] by (simp add: snapped_def)

lemma still_snapped:
  "still s d s1 d1 \<Longrightarrow> snapped s1 d1 s' d' \<Longrightarrow> flimit (d1 IndexF) = flimit (d IndexF) \<Longrightarrow> still s d s' d'"
  using still_trans [of s d s1 d1 s' d'] by (simp add: snapped_def)

lemma extends_marker:
  assumes "well_data r" and "record_type r \<in> {T_CSTORAGE_COMMIT, T_CSTORAGE_ROLLBACK_END}" 
    and "0 \<le> last_seq s" "last_seq s < r_sequence r" and "last_seq s1 = r_sequence r"
    and "commit_seq s1 = entry_commit (r, []) (commit_seq s)"
  shows "extends_by [(r, [])] s d s1 (disk_after_log (enc_data r) q l d)"
  using assms
  by (intro extends_by_one)
    (auto simp: disk_after_log_def app_data_def entry_bytes_def entry_wf_def)

subsection \<open>Writing\<close>

definition write_reg :: "storage \<Rightarrow> int \<Rightarrow> u32 \<Rightarrow> data_reg" where
  "write_reg s i dlen =
     \<lparr>r_signature = CSTORAGE_SIGNATURE OR T_CSTORAGE_WRITE, r_serial = i,
      r_sequence = last_seq s + 1, r_len = sint dlen,
      r_flags = (if fauto_commit s then F_CSTORAGE_DF_AUTO_COMMIT else 0)\<rparr>"

text \<open>What a successful \<open>writeFiles\<close> of a data record \<open>r\<close> with content \<open>y\<close> establishes.\<close>

definition wrote :: "data_reg \<Rightarrow> bytes \<Rightarrow> storage \<Rightarrow> disk \<Rightarrow> storage \<Rightarrow> disk \<Rightarrow> bool" where
  "wrote r y s d s' d' \<longleftrightarrow> writer s' d'
     \<and> dirtySerials s' = (if fauto_commit s then dirtySerials s else dirtySerials s @ [r_serial r])
     \<and> fauto_commit s' = fauto_commit s \<and> commit_seq s' = commit_seq s
     \<and> st_hash_key (state s') = st_hash_key (state s)
     \<and> r_sequence r \<le> last_seq s' \<and> last_seq s' \<le> r_sequence r + 1
     \<and> d' IndexF = put_rec 26 (r_serial r) (enc_index
          (index_after_write (r_serial r) (fsize (d DataF)) (r_sequence r) (r_flags r) (d IndexF))) (d IndexF)
     \<and> data_rec (fsize (d DataF)) (d' DataF) = Some (enc_data r @ y)
     \<and> grown d d' (length y + 50) \<and> saved s' d'
     \<and> (\<forall>n. n < r_sequence r \<longrightarrow> log_kept n d d')
     \<and> (whole 13 (d LogF) \<longrightarrow> rec_at 13 (r_sequence r) (d' LogF) = Some (enc_log
          \<lparr>l_offset = fsize (d DataF), l_serial = r_serial r, l_type = ucast T_CSTORAGE_WRITE\<rparr>))
     \<and> status_logged (r_sequence r) d s' d'
     \<and> (\<not> snapshot_due (tick_state (r_sequence r) (state s)) \<longrightarrow> st_count (state s') = i32 (st_count (state s) + 1))
     \<and> (0 \<le> last_seq s \<and> last_seq s < r_sequence r \<longrightarrow> extends s d s' d')"

lemma flimit_after [simp]:
  "flimit (disk_after_write i p st q l x d k) = flimit (d k)"
  "flimit (disk_after_log p q l d k) = flimit (d k)"
  by (simp_all add: disk_after_write_def disk_after_log_def app_data_def)

lemma attrs_after [simp]:
  "attrs (disk_after_write i p st q l x d k) = attrs (d k)"
  "attrs (disk_after_log p q l d k) = attrs (d k)"
  by (simp_all add: disk_after_write_def disk_after_log_def app_data_def)

lemma room_mono: "room s d n \<Longrightarrow> m \<le> n \<Longrightarrow> room s d m"
  by (auto simp: room_def intro: disk_room_mono)

lemma writeFiles_write:
  assumes w: "writer s d" and x: "arg_len dlen \<le> length x" and r: "well_data r" "record_type r = T_CSTORAGE_WRITE"
    and room: "disk_room d (arg_len dlen + 50)" "seq_room d (r_sequence r + 1)"
    and i: "0 \<le> r_serial r" "nat (r_serial r) * 30 + 30 \<le> flimit (d IndexF)"
    and seq: "0 \<le> r_sequence r"
  shows "\<exists>s' d'. writeFiles r (Some x) dlen s d = Some (sint dlen, s', d')
           \<and> wrote r (take (arg_len dlen) x) s d s' d'"
proof -
  let ?y = "take (arg_len dlen) x" and ?i = "r_serial r" and ?q = "r_sequence r" and ?off = "fsize (d DataF)"
  let ?p = "enc_data r @ ?y"
  let ?s = "tick ?q s"
  let ?l = "zero_log\<lparr>l_serial := ?i, l_type := ucast T_CSTORAGE_WRITE\<rparr>"
  let ?x = "index_after_write ?i ?off ?q (r_flags r) (d IndexF)"
  let ?s1 = "?s\<lparr>state := state_after_write ?off (state ?s)\<rparr>"
  let ?d1 = "disk_after_write ?i ?p (state ?s1) ?q (?l\<lparr>l_offset := ?off\<rparr>) ?x d"
  have i32: "is_i32 ?i" "is_i32 ?q"
    using r by (simp_all add: well_data_def)
  have w1: "writer ?s d"
    using w i32 by (simp add: tick_eq writer_upd_state writer_def live_def)
  have pp: "?p = append_bytes (enc_data r) (Some x) dlen"
    by (simp add: append_bytes_def)
  have ly: "length ?y = arg_len dlen"
    using x by simp
  have sz: "length (fbytes (d DataF)) + length ?p + 8 \<le> flimit (d DataF)" "fsize (d DataF) < C_CSFILE_ENDFILE"
    using room ly by (simp_all add: disk_room_def)
  have logroom: "nat ?q * 17 + 17 \<le> flimit (d LogF)" "185 \<le> flimit (d StateF)"
    using room seq by (auto simp: disk_room_def seq_room_def)
  obtain s2 where a: "write_case r (Some x) dlen ?l ?s d = Some (Inr (sint dlen), s2, ?d1)"
    and m: "moved (dirty_after_write ?i ?s1) s2 ?d1"
    using write_case_ok [OF w1 _ pp sz i(1) i32(1) i(2) seq i32(2) logroom refl refl refl, of ?l] x
    by auto
  have st1: "well_state (state ?s1)"
    using w1 by (simp add: writer_def)
  have "moved (dirty_after_write ?i ?s1) s2 ?d1"
    by (rule m)
  then have f2: "state s2 = state ?s1" "fauto_commit s2 = fauto_commit s"
    "dirtySerials s2 = (if fauto_commit s then dirtySerials s else dirtySerials s @ [?i])"
    using moved_fields [OF m] by (simp_all add: dirty_after_write_def tick_eq)
  have w2: "writer s2 ?d1"
  proof -
    have "\<forall>k. f_write_mode (files s2 k)"
      using moved_write_mode [OF m] w by (simp add: dirty_after_write_def tick_eq writer_def)
    moreover have "rdwr s2" "\<not> rebuilding s2"
      using moved_fields [OF m] w by (simp_all add: dirty_after_write_def tick_eq writer_def)
    ultimately show ?thesis
      using moved_live [OF m] st1 f2(1) by (simp add: writer_def)
  qed
  have last2: "last_seq s2 = ?q" "commit_seq s2 = commit_seq s" "st_hash_key (state s2) = st_hash_key (state s)"
    by (simp_all add: f2 state_after_write_def tick_eq)
  have fs: "length (fbytes (?d1 DataF)) = length (fbytes (d DataF)) + arg_len dlen + 25"
    "fsize (?d1 DataF) = fsize (d DataF) + int (arg_len dlen) + 25"
    using ly by (simp_all add: disk_after_write_def app_data_def fsize_def)
  have room2: "disk_room ?d1 25" "seq_room ?d1 (last_seq s2 + 1)"
    using room fs by (simp_all add: disk_room_def seq_room_def last2)
  obtain s' d' where b: "status_snapshot s2 ?d1 = Some (s', d')" and sn: "snapped s2 ?d1 s' d'"
    using status_snapshot_ok [OF w2 room2(1) _ room2(2)] seq by (auto simp: last2)
  have "writeFiles r (Some x) dlen s d = Some (sint dlen, s', d')"
    using r(2) a b by (simp add: writeFiles_def Let_def)
  moreover have "wrote r ?y s d s' d'"
    unfolding wrote_def
  proof (intro conjI allI impI)
    have g1: "grown d ?d1 (length ?y + 25)"
      by (rule grown_app_data [where p = ?p]) (simp_all, simp add: disk_after_write_def)
    have g2: "grown ?d1 d' 25"
      using sn by (simp add: snapped_def)
    show "grown d d' (length ?y + 50)"
      by (rule grown_trans [OF g1 g2]) simp
    have "is_i32 (int (length ?p) + 8)"
      using arg_len_bound [of dlen] ly by (simp add: is_i32_def)
    then have "data_rec ?off (?d1 DataF) = Some ?p"
      using data_rec_new [of ?p "d DataF"] by (simp add: disk_after_write_def app_data_def)
    then show "data_rec ?off (d' DataF) = Some (enc_data r @ ?y)"
      by (rule data_rec_grown [OF g2])
    have "log_kept n d ?d1" if "n < ?q" for n
      using that seq by (intro log_kept_put) (simp_all add: disk_after_write_def)
    then show "log_kept n d d'" if "n < ?q" for n
      using that sn log_kept_trans [of n d ?d1 "last_seq s2" d'] by (auto simp: snapped_def last2)
    show "status_logged ?q d s' d'"
      using status_logged_after [OF sn, of d] seq last2(1) by (simp add: disk_after_write_def whole_put_rec)
    assume "whole 13 (d LogF)"
    then have "rec_at 13 ?q (?d1 LogF) = Some (enc_log (?l\<lparr>l_offset := ?off\<rparr>))" "whole 13 (?d1 LogF)"
      using seq by (simp_all add: disk_after_write_def rec_at_put_same whole_put_rec)
    then have "rec_at 13 ?q (d' LogF) = Some (enc_log (?l\<lparr>l_offset := ?off\<rparr>))"
      using sn seq by (simp add: snapped_def log_kept_def last2)
    then show "rec_at 13 ?q (d' LogF) = Some (enc_log \<lparr>l_offset = ?off, l_serial = ?i, l_type = ucast T_CSTORAGE_WRITE\<rparr>)"
      by (simp add: zero_log_def)
  next
    assume le: "0 \<le> last_seq s \<and> last_seq s < ?q"
    have "extends_by [(r, ?y)] s d s2 ?d1"
    proof (rule extends_by_one)
      show "entry_wf (flimit (d IndexF)) (last_seq s2) (r, ?y)"
        using r i le arg_len_bound [of dlen] ly by (simp add: entry_wf_def last2)
    qed (use r(2) le in \<open>simp_all add: disk_after_write_def app_data_def entry_bytes_def last2\<close>)
    then show "extends s d s' d'"
      by (rule extends_snapped [OF extends_one sn]) simp
  next
    have count: "st_count (state s2) = i32 (st_count (state s) + 1)"
      by (simp add: f2 state_after_write_def tick_eq)
    assume "\<not> snapshot_due (tick_state ?q (state s))"
    then show "st_count (state s') = i32 (st_count (state s) + 1)"
      using sn count by (simp add: snapped_def snapshot_due_def)
  next
    have "saved s2 ?d1"
      using st1 by (simp add: saved_def f2 disk_after_write_def rec_at_put_same well_state_def)
    then show "saved s' d'"
      using sn by (simp add: snapped_def)
  qed (use sn f2 last2 in \<open>simp_all add: snapped_def disk_after_write_def\<close>)
  ultimately show ?thesis
    by blast
qed

subsection \<open>Committing\<close>

definition committed_step :: "int \<Rightarrow> storage \<Rightarrow> disk \<Rightarrow> storage \<Rightarrow> disk \<Rightarrow> bool" where
  "committed_step q s d s' d' \<longleftrightarrow> writer s' d' \<and> dirtySerials s' = dirtySerials s
     \<and> fauto_commit s' = fauto_commit s \<and> commit_seq s' = q
     \<and> st_hash_key (state s') = st_hash_key (state s)
     \<and> q \<le> last_seq s' \<and> last_seq s' \<le> q + 1 \<and> d' IndexF = d IndexF \<and> grown d d' 50
     \<and> (\<forall>n. n < q \<longrightarrow> log_kept n d d')
     \<and> (\<not> snapshot_due (tick_state q (state s)) \<longrightarrow> d' StateF = d StateF)
     \<and> (whole 13 (d LogF) \<longrightarrow> rec_at 13 q (d' LogF) = Some (enc_log
          \<lparr>l_offset = fsize (d DataF), l_serial = 0, l_type = ucast T_CSTORAGE_COMMIT\<rparr>))
     \<and> (whole 13 (d LogF) \<longrightarrow> (\<exists>r. well_data r \<and> record_type r = T_CSTORAGE_COMMIT \<and> r_serial r = 0
           \<and> r_sequence r = q \<and> logs q r [] d'))
     \<and> status_logged (q) d s' d'
     \<and> (0 \<le> last_seq s \<and> last_seq s < q \<longrightarrow> extends s d s' d')"

lemma tick_writer: "writer s d \<Longrightarrow> is_i32 q \<Longrightarrow> writer (tick q s) d"
  by (simp add: tick_eq writer_upd_state writer_def live_def)

lemma disk_room_log:
  assumes "disk_room d (length p + 33)"
  shows "disk_room (disk_after_log p q l d) 25"
proof -
  have "length (fbytes (disk_after_log p q l d DataF)) = length (fbytes (d DataF)) + length p + 8"
    by (simp add: disk_after_log_def app_data_def)
  then show ?thesis
    using assms by (simp add: disk_room_def fsize_def)
qed

lemma grown_log: "length p + 8 \<le> n \<Longrightarrow> grown d (disk_after_log p q l d) n"
  by (rule grown_app_data [where p = p]) (simp_all, simp add: disk_after_log_def)

lemma log_kept_log: "n < q \<Longrightarrow> 0 \<le> q \<Longrightarrow> log_kept n d (disk_after_log p q l d)"
  by (rule log_kept_put [where i = q and l = l]) (simp_all add: disk_after_log_def)

lemma rec_at_log:
  "whole 13 (d LogF) \<Longrightarrow> 0 \<le> q \<Longrightarrow> rec_at 13 q (disk_after_log p q l d LogF) = Some (enc_log l)"
  by (simp add: disk_after_log_def rec_at_put_same)

lemma snapped_rec_at:
  "snapped s d s' d' \<Longrightarrow> whole 13 (d LogF) \<Longrightarrow> 0 \<le> i \<Longrightarrow> i \<le> last_seq s \<Longrightarrow>
     rec_at 13 i (d' LogF) = rec_at 13 i (d LogF)"
  by (simp add: snapped_def log_kept_def)

lemma snapped_log_kept: "snapped s d s' d' \<Longrightarrow> n \<le> last_seq s \<Longrightarrow> log_kept n d0 d \<Longrightarrow> log_kept n d0 d'"
  using log_kept_trans [of n d0 d "last_seq s" d'] by (simp add: snapped_def)

lemma writeFiles_commit:
  assumes w: "writer s d" and r: "well_data r" "record_type r = T_CSTORAGE_COMMIT" "r_serial r = 0"
    and room: "disk_room d 50" "seq_room d (r_sequence r + 1)" and seq: "0 \<le> r_sequence r"
  shows "\<exists>s' d'. writeFiles r ddata dlen s d = Some (E_CSTORAGE_OK, s', d') \<and> committed_step (r_sequence r) s d s' d'"
proof -
  let ?q = "r_sequence r" and ?p = "enc_data r"
  let ?s = "tick ?q s" and ?l = "zero_log\<lparr>l_serial := r_serial r, l_type := ucast T_CSTORAGE_COMMIT\<rparr>"
  let ?d1 = "disk_after_log ?p ?q (?l\<lparr>l_offset := fsize (d DataF)\<rparr>) d"
  let ?s1 = "?s\<lparr>state := state_after_commit (fsize (d DataF)) ?q (state ?s)\<rparr>"
  have i32: "is_i32 ?q"
    using r by (simp add: well_data_def)
  have w1: "writer ?s d"
    using w i32 by (rule tick_writer)
  have sz: "length (fbytes (d DataF)) + 25 \<le> flimit (d DataF)" "fsize (d DataF) < C_CSFILE_ENDFILE"
    "nat ?q * 17 + 17 \<le> flimit (d LogF)" "last_seq ?s = ?q"
    using room seq by (auto simp: disk_room_def seq_room_def tick_eq)
  obtain s2 where a: "commit_case r ?l ?s d = Some (s2, ?d1)" and m: "moved ?s1 s2 ?d1"
    using commit_case_ok [OF w1 sz(1,2) seq i32 sz(3,4) refl refl, of ?l] by blast
  have w2: "writer s2 ?d1"
    using writer_moved [OF writer_upd_state [OF w1] m] w1 i32 by (simp add: writer_def)
  have f2: "last_seq s2 = ?q" "commit_seq s2 = ?q" "st_hash_key (state s2) = st_hash_key (state s)"
    "dirtySerials s2 = dirtySerials s" "fauto_commit s2 = fauto_commit s"
    using moved_fields [OF m] by (simp_all add: state_after_commit_def tick_eq)
  have "disk_room ?d1 25" "seq_room ?d1 (last_seq s2 + 1)"
    using room by (auto simp: f2 seq_room_def intro!: disk_room_log elim: disk_room_mono)
  then obtain s' d' where b: "status_snapshot s2 ?d1 = Some (s', d')" and sn: "snapped s2 ?d1 s' d'"
    using status_snapshot_ok [OF w2] seq f2(1) by auto
  have "writeFiles r ddata dlen s d = Some (E_CSTORAGE_OK, s', d')"
    using r(2) a b by (simp add: writeFiles_def Let_def)
  moreover have "committed_step ?q s d s' d'"
    unfolding committed_step_def
  proof (intro conjI allI impI)
    show "grown d d' 50"
      by (rule grown_trans [where e = ?d1 and m = 25 and k = 25])
        (use sn grown_log in \<open>simp_all add: snapped_def\<close>)
    show "log_kept n d d'" if "n < ?q" for n
      using that seq f2(1) by (intro snapped_log_kept [OF sn] log_kept_log) simp_all
    show "status_logged ?q d s' d'"
      using status_logged_after [OF sn, of d] seq f2(1) by (simp add: disk_after_log_def whole_put_rec)
    show "\<exists>r. well_data r \<and> record_type r = T_CSTORAGE_COMMIT \<and> r_serial r = 0 \<and> r_sequence r = ?q \<and> logs ?q r [] d'"
      if whole: "whole 13 (d LogF)"
    proof (intro exI [of _ r] conjI)
      have l: "logs ?q r [] ?d1"
        using sz(2) seq r whole
        by (intro logs_appended [where d = d and e = "?l\<lparr>l_offset := fsize (d DataF)\<rparr>"])
          (simp_all add: disk_after_log_def well_log_def is_i64_def is_i32_def fsize_def C_CSFILE_ENDFILE_def zero_log_def)
      show "logs ?q r [] d'"
        by (rule logs_kept [OF l, of "last_seq s2" _ 25])
          (use sn whole seq f2(1) in \<open>simp_all add: snapped_def disk_after_log_def whole_put_rec\<close>)
    qed (use r in simp_all)
    show "extends s d s' d'" if "0 \<le> last_seq s \<and> last_seq s < ?q"
      using that r seq f2 by (intro extends_snapped [OF extends_one [OF extends_marker] sn]) simp_all
    show "d' StateF = d StateF" if "\<not> snapshot_due (tick_state ?q (state s))"
    proof -
      have "\<not> snapshot_due (state s2)"
        using that moved_fields(1) [OF m]
        by (simp add: snapshot_due_def state_after_commit_def tick_eq)
      then show ?thesis
        using sn by (simp add: snapped_def disk_after_log_def)
    qed
    assume "whole 13 (d LogF)"
    then have "whole 13 (?d1 LogF)" and
      "rec_at 13 ?q (?d1 LogF) = Some (enc_log (?l\<lparr>l_offset := fsize (d DataF)\<rparr>))"
      using seq by (simp_all add: disk_after_log_def rec_at_put_same whole_put_rec)
    then show "rec_at 13 ?q (d' LogF) = Some (enc_log
        \<lparr>l_offset = fsize (d DataF), l_serial = 0, l_type = ucast T_CSTORAGE_COMMIT\<rparr>)"
      using snapped_rec_at [OF sn, of ?q] seq f2(1) r(3) by (simp add: zero_log_def)
  qed (use sn f2 in \<open>simp_all add: snapped_def disk_after_log_def\<close>)
  ultimately show ?thesis
    by blast
qed

subsection \<open>Rolling back\<close>

definition logs_header :: "int \<Rightarrow> disk \<Rightarrow> bool" where
  \<comment> \<open>the log names the header of the data file under the sequence \<open>q\<close>\<close>
  "logs_header q d \<longleftrightarrow> (\<exists>e. rec_at 13 q (d LogF) = Some (enc_log e) \<and> well_log e \<and> l_offset e = 0)"

lemma logs_header_kept:
  "logs_header q d \<Longrightarrow> log_kept n d d' \<Longrightarrow> whole 13 (d LogF) \<Longrightarrow> 0 \<le> q \<Longrightarrow> q \<le> n \<Longrightarrow> logs_header q d'"
  by (simp add: logs_header_def log_kept_def)

lemma logs_header_log:
  "whole 13 (d LogF) \<Longrightarrow> 0 \<le> q \<Longrightarrow> is_i32 (l_serial l) \<Longrightarrow> l_offset l = 0 \<Longrightarrow> logs_header q (disk_after_log p q l d)"
  unfolding logs_header_def
  by (intro exI [of _ l]) (simp add: rec_at_log well_log_def is_i64_def)

definition rolled :: "int \<Rightarrow> storage \<Rightarrow> disk \<Rightarrow> storage \<Rightarrow> disk \<Rightarrow> bool" where
  "rolled q s d s' d' \<longleftrightarrow> writer s' d' \<and> dirtySerials s' = dirtySerials s
     \<and> fauto_commit s' = fauto_commit s \<and> commit_seq s' = commit_seq s
     \<and> st_hash_key (state s') = st_hash_key (state s)
     \<and> q \<le> last_seq s' \<and> last_seq s' \<le> q + 1 \<and> (\<forall>n. n < q \<longrightarrow> log_kept n d d')
     \<and> (whole 13 (d LogF) \<longrightarrow> logs_header q d')
     \<and> (0 \<le> last_seq s \<and> last_seq s < q \<longrightarrow> extends s d s' d')"

lemma writeFiles_rollback_end:
  assumes w: "writer s d" and r: "well_data r" "record_type r = T_CSTORAGE_ROLLBACK_END"
    and room: "disk_room d 50" "seq_room d (r_sequence r + 1)" and seq: "0 \<le> r_sequence r"
  shows "\<exists>s' d'. writeFiles r ddata dlen s d = Some (E_CSTORAGE_OK, s', d')
           \<and> rolled (r_sequence r) s d s' d' \<and> d' IndexF = d IndexF \<and> grown d d' 50
           \<and> (0 \<le> last_seq s \<and> last_seq s < r_sequence r \<longrightarrow> still s d s' d')"
proof -
  let ?q = "r_sequence r" and ?p = "enc_data r"
  let ?s = "tick ?q s" and ?l = "zero_log\<lparr>l_serial := r_serial r, l_type := ucast T_CSTORAGE_ROLLBACK_END\<rparr>"
  let ?d1 = "disk_after_log ?p ?q ?l d"
  let ?s1 = "?s\<lparr>state := note_offset (fsize (d DataF)) (state ?s)\<rparr>"
  have i32: "is_i32 ?q"
    using r by (simp add: well_data_def)
  have w1: "writer ?s d"
    using w i32 by (rule tick_writer)
  have sz: "length (fbytes (d DataF)) + 25 \<le> flimit (d DataF)" "fsize (d DataF) < C_CSFILE_ENDFILE"
    "nat ?q * 17 + 17 \<le> flimit (d LogF)" "last_seq ?s = ?q"
    using room seq by (auto simp: disk_room_def seq_room_def tick_eq)
  obtain s2 where a: "rollback_end_case r ?l ?s d = Some (s2, ?d1)" and m: "moved ?s1 s2 ?d1"
    using rollback_end_case_ok [OF w1 sz(1,2) seq i32 sz(3,4) refl refl, of ?l] by blast
  have w2: "writer s2 ?d1"
    using writer_moved [OF writer_upd_state [OF w1] m] w1 by (simp add: writer_def)
  have f2: "last_seq s2 = ?q" "commit_seq s2 = commit_seq s" "st_hash_key (state s2) = st_hash_key (state s)"
    "dirtySerials s2 = dirtySerials s" "fauto_commit s2 = fauto_commit s"
    using moved_fields [OF m] by (simp_all add: tick_eq)
  have "disk_room ?d1 25" "seq_room ?d1 (last_seq s2 + 1)"
    using room by (auto simp: f2 seq_room_def intro!: disk_room_log elim: disk_room_mono)
  then obtain s' d' where b: "status_snapshot s2 ?d1 = Some (s', d')" and sn: "snapped s2 ?d1 s' d'"
    using status_snapshot_ok [OF w2] seq f2(1) by auto
  have "writeFiles r ddata dlen s d = Some (E_CSTORAGE_OK, s', d')"
    using r(2) a b by (simp add: writeFiles_def Let_def)
  moreover have "log_kept n d d'" if "n < ?q" for n
    using that seq f2(1) by (intro snapped_log_kept [OF sn] log_kept_log) simp_all
  moreover have "logs_header ?q d'" if whole: "whole 13 (d LogF)"
  proof -
    have "logs_header ?q ?d1"
      using whole seq r(1) by (intro logs_header_log) (simp_all add: zero_log_def well_data_def)
    then show ?thesis
      by (rule logs_header_kept [where n = "last_seq s2"])
        (use sn whole seq f2(1) in \<open>simp_all add: snapped_def disk_after_log_def whole_put_rec\<close>)
  qed
  moreover have "still s d s' d'" if "0 \<le> last_seq s \<and> last_seq s < ?q"
    using that r seq f2 by (intro still_snapped [OF still_one [OF extends_marker] sn]) simp_all
  moreover have "grown d d' 50"
    by (rule grown_trans [where e = ?d1 and m = 25 and k = 25])
      (use sn grown_log in \<open>simp_all add: snapped_def\<close>)
  ultimately show ?thesis
    using sn f2 still_extends by (auto simp: rolled_def snapped_def disk_after_log_def)
qed

lemma writeFiles_rollback_begin:
  assumes w: "writer s d" and r: "well_data r" "record_type r = T_CSTORAGE_ROLLBACK_BEGIN"
    and mem: "dlen = word_of_nat (4 * (length ss + 1))" "4 * (length ss + 1) < 2 ^ 24"
    and room: "disk_room d (4 * length ss + 54)" "seq_room d (r_sequence r + 1)" and seq: "0 \<le> r_sequence r"
    and ss: "\<And>i. i \<in> set ss \<Longrightarrow> 0 < i \<and> is_i32 i \<and> nat i * 30 + 30 \<le> flimit (d IndexF)"
  shows "\<exists>s' d'. writeFiles r (Some (serial_array ss)) dlen s d = Some (E_CSTORAGE_OK, s', d')
           \<and> rolled (r_sequence r) s d s' d' \<and> d' IndexF = index_rollback ss zero_index (d IndexF)
           \<and> grown d d' (4 * length ss + 54)"
proof -
  let ?q = "r_sequence r" and ?p = "enc_data r @ serial_array ss"
  let ?s = "tick ?q s" and ?l = "zero_log\<lparr>l_serial := r_serial r, l_type := ucast T_CSTORAGE_ROLLBACK_BEGIN\<rparr>"
  let ?d0 = "disk_after_log ?p ?q ?l d"
  let ?d1 = "?d0(IndexF := index_rollback ss zero_index (d IndexF))"
  let ?s1 = "?s\<lparr>state := note_offset (fsize (d DataF)) (state ?s)\<rparr>"
  have i32: "is_i32 ?q"
    using r by (simp add: well_data_def)
  have ss0: "0 \<le> i \<and> is_i32 i \<and> nat i * 30 + 30 \<le> flimit (d IndexF)" if "i \<in> set ss" for i
    using ss [OF that] by simp
  have w1: "writer ?s d"
    using w i32 by (rule tick_writer)
  have sz: "length (fbytes (d DataF)) + length ?p + 8 \<le> flimit (d DataF)" "fsize (d DataF) < C_CSFILE_ENDFILE"
    "nat ?q * 17 + 17 \<le> flimit (d LogF)" "last_seq ?s = ?q"
    using room seq by (auto simp: disk_room_def seq_room_def tick_eq)
  obtain s2 where a: "rollback_begin_case r (Some (serial_array ss)) dlen ?l ?s d = Some (s2, ?d1)"
    and m: "moved ?s1 s2 ?d1"
    using rollback_begin_case_ok [OF w1 mem refl sz(1,2) seq i32 sz(3,4) ss0 refl refl, of ?l] by blast
  have w2: "writer s2 ?d1"
    using writer_moved [OF writer_upd_state [OF w1] m] w1 by (simp add: writer_def)
  have f2: "last_seq s2 = ?q" "commit_seq s2 = commit_seq s" "st_hash_key (state s2) = st_hash_key (state s)"
    "dirtySerials s2 = dirtySerials s" "fauto_commit s2 = fauto_commit s"
    using moved_fields [OF m] by (simp_all add: tick_eq)
  have "disk_room ?d0 25"
    using room by (intro disk_room_log) (simp add: algebra_simps)
  then have "disk_room ?d1 25" "seq_room ?d1 (last_seq s2 + 1)"
    using room by (auto simp: f2 seq_room_def disk_room_def)
  then obtain s' d' where b: "status_snapshot s2 ?d1 = Some (s', d')" and sn: "snapped s2 ?d1 s' d'"
    using status_snapshot_ok [OF w2] seq f2(1) by auto
  have "writeFiles r (Some (serial_array ss)) dlen s d = Some (E_CSTORAGE_OK, s', d')"
    using r(2) a b by (simp add: writeFiles_def Let_def)
  moreover have "log_kept n d d'" if "n < ?q" for n
  proof (rule snapped_log_kept [OF sn])
    show "log_kept n d ?d1"
      using log_kept_log [OF that seq, of d ?p ?l] by (simp add: log_kept_def)
  qed (use that f2 in simp)
  moreover have "logs_header ?q d'" if whole: "whole 13 (d LogF)"
  proof -
    have "logs_header ?q ?d0"
      using whole seq r(1) by (intro logs_header_log) (simp_all add: zero_log_def well_data_def)
    then have "logs_header ?q ?d1"
      by (simp add: logs_header_def)
    then show ?thesis
      by (rule logs_header_kept [where n = "last_seq s2"])
        (use sn whole seq f2(1) in \<open>simp_all add: snapped_def disk_after_log_def whole_put_rec\<close>)
  qed
  moreover have "extends s d s' d'" if le: "0 \<le> last_seq s \<and> last_seq s < ?q"
  proof (rule extends_snapped [OF _ sn])
    have "serials_of (serial_array ss) = ss"
      using mem(2) ss by (intro serials_of_array) (auto simp: is_i32_def)
    moreover have "entry_wf (flimit (d IndexF)) (last_seq s2) (r, serial_array ss)"
      using r le mem(2) ss f2(1) by (auto simp: entry_wf_def)
    ultimately show "extends s d s2 ?d1"
      using r(2) le f2
      by (intro extends_one [where e = "(r, serial_array ss)"] extends_by_one)
        (simp_all add: disk_after_log_def app_data_def entry_bytes_def)
  qed simp
  moreover have "grown d d' (4 * length ss + 54)"
  proof -
    have "grown d ?d0 (4 * length ss + 29)"
      by (rule grown_log) simp
    then have "grown d ?d1 (4 * length ss + 29)"
      by (simp add: grown_def)
    then show ?thesis
      by (rule grown_trans [where k = 25]) (use sn in \<open>simp_all add: snapped_def\<close>)
  qed
  ultimately show ?thesis
    using sn f2 by (auto simp: rolled_def snapped_def)
qed

end
