(* ===== verification/Storage_Views.thy ===== *)
theory Storage_Views
  imports Storage_Steps
begin

text \<open>
  The abstraction: what a storage holds for each serial, as the writer sees it (\<open>view True\<close>, the
  transaction in progress included) and as a committed reader sees it (\<open>view False\<close>). The
  invariant \<open>healthy\<close> ties the index file to the data file; \<open>tidy\<close> says how the transaction in
  progress stands in the index: each serial written in it has exactly one uncommitted version.
\<close>

definition idx :: "os_file \<Rightarrow> int \<Rightarrow> index_reg option" where
  "idx os i = map_option dec_index (rec_at 26 i os)"

definition stored :: "disk \<Rightarrow> int \<Rightarrow> int \<Rightarrow> int \<Rightarrow> bool" where
  \<comment> \<open>the data file has a record of serial \<open>i\<close> with sequence \<open>seq\<close> at \<open>off\<close>\<close>
  "stored d off i seq \<longleftrightarrow> 0 < off \<and> (\<exists>r y. data_rec off (d DataF) = Some (enc_data r @ y)
     \<and> well_data r \<and> r_serial r = i \<and> r_sequence r = seq \<and> length y < 2 ^ 24)"

definition entry_ok :: "disk \<Rightarrow> int \<Rightarrow> int \<Rightarrow> index_reg \<Rightarrow> bool" where
  "entry_ok d ub i x \<longleftrightarrow> seqs_ok ub x
     \<and> (fst (x_offsets x) = - 1 \<or> stored d (fst (x_offsets x)) i (fst (x_sequences x)))
     \<and> (snd (x_offsets x) = - 1 \<or> stored d (snd (x_offsets x)) i (snd (x_sequences x)))"

definition healthy :: "storage \<Rightarrow> disk \<Rightarrow> bool" where
  "healthy s d \<longleftrightarrow> writer s d \<and> whole 26 (d IndexF) \<and> whole 13 (d LogF)
     \<and> 0 \<le> commit_seq s \<and> commit_seq s \<le> last_seq s
     \<and> 0 < fsize (d DataF) \<and> fsize (d DataF) < C_CSFILE_ENDFILE
     \<and> (\<forall>i x. 0 < i \<longrightarrow> idx (d IndexF) i = Some x \<longrightarrow> entry_ok d (last_seq s) i x)"

definition tidy :: "storage \<Rightarrow> disk \<Rightarrow> bool" where
  "tidy s d \<longleftrightarrow> distinct (dirtySerials s) \<and> (fauto_commit s \<longrightarrow> dirtySerials s = [])
     \<and> (\<forall>i \<in> set (dirtySerials s). 0 < i \<and> is_i32 i \<and> nat i * 30 + 30 \<le> flimit (d IndexF)
          \<and> idx (d IndexF) i \<noteq> None)
     \<and> (\<forall>i x. 0 < i \<longrightarrow> idx (d IndexF) i = Some x \<longrightarrow>
          (if i \<in> set (dirtySerials s) then pending x (commit_seq s) else settled x (commit_seq s)))"

definition content :: "disk \<Rightarrow> int \<Rightarrow> bytes option" where
  "content d off = (if off \<le> 0 then None else map_option (drop 17) (data_rec off (d DataF)))"

definition view :: "bool \<Rightarrow> storage \<Rightarrow> disk \<Rightarrow> int \<Rightarrow> bytes option" where
  "view dirty s d i =
     (if 0 < i then (case idx (d IndexF) i of None \<Rightarrow> None
                     | Some x \<Rightarrow> content d (version x (commit_seq s) dirty)) else None)"

subsection \<open>The index file\<close>

lemma idx_well: "idx os i = Some x \<Longrightarrow> well_index x"
  by (auto simp: idx_def)

lemma idx_put:
  "\<lbrakk> whole 26 os; 0 \<le> i; 0 \<le> j; well_index x \<rbrakk> \<Longrightarrow>
     idx (put_rec 26 i (enc_index x) os) j = (if j = i then Some x else idx os j)"
  by (simp add: idx_def index_table.lookup_store dec_enc_index)

lemma index_after_write_idx:
  "index_after_write i off seq fl os =
     (case idx os i of None \<Rightarrow> setOldestOffset zero_index off seq fl True
      | Some x \<Rightarrow> setOldestOffset x off seq fl False)"
  by (simp add: index_after_write_def idx_def split: option.split)

lemma well_setOldest: "well_index x \<Longrightarrow> is_i64 off \<Longrightarrow> is_i32 seq \<Longrightarrow> well_index (setOldestOffset x off seq fl init)"
  by (auto simp: setOldestOffset_def well_index_def set2_def Let_def is_i32_def is_i64_def)

lemma well_after_write: "is_i64 off \<Longrightarrow> is_i32 seq \<Longrightarrow> well_index (index_after_write i off seq fl os)"
  by (auto simp: index_after_write_idx intro!: well_setOldest dest: idx_well split: option.split)

lemma idx_rollback:
  assumes "whole 26 os" and "distinct ss" and "\<And>i. i \<in> set ss \<Longrightarrow> 0 \<le> i \<and> idx os i \<noteq> None" and "0 \<le> j"
  shows "idx (index_rollback ss x os) j =
     (if j \<in> set ss then map_option (\<lambda>x. setNewestOffset x (- 1) 0 0) (idx os j) else idx os j)"
    and "whole 26 (index_rollback ss x os)"
proof -
  have "idx (index_rollback ss x os) j =
     (if j \<in> set ss then map_option (\<lambda>x. setNewestOffset x (- 1) 0 0) (idx os j) else idx os j)
     \<and> whole 26 (index_rollback ss x os)"
    using assms
  proof (induction ss x os rule: index_rollback.induct)
    case (1 x os)
    then show ?case by simp
  next
    case (2 i "is" x os)
    obtain p where p: "rec_at 26 i os = Some p"
      using "2.prems"(3) [of i] by (auto simp: idx_def)
    let ?x = "setNewestOffset (dec_index p) (- 1) 0 0"
    have i: "0 \<le> i" "idx os i = Some (dec_index p)" and wx: "well_index ?x"
      using "2.prems"(3) [of i] p by (auto simp: idx_def is_i64_def intro!: well_setNewest)
    have put: "idx (put_rec 26 i (enc_index ?x) os) l = (if l = i then Some ?x else idx os l)" if "0 \<le> l" for l
      using idx_put [OF "2.prems"(1) i(1) that wx] .
    have w: "whole 26 (put_rec 26 i (enc_index ?x) os)"
      using "2.prems"(1) i(1) by (intro index_table.sound_store) simp_all
    have *: "0 \<le> l \<and> idx (put_rec 26 i (enc_index ?x) os) l \<noteq> None" if "l \<in> set is" for l
      using "2.prems"(3) [of l] that put [of l] by simp
    have "idx (index_rollback is ?x (put_rec 26 i (enc_index ?x) os)) j =
       (if j \<in> set is then map_option (\<lambda>x. setNewestOffset x (- 1) 0 0) (idx (put_rec 26 i (enc_index ?x) os) j)
        else idx (put_rec 26 i (enc_index ?x) os) j)
       \<and> whole 26 (index_rollback is ?x (put_rec 26 i (enc_index ?x) os))"
      using "2.IH" [of ?x] w * "2.prems"(2,4) by (simp add: p)
    then show ?case
      using put [OF "2.prems"(4)] "2.prems"(2) i(2) by (auto simp: p Let_def)
  qed
  then show "idx (index_rollback ss x os) j =
     (if j \<in> set ss then map_option (\<lambda>x. setNewestOffset x (- 1) 0 0) (idx os j) else idx os j)"
    "whole 26 (index_rollback ss x os)" by auto
qed

subsection \<open>Records stay where they are\<close>

lemma stored_grown: "grown d d' n \<Longrightarrow> stored d off i seq \<Longrightarrow> stored d' off i seq"
  unfolding stored_def using data_rec_grown by blast

lemma content_stored: "stored d off i seq \<Longrightarrow> content d off \<noteq> None"
  by (auto simp: stored_def content_def)

lemma content_grown: "grown d d' n \<Longrightarrow> stored d off i seq \<Longrightarrow> content d' off = content d off"
  by (auto simp: stored_def content_def dest: data_rec_grown)

lemma entry_ok_grown: "grown d d' n \<Longrightarrow> entry_ok d ub i x \<Longrightarrow> ub \<le> ub' \<Longrightarrow> entry_ok d' ub' i x"
  using stored_grown seqs_ok_mono unfolding entry_ok_def by blast

lemma version_cases:
  "version x c dirty = - 1 \<or> version x c dirty = fst (x_offsets x) \<or> version x c dirty = snd (x_offsets x)"
  by (simp add: version_unfold Let_def)

lemma entry_version: "entry_ok d ub i x \<Longrightarrow> version x c dirty = - 1 \<or> (\<exists>seq. stored d (version x c dirty) i seq)"
  using version_cases [of x c dirty] unfolding entry_ok_def by metis

lemma content_version_grown:
  assumes "grown d d' n" and "entry_ok d ub i x"
  shows "content d' (version x c dirty) = content d (version x c dirty)"
proof -
  have "content d' (- 1) = content d (- 1)"
    by (simp add: content_def)
  then show ?thesis
    using entry_version [OF assms(2), of c dirty] content_grown [OF assms(1)] by metis
qed

lemma view_grown:
  assumes "healthy s d" and "grown d d' n" and "0 < i" and "idx (d' IndexF) i = idx (d IndexF) i"
    and "\<And>x. idx (d IndexF) i = Some x \<Longrightarrow> version x (commit_seq s') dirty' = version x (commit_seq s) dirty"
  shows "view dirty' s' d' i = view dirty s d i"
proof (cases "idx (d IndexF) i")
  case None
  then show ?thesis
    using assms(4) by (simp add: view_def)
next
  case (Some x)
  then have "entry_ok d (last_seq s) i x"
    using assms(1,3) by (simp add: healthy_def)
  then show ?thesis
    using Some assms(3-5) content_version_grown [OF assms(2)] by (simp add: view_def)
qed

subsection \<open>Writing a record\<close>

lemma entry_after_write:
  assumes "healthy s d" and "grown d d' n" and "0 < i" and "last_seq s < seq"
    and "stored d' off i seq"
  shows "entry_ok d' seq i (index_after_write i off seq fl (d IndexF))"
proof -
  have pos: "0 < seq"
    using assms(1,4) by (simp add: healthy_def)
  show ?thesis
  proof (cases "idx (d IndexF) i")
    case None
    then show ?thesis
      using assms(5) pos by (simp add: index_after_write_idx entry_ok_def setOldestOffset_def seqs_ok_def)
  next
    case (Some x)
    then have x: "entry_ok d (last_seq s) i x"
      using assms(1,3) by (simp add: healthy_def)
    have "entry_ok d' (last_seq s) i x"
      by (rule entry_ok_grown [OF assms(2) x order_refl])
    moreover have "seqs_ok seq (setOldestOffset x off seq fl False)"
      using x assms(4) pos by (intro seqs_ok_write) (simp_all add: entry_ok_def)
    ultimately show ?thesis
      using assms(5) Some by (auto simp: index_after_write_idx entry_ok_def setOldestOffset_def set2_def Let_def)
  qed
qed

lemma version_after_write:
  assumes "healthy s d" and "0 < i" and "last_seq s < seq" and "dirty \<or> auto_flag fl"
  shows "version (index_after_write i off seq fl (d IndexF)) c dirty = off"
proof -
  have "0 < seq" "seqs_ok (last_seq s) zero_index \<or> True"
    using assms by (auto simp: healthy_def)
  moreover have "version (setOldestOffset zero_index off seq fl True) c dirty = off"
    using assms(4) \<open>0 < seq\<close> by (auto simp: index_simps)
  moreover have "version (setOldestOffset x off seq fl False) c dirty = off"
    if "idx (d IndexF) i = Some x" for x
    using that assms \<open>0 < seq\<close> by (intro version_of_write [of "last_seq s"]) (auto simp: healthy_def entry_ok_def)
  ultimately show ?thesis
    by (simp add: index_after_write_idx split: option.split)
qed

text \<open>All that \<open>wrote\<close> says about the storage afterwards, for a record of a positive serial.\<close>

lemma wrote_healthy:
  assumes h: "healthy s d" and w: "wrote r y s d s' d'"
    and r: "well_data r" "0 < r_serial r" "last_seq s < r_sequence r" and y: "length y < 2 ^ 24"
    and room: "fsize (d DataF) + int (length y) + 50 < C_CSFILE_ENDFILE"
  shows "healthy s' d'"
    and "stored d' (fsize (d DataF)) (r_serial r) (r_sequence r)"
    and "content d' (fsize (d DataF)) = Some y"
    and "0 \<le> j \<Longrightarrow> idx (d' IndexF) j = (if j = r_serial r
           then Some (index_after_write (r_serial r) (fsize (d DataF)) (r_sequence r) (r_flags r) (d IndexF))
           else idx (d IndexF) j)"
proof -
  let ?off = "fsize (d DataF)" and ?i = "r_serial r"
  let ?x = "index_after_write ?i ?off (r_sequence r) (r_flags r) (d IndexF)"
  have off: "0 < ?off" "?off < C_CSFILE_ENDFILE"
    using h by (simp_all add: healthy_def)
  show st: "stored d' ?off ?i (r_sequence r)"
    using w off r y by (auto simp: wrote_def stored_def)
  show "content d' ?off = Some y"
    using w off by (simp add: wrote_def content_def)
  have g: "grown d d' (length y + 50)"
    using w by (simp add: wrote_def)
  have wx: "well_index ?x"
    using off r(1) by (intro well_after_write) (auto simp: is_i64_def C_CSFILE_ENDFILE_def well_data_def)
  have put: "idx (d' IndexF) j = (if j = ?i then Some ?x else idx (d IndexF) j)" if "0 \<le> j" for j
    using w h r(2) that wx by (simp add: wrote_def healthy_def idx_put)
  then show "0 \<le> j \<Longrightarrow> idx (d' IndexF) j = (if j = ?i then Some ?x else idx (d IndexF) j)" .
  have ls: "last_seq s \<le> last_seq s'" "r_sequence r \<le> last_seq s'"
    using w r(3) by (simp_all add: wrote_def)
  have "entry_ok d' (last_seq s') j x" if "0 < j" "idx (d' IndexF) j = Some x" for j x
  proof (cases "j = ?i")
    case True
    then have "x = ?x"
      using that put [of j] by simp
    moreover have "entry_ok d' (r_sequence r) ?i ?x"
      using entry_after_write [OF h g r(2,3) st] .
    ultimately show ?thesis
      using True ls(2) entry_ok_grown [of d' d' 0] by simp
  next
    case False
    then have "entry_ok d (last_seq s) j x"
      using that put [of j] h by (simp add: healthy_def)
    then show ?thesis
      using entry_ok_grown [OF g _ ls(1)] by simp
  qed
  moreover have "whole 26 (d' IndexF)"
    using w h r(2) by (simp add: wrote_def healthy_def index_table.sound_store)
  moreover have "whole 13 (d' LogF)"
    using w h r(3) by (auto simp: wrote_def log_kept_def healthy_def)
  moreover have "0 < fsize (d' DataF)" "fsize (d' DataF) < C_CSFILE_ENDFILE"
    using fsize_grown [OF g] off room by auto
  ultimately show "healthy s' d'"
    using w h ls by (simp add: healthy_def wrote_def)
qed

lemma wrote_view:
  assumes h: "healthy s d" and w: "wrote r y s d s' d'"
    and r: "well_data r" "0 < r_serial r" "last_seq s < r_sequence r" and y: "length y < 2 ^ 24"
    and room: "fsize (d DataF) + int (length y) + 50 < C_CSFILE_ENDFILE"
    and shown: "dirty \<or> auto_flag (r_flags r)"
  shows "view dirty s' d' = (view dirty s d)(r_serial r := Some y)"
proof
  fix j
  note W = wrote_healthy [OF h w r y room]
  have g: "grown d d' (length y + 50)"
    using w by (simp add: wrote_def)
  consider "j \<le> 0" | "j = r_serial r" | "0 < j" "j \<noteq> r_serial r"
    by linarith
  then show "view dirty s' d' j = ((view dirty s d)(r_serial r := Some y)) j"
  proof cases
    case 1
    then show ?thesis using r(2) by (simp add: view_def)
  next
    case 2
    then show ?thesis
      using W(3) W(4) [of j] r(2) version_after_write [OF h r(2,3) shown] by (simp add: view_def)
  next
    case 3
    have "idx (d' IndexF) j = idx (d IndexF) j"
      using W(4) [of j] 3 by simp
    moreover have "commit_seq s' = commit_seq s"
      using w by (simp add: wrote_def)
    ultimately show ?thesis
      using view_grown [OF h g 3(1), of s' dirty dirty] 3 by simp
  qed
qed

end
