(* ===== verification/Storage_Transactions.thy ===== *)
theory Storage_Transactions
  imports Storage_Views
begin

text \<open>
  The transaction guarantees of \<open>CSafeStorage\<close>, stated on the two views of \<open>Storage_Views\<close>:
  reading returns what was written, a write changes one serial of the current view and nothing
  of the committed one, a commit makes the current view the committed one and a rollback
  returns to it.
\<close>

subsection \<open>Writing\<close>

definition can_write :: "storage \<Rightarrow> disk \<Rightarrow> int \<Rightarrow> nat \<Rightarrow> bool" where
  \<comment> \<open>a serial the index can hold and space for the record\<close>
  "can_write s d i n \<longleftrightarrow> 0 < i \<and> is_i32 i \<and> n < 2 ^ 24 \<and> nat i * 30 + 30 \<le> flimit (d IndexF) \<and> room s d (n + 50)"

lemma last_seq_next: "room s d n \<Longrightarrow> 0 \<le> last_seq s \<Longrightarrow> i32 (last_seq s + 1) = last_seq s + 1"
  by (simp add: room_def seq_room_def is_i32_def)

lemma ss_write_reg:
  assumes "room s d n" and "0 \<le> last_seq s"
  shows "ss_write i data dlen s d = writeFiles (write_reg s i dlen) data dlen s d"
  using last_seq_next [OF assms] by (simp add: ss_write_def write_reg_def)

lemma write_reg_fields [simp]:
  "r_serial (write_reg s i dlen) = i" "r_sequence (write_reg s i dlen) = last_seq s + 1"
  "auto_flag (r_flags (write_reg s i dlen)) = fauto_commit s"
  "record_type (write_reg s i dlen) = T_CSTORAGE_WRITE"
  by (simp_all add: write_reg_def record_type_def)

lemma well_write_reg:
  assumes "is_i32 i" and "room s d n" and "0 \<le> last_seq s"
  shows "well_data (write_reg s i dlen)"
  using assms sint_lt [of dlen] sint_ge [of dlen]
  by (auto simp: well_data_def write_reg_def room_def seq_room_def is_i32_def)

lemma sint_small:
  assumes "n < 2 ^ 24"
  shows "sint (word_of_nat n :: u32) = int n"
proof -
  have "sint (word_of_int (int n) :: u32) = int n"
    unfolding sint_sbintrunc' using assms by (simp add: signed_take_bit_id)
  then show ?thesis
    by simp
qed

lemma write_ok:
  assumes h: "healthy s d" and c: "can_write s d i (length y)"
  shows "\<exists>s' d'. ss_write i (Some y) (word_of_nat (length y)) s d = Some (int (length y), s', d')
           \<and> wrote (write_reg s i (word_of_nat (length y))) y s d s' d'"
proof -
  let ?n = "word_of_nat (length y) :: u32" and ?r = "write_reg s i (word_of_nat (length y))"
  have n: "arg_len ?n = length y" "sint ?n = int (length y)"
    using c by (simp_all add: can_write_def arg_small sint_small)
  have s0: "0 \<le> last_seq s"
    using h by (simp add: healthy_def)
  have rm: "room s d (length y + 50)"
    using c by (simp add: can_write_def)
  have "\<exists>s' d'. writeFiles ?r (Some y) ?n s d = Some (sint ?n, s', d')
      \<and> wrote ?r (take (arg_len ?n) y) s d s' d'"
  proof (rule writeFiles_write)
    show "writer s d" "0 \<le> r_sequence ?r"
      using h s0 by (simp_all add: healthy_def)
    show "well_data ?r"
      using c rm s0 by (intro well_write_reg) (auto simp: can_write_def)
    show "disk_room d (arg_len ?n + 50)" "seq_room d (r_sequence ?r + 1)"
      using rm n seq_room_mono [of d "last_seq s + 4" "last_seq s + 2"] by (simp_all add: room_def add.commute)
    show "0 \<le> r_serial ?r" "nat (r_serial ?r) * 30 + 30 \<le> flimit (d IndexF)"
      using c by (simp_all add: can_write_def)
  qed (simp_all add: n)
  then show ?thesis
    using ss_write_reg [OF rm s0] n by simp
qed

lemma can_write_facts:
  assumes "healthy s d" and "can_write s d i (length y)"
  shows "well_data (write_reg s i (word_of_nat (length y)))" "0 < i" "length y < 2 ^ 24"
    "fsize (d DataF) + int (length y) + 50 < C_CSFILE_ENDFILE"
  using assms well_write_reg [of i s d "length y + 50"]
  by (auto simp: can_write_def healthy_def room_def disk_room_def)

lemma write_healthy:
  assumes h: "healthy s d" and c: "can_write s d i (length y)"
    and w: "wrote (write_reg s i (word_of_nat (length y))) y s d s' d'"
  shows "healthy s' d'" "view True s' d' = (view True s d)(i := Some y)"
    "fauto_commit s \<Longrightarrow> view False s' d' = (view False s d)(i := Some y)"
proof -
  note F = can_write_facts [OF h c]
  show "healthy s' d'"
    using F by (intro wrote_healthy(1) [OF h w]) simp_all
  show "view True s' d' = (view True s d)(i := Some y)"
    using wrote_view [OF h w, of True] F by simp
  show "fauto_commit s \<Longrightarrow> view False s' d' = (view False s d)(i := Some y)"
    using wrote_view [OF h w, of False] F by simp
qed

text \<open>One write per serial and transaction keeps the discipline, and keeps the committed view.\<close>

lemma write_tidy:
  assumes h: "healthy s d" and t: "tidy s d" and c: "can_write s d i (length y)"
    and w: "wrote (write_reg s i (word_of_nat (length y))) y s d s' d'"
    and fresh: "i \<notin> set (dirtySerials s)"
  shows "tidy s' d'"
proof -
  let ?r = "write_reg s i (word_of_nat (length y))" and ?off = "fsize (d DataF)"
  note F = can_write_facts [OF h c]
  have put: "0 \<le> j \<Longrightarrow> idx (d' IndexF) j = (if j = i
           then Some (index_after_write i ?off (last_seq s + 1) (r_flags ?r) (d IndexF))
           else idx (d IndexF) j)" for j
    using wrote_healthy(4) [OF h w, of j] F by simp
  have w': "dirtySerials s' = (if fauto_commit s then dirtySerials s else dirtySerials s @ [i])"
    "fauto_commit s' = fauto_commit s" "commit_seq s' = commit_seq s" "flimit (d' IndexF) = flimit (d IndexF)"
    using w by (simp_all add: wrote_def grown_limit)
  have c0: "0 \<le> commit_seq s" "commit_seq s < last_seq s + 1"
    using h by (simp_all add: healthy_def)
  have new: "if fauto_commit s then settled x (commit_seq s) else pending x (commit_seq s)"
    if x: "x = index_after_write i ?off (last_seq s + 1) (r_flags ?r) (d IndexF)" for x
  proof (cases "idx (d IndexF) i")
    case None
    have "auto_flag (r_flags ?r) = fauto_commit s" by simp
    then show ?thesis
      using None c0 settled_of_first_auto_write pending_of_first_write
      by (auto simp: x index_after_write_idx)
  next
    case (Some x0)
    have "entry_ok d (last_seq s) i x0" "settled x0 (commit_seq s)"
      using h t Some F(2) fresh by (auto simp: healthy_def tidy_def)
    then show ?thesis
      using Some c0 settled_of_auto_write [of x0 "commit_seq s" "r_flags ?r"]
        pending_of_write [of "last_seq s" x0 "last_seq s + 1" "commit_seq s" "r_flags ?r"]
      by (auto simp: x index_after_write_idx entry_ok_def)
  qed
  have entries: "if j \<in> set (dirtySerials s') then pending x (commit_seq s') else settled x (commit_seq s')"
    if j: "0 < j" "idx (d' IndexF) j = Some x" for j x
  proof (cases "j = i")
    case True
    then have "x = index_after_write i ?off (last_seq s + 1) (r_flags ?r) (d IndexF)"
      using j put [of j] by simp
    from new [OF this] show ?thesis
      using w' fresh True t by (auto simp: tidy_def)
  next
    case False
    then have "idx (d IndexF) j = Some x"
      using j put [of j] by simp
    then show ?thesis
      using t j(1) False w' by (auto simp: tidy_def)
  qed
  have "\<forall>j \<in> set (dirtySerials s'). 0 < j \<and> is_i32 j \<and> nat j * 30 + 30 \<le> flimit (d' IndexF)
      \<and> idx (d' IndexF) j \<noteq> None"
    using t c put w' by (auto simp: tidy_def can_write_def)
  moreover have "distinct (dirtySerials s')" "fauto_commit s' \<longrightarrow> dirtySerials s' = []"
    using t w' fresh by (auto simp: tidy_def)
  ultimately show ?thesis
    using entries unfolding tidy_def by blast
qed

lemma write_committed_view:
  assumes h: "healthy s d" and t: "tidy s d" and c: "can_write s d i (length y)"
    and w: "wrote (write_reg s i (word_of_nat (length y))) y s d s' d'"
    and fresh: "i \<notin> set (dirtySerials s)" and manual: "\<not> fauto_commit s"
  shows "view False s' d' = view False s d"
proof
  fix j
  let ?r = "write_reg s i (word_of_nat (length y))" and ?off = "fsize (d DataF)"
  note F = can_write_facts [OF h c]
  have g: "grown d d' (length y + 50)" and cs: "commit_seq s' = commit_seq s"
    using w by (simp_all add: wrote_def)
  have put: "0 \<le> j \<Longrightarrow> idx (d' IndexF) j = (if j = i
           then Some (index_after_write i ?off (last_seq s + 1) (r_flags ?r) (d IndexF))
           else idx (d IndexF) j)" for j
    using wrote_healthy(4) [OF h w, of j] F by simp
  have c0: "0 \<le> commit_seq s" "commit_seq s < last_seq s + 1" "\<not> auto_flag (r_flags ?r)"
    using h manual by (simp_all add: healthy_def)
  consider "j \<le> 0" | "j = i" "idx (d IndexF) i = None" | x where "j = i" "idx (d IndexF) i = Some x"
    | "0 < j" "j \<noteq> i"
    by (cases "idx (d IndexF) i") (auto simp: not_less [symmetric])
  then show "view False s' d' j = view False s d j"
  proof cases
    case 1
    then show ?thesis by (simp add: view_def)
  next
    case 2
    then have "version (index_after_write i ?off (last_seq s + 1) (r_flags ?r) (d IndexF)) (commit_seq s) False = - 1"
      using c0 by (simp add: index_after_write_idx committed_version_of_first_write)
    then show ?thesis
      using 2 put [of i] F(2) cs by (simp add: view_def content_def)
  next
    case (3 x)
    have e: "entry_ok d (last_seq s) i x" "settled x (commit_seq s)"
      using h t 3 F(2) fresh by (auto simp: healthy_def tidy_def)
    then have "version (setOldestOffset x ?off (last_seq s + 1) (r_flags ?r) False) (commit_seq s) False
        = version x (commit_seq s) False"
      using c0 by (intro committed_version_of_write [of "last_seq s"]) (auto simp: entry_ok_def)
    then show ?thesis
      using 3 put [of i] F(2) cs content_version_grown [OF g e(1)]
      by (simp add: view_def index_after_write_idx)
  next
    case 4
    then show ?thesis
      using put [of j] cs by (intro view_grown [OF h g]) simp_all
  qed
qed

subsection \<open>Committing\<close>

lemma marker_reg:
  assumes "is_i32 q"
  shows "well_data (zero_data\<lparr>r_signature := g, r_sequence := q\<rparr>)"
    "r_serial (zero_data\<lparr>r_signature := g, r_sequence := q\<rparr>) = 0"
    "r_sequence (zero_data\<lparr>r_signature := g, r_sequence := q\<rparr>) = q"
    "record_type (zero_data\<lparr>r_signature := g, r_sequence := q\<rparr>) = g AND CSTORAGE_SIGNATURE_TYPE_MASK"
  using assms by (simp_all add: well_data_def zero_data_def record_type_def is_i32_def)

lemma healthy_upd_dirty [simp]:
  "healthy (s\<lparr>dirtySerials := x\<rparr>) d = healthy s d" "view b (s\<lparr>dirtySerials := x\<rparr>) d = view b s d"
  by (simp_all add: healthy_def writer_def live_def view_def fun_eq_iff split: option.split)

lemma commit_ok:
  assumes h: "healthy s d" and m: "\<not> fauto_commit s" and r: "room s d 50"
  shows "\<exists>s' d'. ss_commit s d = Some (E_CSTORAGE_OK, clearDirtySerials s', d') \<and> committed_step (last_seq s + 1) s d s' d'"
proof -
  have s0: "0 \<le> last_seq s"
    using h by (simp add: healthy_def)
  have q: "is_i32 (last_seq s + 1)" "i32 (last_seq s + 1) = last_seq s + 1"
    using r s0 last_seq_next [OF r s0] by (auto simp: room_def seq_room_def is_i32_def)
  let ?r = "zero_data\<lparr>r_signature := CSTORAGE_SIGNATURE OR T_CSTORAGE_COMMIT, r_sequence := last_seq s + 1\<rparr>"
  have "\<exists>s' d'. writeFiles ?r None 0 s d = Some (E_CSTORAGE_OK, s', d') \<and> committed_step (r_sequence ?r) s d s' d'"
  proof (rule writeFiles_commit)
    show "writer s d" "0 \<le> r_sequence ?r"
      using h s0 by (simp_all add: healthy_def)
    show "well_data ?r" "record_type ?r = T_CSTORAGE_COMMIT" "r_serial ?r = 0"
      using marker_reg [OF q(1)] by simp_all
    show "disk_room d 50" "seq_room d (r_sequence ?r + 1)"
      using r seq_room_mono [of d "last_seq s + 4" "last_seq s + 2"] by (simp_all add: room_def add.commute)
  qed
  then show ?thesis
    using m q(2) by (auto simp: ss_commit_def)
qed

lemma committed_healthy:
  assumes h: "healthy s d" and r: "fsize (d DataF) + 50 < C_CSFILE_ENDFILE"
    and c: "committed_step q s d s' d'" and q: "last_seq s \<le> q"
  shows "healthy s' d'" "view True s' d' = view True s d" "view False s' d' = view True s d"
    "tidy (clearDirtySerials s') d'"
proof -
  have g: "grown d d' 50" and ix: "d' IndexF = d IndexF"
    and qs: "commit_seq s' = q" "q \<le> last_seq s'"
    using c by (simp_all add: committed_step_def)
  have e: "entry_ok d (last_seq s) i x" if "0 < i" "idx (d IndexF) i = Some x" for i x
    using h that by (simp add: healthy_def)
  have e': "entry_ok d' (last_seq s') i x" if "0 < i" "idx (d IndexF) i = Some x" for i x
    using entry_ok_grown [OF g e [OF that]] q qs by simp
  have "log_kept (q - 1) d d'"
    using c by (simp add: committed_step_def)
  then have "whole 13 (d' LogF)"
    using h by (simp add: log_kept_def healthy_def)
  moreover have "0 < fsize (d' DataF)" "fsize (d' DataF) < C_CSFILE_ENDFILE"
    using fsize_grown [OF g] h r by (auto simp: healthy_def)
  ultimately show h': "healthy s' d'"
    using c h e' q ix by (simp add: healthy_def committed_step_def)
  have set: "settled x q" if "0 < i" "idx (d IndexF) i = Some x" for i x
    using e [OF that] q by (intro settled_last [of "last_seq s"]) (simp_all add: entry_ok_def)
  show "view True s' d' = view True s d"
  proof
    fix i
    show "view True s' d' i = view True s d i"
    proof (cases "0 < i")
      case True
      then show ?thesis
        by (intro view_grown [OF h g]) (simp_all add: ix version_dirty)
    qed (simp add: view_def)
  qed
  show "view False s' d' = view True s d"
  proof
    fix i
    show "view False s' d' i = view True s d i"
    proof (cases "0 < i")
      case True
      have "version x (commit_seq s') False = version x (commit_seq s) True"
        if "idx (d IndexF) i = Some x" for x
        using version_settled [OF set [OF True that]] qs version_dirty by metis
      then show ?thesis
        using True by (intro view_grown [OF h g]) (simp_all add: ix)
    qed (simp add: view_def)
  qed
  show "tidy (clearDirtySerials s') d'"
    using set by (simp add: tidy_def clearDirtySerials_def ix qs)
qed

subsection \<open>Rolling back\<close>

lemma rollback_steps:
  assumes h: "healthy s d" and t: "\<And>i. i \<in> set (dirtySerials s) \<Longrightarrow> 0 < i \<and> is_i32 i \<and> nat i * 30 + 30 \<le> flimit (d IndexF)"
    and m: "\<not> fauto_commit s"
    and r: "room s d (4 * length (dirtySerials s) + 104)" and n: "4 * (length (dirtySerials s) + 1) < 2 ^ 24"
  shows "\<exists>s' d'. ss_rollback s d = Some (E_CSTORAGE_OK, clearDirtySerials s', d')
     \<and> writer s' d' \<and> fauto_commit s' = fauto_commit s \<and> commit_seq s' = commit_seq s
     \<and> st_hash_key (state s') = st_hash_key (state s)
     \<and> last_seq s < last_seq s' \<and> last_seq s' \<le> last_seq s + 4
     \<and> d' IndexF = index_rollback (dirtySerials s) zero_index (d IndexF)
     \<and> grown d d' (4 * length (dirtySerials s) + 104) \<and> log_kept (last_seq s) d d' \<and> logs_header (last_seq s + 1) d' \<and> extends s d s' d'"
proof -
  let ?n = "4 * length (dirtySerials s) + 54"
  have s0: "0 \<le> last_seq s"
    using h by (simp add: healthy_def)
  have big: "last_seq s + 4 \<le> 2147483647"
    using r by (simp add: room_def seq_room_def)
  have q1: "is_i32 (last_seq s + 1)" "i32 (last_seq s + 1) = last_seq s + 1"
    using s0 big by (simp_all add: is_i32_def)
  let ?r1 = "zero_data\<lparr>r_signature := CSTORAGE_SIGNATURE OR T_CSTORAGE_ROLLBACK_BEGIN, r_sequence := last_seq s + 1\<rparr>"
  have "\<exists>s1 d1. writeFiles ?r1 (Some (serial_array (dirtySerials s))) (word_of_nat (4 * (length (dirtySerials s) + 1))) s d
        = Some (E_CSTORAGE_OK, s1, d1)
      \<and> rolled (r_sequence ?r1) s d s1 d1 \<and> d1 IndexF = index_rollback (dirtySerials s) zero_index (d IndexF)
      \<and> grown d d1 ?n"
  proof (rule writeFiles_rollback_begin)
    show "writer s d" "0 \<le> r_sequence ?r1"
      using h s0 by (simp_all add: healthy_def)
    show "well_data ?r1" "record_type ?r1 = T_CSTORAGE_ROLLBACK_BEGIN"
      using marker_reg [OF q1(1)] by simp_all
    show "disk_room d ?n" "seq_room d (r_sequence ?r1 + 1)"
      using r disk_room_mono [of d "4 * length (dirtySerials s) + 104" ?n]
        seq_room_mono [of d "last_seq s + 4" "last_seq s + 2"]
      by (simp_all add: room_def add.commute)
    show "0 < i \<and> is_i32 i \<and> nat i * 30 + 30 \<le> flimit (d IndexF)" if "i \<in> set (dirtySerials s)" for i
      using t that by simp
  qed (use n in simp_all)
  then obtain s1 d1 where a: "writeFiles ?r1 (Some (serial_array (dirtySerials s)))
      (word_of_nat (4 * (length (dirtySerials s) + 1))) s d = Some (E_CSTORAGE_OK, s1, d1)"
    and r1: "rolled (last_seq s + 1) s d s1 d1"
    and ix: "d1 IndexF = index_rollback (dirtySerials s) zero_index (d IndexF)" and g1: "grown d d1 ?n"
    by auto
  have ls: "last_seq s + 1 \<le> last_seq s1" "last_seq s1 \<le> last_seq s + 2" and lim: "flimit (d1 k) = flimit (d k)" for k
    using r1 grown_limit [OF g1] by (simp_all add: rolled_def)
  have q2: "is_i32 (last_seq s1 + 1)" "i32 (last_seq s1 + 1) = last_seq s1 + 1" "0 \<le> last_seq s1"
    using s0 big ls by (simp_all add: is_i32_def)
  let ?r2 = "zero_data\<lparr>r_signature := CSTORAGE_SIGNATURE OR T_CSTORAGE_ROLLBACK_END, r_sequence := last_seq s1 + 1\<rparr>"
  have "\<exists>s' d'. writeFiles ?r2 None 0 s1 d1 = Some (E_CSTORAGE_OK, s', d')
      \<and> rolled (r_sequence ?r2) s1 d1 s' d' \<and> d' IndexF = d1 IndexF \<and> grown d1 d' 50
      \<and> (0 \<le> last_seq s1 \<and> last_seq s1 < r_sequence ?r2 \<longrightarrow> still s1 d1 s' d')"
  proof (rule writeFiles_rollback_end)
    show "writer s1 d1" "0 \<le> r_sequence ?r2"
      using r1 q2 by (simp_all add: rolled_def)
    show "well_data ?r2" "record_type ?r2 = T_CSTORAGE_ROLLBACK_END"
      using marker_reg [OF q2(1)] by simp_all
    have "length (fbytes (d1 DataF)) \<le> length (fbytes (d DataF)) + ?n"
      using g1 by (auto simp: grown_def)
    then show "disk_room d1 50"
      using r fsize_grown [OF g1] by (simp add: room_def disk_room_def lim)
    have "seq_room d (last_seq s1 + 2)"
      using r ls seq_room_mono [of d "last_seq s + 4" "last_seq s1 + 2"] by (simp add: room_def)
    then show "seq_room d1 (r_sequence ?r2 + 1)"
      by (simp add: seq_room_def lim add.commute)
  qed
  then obtain s' d' where b: "writeFiles ?r2 None 0 s1 d1 = Some (E_CSTORAGE_OK, s', d')"
    and r2: "rolled (last_seq s1 + 1) s1 d1 s' d'" and ix2: "d' IndexF = d1 IndexF" and g2: "grown d1 d' 50"
    and st2: "still s1 d1 s' d'"
    using q2(3) by auto
  have "ss_rollback s d = Some (E_CSTORAGE_OK, clearDirtySerials s', d')"
    using a b m q1(2) q2(2) by (simp add: ss_rollback_def Let_def)
  moreover have "log_kept (last_seq s) d d'"
    by (rule log_kept_trans [of "last_seq s" d d1 "last_seq s" d'])
      (use r1 r2 ls in \<open>simp_all add: rolled_def\<close>)
  moreover have "logs_header (last_seq s + 1) d'"
  proof (rule logs_header_kept [where n = "last_seq s1"])
    have w: "whole 13 (d LogF)"
      using h by (simp add: healthy_def)
    have "log_kept (last_seq s) d d1"
      using r1 by (simp add: rolled_def)
    then show "whole 13 (d1 LogF)" "logs_header (last_seq s + 1) d1"
      using w r1 by (simp_all add: log_kept_def rolled_def)
  qed (use r2 ls s0 in \<open>simp_all add: rolled_def\<close>)
  moreover have "grown d d' (4 * length (dirtySerials s) + 104)"
    by (rule grown_trans [OF g1 g2]) simp
  moreover have "extends s d s' d'"
    by (rule extends_still [OF _ st2]) (use r1 ls lim s0 in \<open>simp_all add: rolled_def\<close>)
  moreover have "writer s' d'" "fauto_commit s' = fauto_commit s" "commit_seq s' = commit_seq s"
    "st_hash_key (state s') = st_hash_key (state s)"
    "last_seq s < last_seq s'" "last_seq s' \<le> last_seq s + 4"
    using r1 r2 ls by (simp_all add: rolled_def)
  ultimately show ?thesis
    using ix ix2 by (intro exI [of _ s'] exI [of _ d'] conjI) simp_all
qed

lemma rollback_ok:
  assumes h: "healthy s d" and t: "tidy s d" and m: "\<not> fauto_commit s"
    and r: "room s d (4 * length (dirtySerials s) + 104)" and n: "4 * (length (dirtySerials s) + 1) < 2 ^ 24"
  shows "\<exists>s' d'. ss_rollback s d = Some (E_CSTORAGE_OK, clearDirtySerials s', d')
     \<and> writer s' d' \<and> fauto_commit s' = fauto_commit s \<and> commit_seq s' = commit_seq s
     \<and> st_hash_key (state s') = st_hash_key (state s)
     \<and> last_seq s < last_seq s' \<and> last_seq s' \<le> last_seq s + 4
     \<and> d' IndexF = index_rollback (dirtySerials s) zero_index (d IndexF)
     \<and> grown d d' (4 * length (dirtySerials s) + 104) \<and> log_kept (last_seq s) d d' \<and> logs_header (last_seq s + 1) d' \<and> extends s d s' d'"
  using t by (intro rollback_steps [OF h _ m r n]) (auto simp: tidy_def)

lemma rollback_healthy:
  assumes h: "healthy s d" and t: "tidy s d" and m: "\<not> fauto_commit s"
    and r: "fsize (d DataF) + int n < C_CSFILE_ENDFILE"
    and s': "writer s' d'" "fauto_commit s' = fauto_commit s" "commit_seq s' = commit_seq s"
      "last_seq s < last_seq s'"
    and ix: "d' IndexF = index_rollback (dirtySerials s) zero_index (d IndexF)"
    and g: "grown d d' n" and l: "log_kept (last_seq s) d d'"
  shows "healthy s' d'" "view dirty s' d' = view False s d" "tidy (clearDirtySerials s') d'"
proof -
  let ?D = "set (dirtySerials s)" and ?f = "\<lambda>x. setNewestOffset x (- 1) 0 0"
  have whole: "whole 26 (d IndexF)" "0 \<le> commit_seq s" "commit_seq s \<le> last_seq s"
    using h by (simp_all add: healthy_def)
  have ss: "distinct (dirtySerials s)" "\<And>i. i \<in> ?D \<Longrightarrow> 0 \<le> i \<and> idx (d IndexF) i \<noteq> None"
    using t by (auto simp: tidy_def)
  have put: "idx (d' IndexF) j = (if j \<in> ?D then map_option ?f (idx (d IndexF) j) else idx (d IndexF) j)"
    if "0 \<le> j" for j
    using idx_rollback(1) [OF whole(1) ss that] by (simp add: ix)
  have e: "entry_ok d (last_seq s) i x" "if i \<in> ?D then pending x (commit_seq s) else settled x (commit_seq s)"
    if "0 < i" "idx (d IndexF) i = Some x" for i x
    using h t that unfolding healthy_def tidy_def by blast+
  have new: "entry_ok d' (last_seq s') i (?f x)" "settled (?f x) (commit_seq s)"
    "version (?f x) (commit_seq s) b = version x (commit_seq s) False"
    if "0 < i" "idx (d IndexF) i = Some x" "i \<in> ?D" for i x b
  proof -
    have x: "entry_ok d' (last_seq s') i x" "pending x (commit_seq s)" "seqs_ok (last_seq s) x"
      using e [OF that(1,2)] that(3) entry_ok_grown [OF g, of "last_seq s" i x "last_seq s'"] s'(4)
      by (simp_all add: entry_ok_def)
    then have "seqs_ok (last_seq s') (?f x)"
      using whole s'(4) by (intro seqs_ok_rollback [of _ _ "commit_seq s"]) (simp_all add: entry_ok_def)
    then show "entry_ok d' (last_seq s') i (?f x)"
      using x(1) by (auto simp: entry_ok_def setNewestOffset_def set2_def Let_def)
    show "settled (?f x) (commit_seq s)"
      using x(2) whole(2) by (rule settled_of_rollback)
    show "version (?f x) (commit_seq s) b = version x (commit_seq s) False"
      using version_of_rollback [OF x(3,2) whole(2) order_refl] .
  qed
  have "entry_ok d' (last_seq s') i x" if "0 < i" "idx (d' IndexF) i = Some x" for i x
    using that put [of i] new(1) [of i] e(1) [of i] entry_ok_grown [OF g, of "last_seq s" i _ "last_seq s'"] s'(4)
    by (cases "i \<in> ?D") auto
  moreover have "whole 13 (d' LogF)"
    using l h by (simp add: log_kept_def healthy_def)
  moreover have "0 < fsize (d' DataF)" "fsize (d' DataF) < C_CSFILE_ENDFILE"
    using fsize_grown [OF g] h r by (auto simp: healthy_def)
  ultimately show "healthy s' d'"
    using s' whole idx_rollback(2) [OF whole(1) ss, of 0] by (simp add: healthy_def ix)
  show "view dirty s' d' = view False s d"
  proof
    fix i
    show "view dirty s' d' i = view False s d i"
    proof (cases "0 < i \<and> i \<in> ?D")
      case True
      then obtain x where x: "idx (d IndexF) i = Some x"
        using ss(2) [of i] by auto
      then have "content d' (version x (commit_seq s) False) = content d (version x (commit_seq s) False)"
        using content_version_grown [OF g e(1)] True by blast
      then show ?thesis
        using x True put [of i] new(3) [of i x] s'(3) by (simp add: view_def)
    next
      case False
      show ?thesis
      proof (cases "0 < i")
        case True
        then have "version x (commit_seq s') dirty = version x (commit_seq s) False"
          if "idx (d IndexF) i = Some x" for x
          using e(2) [OF True that] True False s'(3) version_settled [of x "commit_seq s" dirty]
            version_settled [of x "commit_seq s" False] by auto
        then show ?thesis
          using True False put [of i] by (intro view_grown [OF h g]) auto
      qed (simp add: view_def)
    qed
  qed
  have "settled x (commit_seq s')" if "0 < i" "idx (d' IndexF) i = Some x" for i x
    using that put [of i] new(2) [of i] e(2) [of i] s'(3) by (cases "i \<in> ?D") auto
  then show "tidy (clearDirtySerials s') d'"
    by (simp add: tidy_def clearDirtySerials_def)
qed

subsection \<open>Reading\<close>

lemma healthy_moved:
  assumes "healthy s d" and "moved s s' d"
  shows "healthy s' d" "view b s' d = view b s d" "tidy s' d = tidy s d"
proof -
  have "writer s' d"
    using assms writer_moved by (auto simp: healthy_def)
  moreover have f: "state s' = state s" "dirtySerials s' = dirtySerials s" "fauto_commit s' = fauto_commit s"
    using moved_fields [OF assms(2)] by simp_all
  ultimately show "healthy s' d" "view b s' d = view b s d" "tidy s' d = tidy s d"
    using assms(1) by (simp_all add: healthy_def view_def tidy_def fun_eq_iff split: option.split)
qed

lemma healthy_upd [simp]:
  "healthy (s\<lparr>cursor := c\<rparr>) d = healthy s d" "healthy (s\<lparr>ss_last_offset := o'\<rparr>) d = healthy s d"
  "view b (s\<lparr>cursor := c\<rparr>) d = view b s d" "view b (s\<lparr>ss_last_offset := o'\<rparr>) d = view b s d"
  "tidy (s\<lparr>cursor := c\<rparr>) d = tidy s d" "tidy (s\<lparr>ss_last_offset := o'\<rparr>) d = tidy s d"
  by (simp_all add: healthy_def writer_def live_def view_def tidy_def fun_eq_iff split: option.split)

text \<open>A reader that keeps everything but caches, cursor and last offset.\<close>

definition only_read :: "storage \<Rightarrow> storage \<Rightarrow> disk \<Rightarrow> bool" where
  "only_read s s' d \<longleftrightarrow> (\<exists>c o'. moved (s\<lparr>cursor := c, ss_last_offset := o'\<rparr>) s' d)"

lemma only_read_healthy:
  assumes "healthy s d" and "only_read s s' d"
  shows "healthy s' d" "view b s' d = view b s d" "tidy s' d = tidy s d"
proof -
  obtain c o' where "moved (s\<lparr>cursor := c, ss_last_offset := o'\<rparr>) s' d"
    using assms(2) by (auto simp: only_read_def)
  then show "healthy s' d" "view b s' d = view b s d" "tidy s' d = tidy s d"
    using healthy_moved [of "s\<lparr>cursor := c, ss_last_offset := o'\<rparr>" d s'] assms(1) by simp_all
qed

lemma moved_upd_offset: "moved s s' d \<Longrightarrow> moved (s\<lparr>ss_last_offset := x\<rparr>) (s'\<lparr>ss_last_offset := x\<rparr>) d"
  by (auto simp: moved_def live_def) (metis storage.surjective storage.update_convs(1,6))

lemma live_upd [simp]: "live (s\<lparr>cursor := c\<rparr>) d = live s d" "live (s\<lparr>ss_last_offset := x\<rparr>) d = live s d"
  by (simp_all add: live_def)

text \<open>The two halves of a read: the index record, then the data record it points to.\<close>

lemma read_body_ok:
  assumes l: "live s0 d" and i: "0 < i" "is_i32 i" and x: "idx (d IndexF) i = Some x"
    and off: "getLastOffset x fl s0 = off" "stored d off i seq" and y: "content d off = Some y"
    and sz: "fsize (d DataF) < C_CSFILE_ENDFILE" and m: "m < 2 ^ 24"
  shows "\<exists>s'. do { (result, b, s) \<leftarrow> io_readIndex IndexF i (enc_index zero_index) s0 d;
          if result = E_CSFILE_EMPTY_DATA then Some (E_CSTORAGE_SERIAL_NOT_FOUND, buf, s)
          else if result < 0 then Some (result, buf, s)
          else
            let s = s\<lparr>ss_last_offset := getLastOffset (dec_index b) fl s\<rparr>
            in if ss_last_offset s \<le> 0 then Some (E_CSTORAGE_SERIAL_NOT_FOUND, buf, s)
               else do { (result, h, data, s) \<leftarrow>
                           io_read_data (ss_last_offset s) (enc_data zero_data) buf (word_of_nat m) s d;
                         Some (if result < 0 then result else i32 (result - 17), data, s) } }
      = Some (int (length y), overlay (take m y) buf, s')
      \<and> moved (s0\<lparr>ss_last_offset := off\<rparr>) s' d"
proof -
  obtain p where p: "rec_at 26 i (d IndexF) = Some p" "x = dec_index p"
    using x by (auto simp: idx_def)
  obtain s1 where a: "io_readIndex IndexF i (enc_index zero_index) s0 d = Some (26, p, s1)" and m1: "moved s0 s1 d"
    using io_readIndex_ok [OF l, of i "enc_index zero_index" IndexF] i p(1) got_found [of IndexF i d p] by auto
  have o1: "getLastOffset (dec_index p) fl s1 = off"
    using off(1) p(2) moved_fields [OF m1] by (simp add: getLastOffset_def)
  have m2: "moved (s0\<lparr>ss_last_offset := off\<rparr>) (s1\<lparr>ss_last_offset := off\<rparr>) d"
    using m1 by (rule moved_upd_offset)
  obtain r z where r: "data_rec off (d DataF) = Some (enc_data r @ z)" "length z < 2 ^ 24" "0 < off"
    using off(2) by (auto simp: stored_def)
  have z: "z = y"
    using y r by (simp add: content_def)
  have "is_i32 (int (length (enc_data r @ z)) + 136)"
    using r(2) by (simp add: is_i32_def)
  from io_read_data_ok [OF moved_live [OF m2] r(1) sz _ _ m this, of "enc_data zero_data" buf]
  obtain s2 where b: "io_read_data off (enc_data zero_data) buf (word_of_nat m) (s1\<lparr>ss_last_offset := off\<rparr>) d =
      Some (17 + int (length y), enc_data r, overlay (take m y) buf, s2)"
    and m3: "moved (s1\<lparr>ss_last_offset := off\<rparr>) s2 d"
    by (auto simp: z)
  have "i32 (int (length y)) = int (length y)"
    using r(2) z by (simp add: is_i32_def)
  then show ?thesis
    using a b o1 r(3) moved_trans [OF m2 m3] by (simp add: E_CSFILE_EMPTY_DATA_def Let_def)
qed

lemma read_ok:
  assumes h: "healthy s d" and i: "0 < i" "is_i32 i" and v: "view True s d i = Some y" and m: "m < 2 ^ 24"
  shows "\<exists>s'. ss_read i buf (word_of_nat m) fl s d = Some (int (length y), overlay (take m y) buf, s')
           \<and> only_read s s' d"
proof -
  obtain x where x: "idx (d IndexF) i = Some x" "content d (version x (commit_seq s) True) = Some y"
    using v i by (auto simp: view_def split: option.splits)
  have e: "entry_ok d (last_seq s) i x" and rw: "rdwr s" and l: "live s d" and sz: "fsize (d DataF) < C_CSFILE_ENDFILE"
    using h x(1) i by (simp_all add: healthy_def writer_def)
  have "version x (commit_seq s) True \<noteq> - 1"
    using x(2) by (auto simp: content_def)
  then obtain seq where st: "stored d (version x (commit_seq s) True) i seq"
    using entry_version [OF e, of "commit_seq s" True] by auto
  have o': "getLastOffset x fl (s\<lparr>cursor := i\<rparr>) = version x (commit_seq s) True"
    using rw by (simp add: getLastOffset_version)
  from read_body_ok [of "s\<lparr>cursor := i\<rparr>", OF _ i x(1) o' st x(2) sz m, of buf] l rw show ?thesis
    by (auto simp: ss_read_def only_read_def)
qed

lemma read_missing:
  assumes h: "healthy s d" and i: "0 < i" "is_i32 i" and v: "view True s d i = None"
  shows "\<exists>r s'. ss_read i buf dlen fl s d = Some (r, buf, s') \<and> r < 0 \<and> only_read s s' d
    \<and> (idx (d IndexF) i \<noteq> None \<or> miss_code 26 i (files s IndexF) (d IndexF) = E_CSFILE_EMPTY_DATA
        \<longrightarrow> r = E_CSTORAGE_SERIAL_NOT_FOUND)"
proof -
  let ?s = "s\<lparr>cursor := i\<rparr>"
  have rw: "rdwr s" and l: "live ?s d"
    using h by (simp_all add: healthy_def writer_def)
  obtain s1 where a: "io_readIndex IndexF i (enc_index zero_index) ?s d =
      Some (fst (got IndexF i (enc_index zero_index) ?s d), snd (got IndexF i (enc_index zero_index) ?s d), s1)"
    and m1: "moved ?s s1 d"
    using io_readIndex_ok [OF l, of i "enc_index zero_index" IndexF] i by auto
  show ?thesis
  proof (cases "rec_at 26 i (d IndexF)")
    case None
    then have "fst (got IndexF i (enc_index zero_index) ?s d) < 0"
      by (simp add: got_neg)
    moreover have "only_read s s1 d"
      using m1 unfolding only_read_def by (intro exI [of _ i] exI [of _ "ss_last_offset s"]) simp
    ultimately show ?thesis
      using a rw None got_missing [of IndexF i d "enc_index zero_index" ?s]
      by (auto simp: ss_read_def E_CSTORAGE_SERIAL_NOT_FOUND_def idx_def)
  next
    case (Some p)
    let ?x = "dec_index p"
    have x: "idx (d IndexF) i = Some ?x"
      using Some by (simp add: idx_def)
    then have "entry_ok d (last_seq s) i ?x"
      using h i by (simp add: healthy_def)
    then have off: "version ?x (commit_seq s) True \<le> 0"
      using v x i entry_version [of d "last_seq s" i ?x "commit_seq s" True] content_stored
      by (force simp: view_def)
    have o1: "getLastOffset ?x fl s1 = version ?x (commit_seq s) True"
      using moved_fields [OF m1] rw by (simp add: getLastOffset_version)
    have "only_read s (s1\<lparr>ss_last_offset := version ?x (commit_seq s) True\<rparr>) d"
      using moved_upd_offset [OF m1, of "version ?x (commit_seq s) True"] unfolding only_read_def
      by (intro exI [of _ i] exI [of _ "version ?x (commit_seq s) True"]) simp
    then show ?thesis
      using a rw o1 off Some
      by (auto simp: ss_read_def got_def Let_def E_CSTORAGE_SERIAL_NOT_FOUND_def E_CSFILE_EMPTY_DATA_def)
  qed
qed

end
