(* ===== verification/Storage_Open.thy ===== *)
theory Storage_Open
  imports Storage_Transactions
begin

text \<open>
  Creating, opening and closing a storage, and readers: a storage created on an empty prefix is
  healthy and empty; closing and opening again keeps every record; a reader with its own object
  sees, at the time of its read, the committed records according to the state file.
\<close>

subsection \<open>Opening files\<close>

lemma has_flag_or: "has_flag f b \<or> has_flag m b \<Longrightarrow> has_flag (f OR m) b"
proof -
  assume "has_flag f b \<or> has_flag m b"
  then obtain n where "bit f n \<or> bit m n" "bit b n"
    by (auto simp: has_flag_def bit_eq_iff bit_and_iff)
  then have "bit ((f OR m) AND b) n"
    by (simp add: bit_and_iff bit_or_iff)
  then show ?thesis
    by (auto simp: has_flag_def)
qed

lemma has_flag_or_left: "has_flag f b \<Longrightarrow> has_flag (f OR m) b"
  using has_flag_or by blast

lemma flags_known [simp]:
  "has_flag (f OR (F_CSFILE_EXCEPTIONS OR F_CSFILE_CREATE OR F_CSFILE_WR OR F_CSFILE_TRUNCATE)) F_CSFILE_CREATE"
  "has_flag (f OR (F_CSFILE_EXCEPTIONS OR F_CSFILE_CREATE OR F_CSFILE_WR OR F_CSFILE_TRUNCATE)) F_CSFILE_WR"
  "has_flag (f OR (F_CSFILE_EXCEPTIONS OR F_CSFILE_CREATE OR F_CSFILE_WR OR F_CSFILE_TRUNCATE)) F_CSFILE_TRUNCATE"
  by (rule has_flag_or, simp add: has_flag_def csfile_flags)+

definition opened :: "string \<Rightarrow> bool \<Rightarrow> base_file \<Rightarrow> base_file" where
  "opened fname wr f =
     f\<lparr>filename := fname, falias := autoAlias fname, f_write_mode := wr, fd_open := True\<rparr>"

definition fresh_os :: "os_file \<Rightarrow> os_file" where
  "fresh_os os = os\<lparr>fbytes := [], fexists := True, freadable := True, fwritable := True, fowned := True\<rparr>"

lemma bf_open_loop_ok:
  "os_open wr creat trunc os = Inr os' \<Longrightarrow>
     bf_open_loop flags wr creat trunc f os = Some (Ret 0, f\<lparr>fd_open := True\<rparr>, os')"
  by (subst bf_open_loop.simps) simp

lemma bf_open_create:
  assumes "has_flag flags F_CSFILE_CREATE" "has_flag flags F_CSFILE_WR" "has_flag flags F_CSFILE_TRUNCATE"
    and "\<not> fexists os"
  shows "bf_open fname flags f os = Some (Ret 0, opened fname True f, fresh_os os)"
proof -
  have "has_flag (flags OR F_CSFILE_WR) F_CSFILE_WR" "has_flag (flags OR F_CSFILE_WR) F_CSFILE_TRUNCATE"
    using assms has_flag_or_left by simp_all
  moreover have "os_open True True True os = Inr (fresh_os os)"
    using assms by (simp add: os_open_def fresh_os_def)
  ultimately show ?thesis
    using assms(1) by (simp add: bf_open_def Let_def bf_open_loop_ok opened_def)
qed

lemma bf_open_existing:
  assumes "has_flag flags F_CSFILE_CREATE \<longrightarrow> has_flag flags F_CSFILE_WR" and "\<not> has_flag flags F_CSFILE_TRUNCATE"
    and "fexists os" "freadable os" "fowned os" "has_flag flags F_CSFILE_WR \<longrightarrow> fwritable os"
  shows "bf_open fname flags f os = Some (Ret 0, opened fname (has_flag flags F_CSFILE_WR) f, os)"
proof -
  have "os_open (has_flag flags F_CSFILE_WR) False False os = Inr os"
    using assms by (auto simp: os_open_def)
  moreover have "has_flag (flags OR F_CSFILE_WR) F_CSFILE_WR" "\<not> has_flag (flags OR F_CSFILE_WR) F_CSFILE_TRUNCATE"
    using assms(2) by (simp_all add: has_flag_def csfile_flags bit.conj_disj_distrib2)
  ultimately show ?thesis
    using assms(1,2) by (cases "has_flag flags F_CSFILE_CREATE") (simp_all add: bf_open_def Let_def bf_open_loop_ok opened_def)
qed

lemma normalizeFilename_id [simp]: "normalizeFilename fname = fname"
  by (simp add: normalizeFilename_def extension_def Let_def)

lemma checkFilesPresent_all:
  "\<forall>k. os_access wr (d k) \<Longrightarrow> checkFilesPresent wr d = 0"
  "\<forall>k. \<not> os_access wr (d k) \<Longrightarrow> checkFilesPresent wr d = 4"
  by (simp_all add: checkFilesPresent_def all_ids_def)

lemma length_all_ids [simp]: "length all_ids = 4"
  by (simp add: all_ids_def)

definition open_all :: "string \<Rightarrow> bool \<Rightarrow> storage \<Rightarrow> storage" where
  "open_all fname wr s = s\<lparr>files := (\<lambda>k. opened (fname @ extension k) wr (files s k))\<rparr>"

lemma open_all_fields [simp]:
  "rebuilding (open_all fname wr s) = rebuilding s" "rdwr (open_all fname wr s) = rdwr s"
  "state (open_all fname wr s) = state s" "dirtySerials (open_all fname wr s) = dirtySerials s"
  "fauto_commit (open_all fname wr s) = fauto_commit s"
  by (simp_all add: open_all_def)

lemma four_files: "((((f (DataF := a))(IndexF := b))(LogF := c))(StateF := e)) =
    (\<lambda>k. case k of DataF \<Rightarrow> a | IndexF \<Rightarrow> b | LogF \<Rightarrow> c | StateF \<Rightarrow> e)"
  by (rule ext) (simp split: file_id.split)

lemma open_files_create:
  assumes "\<And>k. has_flag (fl k) F_CSFILE_CREATE" "\<And>k. has_flag (fl k) F_CSFILE_WR"
    "\<And>k. has_flag (fl k) F_CSFILE_TRUNCATE" and "\<And>k. \<not> fexists (d k)"
  shows "open_files all_ids fname fl s d = Some (Inr (), open_all fname True s, \<lambda>k. fresh_os (d k))"
  using assms
  by (simp add: all_ids_def bf_open_create set_file_def open_all_def four_files fun_eq_iff split: file_id.split)

lemma open_files_existing:
  assumes "has_flag fl F_CSFILE_CREATE \<longrightarrow> has_flag fl F_CSFILE_WR" and "\<not> has_flag fl F_CSFILE_TRUNCATE"
    and "\<And>k. fexists (d k) \<and> freadable (d k) \<and> fowned (d k) \<and> (has_flag fl F_CSFILE_WR \<longrightarrow> fwritable (d k))"
  shows "open_files all_ids fname (\<lambda>k. fl) s d = Some (Inr (), open_all fname (has_flag fl F_CSFILE_WR) s, d)"
  using assms
  by (simp add: all_ids_def bf_open_existing set_file_def open_all_def four_files fun_eq_iff split: file_id.split)

subsection \<open>A new storage\<close>

lemma new_fields [simp]:
  "delta_page (files ss_new k) = (if k = DataF then D_CSTORAGE_DATA_DELTA_SIZE else D_DELTA_PAGE)"
  "bflags (files ss_new k) = 0" "cache_len (files ss_new k) = 0" "cache_size (files ss_new k) = 0"
  "state ss_new = zero_state" "dirtySerials ss_new = []" "\<not> rebuilding ss_new"
  by (simp_all add: ss_new_def sf_new_def bf_new_def split: file_id.split)

lemma live_open_all: "live (open_all fname wr (s\<lparr>fauto_commit := b, rdwr := a\<rparr>)) d"
  if "s = ss_new" for s
  using that by (simp add: live_def handle_ok_def open_all_def opened_def coherent_def
      D_CSTORAGE_DATA_DELTA_SIZE_def D_DELTA_PAGE_def)

definition header :: "file_id \<Rightarrow> u32 \<Rightarrow> bytes" where
  "header k key = take (rec_size k) (h_set key)"

definition linked :: "u32 \<Rightarrow> disk \<Rightarrow> bool" where
  \<comment> \<open>the three files with a header carry the same key\<close>
  "linked key d \<longleftrightarrow> rec_at 17 0 (d DataF) = Some (header DataF key)
     \<and> rec_at 13 0 (d LogF) = Some (header LogF key) \<and> rec_at 26 0 (d IndexF) = Some (header IndexF key)"

lemma length_header: "k \<noteq> StateF \<Longrightarrow> length (header k key) = rec_size k"
  by (cases k) (simp_all add: header_def h_set_def)

lemma header_written:
  assumes w: "writer s d" and k: "k \<noteq> StateF" and room: "185 \<le> flimit (d k)"
  shows "\<exists>r s'. io_write k 0 (take (rec_size k) (h_set key)) s d =
      Some (r, s', d(k := put_rec (rec_size k) 0 (header k key) (d k)))
    \<and> moved s s' (d(k := put_rec (rec_size k) 0 (header k key) (d k)))"
proof -
  have "rec_size k + 4 \<le> 185"
    by (cases k) simp_all
  then show ?thesis
    using io_writeIndex_ok [of s d k 0 "header k key"] w k room length_header [OF k]
    by (auto simp: writer_def io_write_0 is_i32_def header_def)
qed

definition disk_after_create :: "u32 \<Rightarrow> st_reg \<Rightarrow> disk \<Rightarrow> disk" where
  "disk_after_create key st d = (\<lambda>k. case k of
      StateF \<Rightarrow> put_rec 181 0 (enc_state st) (d StateF)
    | _ \<Rightarrow> put_rec (rec_size k) 0 (header k key) (d k))"

lemma writeHashKey_ok:
  assumes w: "writer s d" and room: "\<And>k. 185 \<le> flimit (d k)"
  shows "\<exists>s'. writeHashKey key s d =
      Some (0, s', disk_after_create key ((state s)\<lparr>st_hash_key := key\<rparr>) d)
    \<and> moved (s\<lparr>state := (state s)\<lparr>st_hash_key := key\<rparr>\<rparr>) s' (disk_after_create key ((state s)\<lparr>st_hash_key := key\<rparr>) d)"
proof -
  let ?d1 = "d(DataF := put_rec 17 0 (header DataF key) (d DataF))"
  obtain r1 s1 where a: "io_write DataF 0 (take 17 (h_set key)) s d = Some (r1, s1, ?d1)" and m1: "moved s s1 ?d1"
    using header_written [OF w, of DataF key] room by auto
  let ?d2 = "?d1(LogF := put_rec 13 0 (header LogF key) (d LogF))"
  obtain r2 s2 where b: "io_write LogF 0 (take 13 (h_set key)) s1 ?d1 = Some (r2, s2, ?d2)" and m2: "moved s1 s2 ?d2"
    using header_written [OF writer_moved [OF w m1], of LogF key] room by auto
  let ?d3 = "?d2(IndexF := put_rec 26 0 (header IndexF key) (d IndexF))"
  obtain r3 s3 where c: "io_write IndexF 0 (take 26 (h_set key)) s2 ?d2 = Some (r3, s3, ?d3)" and m3: "moved s2 s3 ?d3"
    using header_written [OF writer_moved [OF writer_moved [OF w m1] m2], of IndexF key] room by auto
  have m: "moved s s3 ?d3"
    using m1 m2 m3 by (blast intro: moved_trans)
  let ?st = "(state s)\<lparr>st_hash_key := key\<rparr>"
  have st: "well_state ?st" "state s3 = state s"
    using w moved_fields [OF m] by (simp_all add: writer_def well_state_def)
  have w4: "writer (s3\<lparr>state := ?st\<rparr>) ?d3"
    using writer_upd_state [OF writer_moved [OF w m] st(1)] .
  let ?d4 = "?d3(StateF := put_rec 181 0 (enc_state ?st) (d StateF))"
  obtain s4 where e: "saveState (s3\<lparr>state := ?st\<rparr>) ?d3 = Some (s4, ?d4)" and m4: "moved (s3\<lparr>state := ?st\<rparr>) s4 ?d4"
    using saveState_ok [of "s3\<lparr>state := ?st\<rparr>" ?d3] w4 room st by (auto simp: writer_def well_state_def)
  have d4: "?d4 = disk_after_create key ?st d"
    by (rule ext) (simp add: disk_after_create_def split: file_id.split)
  have "\<not> rebuilding s"
    using w by (simp add: writer_def)
  then have "writeHashKey key s d = Some (0, s4, ?d4)"
    using a b c e st(2) by (simp add: writeHashKey_def)
  then show ?thesis
    using moved_trans [OF moved_upd_state [OF m, of ?st] m4] unfolding d4 by blast
qed

definition blank_disk :: "disk \<Rightarrow> bool" where
  "blank_disk d \<longleftrightarrow> (\<forall>k. \<not> fexists (d k) \<and> 185 \<le> flimit (d k))"

definition accessible :: "disk \<Rightarrow> bool" where
  "accessible d \<longleftrightarrow> (\<forall>k. fexists (d k) \<and> freadable (d k) \<and> fwritable (d k) \<and> fowned (d k))"

text \<open>What a healthy storage that has just been created looks like.\<close>

definition brand_new :: "u32 \<Rightarrow> storage \<Rightarrow> disk \<Rightarrow> bool" where
  "brand_new key s d \<longleftrightarrow> healthy s d \<and> tidy s d \<and> linked key d \<and> saved s d \<and> accessible d
     \<and> st_hash_key (state s) = key \<and> st_count (state s) = 0 \<and> last_seq s = 0 \<and> commit_seq s = 0 \<and> dirtySerials s = []
     \<and> fsize (d DataF) = 21 \<and> fbytes (d IndexF) = fixed_rec (header IndexF key) \<and> (\<forall>b i. view b s d i = None)"

lemma create_ok:
  assumes blank: "blank_disk d" and fl: "has_flag flags F_CSTORAGE_WR" "has_flag flags F_CSTORAGE_CREATE"
    and key: "key' = (if has_flag (flags OR F_CSFILE_EXCEPTIONS) F_CSTORAGE_SET_HASH_KEY then key else rnd)"
  shows "\<exists>s' d'. ss_open rnd fname flags key ss_new d = Some (E_CSTORAGE_OK, s', d')
    \<and> brand_new key' s' d' \<and> (\<forall>k. flimit (d' k) = flimit (d k))
    \<and> fauto_commit s' = has_flag (flags OR F_CSFILE_EXCEPTIONS) F_CSTORAGE_AUTO_COMMIT"
proof -
  let ?fl = "flags OR F_CSFILE_EXCEPTIONS"
  have wr: "has_flag ?fl F_CSTORAGE_WR" "has_flag ?fl F_CSTORAGE_CREATE"
    using fl by (simp_all add: has_flag_or_left)
  have na: "\<not> os_access w (d k)" for k w
    using blank by (simp add: blank_disk_def os_access_def)
  let ?s0 = "ss_new\<lparr>fauto_commit := False, rdwr := True\<rparr>"
  let ?s1 = "open_all fname True ?s0" and ?d1 = "\<lambda>k. fresh_os (d k)"
  have l1: "live ?s1 ?d1"
    using live_open_all [OF refl] by blast
  have w1: "writer ?s1 ?d1"
    using l1 by (simp add: writer_def open_all_def opened_def)
  have lim: "flimit (?d1 k) = flimit (d k)" "185 \<le> flimit (?d1 k)" for k
    using blank by (simp_all add: fresh_os_def blank_disk_def)
  let ?st = "zero_state\<lparr>st_hash_key := key'\<rparr>" and ?d2 = "disk_after_create key' (zero_state\<lparr>st_hash_key := key'\<rparr>) ?d1"
  obtain s2 where hk: "writeHashKey key' ?s1 ?d1 = Some (0, s2, ?d2)" and m2: "moved (?s1\<lparr>state := ?st\<rparr>) s2 ?d2"
    using writeHashKey_ok [OF w1 lim(2), of key'] by (auto simp: open_all_def)
  let ?s3 = "set_auto_commit ?fl s2"
  have eq: "ss_new\<lparr>rdwr := True, fauto_commit := False\<rparr> = ?s0"
    by simp
  have "ss_create rnd fname ?fl key ?s0 d = Some (0, ?s3, ?d2)"
    using open_files_create [of "\<lambda>k. ?fl OR (F_CSFILE_EXCEPTIONS OR F_CSFILE_CREATE OR F_CSFILE_WR OR F_CSFILE_TRUNCATE)" d fname ?s0]
      blank na hk
    by (simp add: ss_create_def checkAnyFilePresent_def checkFilesPresent_all Let_def key eq
        blank_disk_def)
  then have op: "ss_open rnd fname flags key ss_new d = Some (E_CSTORAGE_OK, ?s3, ?d2)"
    using wr na by (simp add: ss_open_def checkFilesPresent_all Let_def E_CSTORAGE_OK_def)
  have f2: "state s2 = ?st" "dirtySerials s2 = []" "fauto_commit s2 = False" "rdwr s2" "\<not> rebuilding s2"
    using moved_fields [OF m2] by (simp_all add: open_all_def)
  have f3: "state ?s3 = ?st" "dirtySerials ?s3 = []" "files ?s3 = files s2" "rdwr ?s3" "\<not> rebuilding ?s3"
    "fauto_commit ?s3 = has_flag ?fl F_CSTORAGE_AUTO_COMMIT"
    using f2 by (simp_all add: set_auto_commit_def)
  have st: "well_state ?st" "length (enc_state ?st) = 181"
    by (simp_all add: well_state_def zero_state_def is_i32_def)
  have "f_write_mode (files s2 k)" for k
    using moved_write_mode [OF m2, of k] by (simp add: open_all_def opened_def)
  then have w3: "writer ?s3 ?d2"
    using moved_live [OF m2] f3 st by (simp add: writer_def live_def)
  have idx0: "idx (?d2 IndexF) i = None" if "0 < i" for i
  proof -
    have "rec_at 26 i (put_rec 26 0 (header IndexF key') (fresh_os (d IndexF))) = rec_at 26 i (fresh_os (d IndexF))"
      using index_table.lookup_store [of "fresh_os (d IndexF)" "header IndexF key'" 0 i] that length_header [of IndexF]
      by (simp add: whole_def fresh_os_def)
    then show ?thesis
      by (simp add: idx_def disk_after_create_def rec_at_def fresh_os_def)
  qed
  have "whole n (fresh_os os)" for n os
    by (simp add: whole_def fresh_os_def)
  then have wh: "whole 26 (?d2 IndexF)" "whole 13 (?d2 LogF)"
    using length_header [of IndexF] length_header [of LogF]
    by (simp_all add: disk_after_create_def whole_put_rec)
  have sz: "fsize (?d2 DataF) = 21"
    using length_put_rec [of "header DataF key'" 17 0 "fresh_os (d DataF)"] length_header [of DataF]
    by (simp add: fsize_def disk_after_create_def fresh_os_def)
  have "healthy ?s3 ?d2"
    using w3 wh f3 sz idx0 by (simp add: healthy_def zero_state_def C_CSFILE_ENDFILE_def)
  moreover have "tidy ?s3 ?d2"
    using f3 idx0 by (simp add: tidy_def)
  moreover have "linked key' ?d2"
    using length_header [of DataF] length_header [of LogF] length_header [of IndexF]
    by (simp add: linked_def disk_after_create_def rec_at_put_same)
  moreover have "saved ?s3 ?d2"
    using st f3 by (simp add: saved_def disk_after_create_def rec_at_put_same)
  moreover have "accessible ?d2"
    by (auto simp: accessible_def disk_after_create_def put_rec_def fresh_os_def split: file_id.split)
  moreover have "view b ?s3 ?d2 i = None" for b i
    using idx0 by (simp add: view_def)
  moreover have "fbytes (?d2 IndexF) = fixed_rec (header IndexF key')"
    by (simp add: disk_after_create_def put_rec_def fresh_os_def patch_def)
  ultimately have "brand_new key' ?s3 ?d2"
    using f3 sz by (simp add: brand_new_def zero_state_def)
  moreover have "flimit (?d2 k) = flimit (d k)" for k
    by (simp add: disk_after_create_def fresh_os_def split: file_id.split)
  ultimately show ?thesis
    using op f3(6) by blast
qed

subsection \<open>Readers\<close>

text \<open>
  A reader: an object opened without \<open>F_CSTORAGE_WR\<close> on the same files. What it gets for a
  serial, when the state file says \<open>commit\<close>.
\<close>

definition reader :: "storage \<Rightarrow> disk \<Rightarrow> bool" where
  "reader s d \<longleftrightarrow> live s d \<and> \<not> rdwr s \<and> well_state (state s) \<and> (\<forall>k. \<not> f_write_mode (files s k))"

definition view_at :: "int \<Rightarrow> bool \<Rightarrow> disk \<Rightarrow> int \<Rightarrow> bytes option" where
  "view_at commit dirty d i =
     (if 0 < i then (case idx (d IndexF) i of None \<Rightarrow> None
                     | Some x \<Rightarrow> content d (version x commit dirty)) else None)"

lemma view_view_at: "view dirty s d = view_at (commit_seq s) dirty d"
  by (simp add: view_def view_at_def fun_eq_iff)

lemma view_at_dirty: "view_at c True d = view_at c' True d"
  by (rule ext) (simp add: view_at_def version_dirty [of _ c c'] split: option.split)

text \<open>The index of a disk that some writer keeps healthy.\<close>

definition index_sound :: "disk \<Rightarrow> bool" where
  "index_sound d \<longleftrightarrow> fsize (d DataF) < C_CSFILE_ENDFILE
     \<and> (\<exists>ub. \<forall>i x. 0 < i \<longrightarrow> idx (d IndexF) i = Some x \<longrightarrow> entry_ok d ub i x)"

lemma healthy_index_sound: "healthy s d \<Longrightarrow> index_sound d"
  by (auto simp: healthy_def index_sound_def)

lemma live_upd_state [simp]: "live (s\<lparr>state := x\<rparr>) d = live s d"
  by (simp add: live_def)

lemma reader_read_ok:
  assumes r: "reader s d" and st: "rec_at 181 0 (d StateF) = Some p" and ix: "index_sound d"
    and i: "0 < i" "is_i32 i" and m: "m < 2 ^ 24"
    and v: "view_at (st_last_commit_sequence (dec_state p)) (has_flag fl F_CSTORAGE_READ_MODE_MASK) d i = Some y"
  shows "\<exists>s'. ss_read i buf (word_of_nat m) fl s d = Some (int (length y), overlay (take m y) buf, s')
           \<and> reader s' d"
proof -
  let ?c = "st_last_commit_sequence (dec_state p)" and ?dirty = "has_flag fl F_CSTORAGE_READ_MODE_MASK"
  obtain x where x: "idx (d IndexF) i = Some x" "content d (version x ?c ?dirty) = Some y"
    using v i by (auto simp: view_at_def split: option.splits)
  obtain ub where e: "entry_ok d ub i x" and sz: "fsize (d DataF) < C_CSFILE_ENDFILE"
    using ix x(1) i by (auto simp: index_sound_def)
  have "version x ?c ?dirty \<noteq> - 1"
    using x(2) by (auto simp: content_def)
  then obtain seq where sto: "stored d (version x ?c ?dirty) i seq"
    using entry_version [OF e, of ?c ?dirty] by auto
  have r1: "live (s\<lparr>cursor := i\<rparr>) d" "well_state (state (s\<lparr>cursor := i\<rparr>))" "\<not> rdwr s"
    using r by (simp_all add: reader_def)
  obtain s1 where l: "loadState (s\<lparr>cursor := i\<rparr>) d = Some (s1\<lparr>state := dec_state p\<rparr>)"
    and m1: "moved (s\<lparr>cursor := i\<rparr>) s1 d"
    using loadState_ok [OF r1(1) st r1(2)] by blast
  let ?s0 = "s1\<lparr>state := dec_state p\<rparr>"
  have l0: "live ?s0 d" "rdwr ?s0 = False"
    using moved_live [OF m1] moved_fields [OF m1] r1(3) by simp_all
  have off: "getLastOffset x fl ?s0 = version x ?c ?dirty"
    using l0 by (simp add: getLastOffset_version)
  obtain s' where "ss_read i buf (word_of_nat m) fl s d = Some (int (length y), overlay (take m y) buf, s')"
    and "moved (?s0\<lparr>ss_last_offset := version x ?c ?dirty\<rparr>) s' d"
    using read_body_ok [OF l0(1) i x(1) off sto x(2) sz m, of buf] r1(3) l by (auto simp: ss_read_def)
  moreover have "reader s' d" if "moved (?s0\<lparr>ss_last_offset := version x ?c ?dirty\<rparr>) s' d" for s'
    using moved_fields [OF that] moved_live [OF that] moved_write_mode [OF that] moved_write_mode [OF m1] l0 r
    by (simp add: reader_def)
  ultimately show ?thesis
    by blast
qed

subsection \<open>Opening an existing storage\<close>

lemma drop_h_set: "4 \<le> n \<Longrightarrow> drop n (h_set key) = replicate (26 - n) 0"
  by (simp add: h_set_def)

lemma overlay_header: "k \<noteq> StateF \<Longrightarrow> overlay (header k key) (replicate 26 0) = h_set key"
proof -
  assume k: "k \<noteq> StateF"
  then have n: "4 \<le> rec_size k" "length (header k key) = rec_size k"
    using length_header [of k] by (cases k; simp)+
  have "header k key @ drop (rec_size k) (h_set key) = h_set key"
    by (simp add: header_def)
  then show ?thesis
    using n by (simp add: overlay_def drop_h_set)
qed

text \<open>The key that \<open>checkHashKey\<close> takes for that of a file: the one in its first record or, if there is none or it
  is damaged, the one that was in the union before, which is the key of the file read before.\<close>

definition header_key :: "file_id \<Rightarrow> disk \<Rightarrow> u32 \<Rightarrow> u32" where
  "header_key k d prev = (case rec_at (rec_size k) 0 (d k) of Some p \<Rightarrow> h_key p | None \<Rightarrow> prev)"

lemma read_header_ok:
  assumes "live s d" and "k \<noteq> StateF" and "length h = h_size"
  shows "\<exists>r h' s'. read_header k h s d = Some (r, h', s') \<and> moved s s' d \<and> h_key h' = header_key k d (h_key h)
    \<and> length h' = h_size"
proof -
  have n: "4 \<le> rec_size k" "rec_size k \<le> h_size"
    using assms(2) by (cases k; simp add: h_size_def)+
  then have len: "length (take (rec_size k) h) = rec_size k"
    using assms(3) by simp
  obtain r s' where r: "io_read k 0 (take (rec_size k) h) s d = Some (r, snd (got k 0 (take (rec_size k) h) s d), s')"
    and m: "moved s s' d"
    using io_read_0 [OF assms(1) len] by blast
  have "h_key (overlay (snd (got k 0 (take (rec_size k) h) s d)) h) = header_key k d (h_key h)
      \<and> length (overlay (snd (got k 0 (take (rec_size k) h) s d)) h) = h_size"
  proof (cases "rec_at (rec_size k) 0 (d k)")
    case None
    then show ?thesis
      using assms(3) n by (simp add: got_def header_key_def overlay_def)
  next
    case (Some p)
    then have "length p = rec_size k"
      by (rule length_rec_at)
    then show ?thesis
      using Some assms(3) n by (simp add: got_def header_key_def overlay_def h_key_def)
  qed
  then show ?thesis
    using r m by (simp add: read_header_def)
qed

text \<open>The files may come from different storages: the data file has key \<open>kd\<close>, and so on.\<close>

definition keyed :: "u32 \<Rightarrow> u32 \<Rightarrow> u32 \<Rightarrow> disk \<Rightarrow> bool" where
  "keyed kd kl ki d \<longleftrightarrow> header_key DataF d 0 = kd \<and> header_key LogF d kd = kl \<and> header_key IndexF d kl = ki"

lemma h_key_header: "k \<noteq> StateF \<Longrightarrow> h_key (header k key) = key"
  by (cases k) (simp_all add: header_def h_set_def h_key_def le_dec_le_enc_full)

lemma keyed_headers:
  "rec_at 17 0 (d DataF) = Some (header DataF kd) \<Longrightarrow> rec_at 13 0 (d LogF) = Some (header LogF kl) \<Longrightarrow>
     rec_at 26 0 (d IndexF) = Some (header IndexF ki) \<Longrightarrow> keyed kd kl ki d"
  by (simp add: keyed_def header_key_def h_key_header)

lemma keyed_linked: "linked key d \<Longrightarrow> keyed key key key d"
  by (simp add: keyed_headers linked_def)

definition hash_errors :: "u32 \<Rightarrow> u32 \<Rightarrow> u32 \<Rightarrow> u32 \<Rightarrow> int" where
  "hash_errors kd kl ki ks =
     (if kl \<noteq> kd then 4 else 0) + (if ki \<noteq> kd then 1 else 0) + (if ks \<noteq> kd then 2 else 0)"

lemma hash_errors_0: "hash_errors kd kl ki ks = 0 \<longleftrightarrow> kl = kd \<and> ki = kd \<and> ks = kd"
  by (simp add: hash_errors_def)

text \<open>The state that \<open>loadState\<close> leaves in an object whose state is \<open>st\<close>: the one of the file, if it
  has one.\<close>

definition loaded :: "disk \<Rightarrow> st_reg \<Rightarrow> st_reg" where
  "loaded d st = (case rec_at 181 0 (d StateF) of None \<Rightarrow> st | Some p \<Rightarrow> dec_state p)"

lemma loaded_simps [simp]:
  "rec_at 181 0 (d StateF) = Some p \<Longrightarrow> loaded d st = dec_state p"
  "loaded d (loaded d st) = loaded d st" "well_state st \<Longrightarrow> well_state (loaded d st)"
  by (simp_all add: loaded_def split: option.split)

lemma loadState_loaded:
  assumes "live s d" and "well_state (state s)"
  shows "\<exists>s'. loadState s d = Some (s'\<lparr>state := loaded d (state s)\<rparr>) \<and> moved s s' d"
proof -
  have "length (enc_state (state s)) = rec_size StateF"
    using assms(2) by (simp add: well_state_def)
  from io_read_0 [OF assms(1) this] obtain r s' where
    "io_read StateF 0 (enc_state (state s)) s d = Some (r, snd (got StateF 0 (enc_state (state s)) s d), s')"
    "moved s s' d" by blast
  moreover have "dec_state (snd (got StateF 0 (enc_state (state s)) s d)) = loaded d (state s)"
    using assms(2) by (simp add: got_def loaded_def dec_enc_state split: option.split)
  ultimately show ?thesis
    by (auto simp: loadState_def)
qed

lemma checkHashKey_ok:
  assumes l: "live s d" and k: "keyed kd kl ki d" and st: "loaded d (state s) = state s"
    and w: "well_state (state s)"
  shows "\<exists>s'. checkHashKey s d = Some (hash_errors kd kl ki (st_hash_key (state s)), s') \<and> moved s s' d"
proof -
  have "length (replicate h_size (0 :: byte)) = h_size" "h_key (replicate h_size 0) = 0"
    by (simp_all add: h_key_def h_size_def le_dec_zeros)
  then obtain r1 h1 s1 where a: "read_header DataF (replicate h_size 0) s d = Some (r1, h1, s1)" and m1: "moved s s1 d"
    and h1: "h_key h1 = kd" "length h1 = h_size"
    using read_header_ok [OF l, of DataF "replicate h_size 0"] k by (auto simp: keyed_def)
  obtain r2 h2 s2 where b: "read_header LogF h1 s1 d = Some (r2, h2, s2)" and m2: "moved s1 s2 d"
    and h2: "h_key h2 = kl" "length h2 = h_size"
    using read_header_ok [OF moved_live [OF m1] _ h1(2), of LogF] k h1(1) by (auto simp: keyed_def)
  obtain r3 h3 s3 where c: "read_header IndexF h2 s2 d = Some (r3, h3, s3)" and m3: "moved s2 s3 d" and h3: "h_key h3 = ki"
    using read_header_ok [OF moved_live [OF m2] _ h2(2), of IndexF] k h2(1) by (auto simp: keyed_def)
  have m: "moved s s3 d"
    using m1 m2 m3 by (blast intro: moved_trans)
  have f: "state s3 = state s" "rdwr s3 = rdwr s"
    using moved_fields [OF m] by simp_all
  obtain s4 where e: "(if rdwr s3 then Some s3 else loadState s3 d) = Some s4" and m4: "moved s3 s4 d"
  proof (cases "rdwr s3")
    case True
    then show ?thesis
      using that [of s3] moved_refl [OF moved_live [OF m]] by simp
  next
    case False
    then obtain s4 where "loadState s3 d = Some (s4\<lparr>state := state s\<rparr>)" "moved s3 s4 d"
      using loadState_loaded [OF moved_live [OF m]] f w st by auto
    moreover from this have "s4\<lparr>state := state s\<rparr> = s4"
      using moved_fields(1) [of s3 s4 d] f by simp
    ultimately show ?thesis
      using that False by auto
  qed
  have "state s4 = state s"
    using moved_fields(1) [OF m4] f by simp
  then have "checkHashKey s d = Some (hash_errors kd kl ki (st_hash_key (state s)), s4)"
    using a b c e
    by (simp add: checkHashKey_def Let_def h1 h2 h3 hash_errors_def E_CSTORAGE_FAIL_HK_LOG_def
        E_CSTORAGE_FAIL_HK_INDEX_def E_CSTORAGE_FAIL_HK_STATE_def E_CSTORAGE_OK_def)
  then show ?thesis
    using moved_trans [OF m m4] by blast
qed

definition plain_open :: "u32 \<Rightarrow> bool" where
  \<comment> \<open>neither truncating nor, without writing, creating\<close>
  "plain_open flags \<longleftrightarrow>
     (has_flag (flags OR F_CSFILE_EXCEPTIONS) F_CSFILE_CREATE \<longrightarrow> has_flag (flags OR F_CSFILE_EXCEPTIONS) F_CSFILE_WR)
     \<and> \<not> has_flag (flags OR F_CSFILE_EXCEPTIONS) F_CSFILE_TRUNCATE"

lemma open_steps:
  assumes acc: "accessible d" and fl: "plain_open flags" and k: "keyed kd kl ki d"
    and st: "st = loaded d zero_state"
    and errs: "e = hash_errors kd kl ki (st_hash_key st)"
    and wr: "wr = has_flag (flags OR F_CSFILE_EXCEPTIONS) F_CSTORAGE_WR"
  shows "\<exists>s'. ss_open rnd fname flags key ss_new d =
      (if e \<noteq> 0 then close_with e s' d
       else Some (E_CSTORAGE_OK, set_auto_commit (flags OR F_CSFILE_EXCEPTIONS) s', d))
    \<and> live s' d \<and> state s' = st \<and> rdwr s' = wr \<and> \<not> rebuilding s' \<and> dirtySerials s' = []
    \<and> fauto_commit s' = False \<and> (\<forall>k. f_write_mode (files s' k) = wr)"
proof -
  let ?fl = "flags OR F_CSFILE_EXCEPTIONS"
  let ?s0 = "ss_new\<lparr>fauto_commit := False, rdwr := wr\<rparr>"
  have fl': "has_flag ?fl F_CSFILE_CREATE \<longrightarrow> has_flag ?fl F_CSFILE_WR" "\<not> has_flag ?fl F_CSFILE_TRUNCATE"
    using fl by (simp_all add: plain_open_def)
  have wr': "wr = has_flag ?fl F_CSFILE_WR"
    by (simp add: wr F_CSTORAGE_WR_def F_CSFILE_WR_def)
  let ?s1 = "open_all fname wr ?s0"
  have o1: "open_files all_ids fname (\<lambda>k. ?fl) ?s0 d = Some (Inr (), ?s1, d)"
    using open_files_existing [OF fl', of d fname ?s0] acc by (simp add: accessible_def wr')
  have l1: "live ?s1 d"
    using live_open_all [OF refl] by blast
  have z: "state ?s1 = zero_state" "well_state st"
    by (simp_all add: st)
  from loadState_loaded [OF l1] obtain s2 where
    a: "loadState ?s1 d = Some (s2\<lparr>state := st\<rparr>)" and m2: "moved ?s1 s2 d" unfolding st by auto
  let ?s2 = "s2\<lparr>state := st\<rparr>"
  have l2: "live ?s2 d" "state ?s2 = st"
    using moved_live [OF m2] by simp_all
  obtain s3 where b: "checkHashKey ?s2 d = Some (e, s3)" and m3: "moved ?s2 s3 d"
    using checkHashKey_ok [OF l2(1) k] z(2) by (auto simp: errs st)
  have "checkFilesPresent wr d = 0"
    using acc by (intro checkFilesPresent_all) (simp add: accessible_def os_access_def)
  then have "ss_open rnd fname flags key ss_new d =
      (if e \<noteq> 0 then close_with e s3 d else Some (E_CSTORAGE_OK, set_auto_commit ?fl s3, d))"
    using o1 a b by (simp add: ss_open_def Let_def E_CSTORAGE_OK_def flip: wr)
  moreover have "f_write_mode (files s3 k) = wr" for k
    using moved_write_mode [OF m3, of k] moved_write_mode [OF m2, of k] by (simp add: open_all_def opened_def)
  moreover have "state s3 = st" "rdwr s3 = wr" "\<not> rebuilding s3" "dirtySerials s3 = []" "fauto_commit s3 = False"
    using moved_fields [OF m3] moved_fields [OF m2] by simp_all
  ultimately show ?thesis
    using moved_live [OF m3] by blast
qed

lemma open_ok:
  assumes acc: "accessible d" and fl: "plain_open flags" and k: "linked kd d"
    and p: "rec_at 181 0 (d StateF) = Some p" "st_hash_key (dec_state p) = kd"
    and wr: "wr = has_flag (flags OR F_CSFILE_EXCEPTIONS) F_CSTORAGE_WR"
  shows "\<exists>s'. ss_open rnd fname flags key ss_new d = Some (E_CSTORAGE_OK, s', d)
    \<and> state s' = dec_state p \<and> dirtySerials s' = [] \<and> (if wr then writer s' d else reader s' d)
    \<and> fauto_commit s' = has_flag (flags OR F_CSFILE_EXCEPTIONS) F_CSTORAGE_AUTO_COMMIT"
proof -
  have "hash_errors kd kd kd (st_hash_key (dec_state p)) = 0"
    by (simp add: hash_errors_0 p)
  then obtain s' where o: "ss_open rnd fname flags key ss_new d =
      Some (E_CSTORAGE_OK, set_auto_commit (flags OR F_CSFILE_EXCEPTIONS) s', d)"
    and s': "live s' d" "state s' = dec_state p" "rdwr s' = wr" "\<not> rebuilding s'" "dirtySerials s' = []"
      "fauto_commit s' = False" "\<forall>k. f_write_mode (files s' k) = wr"
    using open_steps [OF acc fl keyed_linked [OF k] loaded_simps(1) [of d p zero_state, OF p(1), symmetric] refl wr, of rnd fname key]
    by auto
  let ?s = "set_auto_commit (flags OR F_CSFILE_EXCEPTIONS) s'"
  have "state ?s = dec_state p" "dirtySerials ?s = []" "if wr then writer ?s d else reader ?s d"
    "fauto_commit ?s = has_flag (flags OR F_CSFILE_EXCEPTIONS) F_CSTORAGE_AUTO_COMMIT"
    using s' by (simp_all add: set_auto_commit_def writer_def reader_def live_def)
  then show ?thesis
    using o by blast
qed

subsection \<open>Closing\<close>

lemma close_ok:
  assumes w: "writer s d" and room: "185 \<le> flimit (d StateF)"
  shows "\<exists>s'. ss_close s d = Some (E_CSTORAGE_OK, s', d(StateF := put_rec 181 0 (enc_state (state s)) (d StateF)))
    \<and> (\<forall>k. \<not> fd_open (files s' k)) \<and> dirtySerials s' = [] \<and> \<not> fauto_commit s'"
proof -
  obtain s1 where "saveState s d = Some (s1, d(StateF := put_rec 181 0 (enc_state (state s)) (d StateF)))"
    using saveState_ok [of s d] w room by (auto simp: writer_def well_state_def)
  then show ?thesis
    by (simp add: ss_close_def Let_def all_ids_def set_file_def bf_close_def clearDirtySerials_def all_files)
qed

text \<open>The headers and the access rights survive every step.\<close>

lemma accessible_attrs: "(\<And>k. attrs (d' k) = attrs (d k)) \<Longrightarrow> accessible d' = accessible d"
  by (simp add: accessible_def attrs_def)

lemma rec_at_append:
  "rec_at n i (d DataF) = Some p \<Longrightarrow> grown d d' m \<Longrightarrow> rec_at n i (d' DataF) = Some p"
proof -
  assume a: "rec_at n i (d DataF) = Some p" and g: "grown d d' m"
  obtain z where z: "fbytes (d' DataF) = fbytes (d DataF) @ z"
    using g by (auto simp: grown_def)
  let ?off = "nat i * (n + 4)"
  have fit: "?off + n + 4 \<le> length (fbytes (d DataF))"
    using a by (simp add: rec_at_def Let_def split: if_splits)
  then have "slot_at ?off n (fbytes (d' DataF)) = slot_at ?off n (fbytes (d DataF))"
    unfolding z by (intro slot_at_seg_cong seg_append_left) simp
  then show "rec_at n i (d' DataF) = Some p"
    using a fit by (simp add: rec_at_def z)
qed

lemma linked_grown:
  "linked key d \<Longrightarrow> grown d d' n \<Longrightarrow> rec_at 13 0 (d' LogF) = rec_at 13 0 (d LogF) \<Longrightarrow>
     rec_at 26 0 (d' IndexF) = rec_at 26 0 (d IndexF) \<Longrightarrow> linked key d'"
  by (auto simp: linked_def intro: rec_at_append)

lemma rollback_keeps_header:
  "whole 26 os \<Longrightarrow> (\<And>i. i \<in> set ss \<Longrightarrow> 0 < i) \<Longrightarrow> rec_at 26 0 (index_rollback ss x os) = rec_at 26 0 os"
proof (induction ss x os rule: index_rollback.induct)
  case (1 x os)
  then show ?case by simp
next
  case (2 i "is" x os)
  have i: "0 < i"
    using "2.prems"(2) by simp
  let ?x = "setNewestOffset (case rec_at 26 i os of Some p \<Rightarrow> dec_index p | None \<Rightarrow> x) (- 1) 0 0"
  have "whole 26 (put_rec 26 i (enc_index ?x) os)"
    using "2.prems"(1) i by (intro index_table.sound_store) simp_all
  moreover have "rec_at 26 0 (put_rec 26 i (enc_index ?x) os) = rec_at 26 0 os"
    using "2.prems"(1) i index_table.lookup_store [of os "enc_index ?x" i 0] by simp
  ultimately show ?case
    using "2.IH" [of ?x] "2.prems"(2) by (simp add: Let_def)
qed

end
