(* ===== verification/Transactional.thy ===== *)
theory Transactional
  imports Storage_Open
begin

text \<open>
  The interface of a transactional store, as the clients of \<open>ISafeStorage\<close> use it: the locale
  \<open>transactional\<close>. Its laws speak about the current and the committed content; its lemmas are
  about whole transactions. Then the requests of a client of \<open>CSafeStorage\<close>, the abstract
  specification of each (\<open>spec_step\<close>), the proof that \<open>CSafeStorage\<close> implements it (\<open>perform_ok\<close>),
  and the interpretation.
\<close>

locale transactional =
  fixes sound :: "'s \<Rightarrow> bool"
    and cur com :: "'s \<Rightarrow> 'k \<Rightarrow> 'v option"
    and pending :: "'s \<Rightarrow> 'k set"
    and can_put :: "'s \<Rightarrow> 'k \<Rightarrow> 'v \<Rightarrow> bool"
    and can_end :: "'s \<Rightarrow> bool"
    and put :: "'k \<Rightarrow> 'v \<Rightarrow> 's \<Rightarrow> 's option"
    and commit abort :: "'s \<Rightarrow> 's option"
  assumes put_law: "\<lbrakk> sound s; can_put s k v; k \<notin> pending s \<rbrakk> \<Longrightarrow>
      \<exists>s'. put k v s = Some s' \<and> sound s' \<and> cur s' = (cur s)(k \<mapsto> v) \<and> com s' = com s
         \<and> pending s' = insert k (pending s)"
    and commit_law: "\<lbrakk> sound s; can_end s \<rbrakk> \<Longrightarrow>
      \<exists>s'. commit s = Some s' \<and> sound s' \<and> cur s' = cur s \<and> com s' = cur s \<and> pending s' = {}"
    and abort_law: "\<lbrakk> sound s; can_end s \<rbrakk> \<Longrightarrow>
      \<exists>s'. abort s = Some s' \<and> sound s' \<and> cur s' = com s \<and> com s' = com s \<and> pending s' = {}"
begin

text \<open>A list of puts; \<open>puts_to s xs s'\<close> when each of them is possible where it happens.\<close>

inductive puts_to :: "'s \<Rightarrow> ('k \<times> 'v) list \<Rightarrow> 's \<Rightarrow> bool" where
  none: "puts_to s [] s"
| more: "\<lbrakk> can_put s k v; k \<notin> pending s; put k v s = Some s1; puts_to s1 xs s' \<rbrakk> \<Longrightarrow> puts_to s ((k, v) # xs) s'"

lemma puts_to_sound:
  "puts_to s xs s' \<Longrightarrow> sound s \<Longrightarrow> sound s' \<and> cur s' = cur s ++ map_of (rev xs) \<and> com s' = com s
     \<and> pending s' = pending s \<union> fst ` set xs"
proof (induction rule: puts_to.induct)
  case (none s)
  then show ?case by simp
next
  case (more s k v s1 xs s')
  then have "sound s1" "cur s1 = (cur s)(k \<mapsto> v)" "com s1 = com s" "pending s1 = insert k (pending s)"
    using put_law [of s k v] by auto
  with more show ?case
    by (auto simp: map_add_def fun_eq_iff split: option.split)
qed

text \<open>All or nothing: after the commit every put is in the committed content, after the abort none.\<close>

lemma transaction_commits:
  assumes "puts_to s xs s1" and "sound s" and "can_end s1"
  shows "\<exists>s'. commit s1 = Some s' \<and> sound s' \<and> com s' = cur s ++ map_of (rev xs) \<and> cur s' = com s' \<and> pending s' = {}"
  using puts_to_sound [OF assms(1,2)] commit_law [of s1] assms(3) by auto

lemma transaction_aborts:
  assumes "puts_to s xs s1" and "sound s" and "can_end s1"
  shows "\<exists>s'. abort s1 = Some s' \<and> sound s' \<and> com s' = com s \<and> cur s' = com s \<and> pending s' = {}"
  using puts_to_sound [OF assms(1,2)] abort_law [of s1] assms(3) by auto

end

subsection \<open>Requests and their specification\<close>

datatype request = Put int bytes | Commit | Rollback

record spec =
  sp_cur :: "int \<Rightarrow> bytes option"
  sp_com :: "int \<Rightarrow> bytes option"
  sp_dirty :: "int set"
  sp_auto :: bool

fun spec_step :: "request \<Rightarrow> spec \<Rightarrow> spec" where
  "spec_step (Put i y) a =
     (if sp_auto a then a\<lparr>sp_cur := (sp_cur a)(i \<mapsto> y), sp_com := (sp_com a)(i \<mapsto> y)\<rparr>
      else a\<lparr>sp_cur := (sp_cur a)(i \<mapsto> y), sp_dirty := insert i (sp_dirty a)\<rparr>)"
| "spec_step Commit a = (if sp_auto a then a else a\<lparr>sp_com := sp_cur a, sp_dirty := {}\<rparr>)"
| "spec_step Rollback a = (if sp_auto a then a else a\<lparr>sp_cur := sp_com a, sp_dirty := {}\<rparr>)"

fun perform :: "request \<Rightarrow> storage \<times> disk \<Rightarrow> (int \<times> storage \<times> disk) option" where
  "perform (Put i y) (s, d) = ss_write i (Some y) (word_of_nat (length y)) s d"
| "perform Commit (s, d) = ss_commit s d"
| "perform Rollback (s, d) = ss_rollback s d"

fun answer :: "request \<Rightarrow> bool \<Rightarrow> int" where
  "answer (Put i y) auto = int (length y)"
| "answer Commit auto = E_CSTORAGE_OK"
| "answer Rollback auto = (if auto then E_CSTORAGE_NO_ROLLBACK_IN_AUTOCOMMIT else E_CSTORAGE_OK)"

definition abstract :: "storage \<times> disk \<Rightarrow> spec" where
  "abstract = (\<lambda>(s, d). \<lparr>sp_cur = view True s d, sp_com = view False s d,
                        sp_dirty = set (dirtySerials s), sp_auto = fauto_commit s\<rparr>)"

text \<open>What a client has to respect: room on the disk, and one write per serial and transaction.\<close>

fun allowed :: "request \<Rightarrow> storage \<times> disk \<Rightarrow> bool" where
  "allowed (Put i y) (s, d) \<longleftrightarrow> can_write s d i (length y) \<and> i \<notin> set (dirtySerials s)"
| "allowed Commit (s, d) \<longleftrightarrow> room s d 50"
| "allowed Rollback (s, d) \<longleftrightarrow> room s d (4 * length (dirtySerials s) + 104)
     \<and> 4 * (length (dirtySerials s) + 1) < 2 ^ 24"

text \<open>The invariant of a storage opened for writing, and a disk that could be opened again.\<close>

fun good :: "storage \<times> disk \<Rightarrow> bool" where
  "good (s, d) \<longleftrightarrow> healthy s d \<and> tidy s d \<and> linked (st_hash_key (state s)) d \<and> accessible d"

lemma good_step:
  assumes "good (s, d)" and "healthy s' d'" and "tidy s' d'" and "grown d d' n"
    and "st_hash_key (state s') = st_hash_key (state s)"
    and "rec_at 13 0 (d' LogF) = rec_at 13 0 (d LogF)" and "rec_at 26 0 (d' IndexF) = rec_at 26 0 (d IndexF)"
  shows "good (s', d')"
  using assms linked_grown [OF _ assms(4,6,7)] accessible_attrs [of d' d] grown_attrs [OF assms(4)] by simp

lemma clearDirty_fields [simp]:
  "state (clearDirtySerials s) = state s" "fauto_commit (clearDirtySerials s) = fauto_commit s"
  "dirtySerials (clearDirtySerials s) = []" "healthy (clearDirtySerials s) d = healthy s d"
  "view b (clearDirtySerials s) d = view b s d"
  by (simp_all add: clearDirtySerials_def)

lemma log_kept_header: "log_kept n d d' \<Longrightarrow> 0 \<le> n \<Longrightarrow> whole 13 (d LogF) \<Longrightarrow> rec_at 13 0 (d' LogF) = rec_at 13 0 (d LogF)"
  by (simp add: log_kept_def)

lemma perform_put:
  assumes g: "good (s, d)" and c: "can_write s d i (length y)" and fresh: "i \<notin> set (dirtySerials s)"
  shows "\<exists>s' d'. ss_write i (Some y) (word_of_nat (length y)) s d = Some (int (length y), s', d')
    \<and> good (s', d') \<and> abstract (s', d') = spec_step (Put i y) (abstract (s, d))"
proof -
  let ?r = "write_reg s i (word_of_nat (length y))"
  have h: "healthy s d" and t: "tidy s d"
    using g by simp_all
  obtain s' d' where o: "ss_write i (Some y) (word_of_nat (length y)) s d = Some (int (length y), s', d')"
    and w: "wrote ?r y s d s' d'"
    using write_ok [OF h c] by blast
  have h': "healthy s' d'" "view True s' d' = (view True s d)(i := Some y)"
    "fauto_commit s \<Longrightarrow> view False s' d' = (view False s d)(i := Some y)"
    using write_healthy [OF h c w] by auto
  have t': "tidy s' d'"
    using write_tidy [OF h t c w fresh] .
  have s0: "0 \<le> last_seq s" "whole 13 (d LogF)" "whole 26 (d IndexF)" and i: "0 < i"
    using h c by (simp_all add: healthy_def can_write_def)
  have w': "grown d d' (length y + 50)" "st_hash_key (state s') = st_hash_key (state s)"
    "log_kept (last_seq s) d d'" "fauto_commit s' = fauto_commit s"
    "dirtySerials s' = (if fauto_commit s then dirtySerials s else dirtySerials s @ [i])"
    using w by (simp_all add: wrote_def)
  have "rec_at 26 0 (d' IndexF) = rec_at 26 0 (d IndexF)"
    using w s0 i index_table.lookup_store [of "d IndexF" _ i 0] by (simp add: wrote_def)
  then have "good (s', d')"
    using good_step [OF g h'(1) t' w'(1,2)] log_kept_header [OF w'(3) s0(1,2)] by simp
  moreover have "abstract (s', d') = spec_step (Put i y) (abstract (s, d))"
    using h' w' write_committed_view [OF h t c w fresh] by (auto simp: abstract_def)
  ultimately show ?thesis
    using o by blast
qed

lemma perform_commit:
  assumes g: "good (s, d)" and r: "room s d 50"
  shows "\<exists>s' d'. ss_commit s d = Some (E_CSTORAGE_OK, s', d')
    \<and> good (s', d') \<and> abstract (s', d') = spec_step Commit (abstract (s, d))"
proof (cases "fauto_commit s")
  case True
  then show ?thesis
    using g by (simp add: ss_commit_def abstract_def)
next
  case False
  have h: "healthy s d"
    using g by simp
  obtain s' d' where o: "ss_commit s d = Some (E_CSTORAGE_OK, clearDirtySerials s', d')"
    and c: "committed_step (last_seq s + 1) s d s' d'"
    using commit_ok [OF h False r] by blast
  have "fsize (d DataF) + 50 < C_CSFILE_ENDFILE"
    using r by (simp add: room_def disk_room_def)
  note H = committed_healthy [OF h this c]
  have s0: "0 \<le> last_seq s" "whole 13 (d LogF)"
    using h by (simp_all add: healthy_def)
  have c': "grown d d' 50" "st_hash_key (state s') = st_hash_key (state s)" "log_kept (last_seq s) d d'"
    "d' IndexF = d IndexF" "fauto_commit s' = fauto_commit s"
    using c by (simp_all add: committed_step_def)
  have "good (clearDirtySerials s', d')"
    using good_step [OF g _ _ c'(1), of "clearDirtySerials s'"] H c' log_kept_header [OF c'(3) s0] by simp
  moreover have "abstract (clearDirtySerials s', d') = spec_step Commit (abstract (s, d))"
    using H c'(5) False by (simp add: abstract_def)
  ultimately show ?thesis
    using o by blast
qed

lemma perform_rollback:
  assumes g: "good (s, d)" and r: "room s d (4 * length (dirtySerials s) + 104)"
    and n: "4 * (length (dirtySerials s) + 1) < 2 ^ 24"
  shows "\<exists>s' d'. ss_rollback s d = Some (answer Rollback (fauto_commit s), s', d')
    \<and> good (s', d') \<and> abstract (s', d') = spec_step Rollback (abstract (s, d))"
proof (cases "fauto_commit s")
  case True
  then show ?thesis
    using g by (simp add: ss_rollback_def abstract_def)
next
  case False
  have h: "healthy s d" and t: "tidy s d"
    using g by simp_all
  obtain s' d' where o: "ss_rollback s d = Some (E_CSTORAGE_OK, clearDirtySerials s', d')"
    and f: "writer s' d'" "fauto_commit s' = fauto_commit s" "commit_seq s' = commit_seq s"
      "st_hash_key (state s') = st_hash_key (state s)" "last_seq s < last_seq s'"
      "d' IndexF = index_rollback (dirtySerials s) zero_index (d IndexF)"
      "grown d d' (4 * length (dirtySerials s) + 104)" "log_kept (last_seq s) d d'"
    using rollback_ok [OF h t False r n] by blast
  have sz: "fsize (d DataF) + int (4 * length (dirtySerials s) + 104) < C_CSFILE_ENDFILE"
    using r by (simp add: room_def disk_room_def)
  note H = rollback_healthy [OF h t False sz f(1,2,3,5,6,7,8)]
  have s0: "0 \<le> last_seq s" "whole 13 (d LogF)" "whole 26 (d IndexF)"
    using h by (simp_all add: healthy_def)
  have "rec_at 26 0 (d' IndexF) = rec_at 26 0 (d IndexF)"
    unfolding f(6) by (rule rollback_keeps_header [OF s0(3)]) (use t in \<open>simp add: tidy_def\<close>)
  then have "good (clearDirtySerials s', d')"
    using good_step [OF g _ _ f(7), of "clearDirtySerials s'"] H(1,3) f(4) log_kept_header [OF f(8) s0(1,2)] by simp
  moreover have "abstract (clearDirtySerials s', d') = spec_step Rollback (abstract (s, d))"
    using H(2) f(2) False by (simp add: abstract_def)
  ultimately show ?thesis
    using o False by auto
qed

lemma perform_ok:
  assumes "good st" and "allowed q st"
  shows "\<exists>st'. perform q st = Some (answer q (fauto_commit (fst st)), st')
    \<and> good st' \<and> abstract st' = spec_step q (abstract st)"
proof -
  obtain s d where st: "st = (s, d)" by (cases st)
  show ?thesis
  proof (cases q)
    case (Put i y)
    then show ?thesis
      using perform_put [of s d i y] assms by (auto simp: st)
  next
    case Commit
    then show ?thesis
      using perform_commit [of s d] assms by (auto simp: st)
  next
    case Rollback
    then show ?thesis
      using perform_rollback [of s d] assms by (simp add: st)
  qed
qed

subsection \<open>The interpretation\<close>

definition st_put :: "int \<Rightarrow> bytes \<Rightarrow> storage \<times> disk \<Rightarrow> (storage \<times> disk) option" where
  "st_put i y st = map_option snd (perform (Put i y) st)"

definition st_commit :: "storage \<times> disk \<Rightarrow> (storage \<times> disk) option" where
  "st_commit st = map_option snd (perform Commit st)"

definition st_rollback :: "storage \<times> disk \<Rightarrow> (storage \<times> disk) option" where
  "st_rollback st = map_option snd (perform Rollback st)"

definition manual :: "storage \<times> disk \<Rightarrow> bool" where
  \<comment> \<open>a good storage that is not in auto-commit mode\<close>
  "manual st \<longleftrightarrow> good st \<and> \<not> sp_auto (abstract st)"

interpretation safe_storage: transactional
  manual "\<lambda>st. sp_cur (abstract st)" "\<lambda>st. sp_com (abstract st)" "\<lambda>st. sp_dirty (abstract st)"
  "\<lambda>(s, d) i y. can_write s d i (length y)" "\<lambda>st. allowed Commit st \<and> allowed Rollback st"
  st_put st_commit st_rollback
proof (unfold_locales, goal_cases)
  case (1 st i y)
  obtain s d where st: "st = (s, d)" by (cases st)
  have "allowed (Put i y) st"
    using 1 by (simp add: st abstract_def)
  then obtain st' where "perform (Put i y) st = Some (int (length y), st')" "good st'"
    "abstract st' = spec_step (Put i y) (abstract st)"
    using perform_ok [of st "Put i y"] 1 by (auto simp: manual_def)
  then show ?case
    using 1 by (auto simp: st_put_def manual_def)
next
  case (2 st)
  then obtain st' where "perform Commit st = Some (E_CSTORAGE_OK, st')" "good st'"
    "abstract st' = spec_step Commit (abstract st)"
    using perform_ok [of st Commit] by (auto simp: manual_def)
  then show ?case
    using 2 by (auto simp: st_commit_def manual_def)
next
  case (3 st)
  then obtain r st' where "perform Rollback st = Some (r, st')" "good st'"
    "abstract st' = spec_step Rollback (abstract st)"
    using perform_ok [of st Rollback] by (auto simp: manual_def)
  then show ?case
    using 3 by (auto simp: st_rollback_def manual_def)
qed

end
