(* ===== verification/Storage_Props.thy ===== *)
theory Storage_Props
  imports Transactional
begin

text \<open>
  The properties of \<open>CSafeStorage\<close>, each with a witness on a storage that has just been created
  on \<open>demo_disk\<close>.
\<close>

subsection \<open>A concrete storage\<close>

definition demo_disk :: disk where
  "demo_disk = (\<lambda>k. \<lparr>fbytes = [], flimit = 1000000, fexists = False, freadable = False,
                     fwritable = False, fowned = False\<rparr>)"

lemma demo_created:
  "\<exists>s d. ss_open 7 ''demo'' 3 0 ss_new demo_disk = Some (E_CSTORAGE_OK, s, d) \<and> brand_new 7 s d
     \<and> (\<forall>k. flimit (d k) = 1000000) \<and> \<not> fauto_commit s"
proof -
  have b: "blank_disk demo_disk"
    by (simp add: blank_disk_def demo_disk_def)
  have f: "has_flag 3 F_CSTORAGE_WR" "has_flag 3 F_CSTORAGE_CREATE"
    by (simp_all add: has_flag_def F_CSTORAGE_WR_def F_CSTORAGE_CREATE_def)
  have k: "7 = (if has_flag (3 OR F_CSFILE_EXCEPTIONS) F_CSTORAGE_SET_HASH_KEY then 0 else 7)"
    by (simp add: has_flag_def F_CSFILE_EXCEPTIONS_def F_CSTORAGE_SET_HASH_KEY_def)
  obtain s d where "ss_open 7 ''demo'' 3 0 ss_new demo_disk = Some (E_CSTORAGE_OK, s, d)" "brand_new 7 s d"
    "\<forall>k. flimit (d k) = flimit (demo_disk k)"
    "fauto_commit s = has_flag (3 OR F_CSFILE_EXCEPTIONS) F_CSTORAGE_AUTO_COMMIT"
    using create_ok [OF b f k] by blast
  then show ?thesis
    by (auto simp: demo_disk_def has_flag_def F_CSFILE_EXCEPTIONS_def F_CSTORAGE_AUTO_COMMIT_def)
qed

definition demo_state :: "storage \<Rightarrow> disk \<Rightarrow> bool" where
  "demo_state s d \<longleftrightarrow> good (s, d) \<and> \<not> fauto_commit s \<and> (\<forall>k. flimit (d k) = 1000000)"

lemma brand_new_good: "brand_new key s d \<Longrightarrow> good (s, d)"
  by (simp add: brand_new_def)

lemma demo_room:
  assumes "fsize (d DataF) \<le> 1000" and "\<forall>k. flimit (d k) = 1000000" and "last_seq s \<le> 100" and "n \<le> 1000"
  shows "room s d n"
proof -
  have "nat (last_seq s + 4) \<le> 104"
    using assms(3) by simp
  then have "nat (last_seq s + 4) * 17 + 17 \<le> 1000000"
    by simp
  then show ?thesis
    using assms by (simp add: room_def disk_room_def seq_room_def fsize_def C_CSFILE_ENDFILE_def)
qed

lemma demo_can_write:
  assumes "fsize (d DataF) \<le> 1000" and "\<forall>k. flimit (d k) = 1000000" and "last_seq s \<le> 100"
    and "n \<le> 900" and "0 < i" "i \<le> 100"
  shows "can_write s d i n"
proof -
  have "nat i * 30 + 30 \<le> 1000000"
    using assms(5,6) by simp
  then show ?thesis
    using assms demo_room [of d s "n + 50"] by (simp add: can_write_def is_i32_def)
qed

lemma demo_0:
  "\<exists>s d. brand_new 7 s d \<and> good (s, d) \<and> \<not> fauto_commit s \<and> (\<forall>k. flimit (d k) = 1000000)
     \<and> fsize (d DataF) \<le> 100 \<and> last_seq s = 0 \<and> dirtySerials s = []"
proof -
  obtain s d where "brand_new 7 s d" "\<forall>k. flimit (d k) = 1000000" "\<not> fauto_commit s"
    using demo_created by blast
  moreover have "good (s, d)"
    using brand_new_good [OF \<open>brand_new 7 s d\<close>] .
  moreover have "fsize (d DataF) \<le> 100" "last_seq s = 0" "dirtySerials s = []"
    using \<open>brand_new 7 s d\<close> by (simp_all add: brand_new_def)
  ultimately show ?thesis
    by blast
qed

text \<open>The same storage after writing three bytes for serial 5, not yet committed.\<close>

lemma few_not_due: "0 \<le> st_count st \<Longrightarrow> st_count st \<le> 40 \<Longrightarrow> \<not> snapshot_due (tick_state q st)"
  by (simp add: snapshot_due_def C_STORAGE_STATUS_FREQ_def is_i32_def)

lemma demo_1:
  "\<exists>s d. good (s, d) \<and> \<not> fauto_commit s \<and> (\<forall>k. flimit (d k) = 1000000)
     \<and> fsize (d DataF) \<le> 200 \<and> 0 \<le> last_seq s \<and> last_seq s \<le> 2 \<and> dirtySerials s = [5] \<and> view True s d 5 = Some [1, 2, 3]
     \<and> view False s d 5 = None \<and> saved s d \<and> st_count (state s) = 1"
proof -
  obtain s d where b: "good (s, d)" "\<not> fauto_commit s" "\<forall>k. flimit (d k) = 1000000"
     "fsize (d DataF) \<le> 100" "last_seq s = 0" "dirtySerials s = []" "brand_new 7 s d"
    using demo_0 by blast
  have c: "can_write s d 5 (length [1, 2, 3 :: byte])"
    using b by (intro demo_can_write) simp_all
  have h: "healthy s d" and t: "tidy s d"
    using b by simp_all
  obtain s' d' where w: "wrote (write_reg s 5 (word_of_nat (length [1, 2, 3 :: byte]))) [1, 2, 3] s d s' d'"
    and o: "ss_write 5 (Some [1, 2, 3]) (word_of_nat (length [1, 2, 3 :: byte])) s d = Some (3, s', d')"
    using write_ok [OF h c] by auto
  obtain s2 d2 where p: "ss_write 5 (Some [1, 2, 3]) (word_of_nat (length [1, 2, 3 :: byte])) s d = Some (3, s2, d2)"
    "good (s2, d2)"
    using perform_put [OF b(1) c] b(6) by auto
  have "s2 = s'" "d2 = d'"
    using o p by simp_all
  then have g: "good (s', d')"
    using p(2) by simp
  have "view False s' d' = view False s d"
    using write_committed_view [OF h t c w] b by simp
  then have "view False s' d' 5 = None"
    using b(7) by (simp add: brand_new_def)
  moreover have "view True s' d' 5 = Some [1, 2, 3]"
    using write_healthy(2) [OF h c w] by simp
  moreover have "fsize (d' DataF) \<le> 200" "\<forall>k. flimit (d' k) = 1000000" "0 \<le> last_seq s'" "last_seq s' \<le> 2"
    "dirtySerials s' = [5]" "\<not> fauto_commit s'" "saved s' d'"
    using w b fsize_grown [of d d' 53] grown_limit [of d d' 53] by (auto simp: wrote_def)
  moreover have "st_count (state s') = 1"
    using w few_not_due [of "state s"] b(7) by (simp add: wrote_def brand_new_def is_i32_def)
  ultimately show ?thesis
    using g by blast
qed

subsection \<open>Transactions\<close>

text \<open>Property (C1): \<open>CSafeStorage\<close> implements the abstract transactional store: on every storage
  in good order every request a client may make returns, with the specified answer, keeps the
  storage in good order, and changes the current and the committed content exactly as the
  specification of the request says.\<close>

theorem storage_refines_spec:
  assumes "good st" and "allowed q st"
  shows "\<exists>st'. perform q st = Some (answer q (fauto_commit (fst st)), st')
    \<and> good st' \<and> abstract st' = spec_step q (abstract st)"
  using perform_ok [OF assms] .

theorem storage_refines_spec_witness:
  "\<exists>st st'. perform Rollback st = Some (E_CSTORAGE_OK, st') \<and> sp_cur (abstract st) 5 = Some [1, 2, 3]
     \<and> sp_cur (abstract st') 5 = None"
proof -
  obtain s d where b: "good (s, d)" "\<not> fauto_commit s" "\<forall>k. flimit (d k) = 1000000"
     "fsize (d DataF) \<le> 200" "last_seq s \<le> 2" "dirtySerials s = [5]" "view True s d 5 = Some [1, 2, 3]"
     "view False s d 5 = None"
    using demo_1 by blast
  have "allowed Rollback (s, d)"
    using b demo_room [of d s 108] by simp
  from storage_refines_spec [OF b(1) this] obtain st' where
    "perform Rollback (s, d) = Some (E_CSTORAGE_OK, st')" "abstract st' = spec_step Rollback (abstract (s, d))"
    using b(2) by auto
  then show ?thesis
    using b by (intro exI [of _ "(s, d)"] exI [of _ st']) (simp add: abstract_def)
qed

fun write_all :: "(int \<times> bytes) list \<Rightarrow> storage \<times> disk \<Rightarrow> (storage \<times> disk) option" where
  "write_all [] st = Some st"
| "write_all ((i, y) # xs) st = do { (r, st) \<leftarrow> perform (Put i y) st; write_all xs st }"

fun writes_allowed :: "(int \<times> bytes) list \<Rightarrow> storage \<times> disk \<Rightarrow> bool" where
  "writes_allowed [] st = True"
| "writes_allowed ((i, y) # xs) st =
     (allowed (Put i y) st \<and> (case perform (Put i y) st of None \<Rightarrow> False | Some (r, st) \<Rightarrow> writes_allowed xs st))"

lemma write_all_puts:
  "writes_allowed xs st \<Longrightarrow> write_all xs st = Some st' \<Longrightarrow> safe_storage.puts_to st xs st'"
proof (induction xs arbitrary: st)
  case Nil
  then show ?case by (simp add: safe_storage.puts_to.none)
next
  case (Cons x xs)
  obtain i y where x: "x = (i, y)" by (cases x)
  obtain s d where st: "st = (s, d)" by (cases st)
  obtain r st1 where p: "perform (Put i y) st = Some (r, st1)"
    using Cons.prems x by (auto split: option.splits)
  then have "safe_storage.puts_to st1 xs st'"
    using Cons x by simp
  moreover have "case st of (s, d) \<Rightarrow> can_write s d i (length y)" "i \<notin> sp_dirty (abstract st)"
    using Cons.prems(1) by (simp_all add: x st abstract_def)
  moreover have "st_put i y st = Some st1"
    using p by (simp add: st_put_def)
  ultimately show ?case
    unfolding x by (auto simp: st intro: safe_storage.puts_to.more)
qed

text \<open>Property (C2): a transaction is atomic. After any sequence of writes that the client may make,
  a commit makes all of them the committed content, and a rollback instead of it restores
  the content committed before for every serial, for the writer as for committed readers.\<close>

theorem transaction_atomic:
  assumes "good st" and "\<not> sp_auto (abstract st)" and "writes_allowed xs st" and "write_all xs st = Some st1"
    and "allowed Commit st1" and "allowed Rollback st1"
  shows "(\<exists>st2. st_commit st1 = Some st2 \<and> sp_com (abstract st2) = sp_cur (abstract st) ++ map_of (rev xs)
           \<and> sp_cur (abstract st2) = sp_com (abstract st2))
       \<and> (\<exists>st2. st_rollback st1 = Some st2 \<and> sp_com (abstract st2) = sp_com (abstract st)
           \<and> sp_cur (abstract st2) = sp_com (abstract st))"
proof -
  have p: "safe_storage.puts_to st xs st1" and m: "manual st"
    using write_all_puts assms by (simp_all add: manual_def)
  show ?thesis
    using safe_storage.transaction_commits [OF p m] safe_storage.transaction_aborts [OF p m] assms(5,6) by blast
qed

theorem transaction_atomic_witness:
  "\<exists>st st1 st2. write_all [(5, [1, 2, 3])] st = Some st1 \<and> st_commit st1 = Some st2
     \<and> sp_com (abstract st) 5 = None \<and> sp_com (abstract st2) 5 = Some [1, 2, 3]"
proof -
  obtain s d where b: "good (s, d)" "\<not> fauto_commit s" "\<forall>k. flimit (d k) = 1000000"
     "fsize (d DataF) \<le> 100" "last_seq s = 0" "dirtySerials s = []" "brand_new 7 s d"
    using demo_0 by blast
  have c: "can_write s d 5 (length [1, 2, 3 :: byte])"
    using b by (intro demo_can_write) simp_all
  then have a: "allowed (Put 5 [1, 2, 3]) (s, d)"
    using b by simp
  have h: "healthy s d"
    using b(1) by simp
  obtain s1 d1 where p: "perform (Put 5 [1, 2, 3]) (s, d) = Some (3, s1, d1)"
    and w: "wrote (write_reg s 5 (word_of_nat (length [1, 2, 3 :: byte]))) [1, 2, 3] s d s1 d1"
    using write_ok [OF h c] by auto
  then have "fsize (d1 DataF) \<le> 200" "\<forall>k. flimit (d1 k) = 1000000" "last_seq s1 \<le> 2" "dirtySerials s1 = [5]"
    using b fsize_grown [of d d1 53] grown_limit [of d d1 53] by (auto simp: wrote_def)
  then have e: "allowed Commit (s1, d1)" "allowed Rollback (s1, d1)"
    using demo_room [of d1 s1 108] demo_room [of d1 s1 50] by simp_all
  have w1: "writes_allowed [(5, [1, 2, 3])] (s, d)" "write_all [(5, [1, 2, 3])] (s, d) = Some (s1, d1)"
    using a p by simp_all
  have m: "\<not> sp_auto (abstract (s, d))"
    using b by (simp add: abstract_def)
  obtain st2 where "st_commit (s1, d1) = Some st2"
    "sp_com (abstract st2) = sp_cur (abstract (s, d)) ++ map_of (rev [(5, [1, 2, 3])])"
    using transaction_atomic [OF b(1) m w1 e] by blast
  moreover have "sp_com (abstract (s, d)) 5 = None"
    using b(7) by (simp add: abstract_def brand_new_def)
  ultimately show ?thesis
    using w1(2) by (intro exI [of _ "(s, d)"] exI [of _ "(s1, d1)"] exI [of _ st2]) simp
qed

end
