(* ===== verification/Storage_Props2.thy ===== *)
theory Storage_Props2
  imports Storage_Props
begin

text \<open>
  More properties of \<open>CSafeStorage\<close>: reading back, readers on the same files, the limits of the
  two-version scheme, creating, opening and reopening.
\<close>

subsection \<open>Reading back\<close>

text \<open>Property (C12): what was written is read back. After a write of a record a read of its serial
  with a buffer of any size returns the length written and fills the buffer with the bytes
  written, up to its size, and leaves the rest of the buffer alone.\<close>

theorem write_then_read:
  assumes "healthy s d" and "can_write s d i (length y)" and "m < 2 ^ 24"
  shows "\<exists>s' d' s''. ss_write i (Some y) (word_of_nat (length y)) s d = Some (int (length y), s', d')
    \<and> ss_read i buf (word_of_nat m) flags s' d' = Some (int (length y), overlay (take m y) buf, s'')"
proof -
  obtain s' d' where o: "ss_write i (Some y) (word_of_nat (length y)) s d = Some (int (length y), s', d')"
    and w: "wrote (write_reg s i (word_of_nat (length y))) y s d s' d'"
    using write_ok [OF assms(1,2)] by blast
  have "view True s' d' i = Some y"
    using write_healthy(2) [OF assms(1,2) w] by simp
  moreover have "0 < i" "is_i32 i"
    using assms(2) by (simp_all add: can_write_def)
  ultimately show ?thesis
    using o read_ok [OF write_healthy(1) [OF assms(1,2) w] _ _ _ assms(3)] by blast
qed

theorem write_then_read_witness:
  "\<exists>s d s' d' s''. ss_write 9 (Some [4, 2]) (word_of_nat (length [4, 2 :: byte])) s d = Some (2, s', d')
     \<and> ss_read 9 [0, 0, 0] (word_of_nat 3) 0 s' d' = Some (2, [4, 2, 0], s'')"
proof -
  obtain s d where b: "good (s, d)" "\<forall>k. flimit (d k) = 1000000" "fsize (d DataF) \<le> 100" "last_seq s = 0"
    using demo_0 by blast
  have "can_write s d 9 (length [4, 2 :: byte])"
    using b by (intro demo_can_write) simp_all
  then obtain s' d' s'' where
    "ss_write 9 (Some [4, 2]) (word_of_nat (length [4, 2 :: byte])) s d = Some (2, s', d')"
    "ss_read 9 [0, 0, 0] (word_of_nat 3) 0 s' d' = Some (2, [4, 2, 0], s'')"
    using write_then_read [of s d 9 "[4, 2]" 3 "[0, 0, 0]" 0] b(1) by (auto simp: overlay_def)
  then show ?thesis
    by blast
qed

subsection \<open>Readers\<close>

lemma saved_dec: "saved s d \<Longrightarrow> healthy s d \<Longrightarrow>
    \<exists>p. rec_at 181 0 (d StateF) = Some p \<and> dec_state p = state s"
  by (auto simp: saved_def healthy_def writer_def dec_enc_state)


text \<open>The storage of \<open>demo_1\<close> after its commit: serial 5 holds three bytes, committed.\<close>

lemma demo_2:
  "\<exists>s d. good (s, d) \<and> \<not> fauto_commit s \<and> (\<forall>k. flimit (d k) = 1000000)
     \<and> fsize (d DataF) \<le> 300 \<and> last_seq s \<le> 10 \<and> dirtySerials s = [] \<and> view False s d 5 = Some [1, 2, 3]"
proof -
  obtain s d where b: "good (s, d)" "\<not> fauto_commit s" "\<forall>k. flimit (d k) = 1000000"
     "fsize (d DataF) \<le> 200" "0 \<le> last_seq s" "last_seq s \<le> 2" "view True s d 5 = Some [1, 2, 3]"
    using demo_1 by blast
  have r: "room s d 50"
    using b by (intro demo_room) simp_all
  have h: "healthy s d"
    using b by simp
  obtain s' d' where o: "ss_commit s d = Some (E_CSTORAGE_OK, clearDirtySerials s', d')"
    and c: "committed_step (last_seq s + 1) s d s' d'"
    using commit_ok [OF h b(2) r] by blast
  obtain s2 d2 where p: "ss_commit s d = Some (E_CSTORAGE_OK, s2, d2)" "good (s2, d2)"
    using perform_commit [OF b(1) r] by blast
  have sz: "fsize (d DataF) + 50 < C_CSFILE_ENDFILE"
    using b by (simp add: C_CSFILE_ENDFILE_def)
  have "view False (clearDirtySerials s') d' 5 = Some [1, 2, 3]"
    using committed_healthy(3) [OF h sz c] b by simp
  moreover have "good (clearDirtySerials s', d')"
    using o p by simp
  moreover have "fsize (d' DataF) \<le> 300" "\<forall>k. flimit (d' k) = 1000000" "last_seq s' \<le> 10" "\<not> fauto_commit s'"
    using c b fsize_grown [of d d' 50] grown_limit [of d d' 50] by (auto simp: committed_step_def)
  ultimately show ?thesis
    by (intro exI [of _ "clearDirtySerials s'"] exI [of _ d']) simp
qed


subsection \<open>Two versions are not enough for two writes\<close>

text \<open>Property (C34): a second write of a serial in one transaction destroys its committed record.
  The index keeps two versions; the second write replaces the committed one, and no committed
  reader finds the serial any more, whatever was committed before.\<close>

theorem second_write_loses_committed:
  assumes h: "healthy s d" and t: "tidy s d" and "\<not> fauto_commit s"
    and i: "i \<in> set (dirtySerials s)" and c: "can_write s d i (length y)"
  shows "\<exists>s' d'. ss_write i (Some y) (word_of_nat (length y)) s d = Some (int (length y), s', d')
    \<and> view False s' d' i = None"
proof -
  let ?r = "write_reg s i (word_of_nat (length y))"
  obtain s' d' where o: "ss_write i (Some y) (word_of_nat (length y)) s d = Some (int (length y), s', d')"
    and w: "wrote ?r y s d s' d'"
    using write_ok [OF h c] by blast
  note F = can_write_facts [OF h c]
  obtain x where x: "idx (d IndexF) i = Some x" "pending x (commit_seq s)"
    using t i F(2) by (auto simp: tidy_def)
  have e: "seqs_ok (last_seq s) x" and c0: "0 \<le> commit_seq s"
    using h x(1) F(2) by (auto simp: healthy_def entry_ok_def)
  have "idx (d' IndexF) i = Some (setOldestOffset x (fsize (d DataF)) (last_seq s + 1) (r_flags ?r) False)"
    using wrote_healthy(4) [OF h w, of i] F x(1) by (simp add: index_after_write_idx)
  moreover have "version (setOldestOffset x (fsize (d DataF)) (last_seq s + 1) (r_flags ?r) False) (commit_seq s) False = - 1"
    using assms(3) by (intro version_lost [OF e x(2) _ c0]) simp_all
  ultimately have "view False s' d' i = None"
    using w by (simp add: view_def content_def wrote_def)
  then show ?thesis
    using o by blast
qed

theorem second_write_loses_committed_witness:
  "\<exists>s d s' d'. view True s d 5 = Some [1, 2, 3]
     \<and> ss_write 5 (Some [4]) (word_of_nat (length [4 :: byte])) s d = Some (1, s', d') \<and> view False s' d' 5 = None"
proof -
  obtain s d where b: "good (s, d)" "\<not> fauto_commit s" "\<forall>k. flimit (d k) = 1000000"
     "fsize (d DataF) \<le> 200" "last_seq s \<le> 2" "dirtySerials s = [5]" "view True s d 5 = Some [1, 2, 3]"
    using demo_1 by blast
  have c: "can_write s d 5 (length [4 :: byte])"
    using b by (intro demo_can_write) simp_all
  have "healthy s d" "tidy s d" "5 \<in> set (dirtySerials s)"
    using b by simp_all
  from second_write_loses_committed [OF this(1,2) b(2) this(3) c] b(7) show ?thesis
    by auto
qed

end
