(* ===== verification/Storage_Props3.thy ===== *)
theory Storage_Props3
  imports Storage_Props2
begin

text \<open>
  The life of a storage: creating, closing and reopening it, what \<open>open\<close> checks, the states a
  client can reach, the log and replication, and the operations that do not do what they are for.
\<close>

subsection \<open>Creating and reopening\<close>

text \<open>Property (C27): opening an unused file prefix with \<open>F_CSTORAGE_WR\<close> and \<open>F_CSTORAGE_CREATE\<close> makes a new storage: it
  returns, its four files carry the same key (the caller's or a random one), nothing is in it,
  and it is in good order for every later request.\<close>

theorem create_makes_empty_storage:
  assumes "blank_disk d" and "has_flag flags F_CSTORAGE_WR" and "has_flag flags F_CSTORAGE_CREATE"
    and "key' = (if has_flag (flags OR F_CSFILE_EXCEPTIONS) F_CSTORAGE_SET_HASH_KEY then key else rnd)"
  shows "\<exists>s' d'. ss_open rnd fname flags key ss_new d = Some (E_CSTORAGE_OK, s', d')
    \<and> good (s', d') \<and> linked key' d' \<and> (\<forall>b i. view b s' d' i = None)"
  using create_ok [OF assms, of fname] brand_new_good by (fastforce simp: brand_new_def)

theorem create_makes_empty_storage_witness:
  "\<exists>s' d'. ss_open 7 ''demo'' 3 0 ss_new demo_disk = Some (E_CSTORAGE_OK, s', d') \<and> linked 7 d'"
proof -
  have "blank_disk demo_disk"
    by (simp add: blank_disk_def demo_disk_def)
  moreover have "has_flag 3 F_CSTORAGE_WR" "has_flag 3 F_CSTORAGE_CREATE"
    by (simp_all add: has_flag_def F_CSTORAGE_WR_def F_CSTORAGE_CREATE_def)
  moreover have "7 = (if has_flag (3 OR F_CSFILE_EXCEPTIONS) F_CSTORAGE_SET_HASH_KEY then 0 else 7)"
    by (simp add: has_flag_def F_CSFILE_EXCEPTIONS_def F_CSTORAGE_SET_HASH_KEY_def)
  ultimately show ?thesis
    using create_makes_empty_storage [of demo_disk 3 7 0 7 "''demo''"] by blast
qed

lemma healthy_other_object:
  assumes "healthy s d" and "writer s2 d1" and "state s2 = state s" and "\<And>k. k \<noteq> StateF \<Longrightarrow> d1 k = d k"
  shows "healthy s2 d1" "view b s2 d1 = view b s d"
proof -
  have e: "entry_ok d1 ub i x = entry_ok d ub i x" "content d1 off = content d off" for ub i x off
    by (simp_all add: entry_ok_def stored_def content_def assms(4))
  show "healthy s2 d1"
    using assms(1,2) by (simp add: healthy_def assms(3,4) e)
  show "view b s2 d1 = view b s d"
    by (rule ext) (simp add: view_def assms(3,4) e split: option.split)
qed

lemma close_then_open:
  assumes g: "good (s, d)" and room: "185 \<le> flimit (d StateF)" and fl: "plain_open flags"
    and wr: "has_flag (flags OR F_CSFILE_EXCEPTIONS) F_CSTORAGE_WR"
  shows "\<exists>s1 d1 s2. ss_close s d = Some (E_CSTORAGE_OK, s1, d1)
    \<and> ss_open rnd fname flags key ss_new d1 = Some (E_CSTORAGE_OK, s2, d1)
    \<and> healthy s2 d1 \<and> (\<forall>b. view b s2 d1 = view b s d) \<and> dirtySerials s2 = []
    \<and> fauto_commit s2 = has_flag (flags OR F_CSFILE_EXCEPTIONS) F_CSTORAGE_AUTO_COMMIT
    \<and> state s2 = state s \<and> (\<forall>k. k \<noteq> StateF \<longrightarrow> d1 k = d k) \<and> flimit (d1 StateF) = flimit (d StateF)"
proof -
  have h: "healthy s d" and w: "writer s d"
    using g by (simp_all add: healthy_def)
  define d1 where "d1 = d(StateF := put_rec 181 0 (enc_state (state s)) (d StateF))"
  obtain s1 where c: "ss_close s d = Some (E_CSTORAGE_OK, s1, d1)"
    using close_ok [OF w room] unfolding d1_def by blast
  have st: "well_state (state s)"
    using w by (simp add: writer_def)
  have d1: "k \<noteq> StateF \<Longrightarrow> d1 k = d k" "flimit (d1 StateF) = flimit (d StateF)" for k
    by (simp_all add: d1_def)
  have p: "rec_at 181 0 (d1 StateF) = Some (enc_state (state s))" "dec_state (enc_state (state s)) = state s"
    using st by (simp_all add: d1_def rec_at_put_same dec_enc_state well_state_def)
  have acc: "accessible d1"
    using g accessible_attrs [of d1 d] by (simp add: d1_def)
  have lk: "linked (st_hash_key (state s)) d1"
    using g d1 by (simp add: linked_def)
  obtain s2 where o: "ss_open rnd fname flags key ss_new d1 = Some (E_CSTORAGE_OK, s2, d1)"
    and s2: "state s2 = state s" "dirtySerials s2 = []" "writer s2 d1"
      "fauto_commit s2 = has_flag (flags OR F_CSFILE_EXCEPTIONS) F_CSTORAGE_AUTO_COMMIT"
    using open_ok [OF acc fl lk p(1) _ refl, of rnd fname key] wr p(2) by auto
  have "healthy s2 d1" "view b s2 d1 = view b s d" for b
    using healthy_other_object [OF h s2(3,1) d1(1)] by simp_all
  then show ?thesis
    using c o s2 d1 by blast
qed

text \<open>Property (C14): closing a storage and opening it again with a new object keeps its content:
  every serial reads as before, for the writer and for committed readers.\<close>

theorem reopen_keeps_content:
  assumes "good (s, d)" and "185 \<le> flimit (d StateF)" and "plain_open flags"
    and "has_flag (flags OR F_CSFILE_EXCEPTIONS) F_CSTORAGE_WR"
  shows "\<exists>s1 d1 s2. ss_close s d = Some (E_CSTORAGE_OK, s1, d1)
    \<and> ss_open rnd fname flags key ss_new d1 = Some (E_CSTORAGE_OK, s2, d1)
    \<and> healthy s2 d1 \<and> (\<forall>b i. view b s2 d1 i = view b s d i)"
  using close_then_open [OF assms, of rnd fname key] by fastforce

lemma plain_open_1: "plain_open 1" "has_flag (1 OR F_CSFILE_EXCEPTIONS) F_CSTORAGE_WR"
  "\<not> has_flag (1 OR F_CSFILE_EXCEPTIONS) F_CSTORAGE_AUTO_COMMIT"
  by (simp_all add: plain_open_def has_flag_def csfile_flags F_CSTORAGE_WR_def F_CSTORAGE_AUTO_COMMIT_def)

theorem reopen_keeps_content_witness:
  "\<exists>s d s1 d1 s2. ss_close s d = Some (E_CSTORAGE_OK, s1, d1)
     \<and> ss_open 0 ''demo'' 1 0 ss_new d1 = Some (E_CSTORAGE_OK, s2, d1) \<and> view False s2 d1 5 = Some [1, 2, 3]"
proof -
  obtain s d where b: "good (s, d)" "\<forall>k. flimit (d k) = 1000000" "view False s d 5 = Some [1, 2, 3]"
    using demo_2 by blast
  have "185 \<le> flimit (d StateF)"
    using b by simp
  from reopen_keeps_content [OF b(1) this plain_open_1(1,2), of 0 "''demo''" 0] show ?thesis
    using b(3) by (metis (no_types, lifting))
qed

text \<open>Property (C35): an uncommitted transaction survives the end of its writer. After closing and
  reopening, nothing is left to roll back, and the next commit publishes the writes that were
  never committed.\<close>

theorem uncommitted_writes_survive:
  assumes g: "good (s, d)" and room: "room s d 50" and fl: "plain_open flags"
    and wr: "has_flag (flags OR F_CSFILE_EXCEPTIONS) F_CSTORAGE_WR"
    and manual: "\<not> has_flag (flags OR F_CSFILE_EXCEPTIONS) F_CSTORAGE_AUTO_COMMIT"
  shows "\<exists>s1 d1 s2 s3 d3. ss_close s d = Some (E_CSTORAGE_OK, s1, d1)
    \<and> ss_open rnd fname flags key ss_new d1 = Some (E_CSTORAGE_OK, s2, d1) \<and> dirtySerials s2 = []
    \<and> ss_commit s2 d1 = Some (E_CSTORAGE_OK, s3, d3) \<and> view False s3 d3 = view True s d"
proof -
  have "185 \<le> flimit (d StateF)"
    using room by (simp add: room_def disk_room_def)
  then obtain s1 d1 s2 where o: "ss_close s d = Some (E_CSTORAGE_OK, s1, d1)"
    "ss_open rnd fname flags key ss_new d1 = Some (E_CSTORAGE_OK, s2, d1)" "dirtySerials s2 = []"
    and s2: "healthy s2 d1" "\<forall>b. view b s2 d1 = view b s d" "\<not> fauto_commit s2" "state s2 = state s"
      "\<forall>k. k \<noteq> StateF \<longrightarrow> d1 k = d k" "flimit (d1 StateF) = flimit (d StateF)"
    using close_then_open [OF g _ fl wr, of rnd fname key] manual by auto
  have r: "room s2 d1 50"
    using room s2 by (simp add: room_def disk_room_def seq_room_def)
  obtain s' d' where c: "ss_commit s2 d1 = Some (E_CSTORAGE_OK, clearDirtySerials s', d')"
    "committed_step (last_seq s2 + 1) s2 d1 s' d'"
    using commit_ok [OF s2(1,3) r] by blast
  have "fsize (d1 DataF) + 50 < C_CSFILE_ENDFILE"
    using r by (simp add: room_def disk_room_def)
  from committed_healthy(3) [OF s2(1) this c(2)] have "view False s' d' = view True s d"
    using s2(2) by simp
  then show ?thesis
    using o c(1) by (intro exI [of _ s1] exI [of _ d1] exI [of _ s2] exI [of _ "clearDirtySerials s'"] exI [of _ d']) simp
qed

theorem uncommitted_writes_survive_witness:
  "\<exists>s d s1 d1 s2 s3 d3. view False s d 5 = None \<and> ss_close s d = Some (E_CSTORAGE_OK, s1, d1)
    \<and> ss_open 0 ''demo'' 1 0 ss_new d1 = Some (E_CSTORAGE_OK, s2, d1)
    \<and> ss_commit s2 d1 = Some (E_CSTORAGE_OK, s3, d3) \<and> view False s3 d3 5 = Some [1, 2, 3]"
proof -
  obtain s d where b: "good (s, d)" "\<forall>k. flimit (d k) = 1000000" "fsize (d DataF) \<le> 200"
     "last_seq s \<le> 2" "view True s d 5 = Some [1, 2, 3]" "view False s d 5 = None"
    using demo_1 by blast
  have "room s d 50"
    using b by (intro demo_room) simp_all
  from uncommitted_writes_survive [OF b(1) this plain_open_1, of 0 "''demo''" 0] show ?thesis
    using b(5,6) by (metis (no_types, lifting))
qed

text \<open>Property (C28): what \<open>open\<close> by a new object makes of the keys of four files that it may open and does not truncate, whatever is in
  them. Each file but the
  state has its key in its first record; the log counts as having the key of the data file if that record is
  missing or damaged, the index that of the log, and the data file 0, as does a missing state. \<open>open\<close> accepts
  the files exactly when these keys are the same, and otherwise returns the or of the codes of those that
  differ from the key of the data file (\<open>E_CSTORAGE_FAIL_HK_LOG\<close>, \<open>E_CSTORAGE_FAIL_HK_INDEX\<close>,
  \<open>E_CSTORAGE_FAIL_HK_STATE\<close>). So an intact file of another storage is noticed, an empty log or index is not.\<close>

theorem open_checks_keys:
  assumes "accessible d" and "plain_open flags" and "185 \<le> flimit (d StateF)"
    and "kd = header_key DataF d 0" and "kl = header_key LogF d kd" and "ki = header_key IndexF d kl"
    and "ks = st_hash_key (loaded d zero_state)"
  shows "\<exists>s' d'. ss_open rnd fname flags key ss_new d = Some (hash_errors kd kl ki ks, s', d')
    \<and> (hash_errors kd kl ki ks = E_CSTORAGE_OK \<longleftrightarrow> kl = kd \<and> ki = kd \<and> ks = kd)"
proof -
  let ?e = "hash_errors kd kl ki ks" and ?st = "loaded d zero_state"
  have k: "keyed kd kl ki d"
    using assms(4-6) by (simp add: keyed_def)
  have w: "well_state ?st"
    by simp
  obtain s' where o: "ss_open rnd fname flags key ss_new d =
      (if ?e \<noteq> 0 then close_with ?e s' d
       else Some (E_CSTORAGE_OK, set_auto_commit (flags OR F_CSFILE_EXCEPTIONS) s', d))"
    and s': "live s' d" "state s' = ?st" "\<not> rebuilding s'"
      "\<forall>k. f_write_mode (files s' k) = rdwr s'"
    using open_steps [OF assms(1,2) k refl refl refl, of rnd fname key] assms(7) by auto
  have "\<exists>s1 d1. saveState s' d = Some (s1, d1)"
  proof (cases "rdwr s'")
    case True
    then have "writer s' d"
      using s' by (simp add: writer_def)
    then show ?thesis
      using saveState_ok [of s' d] assms(3) w s'(2) by (auto simp: writer_def well_state_def)
  next
    case False
    then show ?thesis
      by (simp add: saveState_def)
  qed
  then have "\<exists>s1 d1. close_with ?e s' d = Some (?e, s1, d1)"
    by (auto simp: close_with_def ss_close_def Let_def)
  then show ?thesis
    using o by (auto simp: E_CSTORAGE_OK_def hash_errors_0)
qed

theorem open_checks_keys_witness:
  "\<exists>d s' d'. rec_at 13 0 (d LogF) = Some (header LogF 9) \<and> ss_open 0 ''demo'' 1 0 ss_new d = Some (E_CSTORAGE_FAIL_HK_LOG, s', d')"
proof -
  obtain s d where b: "brand_new 7 s d" "\<forall>k. flimit (d k) = 1000000"
    using demo_0 by blast
  define d1 where "d1 = d(LogF := put_rec 13 0 (header LogF 9) (d LogF))"
  have st: "well_state (state s)"
    using b(1) by (simp add: brand_new_def healthy_def writer_def)
  have k: "keyed 7 9 7 d1" and log: "rec_at 13 0 (d1 LogF) = Some (header LogF 9)"
    using b(1) length_header [of LogF]
    by (simp_all add: keyed_headers d1_def brand_new_def linked_def rec_at_put_same)
  have a: "accessible d1"
    using b(1) accessible_attrs [of d1 d] by (simp add: d1_def brand_new_def)
  have p: "rec_at 181 0 (d1 StateF) = Some (enc_state (state s))" "185 \<le> flimit (d1 StateF)"
    using b by (simp_all add: d1_def brand_new_def saved_def)
  have "st_hash_key (loaded d1 zero_state) = 7"
    using b(1) st p(1) by (simp add: dec_enc_state brand_new_def)
  moreover have "hash_errors 7 9 7 7 = E_CSTORAGE_FAIL_HK_LOG"
    by (simp add: hash_errors_def E_CSTORAGE_FAIL_HK_LOG_def)
  ultimately show ?thesis
    using open_checks_keys [OF a plain_open_1(1) p(2), of 7 9 7 7 0 "''demo''" 0] k log unfolding keyed_def by metis
qed

subsection \<open>The states a client can reach\<close>

inductive reachable :: "storage \<times> disk \<Rightarrow> bool" where
  created: "\<lbrakk> blank_disk d; has_flag flags F_CSTORAGE_WR; has_flag flags F_CSTORAGE_CREATE;
      ss_open rnd fname flags key ss_new d = Some (r, s', d') \<rbrakk> \<Longrightarrow> reachable (s', d')"
| served: "\<lbrakk> reachable st; allowed q st; perform q st = Some (r, st') \<rbrakk> \<Longrightarrow> reachable st'"
| did_read: "\<lbrakk> reachable (s, d); 0 < i; is_i32 i; m < 2 ^ 24;
      ss_read i buf (word_of_nat m) flags s d = Some (r, buf', s') \<rbrakk> \<Longrightarrow> reachable (s', d)"
| reopened: "\<lbrakk> reachable (s, d); dirtySerials s = []; 185 \<le> flimit (d StateF); plain_open flags;
      has_flag (flags OR F_CSFILE_EXCEPTIONS) F_CSTORAGE_WR; ss_close s d = Some (r, s1, d1);
      ss_open rnd fname flags key ss_new d1 = Some (r', s', d') \<rbrakk> \<Longrightarrow> reachable (s', d')"

inductive_cases reachableE: "reachable st"

lemma reopen_good:
  assumes g: "good (s, d)" and none: "dirtySerials s = []" and room: "185 \<le> flimit (d StateF)"
    and fl: "plain_open flags" "has_flag (flags OR F_CSFILE_EXCEPTIONS) F_CSTORAGE_WR"
    and c: "ss_close s d = Some (r, s1, d1)" and o: "ss_open rnd fname flags key ss_new d1 = Some (r', s', d')"
  shows "good (s', d')" "state s' = state s" "\<forall>k. k \<noteq> StateF \<longrightarrow> d' k = d k"
    "flimit (d' StateF) = flimit (d StateF)" "dirtySerials s' = []"
proof -
  have d1: "d1 = d(StateF := put_rec 181 0 (enc_state (state s)) (d StateF))"
    using close_ok [of s d] g room c by (auto simp: healthy_def)
  have s2: "healthy s' d1" "dirtySerials s' = []" "state s' = state s" "d' = d1"
    using close_then_open [OF g room fl, of rnd fname key] c o by auto
  show "state s' = state s" "\<forall>k. k \<noteq> StateF \<longrightarrow> d' k = d k" "dirtySerials s' = []"
    "flimit (d' StateF) = flimit (d StateF)"
    using s2 by (simp_all add: d1)
  have "tidy s' d1"
    using g s2 none by (simp add: tidy_def d1)
  moreover have "accessible d1"
    using g accessible_attrs [of d1 d] by (simp add: d1)
  ultimately show "good (s', d')"
    using g s2 by (simp add: linked_def d1)
qed

lemma good_of_reachable:
  assumes "reachable st"
  shows "good st"
  using assms
proof (induction rule: reachable.induct)
  case (created d flags rnd fname key r s' d')
  then show ?case
    using create_ok [OF created(1-3) refl, of rnd fname key] brand_new_good by auto
next
  case (served st q r st')
  then show ?case
    using perform_ok [of st q] by auto
next
  case (did_read s d i m buf flags r buf' s')
  then have h: "healthy s d" "good (s, d)"
    by simp_all
  have o: "only_read s s' d"
  proof (cases "view True s d i")
    case None
    then show ?thesis
      using read_missing [OF h(1) did_read(2,3), of buf "word_of_nat m" flags] did_read(5) by auto
  next
    case (Some y)
    then show ?thesis
      using read_ok [OF h(1) did_read(2,3) Some did_read(4), of buf flags] did_read(5) by auto
  qed
  then obtain c l where "moved (s\<lparr>cursor := c, ss_last_offset := l\<rparr>) s' d"
    by (auto simp: only_read_def)
  from moved_fields(1) [OF this] have "st_hash_key (state s') = st_hash_key (state s)"
    by simp
  then show ?case
    using only_read_healthy [OF h(1) o] h(2) by simp
next
  case (reopened s d flags r s1 d1 rnd fname key r' s' d')
  then show ?case
    using reopen_good(1) by blast
qed

text \<open>Property (C5): every state that a client reaches from a new storage by writes, commits,
  rollbacks and reads, and by closing it between transactions and opening it again with a new
  object, is in good order: all handles are coherent with their files, every index
  record points to data records of its own serial and sequence, the transaction in progress is
  represented as it must be, and the four headers carry the storage's key.\<close>

theorem reachable_good:
  assumes "reachable st"
  shows "good st"
  using assms by (rule good_of_reachable)

theorem reachable_good_witness: "\<exists>st. reachable st \<and> good st"
proof -
  obtain s d where c: "ss_open 7 ''demo'' 3 0 ss_new demo_disk = Some (E_CSTORAGE_OK, s, d)"
    using demo_created by blast
  have "blank_disk demo_disk" "has_flag 3 F_CSTORAGE_WR" "has_flag 3 F_CSTORAGE_CREATE"
    by (simp_all add: blank_disk_def demo_disk_def has_flag_def F_CSTORAGE_WR_def F_CSTORAGE_CREATE_def)
  then have "reachable (s, d)"
    using c by (rule created)
  then show ?thesis
    using reachable_good by blast
qed

subsection \<open>The log and replication\<close>

lemma readLogReg_ok:
  assumes l: "live s d" and i: "0 \<le> q" "is_i32 q" and r: "rec_at 13 q (d LogF) = Some (enc_log e)" "well_log e"
  shows "\<exists>s'. ss_readLogReg q a b s d = Some (0, l_serial e, l_type e, s') \<and> moved s s' d"
  using io_readIndex_ok [OF l i, of "enc_log zero_log" LogF] got_found [of LogF q d "enc_log e"] r
  by (auto simp: ss_readLogReg_def dec_enc_log)

lemma readLog_ok:
  assumes h: "healthy s d" and i: "0 \<le> q" "is_i32 q"
    and r: "rec_at 13 q (d LogF) = Some (enc_log e)" "well_log e" "0 \<le> l_offset e"
    and p: "data_rec (l_offset e) (d DataF) = Some (enc_data g @ y)" "length y < 2 ^ 24"
    and buf: "17 \<le> n" "n < 2 ^ 24" "n \<le> length buf"
  shows "\<exists>s'. ss_readLog q buf (word_of_nat n) s d =
    Some (17 + int (length y), enc_data g @ overlay (take (n - 17) y) (drop 17 buf), s') \<and> moved s s' d"
proof -
  have l: "live s d" "rdwr s" "fsize (d DataF) < C_CSFILE_ENDFILE"
    using h by (simp_all add: healthy_def writer_def)
  obtain s1 where a: "io_readIndex LogF q (enc_log zero_log) s d = Some (13, enc_log e, s1)" and m1: "moved s s1 d"
    using io_readIndex_ok [OF l(1) i, of "enc_log zero_log" LogF] got_found [of LogF q d "enc_log e"] r by auto
  have "is_i32 (int (length (enc_data g @ y)) + 136)"
    using p(2) by (simp add: is_i32_def)
  moreover have "n - 17 < 2 ^ 24"
    using buf by simp
  ultimately obtain s2 where b: "io_read_data (l_offset e) (take 17 buf) (drop 17 buf) (word_of_nat (n - 17)) s1 d =
      Some (17 + int (length y), enc_data g, overlay (take (n - 17) y) (drop 17 buf), s2)" and m2: "moved s1 s2 d"
    using io_read_data_ok [OF moved_live [OF m1] p(1) l(3), of "take 17 buf" "n - 17" "drop 17 buf"] buf by auto
  have "(word_of_nat n :: u32) - 17 = word_of_nat (n - 17)"
    using buf by (simp add: of_nat_diff)
  moreover have "\<not> (word_of_nat n :: u32) < 17"
    using buf by (simp add: word_less_nat_alt unat_of_nat)
  ultimately show ?thesis
    using a b r l moved_trans [OF m1 m2] by (simp add: ss_readLog_def dec_enc_log)
qed

text \<open>The log leads to what was written. After a write, the entry of its sequence
  names its serial and type, and \<open>readLog\<close> returns the data record: its header followed by the
  bytes written.\<close>

lemma log_returns_write:
  assumes h: "healthy s d" and c: "can_write s d i (length y)"
    and buf: "17 + length y \<le> n" "n < 2 ^ 24" "length buf = n"
  shows "\<exists>s' d' s1 s2. ss_write i (Some y) (word_of_nat (length y)) s d = Some (int (length y), s', d')
    \<and> ss_readLogReg (last_seq s + 1) a b s' d' = Some (0, i, ucast T_CSTORAGE_WRITE, s1)
    \<and> ss_readLog (last_seq s + 1) buf (word_of_nat n) s' d'
        = Some (17 + int (length y), enc_data (write_reg s i (word_of_nat (length y))) @ y @ drop (17 + length y) buf, s2)"
proof -
  let ?r = "write_reg s i (word_of_nat (length y))"
  let ?e = "\<lparr>l_offset = fsize (d DataF), l_serial = i, l_type = ucast T_CSTORAGE_WRITE\<rparr>"
  obtain s' d' where o: "ss_write i (Some y) (word_of_nat (length y)) s d = Some (int (length y), s', d')"
    and w: "wrote ?r y s d s' d'"
    using write_ok [OF h c] by blast
  note F = can_write_facts [OF h c]
  have h': "healthy s' d'"
    using write_healthy(1) [OF h c w] .
  have s0: "0 \<le> last_seq s" "whole 13 (d LogF)" "0 \<le> fsize (d DataF)" "fsize (d DataF) < C_CSFILE_ENDFILE"
    using h by (simp_all add: healthy_def)
  have q: "0 \<le> last_seq s + 1" "is_i32 (last_seq s + 1)"
    using s0 F(1) by (simp_all add: well_data_def)
  have e: "rec_at 13 (last_seq s + 1) (d' LogF) = Some (enc_log ?e)" "well_log ?e" "0 \<le> l_offset ?e"
    using w s0 F(1) by (simp_all add: wrote_def well_log_def well_data_def is_i64_def C_CSFILE_ENDFILE_def)
  have p: "data_rec (l_offset ?e) (d' DataF) = Some (enc_data ?r @ y)"
    using w by (simp add: wrote_def)
  have l': "live s' d'"
    using h' by (simp add: healthy_def writer_def)
  obtain s1 where "ss_readLogReg (last_seq s + 1) a b s' d' = Some (0, i, ucast T_CSTORAGE_WRITE, s1)"
    using readLogReg_ok [OF l' q e(1,2), of a b] by auto
  moreover obtain s2 where "ss_readLog (last_seq s + 1) buf (word_of_nat n) s' d' =
      Some (17 + int (length y), enc_data ?r @ overlay (take (n - 17) y) (drop 17 buf), s2)"
    using readLog_ok [OF h' q e p F(3) _ buf(2), of buf] buf by auto
  moreover have "overlay (take (n - 17) y) (drop 17 buf) = y @ drop (17 + length y) buf"
    using buf by (simp add: overlay_def add.commute)
  ultimately show ?thesis
    using o by (intro exI [of _ s'] exI [of _ d'] exI [of _ s1] exI [of _ s2]) simp
qed

lemma log_returns_write_witness:
  "\<exists>s d s' d' s1. ss_write 9 (Some [4, 2]) (word_of_nat (length [4, 2 :: byte])) s d = Some (2, s', d')
     \<and> ss_readLogReg 1 0 0 s' d' = Some (0, 9, 2, s1)"
proof -
  obtain s d where b: "good (s, d)" "\<forall>k. flimit (d k) = 1000000" "fsize (d DataF) \<le> 100" "last_seq s = 0"
    using demo_0 by blast
  have c: "can_write s d 9 (length [4, 2 :: byte])"
    using b by (intro demo_can_write) simp_all
  have h: "healthy s d"
    using b(1) by simp
  from log_returns_write [OF h c, of 30 "replicate 30 0" 0 0] obtain s' d' s1 where
    "ss_write 9 (Some [4, 2]) (word_of_nat (length [4, 2 :: byte])) s d = Some (2, s', d')"
    "ss_readLogReg 1 0 0 s' d' = Some (0, 9, 2, s1)"
    using b(4) by (auto simp: T_CSTORAGE_WRITE_def)
  then show ?thesis
    by blast
qed

end
