(* ===== verification/Storage_Props4.thy ===== *)
theory Storage_Props4
  imports Storage_Props3
begin

text \<open>Replication through the log, and the operations that do not do what they are for.\<close>

lemma applyLog_ok:
  assumes h: "healthy s d" and r: "well_data r" "record_type r = T_CSTORAGE_WRITE" "0 < r_serial r"
    and seq: "last_seq s < r_sequence r" "seq_room d (r_sequence r + 1)"
    and room: "disk_room d (length y + 50)" "nat (r_serial r) * 30 + 30 \<le> flimit (d IndexF)"
    and y: "length y < 2 ^ 24 - 17"
  shows "\<exists>s' d'. ss_applyLog (enc_data r @ y) (word_of_nat (17 + length y)) s d = Some (int (length y), s', d')
    \<and> healthy s' d' \<and> view True s' d' = (view True s d)(r_serial r := Some y)"
proof -
  have n: "\<not> (word_of_nat (17 + length y) :: u32) < 17"
    using y by (simp add: word_less_nat_alt unat_of_nat del: of_nat_add)
  have n2: "(word_of_nat (17 + length y) :: u32) - 17 = word_of_nat (length y)"
    by simp
  have al: "arg_len (word_of_nat (length y)) = length y" "sint (word_of_nat (length y) :: u32) = int (length y)"
    using y by (simp_all add: arg_small sint_small)
  have w: "writer s d" "0 \<le> r_sequence r"
    using h seq by (simp_all add: healthy_def)
  obtain s' d' where o: "writeFiles r (Some y) (word_of_nat (length y)) s d = Some (int (length y), s', d')"
    and wr: "wrote r y s d s' d'"
    using writeFiles_write [of s d "word_of_nat (length y)" y r] w r room seq(2) al by auto
  have sz: "fsize (d DataF) + int (length y) + 50 < C_CSFILE_ENDFILE"
    using room(1) by (simp add: disk_room_def)
  have y': "length y < 2 ^ 24"
    using y by simp
  have "healthy s' d'"
    using wrote_healthy(1) [OF h wr r(1,3) seq(1) y' sz] .
  moreover have "view True s' d' = (view True s d)(r_serial r := Some y)"
    using wrote_view [OF h wr r(1,3) seq(1) y' sz] by simp
  moreover have "ss_applyLog (enc_data r @ y) (word_of_nat (17 + length y)) s d = Some (int (length y), s', d')"
    using o n n2 dec_enc_data [OF r(1)] by (simp only: ss_applyLog_def) simp
  ultimately show ?thesis
    by blast
qed

text \<open>A write is replicated by its log entry. What \<open>readLog\<close> returns for a write on
  one storage, passed to \<open>applyLog\<close> on another that is not ahead, gives that storage the same
  content for the serial, and nothing else changes.\<close>

lemma replication_copies_write:
  assumes h: "healthy s d" and c: "can_write s d i (length y)" and y: "length y < 2 ^ 24 - 17"
    and h2: "healthy s2 d2" and c2: "can_write s2 d2 i (length y)"
    and seq: "last_seq s2 \<le> last_seq s" "seq_room d2 (last_seq s + 2)"
  shows "\<exists>s' d' buf s1 s3 d3. ss_write i (Some y) (word_of_nat (length y)) s d = Some (int (length y), s', d')
    \<and> ss_readLog (last_seq s + 1) (replicate (17 + length y) 0) (word_of_nat (17 + length y)) s' d'
        = Some (17 + int (length y), buf, s1)
    \<and> ss_applyLog buf (word_of_nat (17 + length y)) s2 d2 = Some (int (length y), s3, d3)
    \<and> healthy s3 d3 \<and> view True s3 d3 = (view True s2 d2)(i := Some y)"
proof -
  let ?r = "write_reg s i (word_of_nat (length y))"
  let ?e = "\<lparr>l_offset = fsize (d DataF), l_serial = i, l_type = ucast T_CSTORAGE_WRITE\<rparr>"
  let ?n = "17 + length y"
  obtain s' d' where o: "ss_write i (Some y) (word_of_nat (length y)) s d = Some (int (length y), s', d')"
    and w: "wrote ?r y s d s' d'"
    using write_ok [OF h c] by blast
  note F = can_write_facts [OF h c]
  have h': "healthy s' d'"
    using write_healthy(1) [OF h c w] .
  have s0: "0 \<le> last_seq s" "whole 13 (d LogF)" "0 \<le> fsize (d DataF)" "fsize (d DataF) < C_CSFILE_ENDFILE"
    using h by (simp_all add: healthy_def)
  have q: "0 \<le> last_seq s + 1" "is_i32 (last_seq s + 1)"
    using s0 F(1) by (simp_all add: well_data_def)
  have e: "rec_at 13 (last_seq s + 1) (d' LogF) = Some (enc_log ?e)" "well_log ?e" "0 \<le> l_offset ?e"
    using w s0 F(1) by (simp_all add: wrote_def well_log_def well_data_def is_i64_def C_CSFILE_ENDFILE_def)
  have p: "data_rec (l_offset ?e) (d' DataF) = Some (enc_data ?r @ y)"
    using w by (simp add: wrote_def)
  obtain s1 where rl: "ss_readLog (last_seq s + 1) (replicate ?n 0) (word_of_nat ?n) s' d' =
      Some (17 + int (length y), enc_data ?r @ overlay (take (?n - 17) y) (drop 17 (replicate ?n 0)), s1)"
    using readLog_ok [OF h' q e p F(3), of ?n "replicate ?n 0"] y by auto
  have buf: "overlay (take (?n - 17) y) (drop 17 (replicate ?n 0)) = y"
    by simp
  have "\<exists>s3 d3. ss_applyLog (enc_data ?r @ y) (word_of_nat ?n) s2 d2 = Some (int (length y), s3, d3)
    \<and> healthy s3 d3 \<and> view True s3 d3 = (view True s2 d2)(r_serial ?r := Some y)"
    using h2 F seq c2 y
    by (intro applyLog_ok) (simp_all add: can_write_def room_def add.commute)
  then obtain s3 d3 where "ss_applyLog (enc_data ?r @ y) (word_of_nat ?n) s2 d2 = Some (int (length y), s3, d3)"
    "healthy s3 d3" "view True s3 d3 = (view True s2 d2)(i := Some y)"
    by auto
  then show ?thesis
    using o rl unfolding buf by blast
qed

lemma replication_copies_write_witness:
  "\<exists>s d s' d' buf s1 s3 d3. ss_write 9 (Some [4, 2]) (word_of_nat (length [4, 2 :: byte])) s d = Some (2, s', d')
    \<and> ss_readLog 1 (replicate 19 0) (word_of_nat 19) s' d' = Some (19, buf, s1)
    \<and> ss_applyLog buf (word_of_nat 19) s d = Some (2, s3, d3) \<and> view True s3 d3 9 = Some [4, 2]"
proof -
  obtain s d where b: "good (s, d)" "\<forall>k. flimit (d k) = 1000000" "fsize (d DataF) \<le> 100" "last_seq s = 0"
    using demo_0 by blast
  have c: "can_write s d 9 (length [4, 2 :: byte])"
    using b by (intro demo_can_write) simp_all
  have h: "healthy s d" "length [4, 2 :: byte] < 2 ^ 24 - 17" "seq_room d (last_seq s + 2)"
    using b by (simp_all add: seq_room_def)
  obtain s' d' buf s1 s3 d3 where
    "ss_write 9 (Some [4, 2]) (word_of_nat (length [4, 2 :: byte])) s d = Some (int (length [4, 2 :: byte]), s', d')"
    "ss_readLog (last_seq s + 1) (replicate (17 + length [4, 2 :: byte]) 0) (word_of_nat (17 + length [4, 2 :: byte])) s' d'
        = Some (17 + int (length [4, 2 :: byte]), buf, s1)"
    "ss_applyLog buf (word_of_nat (17 + length [4, 2 :: byte])) s d = Some (int (length [4, 2 :: byte]), s3, d3)"
    "view True s3 d3 = (view True s d)(9 := Some [4, 2])"
    using replication_copies_write [OF h(1) c h(2) h(1) c order_refl h(3)] by blast
  then show ?thesis
    using b(4) by (intro exI [of _ s] exI [of _ d] exI [of _ s'] exI [of _ d'] exI [of _ buf] exI [of _ s1]
        exI [of _ s3] exI [of _ d3]) simp
qed

text \<open>\<open>applyLog\<close> refuses less than a record header, and changes nothing then.\<close>

lemma applyLog_needs_header:
  assumes "dlen < 17"
  shows "ss_applyLog data dlen s d = Some (E_CSTORAGE_NOT_ENOUGH_DATA, s, d)"
  using assms by (simp add: ss_applyLog_def)

subsection \<open>Operations that fail to do their work\<close>

text \<open>Property (C39): \<open>verify\<close> reports an error on every storage in good order. It takes the length
  that a successful read of the header returns for an error, so what it is to check is never
  looked at.\<close>

theorem verify_rejects_good_storage:
  assumes "good (s, d)"
  shows "\<exists>s'. ss_verify s d = Some (E_CSTORAGE_DATA_READ, s')"
proof -
  have l: "live s d" and k: "rec_at 17 0 (d DataF) \<noteq> None"
    using assms by (simp_all add: healthy_def writer_def linked_def)
  have "length (enc_data zero_data) = rec_size DataF"
    by simp
  from io_read_0 [OF l this] k obtain r b s' where "io_read DataF 0 (enc_data zero_data) s d = Some (r, b, s')" "0 < r"
    by auto
  then show ?thesis
    by (simp add: ss_verify_def)
qed

theorem verify_rejects_good_storage_witness:
  "\<exists>s d s'. good (s, d) \<and> ss_verify s d = Some (E_CSTORAGE_DATA_READ, s')"
proof -
  obtain s d where "good (s, d)"
    using demo_0 by blast
  then show ?thesis
    using verify_rejects_good_storage by blast
qed

lemma check_flag: "has_flag ((flags OR F_CSFILE_CHECK_FLAGS) OR m) F_CSFILE_CHECK_FLAGS"
  "has_flag (flags OR F_CSFILE_CHECK_FLAGS) F_CSFILE_CHECK_FLAGS"
  by (intro has_flag_or disjI1 disjI2; simp add: has_flag_def F_CSFILE_CHECK_FLAGS_def)+

lemma bf_setFlags_check: "snd (bf_setFlags (flags OR F_CSFILE_CHECK_FLAGS) f os) = f"
  by (simp add: bf_setFlags_def Let_def check_flag)

lemma set_file_id [simp]: "set_file k (files s k) s = s"
  by (simp add: set_file_def)

lemma setFlags_pass_check: "snd (snd (setFlags_pass True flags ks s d)) = s
    \<and> (fst (setFlags_pass True flags ks s d) = None \<longrightarrow> fst (snd (setFlags_pass True flags ks s d)) = [])"
proof (induction ks)
  case Nil
  then show ?case by simp
next
  case (Cons k ks)
  obtain r f where b: "bf_setFlags (flags OR F_CSFILE_CHECK_FLAGS) (files s k) (d k) = (r, f)"
    by fastforce
  then have "f = files s k"
    using bf_setFlags_check [of flags "files s k" "d k"] by simp
  with b Cons show ?case
    by simp
qed

text \<open>\<open>setFlags\<close> never changes a file's mode. Its second pass, which is to change
  what the first one checked, starts where the first one ended, at the end of the list.\<close>

lemma setFlags_changes_nothing: "snd (ss_setFlags flags s d) = s"
  using setFlags_pass_check [of flags all_ids s d]
  by (auto simp: ss_setFlags_def split: prod.split option.split)

end
