(* ===== verification/Ini_File.thy ===== *)
theory Ini_File
  imports Prelude
begin

text \<open>
  src/src/base/ini_file.cpp: \<open>CIniFile\<close>, configuration files. A C string is the list of its
  characters before the NUL. The parser works in place, by writing NULs into the line it is at;
  here each line is cut out of the rest of the text instead. What it reads in front of the first
  line is the byte \<open>before\<close> the buffer, here an argument; a write to that byte is \<open>OutOfBounds\<close>.
  A call of \<open>exit\<close> is \<open>Exit\<close>. The same code with its pointers and every access to the buffer is
  in \<open>Ini_Memory\<close>, where already the read is out of bounds, as is the \<open>memset\<close> of \<open>loadFile\<close> on a
  block of fewer than four bytes.
\<close>

definition MAX_INI_FILE_SIZE :: nat where "MAX_INI_FILE_SIZE = 512 * 1024"

definition NL :: char where "NL = CHR 0x0A"
definition CR :: char where "CR = CHR 0x0D"
definition NUL :: char where "NUL = CHR 0x00"
definition QUOTE :: char where "QUOTE = CHR 0x22"

definition blank :: "char \<Rightarrow> bool" where
  "blank c \<longleftrightarrow> c = CHR '' '' \<or> c = CHR 0x09"

definition c_string :: "string \<Rightarrow> string" where
  "c_string bs = takeWhile (\<lambda>c. c \<noteq> NUL) bs"

subsection \<open>The object\<close>

type_synonym params = "string \<Rightarrow> string option"

record ini_file =
  ini_current :: string
  ini_groups :: "string \<Rightarrow> params option"
  ini_default :: params
  ini_names :: "string list"

definition ini_new :: ini_file where
  "ini_new = \<lparr>ini_current = [], ini_groups = Map.empty, ini_default = Map.empty, ini_names = []\<rparr>"

text \<open>\<open>loadFile\<close>: \<open>None\<close> is a file that cannot be opened; \<open>read_ok\<close> is whether \<open>read\<close> succeeds, and
  then it returns the whole file. Without bytes read the block starts with the zeros of \<open>memset\<close>.\<close>

definition loadFile :: "string option \<Rightarrow> bool \<Rightarrow> int \<times> string option" where
  "loadFile file read_ok =
     (case file of
        None \<Rightarrow> (- 1, None)
      | Some bs \<Rightarrow>
          (if length bs > MAX_INI_FILE_SIZE then (- 1, None)
           else if \<not> read_ok then (- 1, Some [])
           else (0, Some (c_string bs))))"

definition addKeyValue :: "string \<Rightarrow> string \<Rightarrow> string \<Rightarrow> ini_file \<Rightarrow> ini_file" where
  "addKeyValue grp key value ini =
     (if grp = [] then ini\<lparr>ini_default := (ini_default ini)(key \<mapsto> value)\<rparr>
      else
        let ini = (if ini_groups ini grp = None
                   then ini\<lparr>ini_groups := (ini_groups ini)(grp \<mapsto> Map.empty),
                            ini_names := ini_names ini @ [grp]\<rparr>
                   else ini);
            vals = the (ini_groups ini grp)
        in ini\<lparr>ini_groups := (ini_groups ini)(grp \<mapsto> vals(key \<mapsto> value))\<rparr>)"

subsection \<open>The parser\<close>

datatype ini_stop = Exit int | OutOfBounds

definition trim_right :: "string \<Rightarrow> string" where
  "trim_right s = rev (dropWhile blank (rev s))"

definition trim_left :: "string \<Rightarrow> string" where
  "trim_left s = dropWhile blank s"

text \<open>The line at the front of the text, and the text after it (\<open>None\<close>: there is no more line end).\<close>

definition next_line :: "char \<Rightarrow> string \<Rightarrow> ini_stop + string \<times> string option" where
  "next_line before s =
     (if NL \<in> set s
      then
        let l = takeWhile (\<lambda>c. c \<noteq> NL) s; rest = drop (length l) s
        in if (if l = [] then before else last l) = CR
           then (if l = [] then Inl OutOfBounds else Inr (butlast l, Some rest))
           else Inr (l, Some (tl rest))
      else Inr (s, None))"

text \<open>One line: a comment or blank line, a group (which the rest of the text is in), or a value.\<close>

definition parse_value :: "string \<Rightarrow> string" where
  "parse_value s =
     (let cvalue = trim_left s
      in if cvalue \<noteq> [] \<and> hd cvalue = QUOTE
         then takeWhile (\<lambda>c. c \<noteq> QUOTE) (tl cvalue) else cvalue)"

definition parse_line :: "string \<Rightarrow> string \<Rightarrow> ini_file \<Rightarrow> ini_stop + string \<times> ini_file" where
  "parse_line line cgroup ini =
     (let line = trim_right line
      in if line = [] \<or> hd line \<in> set '';/#'' then Inr (cgroup, ini)
         else
           let line = trim_left line
           in if line = [] then Inr (cgroup, ini)
              else if hd line = CHR ''[''
              then (if CHR '']'' \<notin> set line then Inl (Exit (- 2))
                    else Inr (takeWhile (\<lambda>c. c \<noteq> CHR '']'') (tl line), ini))
              else if CHR ''='' \<notin> set line then Inl (Exit (- 3))
              else
                let key = trim_right (takeWhile (\<lambda>c. c \<noteq> CHR ''='') line);
                    after = tl (dropWhile (\<lambda>c. c \<noteq> CHR ''='') line)
                in Inr (cgroup, addKeyValue cgroup key (parse_value after) ini))"

lemma next_line_shorter:
  assumes "next_line before s = Inr (l, Some rest)"
  shows "length rest < length s"
proof -
  let ?l = "takeWhile (\<lambda>c. c \<noteq> NL) s"
  have nl: "NL \<in> set s"
    using assms by (auto simp: next_line_def split: if_splits)
  have "length ?l \<le> length s"
    by (rule length_takeWhile_le)
  moreover have "s \<noteq> []"
    using nl by auto
  ultimately show ?thesis
    using assms nl by (auto simp: next_line_def Let_def split: if_splits)
qed

text \<open>The byte in front of a line that is not the first is the NUL that ended the line before.\<close>

function parse_from :: "char \<Rightarrow> string \<Rightarrow> string \<Rightarrow> ini_file \<Rightarrow> ini_stop + ini_file" where
  "parse_from before s cgroup ini =
     (if s = [] then Inr ini
      else (case next_line before s of
              Inl e \<Rightarrow> Inl e
            | Inr (line, rest) \<Rightarrow>
                (case parse_line line cgroup ini of
                   Inl e \<Rightarrow> Inl e
                 | Inr (cgroup, ini) \<Rightarrow>
                     (case rest of None \<Rightarrow> Inr ini | Some s' \<Rightarrow> parse_from NUL s' cgroup ini))))"
  by pat_completeness auto
termination
  by (relation "measure (\<lambda>(b, s, g, i). length s)") (auto dest: next_line_shorter)

declare parse_from.simps [simp del]

definition parse :: "char \<Rightarrow> string option \<Rightarrow> ini_file \<Rightarrow> ini_stop + ini_file" where
  "parse before content ini =
     (case content of None \<Rightarrow> Inr ini | Some s \<Rightarrow> parse_from before s [] ini)"

definition ini_open :: "char \<Rightarrow> string option \<Rightarrow> bool \<Rightarrow> ini_stop + ini_file" where
  \<comment> \<open>the constructor\<close>
  "ini_open before file read_ok = parse before (snd (loadFile file read_ok)) ini_new"

subsection \<open>Parameters\<close>

definition internalGetParam :: "string \<Rightarrow> string \<Rightarrow> ini_file \<Rightarrow> string option" where
  \<comment> \<open>\<open>None\<close>: the reference returned is \<open>defaultValue\<close> itself\<close>
  "internalGetParam grp key ini =
     (case (case ini_groups ini grp of Some vals \<Rightarrow> vals key | None \<Rightarrow> None) of
        Some v \<Rightarrow> Some v
      | None \<Rightarrow> ini_default ini key)"

definition setGroup :: "string \<Rightarrow> ini_file \<Rightarrow> ini_file" where
  "setGroup grp ini = ini\<lparr>ini_current := grp\<rparr>"

definition getStrParam :: "string \<Rightarrow> string \<Rightarrow> ini_file \<Rightarrow> string" where
  "getStrParam key defaultValue ini =
     (case internalGetParam (ini_current ini) key ini of Some v \<Rightarrow> v | None \<Rightarrow> defaultValue)"

text \<open>\<open>strtol\<close> and \<open>strtoul\<close> with base 0, for a \<open>long\<close> of 32 bits.\<close>

definition c_space :: "char \<Rightarrow> bool" where
  "c_space c \<longleftrightarrow> c \<in> {CHR '' '', CHR 0x09, CHR 0x0A, CHR 0x0B, CHR 0x0C, CHR 0x0D}"

definition digit_val :: "char \<Rightarrow> nat" where
  \<comment> \<open>36 for a character that is no digit of any base\<close>
  "digit_val c =
     (let n = (of_char c :: nat)
      in if 48 \<le> n \<and> n \<le> 57 then n - 48
         else if 97 \<le> n \<and> n \<le> 122 then n - 87
         else if 65 \<le> n \<and> n \<le> 90 then n - 55 else 36)"

definition digits_value :: "nat \<Rightarrow> string \<Rightarrow> nat" where
  "digits_value base s =
     foldl (\<lambda>n c. n * base + digit_val c) 0 (takeWhile (\<lambda>c. digit_val c < base) s)"

definition magnitude :: "string \<Rightarrow> nat" where
  "magnitude s =
     (if length s \<ge> 3 \<and> s ! 0 = CHR ''0'' \<and> s ! 1 \<in> set ''xX'' \<and> digit_val (s ! 2) < 16
      then digits_value 16 (drop 2 s)
      else if s \<noteq> [] \<and> hd s = CHR ''0'' then digits_value 8 s
      else digits_value 10 s)"

definition sign_of :: "string \<Rightarrow> bool \<times> string" where
  "sign_of s =
     (case s of c # t \<Rightarrow> (if c = CHR ''-'' then (True, t) else if c = CHR ''+'' then (False, t) else (False, s))
      | [] \<Rightarrow> (False, s))"

definition strtol :: "string \<Rightarrow> int" where
  "strtol s =
     (let (neg, t) = sign_of (dropWhile c_space s);
          v = (if neg then - int (magnitude t) else int (magnitude t))
      in max (- (2 ^ 31)) (min (2 ^ 31 - 1) v))"

definition strtoul :: "string \<Rightarrow> u32" where
  "strtoul s =
     (let (neg, t) = sign_of (dropWhile c_space s); n = magnitude t
      in if n \<ge> 2 ^ 32 then - 1 else if neg then - word_of_nat n else word_of_nat n)"

definition getUIntParam :: "string \<Rightarrow> u32 \<Rightarrow> ini_file \<Rightarrow> u32" where
  "getUIntParam key defaultValue ini =
     (case internalGetParam (ini_current ini) key ini of Some v \<Rightarrow> strtoul v | None \<Rightarrow> defaultValue)"

definition getIntParam :: "string \<Rightarrow> int \<Rightarrow> ini_file \<Rightarrow> int" where
  "getIntParam key defaultValue ini =
     (case internalGetParam (ini_current ini) key ini of Some v \<Rightarrow> strtol v | None \<Rightarrow> defaultValue)"

subsection \<open>Wildcards\<close>

text \<open>The pattern is compared with the string up to the end of the string; the end of the pattern
  is the character NUL, which no character of the string equals.\<close>

function wildcardMatch :: "string \<Rightarrow> string \<Rightarrow> bool" where
  "wildcardMatch p [] = list_all (\<lambda>c. c = CHR ''*'') p"
| "wildcardMatch [] (c # s) = False"
| "wildcardMatch (q # p) (c # s) =
     (if q = CHR ''?'' then (if c = CHR ''.'' then False else wildcardMatch p s)
      else if q = CHR ''*'' then p = [] \<or> wildcardMatch p (c # s) \<or> wildcardMatch (q # p) s
      else if c \<noteq> q then False else wildcardMatch p s)"
  by pat_completeness auto
termination
  by (relation "measure (\<lambda>(p, s). length p + length s)") auto

definition getWildcardMatchGroup :: "string \<Rightarrow> string \<Rightarrow> ini_file \<Rightarrow> string \<times> ini_file" where
  "getWildcardMatchGroup name defaultGroup ini =
     (case find (\<lambda>g. wildcardMatch g name) (ini_names ini) of
        Some g \<Rightarrow> (g, ini\<lparr>ini_current := g\<rparr>)
      | None \<Rightarrow> (defaultGroup, ini\<lparr>ini_current := defaultGroup\<rparr>))"

end
