(* ===== verification/Ini_Props.thy ===== *)
theory Ini_Props
  imports Ini_File
begin

text \<open>
  What \<open>CIniFile\<close> promises: a configuration written in the obvious way is read back, with either
  convention for line ends; the last assignment of a parameter counts, first in the group chosen,
  then outside all groups; numbers are read as written; group names match as shell patterns.
\<close>

subsection \<open>Documents\<close>

datatype item = Section string | Setting string string | Comment string | Empty

fun item_line :: "item \<Rightarrow> string" where
  "item_line (Section g) = ''['' @ g @ '']''"
| "item_line (Setting k v) = k @ '' = '' @ [QUOTE] @ v @ [QUOTE]"
| "item_line (Comment t) = '';'' @ t"
| "item_line Empty = []"

definition render :: "item list \<Rightarrow> string" where
  "render doc = concat (map (\<lambda>i. item_line i @ [NL]) doc)"

fun item_ok :: "item \<Rightarrow> bool" where
  "item_ok (Section g) \<longleftrightarrow> NL \<notin> set g \<and> CHR '']'' \<notin> set g"
| "item_ok (Setting k v) \<longleftrightarrow> k \<noteq> [] \<and> NL \<notin> set k \<and> CHR ''='' \<notin> set k \<and> hd k \<notin> set '';/#[''
     \<and> \<not> blank (hd k) \<and> \<not> blank (last k) \<and> NL \<notin> set v \<and> QUOTE \<notin> set v"
| "item_ok (Comment t) \<longleftrightarrow> NL \<notin> set t \<and> CR \<notin> set t"
| "item_ok Empty \<longleftrightarrow> True"

text \<open>The meaning of a document: the assignments in order, each with the group it stands in.\<close>

fun assignments :: "string \<Rightarrow> item list \<Rightarrow> (string \<times> string \<times> string) list" where
  "assignments g [] = []"
| "assignments g (Section h # doc) = assignments h doc"
| "assignments g (Setting k v # doc) = (g, k, v) # assignments g doc"
| "assignments g (Comment t # doc) = assignments g doc"
| "assignments g (Empty # doc) = assignments g doc"

definition assign_all :: "(string \<times> string \<times> string) list \<Rightarrow> ini_file \<Rightarrow> ini_file" where
  "assign_all xs ini = fold (\<lambda>(g, k, v). addKeyValue g k v) xs ini"

lemma assign_all_simps [simp]:
  "assign_all [] ini = ini"
  "assign_all ((g, k, v) # xs) ini = assign_all xs (addKeyValue g k v ini)"
  by (simp_all add: assign_all_def)

subsection \<open>Reading a document\<close>

lemma char_consts [simp]: "NL \<noteq> CR" "CR \<noteq> NL" "NUL \<noteq> CR" "NUL \<noteq> NL" "QUOTE \<noteq> CR" "QUOTE \<noteq> NL"
  "NL \<noteq> NUL" "\<not> blank QUOTE" "\<not> blank NL" "\<not> blank CR"
  "CHR '']'' \<noteq> CR" "CHR '']'' \<noteq> NL" "CHR ''='' \<noteq> NL" "CHR '' '' \<noteq> NL" "CHR '';'' \<noteq> NL" "CHR ''['' \<noteq> NL"
  "\<not> blank (CHR '']'')" "\<not> blank (CHR ''['')" "blank (CHR '' '')" "CHR '' '' \<noteq> QUOTE"
  by (simp_all add: NL_def CR_def NUL_def QUOTE_def blank_def)

lemma takeWhile_before: "c \<notin> set xs \<Longrightarrow> takeWhile (\<lambda>x. x \<noteq> c) (xs @ c # ys) = xs"
  by (induction xs) auto

lemma dropWhile_before: "c \<notin> set xs \<Longrightarrow> dropWhile (\<lambda>x. x \<noteq> c) (xs @ c # ys) = c # ys"
  by (induction xs) auto

lemma next_line_here:
  assumes "NL \<notin> set l" and "(if l = [] then before else last l) \<noteq> CR"
  shows "next_line before (l @ NL # rest) = Inr (l, Some rest)"
proof -
  show ?thesis
    using assms(2) by (simp add: next_line_def Let_def takeWhile_before [OF assms(1)])
qed

lemma parse_from_line:
  assumes "NL \<notin> set l" and "(if l = [] then before else last l) \<noteq> CR" and "parse_line l g ini = Inr (g', ini')"
  shows "parse_from before (l @ NL # rest) g ini = parse_from NUL rest g' ini'"
  using assms by (subst parse_from.simps) (simp add: next_line_here)

lemma parse_from_Nil [simp]: "parse_from before [] g ini = Inr ini"
  by (simp add: parse_from.simps)

lemma trim_right_id: "l = [] \<or> \<not> blank (last l) \<Longrightarrow> trim_right l = l"
  by (cases l rule: rev_cases) (auto simp: trim_right_def)

lemma trim_left_id: "l = [] \<or> \<not> blank (hd l) \<Longrightarrow> trim_left l = l"
  by (cases l) (auto simp: trim_left_def)

lemma trim_right_blank: "trim_right (l @ '' '') = trim_right l"
  by (simp add: trim_right_def)

lemma parse_setting:
  assumes "item_ok (Setting k v)"
  shows "parse_line (item_line (Setting k v)) g ini = Inr (g, addKeyValue g k v ini)"
proof -
  let ?l = "k @ '' = '' @ [QUOTE] @ v @ [QUOTE]"
  have l: "trim_right ?l = ?l" "trim_left ?l = ?l" "hd ?l = hd k" "?l \<noteq> []" "hd ?l \<noteq> CHR ''[''"
    "hd ?l \<notin> set '';/#''"
    using assms by (simp_all add: trim_right_id trim_left_id)
  have split: "?l = (k @ '' '') @ CHR ''='' # ('' '' @ [QUOTE] @ v @ [QUOTE])"
    by simp
  have noeq: "CHR ''='' \<notin> set (k @ '' '')"
    using assms by simp
  have k: "trim_right (takeWhile (\<lambda>c. c \<noteq> CHR ''='') ?l) = k"
    unfolding split takeWhile_before [OF noeq] trim_right_blank using assms by (simp add: trim_right_id)
  have "parse_value (tl (dropWhile (\<lambda>c. c \<noteq> CHR ''='') ?l)) = v"
    unfolding split dropWhile_before [OF noeq] using assms
    by (simp add: parse_value_def trim_left_def takeWhile_before)
  with k l show ?thesis
    by (simp add: parse_line_def Let_def)
qed

lemma parse_section:
  assumes "item_ok (Section h)"
  shows "parse_line (item_line (Section h)) g ini = Inr (h, ini)"
  using assms takeWhile_before [of "CHR '']''" h "[]"]
  by (simp add: parse_line_def Let_def trim_right_id trim_left_id)

lemma parse_comment:
  "parse_line (item_line (Comment t)) g ini = Inr (g, ini)"
proof -
  have "trim_right (CHR '';'' # t) = CHR '';'' # trim_right t"
    by (auto simp: trim_right_def dropWhile_append blank_def)
  then show ?thesis
    by (simp add: parse_line_def Let_def)
qed

lemma last_not: "c \<notin> set l \<Longrightarrow> l \<noteq> [] \<Longrightarrow> last l \<noteq> c"
  by (metis last_in_set)

lemma parse_empty: "parse_line [] g ini = Inr (g, ini)"
  by (simp add: parse_line_def trim_right_def)

lemma item_line_ends: "item_ok i \<Longrightarrow> NL \<notin> set (item_line i)"
  "item_ok i \<Longrightarrow> before \<noteq> CR \<Longrightarrow> (if item_line i = [] then before else last (item_line i)) \<noteq> CR"
proof -
  assume "item_ok i"
  then show "NL \<notin> set (item_line i)"
    by (cases i) (auto simp: eq_commute [of NL])
next
  assume "item_ok i" and "before \<noteq> CR"
  then show "(if item_line i = [] then before else last (item_line i)) \<noteq> CR"
  proof (cases i)
    case (Comment t)
    have "CHR '';'' \<noteq> CR"
      by (simp add: CR_def)
    moreover have "t \<noteq> [] \<Longrightarrow> last t \<noteq> CR"
      using \<open>item_ok i\<close> Comment last_not [of CR t] by simp
    ultimately show ?thesis
      using Comment by simp
  qed simp_all
qed

lemma parse_render:
  assumes "\<forall>i \<in> set doc. item_ok i" and "before \<noteq> CR"
  shows "parse_from before (render doc) g ini = Inr (assign_all (assignments g doc) ini)"
  using assms
proof (induction doc arbitrary: before g ini)
  case Nil
  then show ?case by (simp add: render_def)
next
  case (Cons i doc)
  have r: "render (i # doc) = item_line i @ NL # render doc"
    by (simp add: render_def)
  have IH: "parse_from NUL (render doc) g' ini' = Inr (assign_all (assignments g' doc) ini')" for g' ini'
    using Cons by simp
  have i: "item_ok i"
    using Cons.prems by simp
  note step = parse_from_line [OF item_line_ends(1) [OF i] item_line_ends(2) [OF i Cons.prems(2)], where rest = "render doc", folded r]
  show ?case
  proof (cases i)
    case (Section h)
    then show ?thesis
      using step [OF parse_section [of h g ini, folded Section]] i IH by (simp add: r)
  next
    case (Setting k v)
    then show ?thesis
      using step [OF parse_setting [of k v g ini, folded Setting]] i IH by (simp add: r)
  next
    case (Comment t)
    then show ?thesis
      using step [OF parse_comment [of t g ini, folded Comment]] IH by (simp add: r)
  next
    case Empty
    then show ?thesis
      using step [of g ini] IH by (simp add: r parse_empty)
  qed
qed

subsection \<open>Properties of the parser\<close>

text \<open>The last of several assignments of a parameter in a group.\<close>

definition last_assigned :: "string \<Rightarrow> string \<Rightarrow> (string \<times> string \<times> string) list \<Rightarrow> string option" where
  "last_assigned g k xs = map_of (rev (map (\<lambda>(h, k', v). ((h, k'), v)) xs)) (g, k)"

lemma last_assigned_simps:
  "last_assigned g k [] = None"
  "last_assigned g k (xs @ [(h, k', v)]) = (if (h, k') = (g, k) then Some v else last_assigned g k xs)"
  by (simp_all add: last_assigned_def)

lemma add_lookup:
  "internalGetParam g k (addKeyValue h k' v ini) =
     (if h \<noteq> [] \<and> h = g \<and> k' = k then Some v
      else if h = [] \<and> k' = k \<and> (case ini_groups ini g of None \<Rightarrow> None | Some m \<Rightarrow> m k) = None then Some v
      else internalGetParam g k ini)"
  by (auto simp: internalGetParam_def addKeyValue_def Let_def split: option.splits)

lemma lookup_assigned:
  fixes xs
  defines "ini \<equiv> assign_all xs ini_new"
  shows "(case ini_groups ini g of None \<Rightarrow> None | Some m \<Rightarrow> m k) = (if g = [] then None else last_assigned g k xs)"
    and "ini_default ini k = last_assigned [] k xs"
proof -
  have "(case ini_groups (assign_all xs ini_new) g of None \<Rightarrow> None | Some m \<Rightarrow> m k)
        = (if g = [] then None else last_assigned g k xs)
      \<and> ini_default (assign_all xs ini_new) k = last_assigned [] k xs"
  proof (induction xs rule: rev_induct)
    case Nil
    then show ?case by (simp add: ini_new_def last_assigned_simps)
  next
    case (snoc x xs)
    obtain h k' v where x: "x = (h, k', v)" by (cases x)
    have "assign_all (xs @ [x]) ini_new = addKeyValue h k' v (assign_all xs ini_new)"
      by (simp add: assign_all_def x)
    then show ?case
      using snoc by (auto simp: x last_assigned_simps addKeyValue_def Let_def split: option.splits)
  qed
  then show "(case ini_groups ini g of None \<Rightarrow> None | Some m \<Rightarrow> m k) = (if g = [] then None else last_assigned g k xs)"
    and "ini_default ini k = last_assigned [] k xs"
    by (simp_all add: ini_def)
qed

lemma c_string_id: "NUL \<notin> set s \<Longrightarrow> c_string s = s"
  by (auto simp: c_string_def takeWhile_eq_all_conv)

lemma ini_open_text:
  assumes "NUL \<notin> set s" and "length s \<le> MAX_INI_FILE_SIZE"
  shows "ini_open before (Some s) True = parse_from before s [] ini_new"
  using assms by (simp add: ini_open_def loadFile_def parse_def c_string_id)

text \<open>Property (C18): a configuration file written as sections, quoted settings, comments and empty
  lines is read back: every parameter of every group has the value assigned last in the group, or
  else the one assigned last outside all groups, or else the default of the caller.\<close>

theorem configuration_reads_back:
  assumes "\<forall>i \<in> set doc. item_ok i" and "NUL \<notin> set (render doc)"
    and "length (render doc) \<le> MAX_INI_FILE_SIZE" and "before \<noteq> CR" and "g \<noteq> []"
  shows "\<exists>ini. ini_open before (Some (render doc)) True = Inr ini
    \<and> getStrParam k defaultValue (setGroup g ini) =
        (case last_assigned g k (assignments [] doc) of
           Some v \<Rightarrow> v
         | None \<Rightarrow> (case last_assigned [] k (assignments [] doc) of Some v \<Rightarrow> v | None \<Rightarrow> defaultValue))"
  using parse_render [OF assms(1,4), of "[]" ini_new] assms(5)
  by (auto simp: ini_open_text [OF assms(2,3)] getStrParam_def setGroup_def internalGetParam_def
      lookup_assigned split: option.split)

theorem configuration_reads_back_witness:
  "\<exists>ini. ini_open NUL (Some (render [Setting ''port'' ''80'', Section ''eu'', Comment '' x'',
           Setting ''port'' ''81'']) ) True = Inr ini
    \<and> getStrParam ''port'' ''0'' (setGroup ''eu'' ini) =
        (case last_assigned ''eu'' ''port'' (assignments [] [Setting ''port'' ''80'', Section ''eu'',
                Comment '' x'', Setting ''port'' ''81'']) of
           Some v \<Rightarrow> v
         | None \<Rightarrow> (case last_assigned [] ''port'' (assignments [] [Setting ''port'' ''80'', Section ''eu'',
                Comment '' x'', Setting ''port'' ''81'']) of Some v \<Rightarrow> v | None \<Rightarrow> ''0''))"
  by (rule configuration_reads_back)
    (simp_all add: render_def NUL_def NL_def CR_def QUOTE_def MAX_INI_FILE_SIZE_def blank_def)

subsection \<open>Line ends\<close>

definition crlf :: "string \<Rightarrow> string" where
  "crlf s = concat (map (\<lambda>c. if c = NL then [CR, NL] else [c]) s)"

lemma crlf_simps:
  "crlf [] = []" "crlf (xs @ ys) = crlf xs @ crlf ys" "crlf (NL # xs) = CR # NL # crlf xs"
  "NL \<notin> set xs \<Longrightarrow> crlf xs = xs"
  by (simp_all add: crlf_def) (induction xs, auto)

lemma parse_from_last:
  "NL \<notin> set l \<Longrightarrow> parse_from before l g ini =
     (if l = [] then Inr ini else case parse_line l g ini of Inl e \<Rightarrow> Inl e | Inr (g, ini) \<Rightarrow> Inr ini)"
  by (simp add: parse_from.simps [of before l] next_line_def split: sum.split)

lemma parse_from_step:
  assumes "NL \<notin> set l" and "(if l = [] then before else last l) \<noteq> CR"
  shows "parse_from before (l @ NL # rest) g ini =
    (case parse_line l g ini of Inl e \<Rightarrow> Inl e | Inr (g, ini) \<Rightarrow> parse_from NUL rest g ini)"
  using assms by (subst parse_from.simps) (simp add: next_line_here split: sum.split)

lemma parse_from_step_crlf:
  assumes "NL \<notin> set l"
  shows "parse_from before (l @ CR # NL # rest) g ini =
    (case parse_line l g ini of Inl e \<Rightarrow> Inl e | Inr (g, ini) \<Rightarrow> parse_from NUL rest g ini)"
proof -
  have "takeWhile (\<lambda>c. c \<noteq> NL) (l @ CR # NL # rest) = l @ [CR]"
    using takeWhile_before [of NL "l @ [CR]" rest] assms by simp
  then have "next_line before (l @ CR # NL # rest) = Inr (l, Some (NL # rest))"
    by (simp add: next_line_def Let_def)
  moreover have "parse_from NUL (NL # rest) g' ini' = parse_from NUL rest g' ini'" for g' ini'
    using parse_from_step [of "[]" NUL rest g' ini'] by (simp add: parse_empty)
  ultimately show ?thesis
    by (subst parse_from.simps) (simp split: sum.split)
qed

text \<open>The parser gives the same result for a text with line feeds and for the one
  with a carriage return in front of each of them, errors included.\<close>

lemma line_ends_do_not_matter:
  assumes "CR \<notin> set s" and "before \<noteq> CR"
  shows "parse before (Some (crlf s)) ini = parse before (Some s) ini"
proof -
  have "parse_from b (crlf s) g ini = parse_from b s g ini" if "b \<noteq> CR" "CR \<notin> set s" for b s g ini
    using that
  proof (induction s arbitrary: b g ini rule: length_induct)
    case (1 s)
    show ?case
    proof (cases "NL \<in> set s")
      case True
      then obtain l r where s: "s = l @ NL # r" "NL \<notin> set l"
        by (meson split_list_first)
      have "(if l = [] then b else last l) \<noteq> CR"
        using 1(2,3) s last_not [of CR l] by simp
      moreover have "parse_from NUL (crlf r) g' ini' = parse_from NUL r g' ini'" for g' ini'
        using 1 s by simp
      ultimately show ?thesis
        using s by (simp add: crlf_simps parse_from_step parse_from_step_crlf split: sum.split)
    next
      case False
      then show ?thesis by (simp add: crlf_simps)
    qed
  qed
  with assms show ?thesis
    by (simp add: parse_def)
qed

lemma line_ends_do_not_matter_witness:
  "parse NUL (Some (crlf (''[a]'' @ [NL, NL] @ ''k=v''))) ini_new = parse NUL (Some (''[a]'' @ [NL, NL] @ ''k=v'')) ini_new"
  by (rule line_ends_do_not_matter) (simp_all add: CR_def NL_def NUL_def)

subsection \<open>Wildcards\<close>

inductive glob :: "string \<Rightarrow> string \<Rightarrow> bool" where
  glob_end: "glob [] []"
| glob_one: "glob p s \<Longrightarrow> c \<noteq> CHR ''.'' \<Longrightarrow> glob (CHR ''?'' # p) (c # s)"
| glob_char: "glob p s \<Longrightarrow> c \<noteq> CHR ''?'' \<Longrightarrow> c \<noteq> CHR ''*'' \<Longrightarrow> glob (c # p) (c # s)"
| glob_any: "glob p s \<Longrightarrow> glob (CHR ''*'' # p) (xs @ s)"

inductive_simps glob_Nil [simp]: "glob [] s"
inductive_cases globE: "glob (q # p) s"

lemma glob_star: "glob (CHR ''*'' # p) s \<longleftrightarrow> (\<exists>xs t. s = xs @ t \<and> glob p t)"
proof
  assume "glob (CHR ''*'' # p) s"
  then show "\<exists>xs t. s = xs @ t \<and> glob p t"
    by (rule globE) auto
qed (auto intro: glob_any)

lemma glob_cons:
  "q \<noteq> CHR ''*'' \<Longrightarrow> glob (q # p) s \<longleftrightarrow>
     (\<exists>c t. s = c # t \<and> glob p t \<and> (if q = CHR ''?'' then c \<noteq> CHR ''.'' else c = q))"
  by (auto intro: glob_one glob_char elim: globE)

lemma glob_empty: "glob p [] \<longleftrightarrow> list_all (\<lambda>c. c = CHR ''*'') p"
proof (induction p)
  case Nil
  then show ?case by simp
next
  case (Cons q p)
  then show ?case
    by (cases "q = CHR ''*''") (auto simp: glob_star glob_cons)
qed

lemma glob_star_Nil: "glob [CHR ''*''] s"
  using glob_any [OF glob_end, of s] by simp

lemma glob_star_Cons: "glob (CHR ''*'' # p) (c # s) \<longleftrightarrow> glob p (c # s) \<or> glob (CHR ''*'' # p) s"
  by (auto simp: glob_star Cons_eq_append_conv)

text \<open>Property (C26): \<open>wildcardMatch\<close> decides the language of the pattern: \<open>*\<close> stands for any sequence
  of characters, \<open>?\<close> for one character other than a dot, any other character for itself; the
  search always ends.\<close>

theorem wildcard_is_glob: "wildcardMatch p s \<longleftrightarrow> glob p s"
proof (induction p s rule: wildcardMatch.induct)
  case (3 q p c s)
  consider "q = CHR ''?''" | "q = CHR ''*''" | "q \<noteq> CHR ''?''" "q \<noteq> CHR ''*''" by blast
  then show ?case
  proof cases
    case 1
    then show ?thesis
      using 3 by (cases "c = CHR ''.''") (simp_all add: glob_cons)
  next
    case 2
    then show ?thesis
      using 3 by (cases "p = []") (auto simp: glob_star_Cons glob_star_Nil)
  next
    case 3
    then show ?thesis
      using "3.IH"(4) by (auto simp: glob_cons)
  qed
qed (simp_all add: glob_empty)

subsection \<open>Bounds of the parser\<close>

lemma parse_line_in_bounds: "parse_line l g ini \<noteq> Inl OutOfBounds"
  by (simp add: parse_line_def Let_def)

lemma next_line_in_bounds:
  "next_line before s = Inl OutOfBounds \<longleftrightarrow> before = CR \<and> (\<exists>r. s = NL # r)"
proof (cases s)
  case (Cons c r)
  then show ?thesis
    by (cases "c = NL") (auto simp: next_line_def Let_def)
qed (simp add: next_line_def)

lemma parse_from_in_bounds: "before \<noteq> CR \<Longrightarrow> parse_from before s g ini \<noteq> Inl OutOfBounds"
proof (induction before s g ini rule: parse_from.induct)
  case (1 before s g ini)
  then show ?case
    using parse_line_in_bounds next_line_in_bounds [of before s]
    by (subst parse_from.simps) (auto split: sum.split prod.split option.split)
qed

subsection \<open>Numbers\<close>

fun decimal :: "nat \<Rightarrow> string" where
  "decimal n = (if n < 10 then [char_of (48 + n)] else decimal (n div 10) @ [char_of (48 + n mod 10)])"

declare decimal.simps [simp del]

definition decimal_int :: "int \<Rightarrow> string" where
  "decimal_int n = (if n < 0 then CHR ''-'' # decimal (nat (- n)) else decimal (nat n))"

lemma digit_val_digit: "(d :: nat) < 10 \<Longrightarrow> digit_val (char_of (48 + d)) = d"
  by (simp add: digit_val_def)

lemma decimal_digits: "c \<in> set (decimal n) \<Longrightarrow> \<exists>d < (10 :: nat). c = char_of (48 + d)"
proof (induction n rule: decimal.induct)
  case (1 n)
  then show ?case
    by (cases "n < 10") (auto simp: decimal.simps [of n] intro: exI [of _ "n mod 10"])
qed

lemma decimal_nonempty [simp]: "decimal n \<noteq> []"
  by (simp add: decimal.simps)

lemma digits_value_decimal: "digits_value 10 (decimal n) = n"
proof -
  have t: "takeWhile (\<lambda>c. digit_val c < 10) (decimal n) = decimal n"
    using decimal_digits [of _ n] digit_val_digit by (force simp: takeWhile_eq_all_conv)
  have "foldl (\<lambda>n c. n * 10 + digit_val c) 0 (decimal n) = n"
  proof (induction n rule: decimal.induct)
    case (1 n)
    show ?case
    proof (cases "n < 10")
      case True
      then show ?thesis by (simp add: decimal.simps [of n] digit_val_digit)
    next
      case False
      then have "foldl (\<lambda>n c. n * 10 + digit_val c) 0 (decimal (n div 10)) = n div 10"
        using 1 by simp
      then show ?thesis
        using False by (simp add: decimal.simps [of n] digit_val_digit)
    qed
  qed
  then show ?thesis
    by (simp add: digits_value_def t)
qed

lemma decimal_hd: "hd (decimal n) = CHR ''0'' \<longleftrightarrow> n = 0"
proof (induction n rule: decimal.induct)
  case (1 n)
  have z: "char_of (48 + d) = CHR ''0'' \<longleftrightarrow> d = 0" if "d < 10" for d :: nat
  proof
    assume "char_of (48 + d) = CHR ''0''"
    then have "digit_val (char_of (48 + d)) = digit_val (CHR ''0'')"
      by simp
    then show "d = 0"
      using digit_val_digit [OF that] by (simp add: digit_val_def)
  qed (simp add: char_of_def bit_Suc bit_0)
  show ?case
  proof (cases "n < 10")
    case True
    then show ?thesis by (simp add: decimal.simps [of n] z)
  next
    case False
    then show ?thesis using 1 by (simp add: decimal.simps [of n])
  qed
qed

lemma magnitude_decimal: "magnitude (decimal n) = n"
proof (cases "n = 0")
  case True
  then show ?thesis
    by (simp add: decimal.simps magnitude_def digits_value_def digit_val_def)
next
  case False
  then have "hd (decimal n) \<noteq> CHR ''0''"
    by (simp add: decimal_hd)
  then show ?thesis
    by (auto simp: magnitude_def digits_value_decimal hd_conv_nth)
qed

lemma hd_decimal_plain: "\<not> c_space (hd (decimal n)) \<and> hd (decimal n) \<noteq> CHR ''-'' \<and> hd (decimal n) \<noteq> CHR ''+''"
proof -
  obtain d where d: "d < (10 :: nat)" "hd (decimal n) = char_of (48 + d)"
    using decimal_digits [of "hd (decimal n)" n] by auto
  have "digit_val (hd (decimal n)) < 10"
    using d by (simp add: digit_val_digit)
  then show ?thesis
    by (auto simp: c_space_def digit_val_def)
qed

lemma dropWhile_decimal: "dropWhile c_space (decimal n) = decimal n"
  using hd_decimal_plain [of n] by (cases "decimal n") auto

lemma sign_decimal: "sign_of (decimal n) = (False, decimal n)"
  using hd_decimal_plain [of n] by (cases "decimal n") (auto simp: sign_of_def)

text \<open>A number in the range of \<open>int32_t\<close>, written in decimal, is what \<open>getIntParam\<close>
  returns for the parameter.\<close>

lemma int_parameter_reads_back:
  assumes "internalGetParam (ini_current ini) key ini = Some (decimal_int n)" and "is_i32 n"
  shows "getIntParam key defaultValue ini = n"
proof -
  have "sign_of (dropWhile c_space (decimal_int n)) = (n < 0, decimal (nat \<bar>n\<bar>))"
    using sign_decimal [of "nat n"]
    by (auto simp: decimal_int_def dropWhile_decimal) (simp_all add: c_space_def sign_of_def)
  then have "strtol (decimal_int n) = n"
    using assms(2) by (auto simp: strtol_def magnitude_decimal is_i32_def)
  with assms(1) show ?thesis
    by (simp add: getIntParam_def)
qed

lemma int_parameter_example:
  "getIntParam ''n'' 7 (addKeyValue [] ''n'' (decimal_int (- 42)) ini_new) = - 42"
  by (rule int_parameter_reads_back) (simp_all add: add_lookup is_i32_def ini_new_def)

end
