(* ===== verification/Ini_Memory.thy ===== *)
theory Ini_Memory
  imports Ini_Props "HOL-Library.Monad_Syntax"
begin

text \<open>
  src/src/base/ini_file.cpp once more, at the level of the memory: \<open>loadFile\<close> and \<open>parse\<close> on the block that
  \<open>malloc\<close> returned, with pointers into it. Every character that the code reads or writes through a pointer is
  an access to the block that fails, with \<open>None\<close>, outside of it. The functions of \<open>Ini_File\<close> on lists are the
  reference: the last theorem says when the code stays in the block, and that it then does what they say.
\<close>

subsection \<open>Memory\<close>

type_synonym block = string

definition load :: "block \<Rightarrow> int \<Rightarrow> char option" where
  \<comment> \<open>\<open>*p\<close>\<close>
  "load m p = (if 0 \<le> p \<and> p < int (length m) then Some (m ! nat p) else None)"

definition store :: "block \<Rightarrow> int \<Rightarrow> char \<Rightarrow> block option" where
  \<comment> \<open>\<open>*p = c\<close>\<close>
  "store m p c = (if 0 \<le> p \<and> p < int (length m) then Some (m[nat p := c]) else None)"

text \<open>\<open>strchr\<close> of the C library: \<open>Some None\<close> is the null pointer. With the character NUL it gives the end of the string.\<close>

function strchr :: "block \<Rightarrow> int \<Rightarrow> char \<Rightarrow> int option option" where
  "strchr m p c =
     (case load m p of
        None \<Rightarrow> None
      | Some x \<Rightarrow> if x = c then Some (Some p) else if x = NUL then Some None else strchr m (p + 1) c)"
  by pat_completeness auto
termination
  by (relation "measure (\<lambda>(m, p, c). nat (int (length m) - p))") (auto simp: load_def split: if_splits)

declare strchr.simps [simp del]

function text_at :: "block \<Rightarrow> int \<Rightarrow> string option" where
  \<comment> \<open>the string that a pointer points to\<close>
  "text_at m p =
     (case load m p of
        None \<Rightarrow> None
      | Some x \<Rightarrow> if x = NUL then Some [] else map_option ((#) x) (text_at m (p + 1)))"
  by pat_completeness auto
termination
  by (relation "measure (\<lambda>(m, p). nat (int (length m) - p))") (auto simp: load_def split: if_splits)

declare text_at.simps [simp del]

subsection \<open>The parser\<close>

text \<open>The two loops over blanks: backwards as long as the pointer is greater than \<open>line\<close>, and forwards.\<close>

function back_blanks :: "block \<Rightarrow> int \<Rightarrow> int \<Rightarrow> int option" where
  "back_blanks m line p =
     (if p > line
      then do { x \<leftarrow> load m (p - 1); if blank x then back_blanks m line (p - 1) else Some p }
      else Some p)"
  by pat_completeness auto
termination
  by (relation "measure (\<lambda>(m, line, p). nat (p - line))") auto

declare back_blanks.simps [simp del]

function skip_blanks :: "block \<Rightarrow> int \<Rightarrow> int option" where
  "skip_blanks m p =
     (case load m p of None \<Rightarrow> None | Some x \<Rightarrow> if blank x then skip_blanks m (p + 1) else Some p)"
  by pat_completeness auto
termination
  by (relation "measure (\<lambda>(m, p). nat (int (length m) - p))") (auto simp: load_def split: if_splits)

declare skip_blanks.simps [simp del]

text \<open>\<open>cut_line\<close> ends the line and gives the start of the next one; \<open>do_value\<close>, \<open>do_entry\<close> and \<open>do_line\<close> are the
  rest of the body of the loop. \<open>cgroup\<close> is a pointer, or the empty string it starts as. \<open>Inl\<close> is an \<open>exit\<close>.\<close>

definition cut_line :: "block \<Rightarrow> int \<Rightarrow> (block \<times> int option) option" where
  "cut_line m line =
     do { current \<leftarrow> strchr m line NL;
          case current of
            None \<Rightarrow> Some (m, None)
          | Some current \<Rightarrow>
              do { x \<leftarrow> load m (current - 1);
                   let current = (if x = CR then current - 1 else current)
                   in do { m \<leftarrow> store m current NUL; Some (m, Some (current + 1)) } } }"

definition do_value :: "block \<Rightarrow> int \<Rightarrow> int \<Rightarrow> int option \<Rightarrow> ini_file \<Rightarrow> (block \<times> ini_file) option" where
  \<comment> \<open>\<open>pos\<close> is where the \<open>=\<close> is\<close>
  "do_value m line pos cgroup ini =
     (let cvalue = pos + 1
      in do { pos \<leftarrow> back_blanks m line pos;
              m \<leftarrow> store m pos NUL;
              cvalue \<leftarrow> skip_blanks m cvalue;
              x \<leftarrow> load m cvalue;
              (m, cvalue) \<leftarrow>
                (if x = QUOTE
                 then do { pos \<leftarrow> strchr m (cvalue + 1) QUOTE;
                           m \<leftarrow> (case pos of None \<Rightarrow> Some m | Some pos \<Rightarrow> store m pos NUL);
                           Some (m, cvalue + 1) }
                 else Some (m, cvalue));
              grp \<leftarrow> (case cgroup of None \<Rightarrow> Some [] | Some p \<Rightarrow> text_at m p);
              key \<leftarrow> text_at m line;
              value \<leftarrow> text_at m cvalue;
              Some (m, addKeyValue grp key value ini) })"

definition do_entry ::
  "block \<Rightarrow> int \<Rightarrow> int option \<Rightarrow> ini_file \<Rightarrow> (int + block \<times> int option \<times> ini_file) option" where
  \<comment> \<open>from the first character that is no blank\<close>
  "do_entry m line cgroup ini =
     do { x \<leftarrow> load m line;
          if x = NUL then Some (Inr (m, cgroup, ini))
          else if x = CHR ''[''
          then do { pos \<leftarrow> strchr m line (CHR '']'');
                    case pos of
                      None \<Rightarrow> Some (Inl (- 2))
                    | Some pos \<Rightarrow> do { m \<leftarrow> store m pos NUL; Some (Inr (m, Some (line + 1), ini)) } }
          else do { pos \<leftarrow> strchr m line (CHR ''='');
                    case pos of
                      None \<Rightarrow> Some (Inl (- 3))
                    | Some pos \<Rightarrow>
                        do { (m, ini) \<leftarrow> do_value m line pos cgroup ini; Some (Inr (m, cgroup, ini)) } } }"

definition do_line ::
  "block \<Rightarrow> int \<Rightarrow> int option \<Rightarrow> ini_file \<Rightarrow> (int + block \<times> int option \<times> ini_file) option" where
  "do_line m line cgroup ini =
     do { eol \<leftarrow> strchr m line NUL;
          eol \<leftarrow> back_blanks m line (the eol);
          m \<leftarrow> store m eol NUL;
          x \<leftarrow> load m line;
          if x = NUL \<or> x \<in> set '';/#'' then Some (Inr (m, cgroup, ini))
          else do { line \<leftarrow> skip_blanks m line; do_entry m line cgroup ini } }"

text \<open>The loop. \<open>None\<close> would be a loop without end; an access outside the block ends it with \<open>OutOfBounds\<close>.\<close>

partial_function (option) parse_block ::
  "block \<Rightarrow> int option \<Rightarrow> int option \<Rightarrow> ini_file \<Rightarrow> (ini_stop + ini_file) option" where
  "parse_block m current cgroup ini =
     (case current of
        None \<Rightarrow> Some (Inr ini)
      | Some line \<Rightarrow>
          (case load m line of
             None \<Rightarrow> Some (Inl OutOfBounds)
           | Some x \<Rightarrow>
               if x = NUL then Some (Inr ini)
               else (case cut_line m line of
                       None \<Rightarrow> Some (Inl OutOfBounds)
                     | Some r \<Rightarrow>
                         (case do_line (fst r) line cgroup ini of
                            None \<Rightarrow> Some (Inl OutOfBounds)
                          | Some (Inl e) \<Rightarrow> Some (Inl (Exit e))
                          | Some (Inr q) \<Rightarrow> parse_block (fst q) (snd r) (fst (snd q)) (snd (snd q))))))"

declare parse_block.simps [code]

text \<open>\<open>loadFile\<close> on a block of the memory that holds \<open>garbage\<close> before: \<open>memset\<close> clears as many bytes as a pointer has,
  four, and \<open>None\<close> is a block that is shorter. Then the constructor.\<close>

definition load_block :: "string option \<Rightarrow> bool \<Rightarrow> string \<Rightarrow> block option option" where
  \<comment> \<open>\<open>Some None\<close>: \<open>content\<close> stays the null pointer\<close>
  "load_block file read_ok garbage =
     (case file of
        None \<Rightarrow> Some None
      | Some bs \<Rightarrow>
          if length bs > MAX_INI_FILE_SIZE then Some None
          else
            let m = take (length bs + 1) garbage
            in if length m < 4 then None
               else
                 let m = replicate 4 NUL @ drop 4 m
                 in if \<not> read_ok then Some (Some m)
                    else if bs = [] then Some (Some m)
                    else let m = bs @ drop (length bs) m in Some (Some (m[length bs := NUL])))"

definition ini_open_block :: "string option \<Rightarrow> bool \<Rightarrow> string \<Rightarrow> (ini_stop + ini_file) option" where
  "ini_open_block file read_ok garbage =
     (case load_block file read_ok garbage of
        None \<Rightarrow> Some (Inl OutOfBounds)
      | Some None \<Rightarrow> parse_block [] None None ini_new
      | Some (Some m) \<Rightarrow> parse_block m (Some 0) None ini_new)"

subsection \<open>Primitives\<close>

lemma load_at: "p = int (length pre) \<Longrightarrow> load (pre @ c # post) p = Some c"
  by (simp add: load_def)

lemma store_at: "p = int (length pre) \<Longrightarrow> store (pre @ c # post) p d = Some (pre @ d # post)"
  by (simp add: store_def)

lemma strchr_found:
  "c \<notin> set xs \<Longrightarrow> NUL \<notin> set xs \<Longrightarrow> p = int (length pre) \<Longrightarrow>
     strchr (pre @ xs @ c # post) p c = Some (Some (p + int (length xs)))"
proof (induction xs arbitrary: pre p)
  case Nil
  then show ?case
    by (subst strchr.simps) (simp add: load_at)
next
  case (Cons x xs)
  have "strchr ((pre @ [x]) @ xs @ c # post) (p + 1) c = Some (Some (p + 1 + int (length xs)))"
    using Cons by (intro Cons.IH) simp_all
  then show ?case
    using Cons.prems by (subst strchr.simps) (auto simp: load_at)
qed

lemma strchr_missing:
  "c \<notin> set xs \<Longrightarrow> NUL \<notin> set xs \<Longrightarrow> c \<noteq> NUL \<Longrightarrow> p = int (length pre) \<Longrightarrow>
     strchr (pre @ xs @ NUL # post) p c = Some None"
proof (induction xs arbitrary: pre p)
  case Nil
  then show ?case
    by (subst strchr.simps) (simp add: load_at)
next
  case (Cons x xs)
  have "strchr ((pre @ [x]) @ xs @ NUL # post) (p + 1) c = Some None"
    using Cons by (intro Cons.IH) simp_all
  then show ?case
    using Cons.prems by (subst strchr.simps) (auto simp: load_at)
qed

lemma text_at_ok:
  "NUL \<notin> set xs \<Longrightarrow> p = int (length pre) \<Longrightarrow> text_at (pre @ xs @ NUL # post) p = Some xs"
proof (induction xs arbitrary: pre p)
  case Nil
  then show ?case
    by (subst text_at.simps) (simp add: load_at)
next
  case (Cons x xs)
  have "text_at ((pre @ [x]) @ xs @ NUL # post) (p + 1) = Some xs"
    using Cons by (intro Cons.IH) simp_all
  then show ?case
    using Cons.prems by (subst text_at.simps) (auto simp: load_at)
qed

lemma skip_blanks_ok:
  "\<forall>x \<in> set xs. blank x \<Longrightarrow> \<not> blank y \<Longrightarrow> p = int (length pre) \<Longrightarrow>
     skip_blanks (pre @ xs @ y # post) p = Some (p + int (length xs))"
proof (induction xs arbitrary: pre p)
  case Nil
  then show ?case
    by (subst skip_blanks.simps) (simp add: load_at)
next
  case (Cons x xs)
  have "skip_blanks ((pre @ [x]) @ xs @ y # post) (p + 1) = Some (p + 1 + int (length xs))"
    using Cons by (intro Cons.IH) simp_all
  then show ?case
    using Cons.prems by (subst skip_blanks.simps) (simp add: load_at)
qed

lemma back_blanks_ok:
  "\<forall>x \<in> set xs. blank x \<Longrightarrow> ys = [] \<or> \<not> blank (last ys) \<Longrightarrow> line = int (length pre) \<Longrightarrow>
     p = line + int (length ys) + int (length xs) \<Longrightarrow>
     back_blanks (pre @ ys @ xs @ post) line p = Some (line + int (length ys))"
proof (induction xs arbitrary: p post rule: rev_induct)
  case Nil
  show ?case
  proof (cases ys rule: rev_cases)
    case (snoc zs y)
    have "load ((pre @ zs) @ y # post) (p - 1) = Some y"
      using Nil snoc by (intro load_at) simp
    then show ?thesis
      using Nil snoc by (subst back_blanks.simps) simp
  qed (use Nil in \<open>subst back_blanks.simps, simp\<close>)
next
  case (snoc x xs)
  have "back_blanks (pre @ ys @ xs @ x # post) line (p - 1) = Some (line + int (length ys))"
    using snoc by (intro snoc.IH) simp_all
  moreover have "load ((pre @ ys @ xs) @ x # post) (p - 1) = Some x"
    using snoc.prems by (intro load_at) simp
  ultimately show ?case
    using snoc.prems by (subst back_blanks.simps) simp
qed

lemma trim_right_split: "\<exists>xs. s = trim_right s @ xs \<and> (\<forall>x \<in> set xs. blank x) \<and> (trim_right s = [] \<or> \<not> blank (last (trim_right s)))"
proof -
  have "s = trim_right s @ rev (takeWhile blank (rev s))"
    unfolding trim_right_def by (metis rev_append rev_rev_ident takeWhile_dropWhile_id)
  moreover have "\<forall>x \<in> set (rev (takeWhile blank (rev s))). blank x"
    by (auto dest: set_takeWhileD)
  moreover have "trim_right s = [] \<or> \<not> blank (last (trim_right s))"
    unfolding trim_right_def using hd_dropWhile [of blank "rev s"] by (auto simp: last_rev)
  ultimately show ?thesis
    by blast
qed

lemma trim_left_split: "\<exists>xs. s = xs @ trim_left s \<and> (\<forall>x \<in> set xs. blank x) \<and> (trim_left s = [] \<or> \<not> blank (hd (trim_left s)))"
  unfolding trim_left_def using hd_dropWhile [of blank s] set_takeWhileD [of _ blank s]
  by (metis takeWhile_dropWhile_id)

lemma NUL_not [simp]: "\<not> blank NUL" "QUOTE \<noteq> NUL" "CHR '']'' \<noteq> NUL" "CHR ''='' \<noteq> NUL"
  by (simp_all add: blank_def NUL_def QUOTE_def)

subsection \<open>One line\<close>

definition group_at :: "block \<Rightarrow> int option \<Rightarrow> string \<Rightarrow> bool" where
  \<comment> \<open>\<open>cgroup\<close> points to the string \<open>g\<close>, which ends in the part of the block that is done\<close>
  "group_at pre cgroup g \<longleftrightarrow>
     (case cgroup of
        None \<Rightarrow> g = []
      | Some p \<Rightarrow> \<exists>a b. pre = a @ g @ NUL # b \<and> NUL \<notin> set g \<and> p = int (length a))"

lemma group_at_text:
  "group_at pre cgroup g \<Longrightarrow> (case cgroup of None \<Rightarrow> Some [] | Some p \<Rightarrow> text_at (pre @ post) p) = Some g"
  by (auto simp: group_at_def text_at_ok split: option.splits)

lemma group_at_append: "group_at pre cgroup g \<Longrightarrow> group_at (pre @ post) cgroup g"
  by (fastforce simp: group_at_def split: option.splits)

lemma takeWhile_missing: "c \<notin> set xs \<Longrightarrow> takeWhile (\<lambda>x. x \<noteq> c) xs = xs"
  by (induction xs) auto

text \<open>A quoted or a plain value, at the pointer to its first character.\<close>

lemma unquote_ok:
  assumes v: "NUL \<notin> set v" and p: "p = int (length pre)" and x: "load (pre @ v @ NUL # z) p = Some x"
  shows "\<exists>v'. (if x = QUOTE
      then do { pos \<leftarrow> strchr (pre @ v @ NUL # z) (p + 1) QUOTE;
                m \<leftarrow> (case pos of None \<Rightarrow> Some (pre @ v @ NUL # z) | Some pos \<Rightarrow> store (pre @ v @ NUL # z) pos NUL);
                Some (m, p + 1) }
      else Some (pre @ v @ NUL # z, p)) = Some (pre @ v' @ NUL # z, if x = QUOTE then p + 1 else p)
    \<and> length v' = length v \<and> text_at (pre @ v' @ NUL # z) (if x = QUOTE then p + 1 else p) =
        Some (if v \<noteq> [] \<and> hd v = QUOTE then takeWhile (\<lambda>c. c \<noteq> QUOTE) (tl v) else v)"
proof (cases "x = QUOTE")
  case False
  have "v = [] \<or> hd v = x"
    using x p by (cases v) (simp_all add: load_at)
  then show ?thesis
    using False text_at_ok [OF v p] by (intro exI [of _ v]) auto
next
  case True
  obtain w where w: "v = QUOTE # w"
    using x p True by (cases v) (auto simp: load_at NUL_def QUOTE_def)
  have q: "p + 1 = int (length (pre @ [QUOTE]))" "NUL \<notin> set w"
    using p v w by simp_all
  show ?thesis
  proof (cases "QUOTE \<in> set w")
    case False
    have "strchr (pre @ v @ NUL # z) (p + 1) QUOTE = Some None"
      using strchr_missing [OF False q(2) _ q(1), of z] w by simp
    moreover have "text_at (pre @ v @ NUL # z) (p + 1) = Some w"
      using text_at_ok [OF q(2,1), of z] w by simp
    ultimately show ?thesis
      using True by (intro exI [of _ v]) (simp add: w takeWhile_missing [OF False])
  next
    case quoted: True
    obtain a b where ab: "w = a @ QUOTE # b" "QUOTE \<notin> set a"
      using quoted by (meson split_list_first)
    have na: "NUL \<notin> set a"
      using q(2) ab(1) by simp
    let ?v = "QUOTE # a @ NUL # b"
    have "strchr (pre @ v @ NUL # z) (p + 1) QUOTE = Some (Some (p + 1 + int (length a)))"
      using strchr_found [OF ab(2) na q(1), of "b @ NUL # z"] w ab(1) by simp
    moreover have "store (pre @ v @ NUL # z) (p + 1 + int (length a)) NUL = Some (pre @ ?v @ NUL # z)"
      using store_at [of "p + 1 + int (length a)" "pre @ QUOTE # a" QUOTE "b @ NUL # z" NUL] p w ab(1) by simp
    moreover have "text_at (pre @ ?v @ NUL # z) (p + 1) = Some a"
      using text_at_ok [OF na q(1), of "b @ NUL # z"] by simp
    ultimately show ?thesis
      using True w ab takeWhile_before [OF ab(2), of b] by (intro exI [of _ ?v]) simp
  qed
qed

lemma do_value_ok:
  assumes u: "u = k @ CHR ''='' # a" "NUL \<notin> set u" and line: "line = int (length pre)" and g: "group_at pre cgroup g"
  shows "\<exists>u'. do_value (pre @ u @ NUL # z) line (line + int (length k)) cgroup ini =
      Some (pre @ u' @ NUL # z, addKeyValue g (trim_right k) (parse_value a) ini) \<and> length u' = length u"
proof -
  let ?k = "trim_right k" and ?v = "trim_left a"
  obtain xs where k: "k = ?k @ xs" "\<forall>x \<in> set xs. blank x" "?k = [] \<or> \<not> blank (last ?k)"
    using trim_right_split by blast
  obtain bl where a: "a = bl @ ?v" "\<forall>x \<in> set bl. blank x" "?v = [] \<or> \<not> blank (hd ?v)"
    using trim_left_split by blast
  define mid where "mid = tl (xs @ ''='')"
  have mid: "length (?k @ NUL # mid) = length k + 1"
    using arg_cong [OF k(1), of length] by (simp add: mid_def)
  have nk: "NUL \<notin> set ?k" "NUL \<notin> set ?v"
    using u(2) unfolding u(1) by (metis Un_iff k(1) set_append) (metis Un_iff a(1) set_append u(1,2) list.set_intros(2))
  define P where "P = pre @ ?k @ NUL # mid @ bl"
  have 1: "back_blanks (pre @ u @ NUL # z) line (line + int (length k)) = Some (line + int (length ?k))"
    using back_blanks_ok [OF k(2,3) line, of _ "CHR ''='' # a @ NUL # z"] arg_cong [OF k(1), of length] k(1) u(1)
    by (metis (no_types, lifting) append.assoc append_Cons length_append of_nat_add add.assoc)
  have "u @ NUL # z = ?k @ (xs @ ''='') @ a @ NUL # z"
    using k(1) u(1) by (metis append.assoc append_Cons append_Nil)
  also have "xs @ ''='' = hd (xs @ ''='') # mid"
    by (cases xs) (simp_all add: mid_def)
  finally have split: "u @ NUL # z = ?k @ hd (xs @ ''='') # mid @ a @ NUL # z"
    by simp
  have 2: "store (pre @ u @ NUL # z) (line + int (length ?k)) NUL = Some (P @ ?v @ NUL # z)"
    using store_at [of "line + int (length ?k)" "pre @ ?k" "hd (xs @ ''='')" "mid @ a @ NUL # z" NUL] line a(1)
    by (simp add: split P_def)
  have start: "line + int (length k) + 1 + int (length bl) = int (length P)"
    using mid line by (simp add: P_def)
  have whole: "P @ ?v @ NUL # z = (pre @ ?k @ NUL # mid) @ bl @ hd (?v @ [NUL]) # tl (?v @ [NUL]) @ z"
    by (cases ?v) (simp_all add: P_def)
  have nb: "\<not> blank (hd (?v @ [NUL]))" "line + int (length k) + 1 = int (length (pre @ ?k @ NUL # mid))"
    using a(3) mid line by (cases ?v; simp)+
  have 3: "skip_blanks (P @ ?v @ NUL # z) (line + int (length k) + 1) = Some (int (length P))"
    unfolding whole start [symmetric] by (rule skip_blanks_ok [OF a(2) nb])
  obtain x where 4: "load (P @ ?v @ NUL # z) (int (length P)) = Some x"
    by (cases ?v) (simp_all add: load_at)
  obtain v' where 5: "(if x = QUOTE
      then do { pos \<leftarrow> strchr (P @ ?v @ NUL # z) (int (length P) + 1) QUOTE;
                m \<leftarrow> (case pos of None \<Rightarrow> Some (P @ ?v @ NUL # z) | Some pos \<Rightarrow> store (P @ ?v @ NUL # z) pos NUL);
                Some (m, int (length P) + 1) }
      else Some (P @ ?v @ NUL # z, int (length P))) = Some (P @ v' @ NUL # z, if x = QUOTE then int (length P) + 1 else int (length P))"
    and v': "length v' = length ?v"
      "text_at (P @ v' @ NUL # z) (if x = QUOTE then int (length P) + 1 else int (length P)) = Some (parse_value a)"
    using unquote_ok [OF nk(2) refl 4] by (auto simp: parse_value_def Let_def)
  let ?u = "?k @ NUL # mid @ bl @ v'"
  have u': "P @ v' @ NUL # z = pre @ ?u @ NUL # z"
    by (simp add: P_def)
  have 6: "(case cgroup of None \<Rightarrow> Some [] | Some p \<Rightarrow> text_at (P @ v' @ NUL # z) p) = Some g"
    unfolding u' by (rule group_at_text [OF g])
  have 7: "text_at (P @ v' @ NUL # z) line = Some ?k"
    using text_at_ok [OF nk(1) line, of "mid @ bl @ v' @ NUL # z"] by (simp add: P_def)
  have "do_value (pre @ u @ NUL # z) line (line + int (length k)) cgroup ini =
      Some (P @ v' @ NUL # z, addKeyValue g ?k (parse_value a) ini)"
    unfolding do_value_def Let_def 1 Option.bind.bind_lunit 2 3 4 5 by (simp add: 6 7 v'(2))
  moreover have "length ?u = length u"
    using mid v'(1) arg_cong [OF a(1), of length] u(1) by simp
  ultimately show ?thesis
    unfolding u' by blast
qed

definition entry :: "string \<Rightarrow> string \<Rightarrow> ini_file \<Rightarrow> ini_stop + string \<times> ini_file" where
  \<comment> \<open>the end of \<open>parse_line\<close>\<close>
  "entry u cgroup ini =
     (if u = [] then Inr (cgroup, ini)
      else if hd u = CHR ''[''
      then (if CHR '']'' \<notin> set u then Inl (Exit (- 2))
            else Inr (takeWhile (\<lambda>c. c \<noteq> CHR '']'') (tl u), ini))
      else if CHR ''='' \<notin> set u then Inl (Exit (- 3))
      else Inr (cgroup, addKeyValue cgroup (trim_right (takeWhile (\<lambda>c. c \<noteq> CHR ''='') u))
                 (parse_value (tl (dropWhile (\<lambda>c. c \<noteq> CHR ''='') u))) ini))"

definition agrees ::
  "block \<Rightarrow> nat \<Rightarrow> block \<Rightarrow> (int + block \<times> int option \<times> ini_file) option \<Rightarrow> ini_stop + string \<times> ini_file \<Rightarrow> bool" where
  \<comment> \<open>a result on the block and one on the list, for a text of length \<open>n\<close> between \<open>pre\<close> and a NUL\<close>
  "agrees pre n post r e \<longleftrightarrow>
     (case e of
        Inl e \<Rightarrow> \<exists>c. e = Exit c \<and> r = Some (Inl c)
      | Inr (g, ini) \<Rightarrow> \<exists>u cgroup. r = Some (Inr (pre @ u @ NUL # post, cgroup, ini)) \<and> length u = n
          \<and> group_at (pre @ u @ [NUL]) cgroup g)"

lemma do_entry_ok:
  assumes u: "NUL \<notin> set u" and line: "line = int (length pre)" and g: "group_at pre cgroup g"
  shows "agrees pre (length u) post (do_entry (pre @ u @ NUL # post) line cgroup ini) (entry u g ini)"
proof (cases u)
  case Nil
  have "group_at (pre @ [NUL]) cgroup g"
    using group_at_append [OF g] .
  then show ?thesis
    using Nil line by (simp add: agrees_def do_entry_def load_at entry_def)
next
  case (Cons x v)
  have x: "load (pre @ u @ NUL # post) line = Some x" "x \<noteq> NUL"
    using Cons line u load_at [of line pre x "v @ NUL # post"] by auto
  show ?thesis
  proof (cases "x = CHR ''[''")
    case True
    show ?thesis
    proof (cases "CHR '']'' \<in> set u")
      case False
      have "strchr (pre @ u @ NUL # post) line (CHR '']'') = Some None"
        using strchr_missing [OF False u _ line] by simp
      then show ?thesis
        using x True False Cons by (simp add: agrees_def do_entry_def entry_def)
    next
      case closed: True
      then obtain a b where ab: "v = a @ CHR '']'' # b" "CHR '']'' \<notin> set a"
        using True Cons by (auto dest!: split_list_first)
      have na: "CHR '']'' \<notin> set (x # a)" "NUL \<notin> set (x # a)"
        using ab u Cons True by auto
      have "strchr (pre @ u @ NUL # post) line (CHR '']'') = Some (Some (line + int (length (x # a))))"
        using strchr_found [OF na line, of "b @ NUL # post"] Cons ab(1) by simp
      moreover have "store (pre @ u @ NUL # post) (line + int (length (x # a))) NUL = Some (pre @ (x # a @ NUL # b) @ NUL # post)"
        using store_at [of "line + int (length (x # a))" "pre @ x # a" "CHR '']''" "b @ NUL # post" NUL] line Cons ab(1) by simp
      moreover have "group_at (pre @ (x # a @ NUL # b) @ [NUL]) (Some (line + 1)) a"
        unfolding group_at_def option.case using line na(2)
        by (intro exI [of _ "pre @ [x]"] exI [of _ "b @ [NUL]"]) simp
      ultimately show ?thesis
        using x True closed Cons ab(1) takeWhile_before [OF ab(2), of b]
        by (auto simp: agrees_def do_entry_def entry_def intro!: exI [of _ "x # a @ NUL # b"])
    qed
  next
    case other: False
    show ?thesis
    proof (cases "CHR ''='' \<in> set u")
      case False
      have "strchr (pre @ u @ NUL # post) line (CHR ''='') = Some None"
        using strchr_missing [OF False u _ line] by simp
      then show ?thesis
        using x other False Cons by (simp add: agrees_def do_entry_def entry_def)
    next
      case True
      obtain k a where ka: "u = k @ CHR ''='' # a" "CHR ''='' \<notin> set k"
        using True by (meson split_list_first)
      have nk: "NUL \<notin> set k"
        using u ka(1) by simp
      have "strchr (pre @ u @ NUL # post) line (CHR ''='') = Some (Some (line + int (length k)))"
        using strchr_found [OF ka(2) nk line, of "a @ NUL # post"] ka(1) by simp
      moreover obtain u' where "do_value (pre @ u @ NUL # post) line (line + int (length k)) cgroup ini =
          Some (pre @ u' @ NUL # post, addKeyValue g (trim_right k) (parse_value a) ini)" "length u' = length u"
        using do_value_ok [OF ka(1) u line g, of post ini] by blast
      moreover have "entry u g ini = Inr (g, addKeyValue g (trim_right k) (parse_value a) ini)"
        using other True Cons takeWhile_before [OF ka(2), of a] dropWhile_before [OF ka(2), of a] ka(1)
        by (auto simp: entry_def)
      moreover have "do_entry (pre @ u @ NUL # post) line cgroup ini =
          do { pos \<leftarrow> strchr (pre @ u @ NUL # post) line (CHR ''='');
               case pos of
                 None \<Rightarrow> Some (Inl (- 3))
               | Some pos \<Rightarrow>
                   do { (m, ini) \<leftarrow> do_value (pre @ u @ NUL # post) line pos cgroup ini; Some (Inr (m, cgroup, ini)) } }"
        using x other by (simp add: do_entry_def)
      ultimately show ?thesis
        using group_at_append [OF g] by (simp add: agrees_def)
    qed
  qed
qed

lemma do_line_ok:
  assumes l: "NUL \<notin> set l" and line: "line = int (length pre)" and g: "group_at pre cgroup g"
  shows "agrees pre (length l) post (do_line (pre @ l @ NUL # post) line cgroup ini) (parse_line l g ini)"
proof -
  let ?t = "trim_right l" and ?u = "trim_left (trim_right l)"
  obtain xs where t: "l = ?t @ xs" "\<forall>x \<in> set xs. blank x" "?t = [] \<or> \<not> blank (last ?t)"
    using trim_right_split by blast
  obtain bl where u: "?t = bl @ ?u" "\<forall>x \<in> set bl. blank x" "?u = [] \<or> \<not> blank (hd ?u)"
    using trim_left_split by blast
  have nt: "NUL \<notin> set ?t" "NUL \<notin> set ?u"
    using l t(1) u(1) by (metis Un_iff set_append)+
  define y where "y = (if xs = [] then [] else tl xs @ [NUL])"
  have y: "xs @ NUL # post = hd (xs @ [NUL]) # y @ post"
    by (cases xs) (simp_all add: y_def)
  have rebuilt: "\<exists>l'. pre @ w @ NUL # y @ post = pre @ l' @ NUL # post \<and> length l' = length l \<and> l' @ [NUL] = w @ NUL # y"
    if "length w = length ?t" for w
    using that arg_cong [OF t(1), of length]
    by (intro exI [of _ "if xs = [] then w else w @ NUL # tl xs"]) (simp add: y_def)
  let ?m = "pre @ ?t @ NUL # y @ post"
  have 1: "strchr (pre @ l @ NUL # post) line NUL = Some (Some (line + int (length ?t) + int (length xs)))"
    using strchr_found [OF l l line, of post] arg_cong [OF t(1), of length] by simp
  have 2: "back_blanks (pre @ l @ NUL # post) line (line + int (length ?t) + int (length xs)) = Some (line + int (length ?t))"
    using back_blanks_ok [OF t(2,3) line refl, of "NUL # post"] t(1) by (metis append.assoc)
  have whole: "pre @ l @ NUL # post = (pre @ ?t) @ hd (xs @ [NUL]) # y @ post"
    using t(1) y by (metis append.assoc)
  have 3: "store (pre @ l @ NUL # post) (line + int (length ?t)) NUL = Some ?m"
    unfolding whole using line by (subst store_at) simp_all
  have 4: "load ?m line = Some (hd (?t @ [NUL]))"
    using line by (cases ?t) (simp_all add: load_at)
  note start = do_line_def Let_def 1 2 3 4 Option.bind.bind_lunit option.sel
  have same: "\<exists>l'. ?m = pre @ l' @ NUL # post \<and> length l' = length l \<and> group_at (pre @ l' @ [NUL]) cgroup g"
    using rebuilt [OF refl] group_at_append [OF g] by blast
  show ?thesis
  proof (cases "?t = [] \<or> hd ?t \<in> set '';/#''")
    case True
    then have "parse_line l g ini = Inr (g, ini)"
      by (auto simp: parse_line_def)
    moreover have "hd (?t @ [NUL]) = NUL \<or> hd (?t @ [NUL]) \<in> set '';/#''"
      using True by (cases ?t) auto
    then have "do_line (pre @ l @ NUL # post) line cgroup ini = Some (Inr (?m, cgroup, ini))"
      by (simp only: start if_True)
    ultimately show ?thesis
      using same by (auto simp: agrees_def)
  next
    case False
    let ?P = "pre @ bl"
    have x: "hd (?t @ [NUL]) \<noteq> NUL" "hd (?t @ [NUL]) \<notin> set '';/#''"
      using False nt(1) by (cases ?t; simp; metis)+
    have m: "?m = ?P @ hd (?u @ [NUL]) # tl (?u @ [NUL]) @ y @ post" "?m = ?P @ ?u @ NUL # y @ post"
      using u(1) by (cases ?u; simp)+
    have 5: "skip_blanks ?m line = Some (int (length ?P))"
      using skip_blanks_ok [OF u(2) _ line, of "hd (?u @ [NUL])" "tl (?u @ [NUL]) @ y @ post"] u(3) line m(1)
      by (cases ?u) simp_all
    have "do_line (pre @ l @ NUL # post) line cgroup ini = do_entry ?m (int (length ?P)) cgroup ini"
      using x by (simp only: start 5 if_False simp_thms)
    moreover have "parse_line l g ini = entry ?u g ini"
      using False by (auto simp: parse_line_def entry_def Let_def)
    moreover have "agrees ?P (length ?u) (y @ post) (do_entry ?m (int (length ?P)) cgroup ini) (entry ?u g ini)"
      unfolding m(2) by (rule do_entry_ok [OF nt(2) refl group_at_append [OF g]])
    moreover have "\<exists>l'. ?P @ w @ NUL # y @ post = pre @ l' @ NUL # post \<and> length l' = length l
        \<and> (group_at (?P @ w @ [NUL]) cg h \<longrightarrow> group_at (pre @ l' @ [NUL]) cg h)" if w: "length w = length ?u" for w cg h
    proof -
      obtain l' where l': "pre @ (bl @ w) @ NUL # y @ post = pre @ l' @ NUL # post" "length l' = length l" "l' @ [NUL] = (bl @ w) @ NUL # y"
        using rebuilt [of "bl @ w"] w arg_cong [OF u(1), of length, unfolded length_append] by auto
      have "pre @ l' @ [NUL] = (?P @ w @ [NUL]) @ y"
        unfolding l'(3) by simp
      then show ?thesis
        using l' group_at_append [of "?P @ w @ [NUL]" cg h y] by (intro exI [of _ l']) simp
    qed
    ultimately show ?thesis
      unfolding agrees_def by (fastforce split: sum.splits)
  qed
qed

subsection \<open>The whole text\<close>

lemma cut_line_ok:
  assumes s: "NUL \<notin> set s" "s \<noteq> []" and line: "line = int (length pre)"
    and b: "if pre = [] then hd s \<noteq> NL else last pre = NUL"
  shows "\<exists>l rest. next_line NUL s = Inr (l, rest) \<and> NUL \<notin> set l
    \<and> (case rest of
         None \<Rightarrow> l = s \<and> cut_line (pre @ s @ NUL # post) line = Some (pre @ s @ NUL # post, None)
       | Some r \<Rightarrow> NUL \<notin> set r
           \<and> cut_line (pre @ s @ NUL # post) line = Some (pre @ l @ NUL # r @ NUL # post, Some (line + int (length l) + 1)))"
proof (cases "NL \<in> set s")
  case False
  have "strchr (pre @ s @ NUL # post) line NL = Some None"
    using strchr_missing [OF False s(1) _ line] by simp
  then show ?thesis
    using False s(1) by (simp add: next_line_def cut_line_def)
next
  case True
  obtain l r where lr: "s = l @ NL # r" "NL \<notin> set l"
    using True by (meson split_list_first)
  have n: "NUL \<notin> set l" "NUL \<notin> set r"
    using s(1) lr(1) by simp_all
  let ?p = "line + int (length l)"
  have found: "strchr (pre @ s @ NUL # post) line NL = Some (Some ?p)"
    using strchr_found [OF lr(2) n(1) line, of "r @ NUL # post"] lr(1) by simp
  show ?thesis
  proof (cases "l \<noteq> [] \<and> last l = CR")
    case True
    then obtain l' where l': "l = l' @ [CR]"
      by (metis append_butlast_last_id)
    have "load ((pre @ l') @ CR # NL # r @ NUL # post) (?p - 1) = Some CR"
      using line l' by (intro load_at) simp
    moreover have "store ((pre @ l') @ CR # NL # r @ NUL # post) (?p - 1) NUL = Some ((pre @ l') @ NUL # NL # r @ NUL # post)"
      using line l' by (intro store_at) simp
    ultimately have "cut_line (pre @ s @ NUL # post) line = Some (pre @ l' @ NUL # (NL # r) @ NUL # post, Some ?p)"
      using found lr(1) l' by (simp add: cut_line_def)
    moreover have "next_line NUL s = Inr (l', Some (NL # r))"
      using lr(1) l' takeWhile_before [OF lr(2), of r] by (simp add: next_line_def Let_def)
    ultimately show ?thesis
      using n l' by simp
  next
    case False
    have "pre @ l \<noteq> [] \<and> last (pre @ l) \<noteq> CR"
      using False b lr(1) by (cases "l = []") (auto split: if_splits)
    then obtain a x where a: "pre @ l = a @ [x]" "x \<noteq> CR"
      by (metis append_butlast_last_id)
    have len: "?p = int (length (pre @ l))"
      using line by simp
    have whole: "pre @ s @ NUL # post = (pre @ l) @ NL # r @ NUL # post"
      by (simp add: lr(1))
    have "load (pre @ s @ NUL # post) (?p - 1) = Some x"
      unfolding whole a(1) using len a(1) by (subst append_assoc, subst append_Cons, subst append_Nil) (intro load_at, simp)
    moreover have "store (pre @ s @ NUL # post) ?p NUL = Some (pre @ l @ NUL # r @ NUL # post)"
      unfolding whole using store_at [OF len, of NL "r @ NUL # post" NUL] by simp
    ultimately have "cut_line (pre @ s @ NUL # post) line = Some (pre @ l @ NUL # r @ NUL # post, Some (?p + 1))"
      using found a(2) by (simp add: cut_line_def)
    moreover have "next_line NUL s = Inr (l, Some r)"
      using next_line_here [OF lr(2), of NUL r] False lr(1) by auto
    ultimately show ?thesis
      using n by simp
  qed
qed

lemma parse_block_ok:
  assumes "NUL \<notin> set s" and "line = int (length pre)" and "group_at pre cgroup g"
    and "if pre = [] then s = [] \<or> hd s \<noteq> NL else last pre = NUL"
  shows "parse_block (pre @ s @ NUL # post) (Some line) cgroup ini = Some (parse_from NUL s g ini)"
  using assms
proof (induction "length s" arbitrary: s line pre cgroup g ini rule: less_induct)
  case less
  show ?case
  proof (cases "s = []")
    case True
    then show ?thesis
      using less.prems(2) by (subst parse_block.simps) (simp add: load_at)
  next
    case False
    have x: "load (pre @ s @ NUL # post) line = Some (hd s)" "hd s \<noteq> NUL"
      using False less.prems(1,2) load_at [of line pre] by (cases s; simp; metis)+
    obtain l rest where n: "next_line NUL s = Inr (l, rest)" "NUL \<notin> set l"
      and c: "case rest of
         None \<Rightarrow> l = s \<and> cut_line (pre @ s @ NUL # post) line = Some (pre @ s @ NUL # post, None)
       | Some r \<Rightarrow> NUL \<notin> set r
           \<and> cut_line (pre @ s @ NUL # post) line = Some (pre @ l @ NUL # r @ NUL # post, Some (line + int (length l) + 1))"
      using cut_line_ok [OF less.prems(1) False less.prems(2), of post] less.prems(4) False by (metis (no_types, lifting))
    have ref: "parse_from NUL s g ini =
        (case parse_line l g ini of Inl e \<Rightarrow> Inl e | Inr (g, ini) \<Rightarrow> (case rest of None \<Rightarrow> Inr ini | Some s' \<Rightarrow> parse_from NUL s' g ini))"
      using False n(1) by (subst parse_from.simps) simp
    note A = do_line_ok [OF n(2) less.prems(2,3)]
    show ?thesis
    proof (cases rest)
      case None
      then show ?thesis
        using A [of post ini] c x by (subst parse_block.simps)
          (auto simp: ref agrees_def parse_block.simps [of _ None] split: sum.splits)
    next
      case (Some r)
      have short: "length r < length s"
        using next_line_shorter n(1) Some by blast
      have go: "parse_block (pre @ u @ NUL # r @ NUL # post) (Some (line + int (length l) + 1)) cg ini' = Some (parse_from NUL r h ini')"
        if "length u = length l" "group_at (pre @ u @ [NUL]) cg h" for u cg h ini'
        using less.hyps [OF short _ _ that(2), of "line + int (length l) + 1" ini'] c Some that(1) less.prems(2) by simp
      show ?thesis
        using A [of "r @ NUL # post" ini] c x Some by (subst parse_block.simps)
          (auto simp: ref agrees_def go split: sum.splits)
    qed
  qed
qed

text \<open>A text that starts with a line feed: the code looks at the byte in front of the block.\<close>

lemma first_line_feed:
  assumes "hd bs = NL" and "bs \<noteq> []"
  shows "parse_block (bs @ post) (Some 0) cgroup ini = Some (Inl OutOfBounds)"
proof -
  obtain r where bs: "bs = NL # r"
    using assms by (cases bs) auto
  have "strchr (bs @ post) 0 NL = Some (Some 0)"
    using strchr_found [of NL "[]" 0 "[]" "r @ post"] bs by simp
  then have "cut_line (bs @ post) 0 = None"
    by (simp add: cut_line_def load_def)
  then show ?thesis
    using bs by (subst parse_block.simps) (simp add: load_def)
qed

lemma c_string_in_block: "\<exists>post. bs @ [NUL] = c_string bs @ NUL # post"
proof (cases "NUL \<in> set bs")
  case True
  then obtain a b where "bs = a @ NUL # b" "NUL \<notin> set a"
    by (meson split_list_first)
  then show ?thesis
    using takeWhile_before [of NUL a b] by (auto simp: c_string_def)
next
  case False
  then show ?thesis
    by (simp add: c_string_id)
qed

lemma parse_loaded:
  assumes "bs \<noteq> []" and "hd bs \<noteq> NL"
  shows "parse_block (bs @ [NUL]) (Some 0) None ini = Some (parse_from NUL (c_string bs) [] ini)"
proof -
  obtain post where post: "bs @ [NUL] = [] @ c_string bs @ NUL # post"
    using c_string_in_block by auto
  have "NUL \<notin> set (c_string bs)"
    unfolding c_string_def by (metis (mono_tags) set_takeWhileD)
  moreover have "c_string bs = [] \<or> hd (c_string bs) \<noteq> NL"
    using assms by (cases bs) (auto simp: c_string_def)
  ultimately show ?thesis
    unfolding post using parse_block_ok [of "c_string bs" 0 "[]" None "[]" post ini] by (simp add: group_at_def)
qed

lemma ini_open_in_bounds: "ini_open NUL file read_ok \<noteq> Inl OutOfBounds"
  using parse_from_in_bounds [of NUL] by (simp add: ini_open_def parse_def split: option.split)

text \<open>Property (C38): the constructor, with its pointers, always returns or exits, and goes outside the block of memory exactly when
  the file has fewer than three bytes (then \<open>memset\<close> does) or starts with a line feed (then \<open>parse\<close> reads the byte in
  front). Otherwise every access stays inside, and the result, for all texts, is that of the parser on lists.\<close>

theorem parser_stays_in_buffer:
  assumes "length bs < length garbage"
  shows "ini_open_block (Some bs) read_ok garbage =
      Some (if length bs \<le> MAX_INI_FILE_SIZE \<and> (length bs < 3 \<or> read_ok \<and> hd bs = NL) then Inl OutOfBounds
            else ini_open NUL (Some bs) read_ok)
    \<and> ini_open NUL (Some bs) read_ok \<noteq> Inl OutOfBounds"
proof (cases "length bs \<le> MAX_INI_FILE_SIZE \<and> 3 \<le> length bs")
  case False
  then show ?thesis
    using assms ini_open_in_bounds [of "Some bs" read_ok]
    by (auto simp: ini_open_block_def load_block_def Let_def parse_block.simps ini_open_def loadFile_def parse_def)
next
  case True
  let ?m = "replicate 4 NUL @ drop 4 (take (length bs + 1) garbage)"
  have m: "length ?m = length bs + 1" "bs \<noteq> []"
    using assms True by auto
  then obtain x where "drop (length bs) ?m = [x]"
    using length_drop [of "length bs" ?m] by (metis add_diff_cancel_left' length_Suc_conv length_0_conv One_nat_def)
  then have full: "load_block (Some bs) True garbage = Some (Some (bs @ [NUL]))"
    using True m assms by (simp add: load_block_def Let_def list_update_append)
  have empty: "load_block (Some bs) False garbage = Some (Some (NUL # tl ?m))"
    using True m assms by (simp add: load_block_def Let_def numeral_eq_Suc)
  show ?thesis
  proof (cases read_ok)
    case True
    then show ?thesis
      using full m(2) first_line_feed [of bs "[NUL]"] parse_loaded [of bs] ini_open_in_bounds [of "Some bs" True] \<open>length bs \<le> _ \<and> _\<close>
      by (auto simp: ini_open_block_def ini_open_def loadFile_def parse_def)
  next
    case False
    then show ?thesis
      using empty ini_open_in_bounds [of "Some bs" False] \<open>length bs \<le> _ \<and> _\<close>
      by (auto simp: ini_open_block_def parse_block.simps load_def ini_open_def loadFile_def parse_def)
  qed
qed

theorem parser_stays_in_buffer_witness:
  "ini_open_block (Some ('' k = v'' @ [CR, NL] @ ''[g]'')) True (replicate 40 CR) = Some (ini_open NUL (Some ('' k = v'' @ [CR, NL] @ ''[g]'')) True)"
  using parser_stays_in_buffer [of "'' k = v'' @ [CR, NL] @ ''[g]''" "replicate 40 CR" True]
  by (simp add: NL_def MAX_INI_FILE_SIZE_def)

end
