(* ===== verification/Connection.thy ===== *)
theory Connection
  imports Prelude
begin

text \<open>
  src/src/lib/safe_storage_connection.cpp and src/src/include/safe_storage_net.h: the server's end
  of a connection. \<open>onData\<close> collects the bytes of a non-blocking socket in a buffer and hands on
  each message when it is complete. The buffer is the bytes between \<open>dbegin\<close> and \<open>dcur\<close> and its
  size. The socket is the list of pieces in which the bytes arrive (\<open>read\<close> returns at most one)
  and what \<open>read\<close> says after the last. A \<open>read\<close> of a negative number of bytes, which the kernel takes
  for a huge one, and a store past the end of the buffer are \<open>Crash\<close>.
\<close>

subsection \<open>The protocol\<close>

definition SAFE_CMD_OPEN :: int where "SAFE_CMD_OPEN = 1"
definition SAFE_CMD_CLOSE :: int where "SAFE_CMD_CLOSE = 2"
definition SAFE_CMD_READ :: int where "SAFE_CMD_READ = 3"
definition SAFE_CMD_WRITE :: int where "SAFE_CMD_WRITE = 4"
definition SAFE_CMD_VERIFY :: int where "SAFE_CMD_VERIFY = 5"
definition SAFE_CMD_READ_LOG :: int where "SAFE_CMD_READ_LOG = 6"
definition SAFE_CMD_APPLY_LOG :: int where "SAFE_CMD_APPLY_LOG = 7"
definition SAFE_CMD_READ_LOG_REG :: int where "SAFE_CMD_READ_LOG_REG = 8"
definition SAFE_CMD_COMMIT :: int where "SAFE_CMD_COMMIT = 9"
definition SAFE_CMD_ROLLBACK :: int where "SAFE_CMD_ROLLBACK = 10"
definition SAFE_CMD_GET_PARAM :: int where "SAFE_CMD_GET_PARAM = 13"
definition SAFE_CMD_SET_PARAM :: int where "SAFE_CMD_SET_PARAM = 14"
definition SAFE_CMD_GET_INFO :: int where "SAFE_CMD_GET_INFO = 15"

lemmas safe_cmds = SAFE_CMD_OPEN_def SAFE_CMD_CLOSE_def SAFE_CMD_READ_def SAFE_CMD_WRITE_def
  SAFE_CMD_VERIFY_def SAFE_CMD_READ_LOG_def SAFE_CMD_APPLY_LOG_def SAFE_CMD_READ_LOG_REG_def
  SAFE_CMD_COMMIT_def SAFE_CMD_ROLLBACK_def SAFE_CMD_GET_PARAM_def SAFE_CMD_SET_PARAM_def
  SAFE_CMD_GET_INFO_def

definition safeCmd2String :: "int \<Rightarrow> string" where
  "safeCmd2String cmd =
     (if cmd = SAFE_CMD_OPEN then ''SAFE_CMD_OPEN''
      else if cmd = SAFE_CMD_CLOSE then ''SAFE_CMD_CLOSE''
      else if cmd = SAFE_CMD_READ then ''SAFE_CMD_READ''
      else if cmd = SAFE_CMD_WRITE then ''SAFE_CMD_WRITE''
      else if cmd = SAFE_CMD_VERIFY then ''SAFE_CMD_VERIFY''
      else if cmd = SAFE_CMD_READ_LOG then ''SAFE_CMD_READ_LOG''
      else if cmd = SAFE_CMD_READ_LOG_REG then ''SAFE_CMD_READ_LOG_REG''
      else if cmd = SAFE_CMD_COMMIT then ''SAFE_CMD_COMMIT''
      else if cmd = SAFE_CMD_ROLLBACK then ''SAFE_CMD_ROLLBACK''
      else if cmd = SAFE_CMD_GET_PARAM then ''SAFE_CMD_GET_PARAM''
      else if cmd = SAFE_CMD_SET_PARAM then ''SAFE_CMD_SET_PARAM''
      else if cmd = SAFE_CMD_APPLY_LOG then ''SAFE_CMD_APPLY_LOG''
      else if cmd = SAFE_CMD_GET_INFO then ''SAFE_CMD_GET_INFO''
      else ''SAFE_CMD_XXX'')"

definition SAFE_NET_HEADER_SIGNATURE :: u32 where "SAFE_NET_HEADER_SIGNATURE = 0x23C4B955"
definition HEADER_SIZE :: nat where "HEADER_SIZE = 16"
  \<comment> \<open>\<open>sizeof(CSAFE_NET_HEADER)\<close>\<close>

record net_header =
  hd_signature :: u32
  hd_len :: u32
  hd_flags :: u32
  hd_cmd_res :: int

definition enc_header :: "net_header \<Rightarrow> bytes" where
  "enc_header h = le_enc 4 (hd_signature h) @ le_enc 4 (hd_len h) @ le_enc 4 (hd_flags h) @ enc_i32 (hd_cmd_res h)"

definition dec_header :: "bytes \<Rightarrow> net_header" where
  "dec_header bs = \<lparr>hd_signature = le_dec (seg 0 4 bs), hd_len = le_dec (seg 4 4 bs),
     hd_flags = le_dec (seg 8 4 bs), hd_cmd_res = dec_i32 (seg 12 4 bs)\<rparr>"

definition E_CSTORAGE_OPERATION_NOT_IMPLEMENTED :: int where
  "E_CSTORAGE_OPERATION_NOT_IMPLEMENTED = - 515"

definition onRequest :: "net_header \<Rightarrow> bytes \<Rightarrow> int" where
  \<comment> \<open>no command is implemented; the cases of the source only break\<close>
  "onRequest hdr data =
     (let res = E_CSTORAGE_OPERATION_NOT_IMPLEMENTED
      in if hd_cmd_res hdr = SAFE_CMD_READ_LOG then res
         else if hd_cmd_res hdr = SAFE_CMD_GET_PARAM then res
         else if hd_cmd_res hdr = SAFE_CMD_GET_INFO then res else res)"

subsection \<open>The connection\<close>

definition BLOCK_SIZE :: nat where "BLOCK_SIZE = 4 * 1024"

record connection =
  c_buf :: bytes
  c_size :: nat

definition conn_new :: connection where
  "conn_new = \<lparr>c_buf = [], c_size = 128 * 1024\<rparr>"

definition conn_realloc :: "nat \<Rightarrow> connection \<Rightarrow> connection" where
  "conn_realloc n c =
     (if c_size c \<ge> n then c
      else c\<lparr>c_size := (n div BLOCK_SIZE + (if n mod BLOCK_SIZE \<noteq> 0 then 1 else 0)) * BLOCK_SIZE\<rparr>)"

datatype sock_end = Would_block | Closed

text \<open>\<open>dmax\<close>: how many bytes are missing, up to the end of the header or of the message.\<close>

definition missing :: "bytes \<Rightarrow> int" where
  "missing buf =
     (if length buf < HEADER_SIZE then int HEADER_SIZE - int (length buf)
      else i32 (uint (hd_len (dec_header buf)) - int (length buf)))"

definition sock_read :: "nat \<Rightarrow> bytes list \<Rightarrow> bytes \<times> bytes list" where
  \<comment> \<open>up to \<open>n\<close> bytes of the next piece\<close>
  "sock_read n segs =
     (case dropWhile (\<lambda>s. s = []) segs of [] \<Rightarrow> ([], []) | s # segs \<Rightarrow> (take n s, drop n s # segs))"

lemma sock_read_shorter:
  "sock_read n segs = (got, segs') \<Longrightarrow> got \<noteq> [] \<Longrightarrow> length (concat segs) = length got + length (concat segs')"
proof (induction segs)
  case Nil
  then show ?case by (simp add: sock_read_def)
next
  case (Cons s segs)
  show ?case
  proof (cases "s = []")
    case True
    then show ?thesis
      using Cons by (simp add: sock_read_def)
  next
    case False
    then have "got = take n s" "segs' = drop n s # segs"
      using Cons.prems(1) by (simp_all add: sock_read_def)
    then show ?thesis
      by (simp add: min_def)
  qed
qed

text \<open>The loop of \<open>onData\<close>; \<open>reqs\<close> are the messages handed to \<open>onRequest\<close> so far.\<close>

function onData_loop ::
  "connection \<Rightarrow> bytes list \<Rightarrow> sock_end \<Rightarrow> (net_header \<times> bytes) list
     \<Rightarrow> outcome \<times> connection \<times> (net_header \<times> bytes) list" where
  "onData_loop c segs e reqs =
     (let dmax = missing (c_buf c);
          dread = length (c_buf c);
          c = (if int dread + dmax > int (c_size c) then conn_realloc (nat (int dread + dmax)) c else c)
      in if dmax = 0
         then onData_loop (c\<lparr>c_buf := []\<rparr>) segs e
                (reqs @ [(dec_header (c_buf c), drop HEADER_SIZE (c_buf c))])
         else if dmax < 0 then (Crash, c, reqs)
         else (let (got, segs') = sock_read (nat dmax) segs
               in if got \<noteq> []
                  then (if dread + length got > c_size c then (Crash, c, reqs)
                        else onData_loop (c\<lparr>c_buf := c_buf c @ got\<rparr>) segs' e reqs)
                  else ((if e = Would_block then Ret 0 else Ret (- 1)), c, reqs)))"
  by pat_completeness auto
termination
proof (relation "measure (\<lambda>(c, segs, e, r). 2 * length (concat segs) + (if c_buf c = [] then 0 else 1))",
    goal_cases)
  case (2 c segs e reqs dmax dread c')
  then show ?case
    by (auto simp: missing_def HEADER_SIZE_def conn_realloc_def split: if_splits)
next
  case (3 c segs e reqs dmax dread c' x got segs')
  then have "length (concat segs) = length got + length (concat segs')" "got \<noteq> []"
    using sock_read_shorter by metis+
  moreover from this have "0 < length got"
    by simp
  ultimately show ?case
    by (simp del: length_greater_0_conv)
qed simp

declare onData_loop.simps [simp del]

definition onData ::
  "connection \<Rightarrow> bytes list \<Rightarrow> sock_end \<Rightarrow> outcome \<times> connection \<times> (net_header \<times> bytes) list" where
  "onData c segs e = onData_loop c segs e []"

end
