(* ===== verification/Log.thy ===== *)
theory Log
  imports Prelude
begin

text \<open>
  src/src/base/log.cpp and exception.cpp: the level of the log, the buffers of hexadecimal text that
  live until the next message, the head of a message, and the text of an exception. What \<open>vprintf\<close>
  makes of the caller's format is an argument.
\<close>

subsection \<open>The log\<close>

definition C_LOG_LEVEL :: int where "C_LOG_LEVEL = 8"
definition C_LOG_RUN_LEVEL :: int where "C_LOG_RUN_LEVEL = 0"

record logger =
  runtime_level :: int
  tmp_data :: "bytes list"

definition logger_new :: logger where
  "logger_new = \<lparr>runtime_level = C_LOG_RUN_LEVEL, tmp_data = []\<rparr>"

definition c_log_set_level :: "int \<Rightarrow> logger \<Rightarrow> int \<times> logger" where
  "c_log_set_level level l =
     (let level = (if level < 0 then 0 else level);
          level = (if level > C_LOG_LEVEL then C_LOG_LEVEL else level)
      in (level, l\<lparr>runtime_level := level\<rparr>))"

definition c_log_get_level :: "logger \<Rightarrow> int" where
  "c_log_get_level l = runtime_level l"

definition c_log_clear :: "logger \<Rightarrow> logger" where
  "c_log_clear l = l\<lparr>tmp_data := []\<rparr>"

text \<open>\<open>(c >> 4) & 0x0F\<close> and \<open>c & 0x0F\<close> on an \<open>int8_t\<close>, and the digit in the table.\<close>

definition hex :: string where "hex = ''0123456789ABCDEF''"

definition high_digit :: "byte \<Rightarrow> byte" where
  "high_digit b = of_char (hex ! nat (drop_bit 4 (sint b) AND 15))"

definition low_digit :: "byte \<Rightarrow> byte" where
  "low_digit b = of_char (hex ! nat (sint b AND 15))"

fun hex_loop :: "bytes \<Rightarrow> nat \<Rightarrow> bytes option" where
  \<comment> \<open>the loop of \<open>c_log_data2hex\<close> from \<open>cdata\<close> on; \<open>None\<close> is a read past the end of the data\<close>
  "hex_loop cdata 0 = Some []"
| "hex_loop [] (Suc n) = None"
| "hex_loop (b # cdata) (Suc n) = map_option (\<lambda>out. high_digit b # low_digit b # out) (hex_loop cdata n)"

definition c_log_data2hex :: "bytes \<Rightarrow> nat \<Rightarrow> nat \<Rightarrow> bool \<Rightarrow> logger \<Rightarrow> (bytes \<times> logger) option" where
  \<comment> \<open>the result is what the buffer of \<open>len * 2 + 1\<close> bytes has been filled with\<close>
  "c_log_data2hex data off len null_at_end l =
     (case hex_loop (drop off data) len of
        None \<Rightarrow> None
      | Some out \<Rightarrow>
          (let hdata = (if null_at_end then out @ [0] else out)
           in Some (hdata, l\<lparr>tmp_data := tmp_data l @ [hdata]\<rparr>)))"

fun show_nat :: "nat \<Rightarrow> string" where
  "show_nat n = (if n < 10 then [hex ! n] else show_nat (n div 10) @ [hex ! (n mod 10)])"

declare show_nat.simps [simp del]

definition show_int :: "int \<Rightarrow> string" where
  \<comment> \<open>\<open>%d\<close>\<close>
  "show_int i = (if i < 0 then CHR ''-'' # show_nat (nat (- i)) else show_nat (nat i))"

definition base_name :: "string \<Rightarrow> string" where
  \<comment> \<open>what follows the last slash, found with \<open>strrchr\<close>\<close>
  "base_name filename =
     (if CHR ''/'' \<in> set filename then rev (takeWhile (\<lambda>c. c \<noteq> CHR ''/'') (rev filename)) else filename)"

definition log_color :: "int \<Rightarrow> int" where
  "log_color level = [31, 33, 34, 35, 32] ! nat (if level \<le> 4 then (if level < 0 then 0 else level) else 4)"

definition c_log_message :: "int \<Rightarrow> string \<Rightarrow> int \<Rightarrow> string \<Rightarrow> string \<Rightarrow> logger \<Rightarrow> string \<times> logger" where
  \<comment> \<open>the text printed; \<open>message\<close> is what the format and its arguments give\<close>
  "c_log_message level filename line funcname message l =
     ([CHR 0x1B, CHR ''[''] @ show_int (log_color level) @ ''m['' @ show_int level @ '' '' @ base_name filename
        @ '':'' @ show_int line @ '' '' @ funcname @ ''] '' @ message @ [CHR 0x1B] @ ''[0m'' @ [CHR 0x0A],
      c_log_clear l)"

definition C_LOG_MESSAGE ::
  "int \<Rightarrow> string \<Rightarrow> int \<Rightarrow> string \<Rightarrow> string \<Rightarrow> logger \<Rightarrow> string \<times> logger" where
  "C_LOG_MESSAGE level filename line funcname message l =
     (if runtime_level l > level then c_log_message level filename line funcname message l else ([], l))"

text \<open>\<open>C_LOG_DEBUG_ENABLED\<close> and its likes; they guard the making of hexadecimal text.\<close>

definition C_LOG_ENABLED :: "int \<Rightarrow> logger \<Rightarrow> bool" where
  "C_LOG_ENABLED level l \<longleftrightarrow> runtime_level l \<ge> level"

text \<open>At the level itself the text is made, but the message is not, so nothing frees it.\<close>

lemma enabled_without_message:
  "runtime_level l = level \<Longrightarrow> C_LOG_ENABLED level l \<and> C_LOG_MESSAGE level file line func msg l = ([], l)"
  by (simp add: C_LOG_ENABLED_def C_LOG_MESSAGE_def)

subsection \<open>\<open>strbacktrace\<close>\<close>

text \<open>
  \<open>symbols\<close> are the strings that \<open>backtrace_symbols\<close> makes of the stack, from the caller outwards. Each is cut at
  the address in brackets and at the bracket of the function, in place, so that the next one is compared
  with what is left of it; \<open>prev\<close> is the one before, if that had an address.
\<close>

definition upto :: "char \<Rightarrow> string \<Rightarrow> string" where
  "upto c s = takeWhile (\<lambda>x. x \<noteq> c) s"

definition strncat :: "string \<Rightarrow> string \<Rightarrow> nat \<Rightarrow> string" where
  "strncat dest src n = dest @ take n src"

fun backtrace_loop :: "nat \<Rightarrow> string option \<Rightarrow> bool \<Rightarrow> string list \<Rightarrow> string \<Rightarrow> string" where
  "backtrace_loop dlen prev first [] data = data"
| "backtrace_loop dlen prev first (s # ss) data =
     (let data = (if first then data else strncat data '' '' dlen)
      in if CHR ''['' \<notin> set s
         then backtrace_loop dlen None False ss (strncat data (upto CHR ''('' s) dlen)
         else (let pos = upto (CHR '']'') (drop (length (upto CHR ''['' s) + 1) s);
                   name = upto CHR ''('' (upto CHR ''['' s);
                   data = (if prev = None \<or> prev \<noteq> Some name
                           then strncat (strncat data name dlen) '' '' dlen else data)
               in backtrace_loop dlen (Some name) False ss (strncat data pos dlen)))"

definition strbacktrace :: "nat \<Rightarrow> nat option \<Rightarrow> string list \<Rightarrow> string" where
  \<comment> \<open>\<open>levels\<close>, and the size of the caller's buffer if it has one; the text of the static buffer otherwise\<close>
  "strbacktrace levels dlen symbols =
     backtrace_loop (case dlen of None \<Rightarrow> 1022 | Some n \<Rightarrow> if n = 0 then 2 ^ 32 - 1 else n - 1) None True
       (take (if levels > 64 then 64 else levels) symbols) []"

text \<open>The bound is one for each piece, not for all of them: the static buffer of 1024 bytes may overflow.\<close>

lemma strbacktrace_overflows: "1024 < length (strbacktrace 2 None [replicate 1000 CHR ''x'', replicate 1000 CHR ''x''])"
  by (simp add: strbacktrace_def Let_def strncat_def upto_def takeWhile_eq_all_conv [THEN iffD2] numeral_2_eq_2)

subsection \<open>Exceptions\<close>

record exc =
  x_message :: string
  x_message_pos :: int
  x_file :: string
  x_line :: int
  x_result :: int

text \<open>
  \<open>init\<close>: \<open>text\<close> is what the format of the caller gives, \<open>None\<close> without a format. The buffer has 16
  bytes more than both parts need.
\<close>

definition exc_init :: "string \<Rightarrow> int \<Rightarrow> int option \<Rightarrow> string \<Rightarrow> string option \<Rightarrow> exc" where
  "exc_init file line result ref txt =
     \<lparr>x_message = ref @ (case txt of None \<Rightarrow> [] | Some t \<Rightarrow> t), x_message_pos = int (length ref),
      x_file = file, x_line = line, x_result = (case result of None \<Rightarrow> 0 | Some r \<Rightarrow> r)\<rparr>"

text \<open>The private \<open>init\<close> without a file, which keeps the file and the line; without a result \<open>snprintf\<close> gets
  the wrong arguments.\<close>

definition exc_init_private :: "int option \<Rightarrow> string \<Rightarrow> exc \<Rightarrow> exc option" where
  "exc_init_private result txt e =
     map_option (\<lambda>r. exc_init (x_file e) (x_line e) (Some r)
       (''[E:'' @ show_int r @ '' '' @ x_file e @ '':'' @ show_int (x_line e) @ ''] '') (Some txt)) result"

definition exc_plain :: "string \<Rightarrow> int \<Rightarrow> exc" where
  "exc_plain file line =
     \<lparr>x_message = [], x_message_pos = 0, x_file = file, x_line = line, x_result = 0\<rparr>"

definition exc_text :: "string \<Rightarrow> int \<Rightarrow> string \<Rightarrow> exc" where
  "exc_text file line txt =
     exc_init file line None (''['' @ file @ '':'' @ show_int line @ ''] '') (Some txt)"

definition exc_result_text :: "string \<Rightarrow> int \<Rightarrow> int \<Rightarrow> string \<Rightarrow> exc" where
  "exc_result_text file line result txt =
     exc_init file line (Some result)
       (''[E:'' @ show_int result @ '' '' @ file @ '':'' @ show_int line @ ''] '') (Some txt)"

definition exc_result :: "string \<Rightarrow> int \<Rightarrow> int \<Rightarrow> exc" where
  "exc_result file line result =
     exc_init file line (Some result) (''[E:'' @ show_int result @ '' '' @ file @ '':'' @ show_int line @ '']'') None"

definition getMessage :: "exc \<Rightarrow> string" where
  "getMessage e =
     (if x_message_pos e > 0 \<and> x_message_pos e < int (length (x_message e))
      then drop (nat (x_message_pos e)) (x_message e) else x_message e)"

definition getResult :: "exc \<Rightarrow> int" where "getResult e = x_result e"

text \<open>\<open>CEXP_SYS\<close> does not use its argument, \<open>CEXP_CODE_SYS\<close> does; \<open>err\<close> is the text for \<open>errno\<close>.\<close>

definition CEXP_SYS :: "int \<Rightarrow> string \<Rightarrow> int \<Rightarrow> string \<Rightarrow> exc" where
  "CEXP_SYS code file line err = exc_text file line err"

definition CEXP_CODE_SYS :: "int \<Rightarrow> string \<Rightarrow> int \<Rightarrow> string \<Rightarrow> exc" where
  "CEXP_CODE_SYS code file line err = exc_result_text file line code err"

lemma CEXP_SYS_result [simp]: "getResult (CEXP_SYS code file line err) = 0"
  by (simp add: CEXP_SYS_def exc_text_def exc_init_def getResult_def)

lemma CEXP_CODE_SYS_result: "getResult (CEXP_CODE_SYS code file line err) = code"
  by (simp add: CEXP_CODE_SYS_def exc_result_text_def exc_init_def getResult_def)

end
