(* ===== verification/Listener.thy ===== *)
theory Listener
  imports Connection Log
begin

text \<open>
  src/src/lib/safe_storage_listener.cpp: the server's listening thread. The connections are objects
  on the heap; the table \<open>connections\<close> and the cached \<open>lastConnection\<close> hold their addresses, here
  positions of the list \<open>objects\<close>. What the kernel decides is part of an event: the results of
  \<open>accept\<close>, \<open>fcntl\<close> and \<open>epoll_ctl\<close>, and the bytes that \<open>read\<close> finds. \<open>closed\<close> and \<open>requests\<close> record
  what the thread has done: the descriptors it closed and the messages given to \<open>onRequest\<close>.
\<close>

definition E_CSTORAGE_OPEN_LISTEN :: int where "E_CSTORAGE_OPEN_LISTEN = - 1100"
definition O_NONBLOCK :: int where "O_NONBLOCK = 2048"

record listener =
  sfd :: int
  lastFd :: int
  lastConnection :: "nat option"
  connections :: "int \<rightharpoonup> nat"
  objects :: "(int \<times> connection) list"
  closed :: "int list"
  requests :: "(int \<times> net_header \<times> bytes) list"

definition close_fd :: "int \<Rightarrow> listener \<Rightarrow> listener" where
  "close_fd fd l = l\<lparr>closed := closed l @ [fd]\<rparr>"

subsection \<open>Opening the port\<close>

definition setFdFlags :: "int \<Rightarrow> bool \<Rightarrow> int \<Rightarrow> int" where
  \<comment> \<open>\<open>fl\<close>: what \<open>F_GETFL\<close> returns; \<open>set_ok\<close>: whether \<open>F_SETFL\<close> of \<open>fl | flags\<close> succeeds\<close>
  "setFdFlags fl set_ok flags = (if fl < 0 then - 1 else if \<not> set_ok then - 1 else 0)"

text \<open>\<open>CEXP_SYS\<close> of exception.h does not use its argument: the exception has no result.\<close>

definition exc_sys :: "int \<Rightarrow> int" where
  "exc_sys e = getResult (CEXP_SYS e ''safe_storage_listener.cpp'' 137 [])"

text \<open>What the kernel answers while a port is opened.\<close>

record port_results =
  p_socket :: int
  p_getfl :: int
  p_setfl :: bool
  p_bind :: int

definition openTcpPort :: "port_results \<Rightarrow> listener \<Rightarrow> int \<times> listener" where
  "openTcpPort k l =
     (let l = l\<lparr>sfd := p_socket k\<rparr>;
          failed = (\<lambda>l. (exc_sys E_CSTORAGE_OPEN_LISTEN, (if sfd l \<ge> 0 then close_fd (sfd l) l else l)\<lparr>sfd := - 1\<rparr>))
      in if sfd l < 0 then failed l
         else if setFdFlags (p_getfl k) (p_setfl k) O_NONBLOCK \<noteq> 0 then failed l
         else if p_bind k < 0 then failed l
         else (0, l))"

definition initListener :: "port_results \<Rightarrow> listener \<Rightarrow> listener" where
  \<comment> \<open>the port number is used in \<open>bind\<close> only; the result of \<open>openTcpPort\<close> is ignored\<close>
  "initListener k l = snd (openTcpPort k l)"

definition listener_new :: "port_results \<Rightarrow> listener" where
  "listener_new k =
     initListener k
       \<lparr>sfd = - 1, lastFd = - 1, lastConnection = None, connections = Map.empty, objects = [],
        closed = [], requests = []\<rparr>"

subsection \<open>The table of connections\<close>

definition getConnection :: "int \<Rightarrow> listener \<Rightarrow> nat option" where
  "getConnection fd l =
     (if lastFd l = fd then lastConnection l
      else (case connections l fd of None \<Rightarrow> None | Some p \<Rightarrow> Some p))"

definition createConnection :: "int \<Rightarrow> listener \<Rightarrow> nat \<times> listener" where
  "createConnection fd l = (length (objects l), l\<lparr>objects := objects l @ [(fd, conn_new)]\<rparr>)"

definition addConnection :: "int \<Rightarrow> listener \<Rightarrow> nat \<times> listener" where
  "addConnection fd l =
     (case connections l fd of
        Some p \<Rightarrow> (p, l)
      | None \<Rightarrow>
          (let (p, l) = createConnection fd l
           in (p, l\<lparr>connections := (connections l)(fd \<mapsto> p), lastFd := fd, lastConnection := Some p\<rparr>)))"

subsection \<open>Events\<close>

record accepted =
  a_fd :: int
  a_getfl :: int
  a_setfl :: bool
  a_watched :: bool
    \<comment> \<open>whether \<open>epoll_ctl\<close> accepts the descriptor\<close>

fun doListenEvent :: "accepted list \<Rightarrow> listener \<Rightarrow> listener" where
  \<comment> \<open>\<open>accept\<close> returns -1 when the list is empty\<close>
  "doListenEvent [] l = l"
| "doListenEvent (a # accs) l =
     (if setFdFlags (a_getfl a) (a_setfl a) O_NONBLOCK < 0
      then doListenEvent accs (close_fd (a_fd a) l)
      else (let l = (if \<not> a_watched a then close_fd (a_fd a) l else l)
            in doListenEvent accs (snd (addConnection (a_fd a) l))))"

definition doDataEvent :: "int \<Rightarrow> bytes list \<Rightarrow> sock_end \<Rightarrow> listener \<Rightarrow> outcome \<times> listener" where
  "doDataEvent fd segs e l =
     (case getConnection fd l of
        None \<Rightarrow> (Crash, l)
      | Some p \<Rightarrow>
          (let (out, c, ms) = onData (snd (objects l ! p)) segs e;
               l = l\<lparr>objects := (objects l)[p := (fst (objects l ! p), c)],
                     requests := requests l @ map (Pair (fst (objects l ! p))) ms\<rparr>
           in (if out = Crash then Crash else Ret 0, l)))"

record epoll_event =
  ev_fd :: int
  ev_error :: bool
    \<comment> \<open>\<open>EPOLLERR\<close> or \<open>EPOLLHUP\<close>\<close>
  ev_in :: bool
  ev_accepts :: "accepted list"
  ev_segs :: "bytes list"
  ev_end :: sock_end

definition run_event :: "epoll_event \<Rightarrow> listener \<Rightarrow> outcome \<times> listener" where
  "run_event ev l =
     (if ev_error ev \<or> \<not> ev_in ev then (Ret 0, close_fd (ev_fd ev) l)
      else if sfd l = ev_fd ev then (Ret 0, doListenEvent (ev_accepts ev) l)
      else doDataEvent (ev_fd ev) (ev_segs ev) (ev_end ev) l)"

fun run :: "epoll_event list \<Rightarrow> listener \<Rightarrow> outcome \<times> listener" where
  \<comment> \<open>the thread over the events that \<open>epoll_wait\<close> has returned so far\<close>
  "run [] l = (Ret 0, l)"
| "run (ev # evs) l = (case run_event ev l of (Ret _, l) \<Rightarrow> run evs l | r \<Rightarrow> r)"

end
