(* ===== verification/Connection_Props.thy ===== *)
theory Connection_Props
  imports Connection
begin

text \<open>
  The messages that \<open>onData\<close> hands on depend on the bytes received only, not on the pieces in
  which they arrive: \<open>deframe\<close> is the reference that cuts the stream of bytes into messages.
\<close>

subsection \<open>The reference\<close>

definition frame_len :: "bytes \<Rightarrow> nat" where
  "frame_len bs = unat (hd_len (dec_header bs))"

definition len_ok :: "nat \<Rightarrow> bool" where
  "len_ok n \<longleftrightarrow> HEADER_SIZE \<le> n \<and> n < 2 ^ 31 + HEADER_SIZE"

function deframe :: "bytes \<Rightarrow> bytes list \<times> bytes option" where
  "deframe bs =
     (if length bs < HEADER_SIZE then ([], Some bs)
      else if \<not> len_ok (frame_len bs) then ([], None)
      else if length bs < frame_len bs then ([], Some bs)
      else (let (ms, r) = deframe (drop (frame_len bs) bs) in (take (frame_len bs) bs # ms, r)))"
  by pat_completeness auto
termination
  by (relation "measure length") (auto simp: len_ok_def HEADER_SIZE_def)

declare deframe.simps [simp del]

definition split_frame :: "bytes \<Rightarrow> net_header \<times> bytes" where
  "split_frame m = (dec_header m, drop HEADER_SIZE m)"

subsection \<open>The loop\<close>

lemma dec_header_append: "HEADER_SIZE \<le> length xs \<Longrightarrow> dec_header (xs @ ys) = dec_header xs"
  by (simp add: dec_header_def HEADER_SIZE_def seg_append_left)

lemma frame_len_append: "HEADER_SIZE \<le> length xs \<Longrightarrow> frame_len (xs @ ys) = frame_len xs"
  by (simp add: frame_len_def dec_header_append)

lemma frame_len_less: "frame_len bs < 2 ^ 32"
  using unsigned_less [of "hd_len (dec_header bs)"] by (simp add: frame_len_def)

lemma missing_frame:
  "missing buf = (if length buf < HEADER_SIZE then int HEADER_SIZE - int (length buf)
                  else i32 (int (frame_len buf) - int (length buf)))"
  by (simp add: missing_def frame_len_def)

lemma i32_wrap: "2 ^ 31 \<le> x \<Longrightarrow> x < 2 ^ 32 \<Longrightarrow> i32 x < 0"
proof -
  assume a: "2 ^ 31 \<le> x" "x < 2 ^ 32"
  have "(x + 2 ^ 31) mod 2 ^ 32 = (x - 2 ^ 31) mod (2 ^ 32 :: int)"
    using mod_add_self2 [of "x - 2 ^ 31" "2 ^ 32"] by (simp add: add.commute)
  also have "\<dots> = x - 2 ^ 31"
    using a by (intro mod_pos_pos_trivial) simp_all
  finally show ?thesis
    using a by (simp add: i32_def signed_take_bit_eq_take_bit_shift take_bit_eq_mod)
qed

lemma i32_mid: "- (2 ^ 31) \<le> x \<Longrightarrow> x < 2 ^ 31 \<Longrightarrow> i32 x = x"
  by (rule i32_id) (simp add: is_i32_def)

lemma concat_dropWhile_Nil: "concat (dropWhile (\<lambda>s. s = []) segs) = concat segs"
  by (induction segs) simp_all

lemma sock_read_split:
  assumes "sock_read n segs = (got, segs')"
  shows "concat segs = got @ concat segs' \<and> length got \<le> n \<and> (0 < n \<longrightarrow> got = [] \<longrightarrow> concat segs = [])"
proof (cases "dropWhile (\<lambda>s. s = []) segs")
  case Nil
  then have "got = []" "segs' = []" "concat segs = []"
    using assms concat_dropWhile_Nil [of segs]
    by (simp_all add: sock_read_def del: dropWhile_eq_Nil_conv)
  then show ?thesis
    by simp
next
  case (Cons s ss)
  moreover have "s \<noteq> []"
    using Cons hd_dropWhile [of "\<lambda>s. s = []" segs] by simp
  ultimately have "got = take n s" "segs' = drop n s # ss" "concat segs = s @ concat ss" "s \<noteq> []"
    using assms concat_dropWhile_Nil [of segs] by (simp_all add: sock_read_def)
  then show ?thesis
    by simp
qed

lemma rounded_up: "(n :: nat) = q * b + r \<Longrightarrow> r < b \<Longrightarrow> n \<le> q * b + (if r \<noteq> 0 then b else 0)"
  by simp

lemma conn_realloc_enough: "n \<le> c_size (conn_realloc n c)"
proof (cases "n \<le> c_size c")
  case False
  have "n = n div BLOCK_SIZE * BLOCK_SIZE + n mod BLOCK_SIZE" "n mod BLOCK_SIZE < BLOCK_SIZE"
    by (simp_all only: div_mult_mod_eq) (simp add: BLOCK_SIZE_def)
  moreover have "c_size (conn_realloc n c) =
      n div BLOCK_SIZE * BLOCK_SIZE + (if n mod BLOCK_SIZE \<noteq> 0 then BLOCK_SIZE else 0)"
    using False by (simp add: conn_realloc_def distrib_right)
  ultimately show ?thesis
    using rounded_up [of n "n div BLOCK_SIZE" BLOCK_SIZE "n mod BLOCK_SIZE"] by presburger
qed (simp add: conn_realloc_def)

lemma conn_realloc_buf [simp]: "c_buf (conn_realloc n c) = c_buf c"
  by (simp add: conn_realloc_def)

definition part :: "bytes \<Rightarrow> bool" where
  \<comment> \<open>what the buffer holds between two reads\<close>
  "part b \<longleftrightarrow> length b \<le> HEADER_SIZE \<or> (len_ok (frame_len b) \<and> length b \<le> frame_len b)"

lemma missing_cases:
  assumes "part b"
  obtains (header) "length b < HEADER_SIZE" "missing b = int HEADER_SIZE - int (length b)"
  | (body) "HEADER_SIZE \<le> length b" "len_ok (frame_len b)" "length b \<le> frame_len b"
      "missing b = int (frame_len b) - int (length b)"
  | (bad) "length b = HEADER_SIZE" "\<not> len_ok (frame_len b)" "missing b < 0"
proof -
  let ?d = "int (frame_len b) - int (length b)"
  consider "length b < HEADER_SIZE" | "HEADER_SIZE \<le> length b" "len_ok (frame_len b)"
    | "HEADER_SIZE \<le> length b" "\<not> len_ok (frame_len b)"
    by linarith
  then show thesis
  proof cases
    case 1
    then show thesis
      using header by (simp add: missing_frame)
  next
    case 2
    then have "length b \<le> frame_len b" "i32 ?d = ?d"
      using assms frame_len_less [of b]
      by (auto simp: part_def len_ok_def HEADER_SIZE_def intro!: i32_mid)
    then show thesis
      using body 2 by (simp add: missing_frame)
  next
    case 3
    then have len: "length b = 16"
      using assms by (simp add: part_def HEADER_SIZE_def)
    have "i32 ?d < 0"
    proof (cases "frame_len b < 16")
      case True
      then show ?thesis
        using i32_mid [of ?d] len by simp
    next
      case False
      then show ?thesis
        using i32_wrap [of ?d] 3 len frame_len_less [of b] by (simp add: len_ok_def HEADER_SIZE_def)
    qed
    then show thesis
      using bad 3 len by (simp add: missing_frame HEADER_SIZE_def)
  qed
qed

lemma part_append:
  assumes "part b" "length got \<le> nat (missing b)"
  shows "part (b @ got)"
  using assms(1)
proof (cases rule: missing_cases)
  case header
  then show ?thesis
    using assms(2) by (auto simp: part_def)
next
  case body
  then show ?thesis
    using assms(2) by (auto simp: part_def frame_len_append)
next
  case bad
  then show ?thesis
    using assms by simp
qed

definition sock_result :: "sock_end \<Rightarrow> outcome" where
  "sock_result e = (if e = Would_block then Ret 0 else Ret (- 1))"

definition delivers :: "connection \<Rightarrow> bytes list \<Rightarrow> sock_end \<Rightarrow> (net_header \<times> bytes) list
    \<Rightarrow> outcome \<times> connection \<times> (net_header \<times> bytes) list \<Rightarrow> bool" where
  \<comment> \<open>a result of \<open>onData\<close> is what \<open>deframe\<close> makes of the buffer and the bytes received\<close>
  "delivers c segs e reqs r \<longleftrightarrow>
     (case deframe (c_buf c @ concat segs) of
        (ms, None) \<Rightarrow> fst r = Crash \<and> snd (snd r) = reqs @ map split_frame ms
      | (ms, Some rest) \<Rightarrow> fst r = sock_result e \<and> c_buf (fst (snd r)) = rest
          \<and> length rest \<le> c_size (fst (snd r)) \<and> snd (snd r) = reqs @ map split_frame ms)"

lemma deframe_message:
  "HEADER_SIZE \<le> length b \<Longrightarrow> len_ok (length b) \<Longrightarrow> length b = frame_len b \<Longrightarrow>
     deframe (b @ xs) = (b # fst (deframe xs), snd (deframe xs))"
  by (subst deframe.simps) (simp add: frame_len_append split: prod.splits)

lemma deframe_bad:
  "HEADER_SIZE \<le> length b \<Longrightarrow> \<not> len_ok (frame_len b) \<Longrightarrow> deframe (b @ xs) = ([], None)"
  by (subst deframe.simps) (simp add: frame_len_append)

lemma deframe_part:
  "part b \<Longrightarrow> 0 < missing b \<Longrightarrow> deframe b = ([], Some b)"
  by (subst deframe.simps) (auto elim!: missing_cases)

lemma onData_loop_delivers:
  assumes "part (c_buf c)" "length (c_buf c) \<le> c_size c"
  shows "delivers c segs e reqs (onData_loop c segs e reqs)"
  using assms
proof (induction c segs e reqs rule: onData_loop.induct)
  case (1 c segs e reqs)
  let ?b = "c_buf c"
  define c1 where "c1 = (if int (length ?b) + missing ?b > int (c_size c)
     then conn_realloc (nat (int (length ?b) + missing ?b)) c else c)"
  have c1: "c_buf c1 = ?b" "length ?b \<le> c_size c1" "int (length ?b) + missing ?b \<le> int (c_size c1)"
    using 1 conn_realloc_enough [of "nat (int (length ?b) + missing ?b)" c]
    by (auto simp: c1_def)
  consider (zero) "missing ?b = 0" | (neg) "missing ?b < 0" | (pos) "0 < missing ?b"
    by linarith
  then show ?case
  proof cases
    case zero
    then have b: "HEADER_SIZE \<le> length ?b" "len_ok (length ?b)" "length ?b = frame_len ?b"
      using zero by (rule_tac missing_cases [OF 1(3)]; simp add: HEADER_SIZE_def)+
    have step: "onData_loop c segs e reqs = onData_loop (c1\<lparr>c_buf := []\<rparr>) segs e (reqs @ [split_frame ?b])"
      using zero by (subst onData_loop.simps) (simp add: c1_def Let_def split_frame_def)
    have "delivers (c1\<lparr>c_buf := []\<rparr>) segs e (reqs @ [split_frame ?b])
        (onData_loop (c1\<lparr>c_buf := []\<rparr>) segs e (reqs @ [split_frame ?b]))"
      using 1(1) [OF refl refl c1_def zero] by (simp add: part_def c1 split_frame_def)
    then show ?thesis
      using deframe_message [OF b] by (auto simp: step delivers_def split: prod.splits option.splits)
  next
    case neg
    have "onData_loop c segs e reqs = (Crash, c1, reqs)"
      using neg by (subst onData_loop.simps) (simp add: c1_def Let_def)
    moreover have "deframe (?b @ concat segs) = ([], None)"
      using neg by (intro deframe_bad; rule_tac missing_cases [OF 1(3)]; simp)
    ultimately show ?thesis
      by (simp add: delivers_def)
  next
    case pos
    obtain got segs' where g: "sock_read (nat (missing ?b)) segs = (got, segs')"
      by fastforce
    have sp: "concat segs = got @ concat segs'" "length got \<le> nat (missing ?b)"
        "got = [] \<longrightarrow> concat segs = []"
      using sock_read_split [OF g] pos by (metis zero_less_nat_eq)+
    show ?thesis
    proof (cases "got = []")
      case True
      have "onData_loop c segs e reqs = (sock_result e, c1, reqs)"
        using pos True g by (subst onData_loop.simps) (simp add: sock_result_def c1_def [symmetric] Let_def)
      moreover have "deframe (?b @ concat segs) = ([], Some ?b)"
        using deframe_part [OF 1(3) pos] sp(3) True by (metis append_Nil2)
      ultimately show ?thesis
        using c1(2) by (simp add: delivers_def c1(1))
    next
      case False
      let ?c = "c1\<lparr>c_buf := ?b @ got\<rparr>"
      have fits: "length ?b + length got \<le> c_size c1"
        using c1(3) sp(2) pos by linarith
      have step: "onData_loop c segs e reqs = onData_loop ?c segs' e reqs"
        using pos False g fits
        by (subst onData_loop.simps) (simp add: c1_def [symmetric] Let_def c1(1))
      have "delivers ?c segs' e reqs (onData_loop ?c segs' e reqs)"
        using 1(2) [OF refl refl c1_def _ _ g [symmetric] refl False] pos fits part_append [OF 1(3) sp(2)]
        by (simp add: c1(1))
      then show ?thesis
        by (simp add: step delivers_def sp(1) split: prod.splits option.splits)
    qed
  qed
qed

subsection \<open>Events\<close>

text \<open>The server calls \<open>onData\<close> once for each event of the socket and ignores what it returns.\<close>

fun onDatas :: "connection \<Rightarrow> (bytes list \<times> sock_end) list \<Rightarrow> outcome \<times> connection \<times> (net_header \<times> bytes) list" where
  "onDatas c [] = (Ret 0, c, [])"
| "onDatas c ((segs, e) # events) =
     (let (out, c, ms) = onData c segs e
      in if out = Crash then (Crash, c, ms)
         else (let (out, c, ms') = onDatas c events in (out, c, ms @ ms')))"

definition frame :: "net_header \<times> bytes \<Rightarrow> bytes" where
  "frame m = enc_header (fst m) @ snd m"

definition well_framed :: "net_header \<times> bytes \<Rightarrow> bool" where
  "well_framed m \<longleftrightarrow> is_i32 (hd_cmd_res (fst m)) \<and> length (snd m) < 2 ^ 31
     \<and> unat (hd_len (fst m)) = HEADER_SIZE + length (snd m)"

definition incomplete :: "bytes \<Rightarrow> bool" where
  \<comment> \<open>the beginning of a message\<close>
  "incomplete b \<longleftrightarrow> length b < HEADER_SIZE \<or> (len_ok (frame_len b) \<and> length b < frame_len b)"

lemma length_enc_header [simp]: "length (enc_header h) = HEADER_SIZE"
  by (simp add: enc_header_def HEADER_SIZE_def)

lemma dec_enc_header: "is_i32 (hd_cmd_res h) \<Longrightarrow> dec_header (enc_header h @ d) = h"
  by (simp add: enc_header_def dec_header_def seg_def le_dec_le_enc_full dec_enc_i32)

lemma deframe_frame:
  assumes "well_framed m"
  shows "deframe (frame m @ xs) = (frame m # fst (deframe xs), snd (deframe xs))"
    and "split_frame (frame m) = m"
proof -
  have len: "frame_len (frame m) = length (frame m)"
    using assms by (simp add: well_framed_def frame_len_def frame_def dec_enc_header)
  then show "deframe (frame m @ xs) = (frame m # fst (deframe xs), snd (deframe xs))"
    using assms by (intro deframe_message) (simp_all add: frame_def len_ok_def well_framed_def)
  show "split_frame (frame m) = m"
    using assms by (simp add: split_frame_def frame_def dec_enc_header well_framed_def)
qed

lemma deframe_frames:
  "\<forall>m \<in> set ms. well_framed m \<Longrightarrow>
     deframe (concat (map frame ms) @ xs) = (map frame ms @ fst (deframe xs), snd (deframe xs))"
  by (induction ms) (simp_all add: deframe_frame)

lemma deframe_incomplete: "incomplete b \<Longrightarrow> deframe b = ([], Some b)"
  by (subst deframe.simps) (auto simp: incomplete_def)

lemma deframe_rest: "deframe b = (ms, Some rest) \<Longrightarrow> incomplete rest"
proof (induction b arbitrary: ms rule: deframe.induct)
  case (1 bs)
  from 1(2) show ?case
    using 1(1) by (subst (asm) deframe.simps) (auto simp: incomplete_def split: if_splits prod.splits)
qed

lemma deframe_continue:
  "deframe b = (ms, Some rest) \<Longrightarrow>
     deframe (b @ xs) = (ms @ fst (deframe (rest @ xs)), snd (deframe (rest @ xs)))"
proof (induction b arbitrary: ms rule: deframe.induct)
  case (1 bs)
  show ?case
  proof (cases "length bs < HEADER_SIZE \<or> length bs < frame_len bs \<or> \<not> len_ok (frame_len bs)")
    case True
    then show ?thesis
      using 1(2) by (subst (asm) deframe.simps) (auto split: if_splits prod.splits)
  next
    case False
    then obtain ms' where r: "deframe (drop (frame_len bs) bs) = (ms', Some rest)"
        "ms = take (frame_len bs) bs # ms'"
      using 1(2) by (subst (asm) deframe.simps) (auto split: prod.splits)
    show ?thesis
      using 1(1) [OF _ _ _ r(1)] False r(2)
      by (subst deframe.simps) (simp add: frame_len_append)
  qed
qed

lemma deframe_None: "deframe b = (ms, None) \<Longrightarrow> deframe (b @ xs) = (ms, None)"
proof (induction b arbitrary: ms rule: deframe.induct)
  case (1 bs)
  show ?case
  proof (cases "length bs < HEADER_SIZE \<or> length bs < frame_len bs \<or> \<not> len_ok (frame_len bs)")
    case True
    then show ?thesis
      using 1(2) deframe_bad [of bs xs] by (subst (asm) deframe.simps) (auto split: if_splits prod.splits)
  next
    case False
    then obtain ms' where r: "deframe (drop (frame_len bs) bs) = (ms', None)"
        "ms = take (frame_len bs) bs # ms'"
      using 1(2) by (subst (asm) deframe.simps) (auto split: prod.splits)
    show ?thesis
      using 1(1) [OF _ _ _ r(1)] False r(2)
      by (subst deframe.simps) (simp add: frame_len_append)
  qed
qed

lemma incomplete_part: "incomplete b \<Longrightarrow> part b"
  by (auto simp: incomplete_def part_def)

lemma onDatas_deframe:
  assumes "incomplete (c_buf c)" "length (c_buf c) \<le> c_size c"
    and "deframe (c_buf c @ concat (concat (map fst events))) = (ms, Some rest)"
  shows "\<exists>c'. onDatas c events = (Ret 0, c', map split_frame ms) \<and> c_buf c' = rest"
  using assms
proof (induction events arbitrary: c ms)
  case Nil
  then show ?case
    using deframe_incomplete by simp
next
  case (Cons event events)
  obtain segs e where event: "event = (segs, e)"
    by fastforce
  obtain ms1 r1 where d: "deframe (c_buf c @ concat segs) = (ms1, r1)"
    by fastforce
  show ?case
  proof (cases r1)
    case None
    then show ?thesis
      using Cons.prems(3) event deframe_None [OF d [unfolded None], of "concat (concat (map fst events))"] by simp
  next
    case (Some b)
    obtain c' where c': "onData c segs e = (sock_result e, c', map split_frame ms1)"
        "c_buf c' = b" "length b \<le> c_size c'"
      using onData_loop_delivers [of c segs e "[]"] Cons.prems d Some incomplete_part
      by (auto simp: onData_def delivers_def prod_eq_iff split: prod.splits)
    obtain ms2 where m: "deframe (b @ concat (concat (map fst events))) = (ms2, Some rest)" "ms = ms1 @ ms2"
      using Cons.prems(3) event deframe_continue [OF d [unfolded Some], of "concat (concat (map fst events))"]
      by (cases "deframe (b @ concat (concat (map fst events)))") simp
    obtain c'' where "onDatas c' events = (Ret 0, c'', map split_frame ms2)" "c_buf c'' = rest"
      using Cons.IH [of c' ms2] c' m(1) deframe_rest [OF d [unfolded Some]] by auto
    then show ?thesis
      using c'(1) m(2) by (simp add: event sock_result_def)
  qed
qed

lemma conn_new_ready: "c_buf conn_new = []" "length (c_buf conn_new) \<le> c_size conn_new"
  by (simp_all add: conn_new_def)

text \<open>
  Every message that a client sends whole reaches \<open>onRequest\<close>, once, in order and
  unchanged, however its bytes are cut into reads and the reads into events, and whatever its length
  (below 2 GiB, so that the lengths fit an \<open>int\<close>); the beginning of the next message waits in the
  buffer. What \<open>onData\<close> returns is ignored by the server and does not matter here.
\<close>

lemma delivered:
  assumes "concat (concat (map fst events)) = concat (map frame ms) @ rest"
    and "\<forall>m \<in> set ms. well_framed m"
    and "incomplete rest"
  shows "\<exists>c. onDatas conn_new events = (Ret 0, c, ms) \<and> c_buf c = rest"
proof -
  have "deframe (c_buf conn_new @ concat (concat (map fst events))) = (map frame ms, Some rest)"
    using assms by (simp add: conn_new_ready deframe_frames deframe_incomplete)
  moreover have "map split_frame (map frame ms) = ms"
    using assms(2) deframe_frame(2) by (simp add: map_idI)
  moreover have "incomplete (c_buf conn_new)"
    by (simp add: conn_new_ready incomplete_def HEADER_SIZE_def)
  ultimately show ?thesis
    using onDatas_deframe [of conn_new events "map frame ms" rest] conn_new_ready by simp
qed

subsection \<open>Properties\<close>

lemma short_length_is_not_checked:
  assumes "unat (hd_len h) < HEADER_SIZE" "is_i32 (hd_cmd_res h)"
  shows "fst (onData conn_new [enc_header h @ d] e) = Crash"
proof -
  have "deframe (enc_header h @ d) = ([], None)"
    using assms dec_enc_header [of h "[]"]
    by (intro deframe_bad) (simp_all add: len_ok_def frame_len_def)
  moreover have "part (c_buf conn_new)"
    by (simp add: conn_new_ready part_def)
  ultimately show ?thesis
    using onData_loop_delivers [of conn_new "[enc_header h @ d]" e "[]"]
    by (simp add: onData_def delivers_def conn_new_ready)
qed

end
