(* ===== verification/Listener_Props.thy ===== *)
theory Listener_Props
  imports Listener Connection_Props
begin

text \<open>
  The cache of the last connection never disagrees with the table, and the listening thread keeps
  the streams of its connections apart.
\<close>

definition listener_ok :: "listener \<Rightarrow> bool" where
  "listener_ok l \<longleftrightarrow>
     (if lastFd l = - 1 then lastConnection l = None else connections l (lastFd l) = lastConnection l)
     \<and> (\<forall>fd p. connections l fd = Some p \<longrightarrow> p < length (objects l) \<and> fst (objects l ! p) = fd)"

lemma listener_okI:
  "(if lastFd l = - 1 then lastConnection l = None else connections l (lastFd l) = lastConnection l) \<Longrightarrow>
     (\<And>fd p. connections l fd = Some p \<Longrightarrow> p < length (objects l) \<and> fst (objects l ! p) = fd) \<Longrightarrow>
     listener_ok l"
  by (auto simp: listener_ok_def)

lemma listener_ok_objectsD:
  "listener_ok l \<Longrightarrow> connections l fd = Some p \<Longrightarrow> p < length (objects l) \<and> fst (objects l ! p) = fd"
  by (simp add: listener_ok_def)

lemma getConnection_table: "listener_ok l \<Longrightarrow> fd \<noteq> - 1 \<Longrightarrow> getConnection fd l = connections l fd"
  by (auto simp: listener_ok_def getConnection_def split: option.splits)

lemma close_fd_simps [simp]:
  "sfd (close_fd fd l) = sfd l" "lastFd (close_fd fd l) = lastFd l"
  "lastConnection (close_fd fd l) = lastConnection l" "connections (close_fd fd l) = connections l"
  "objects (close_fd fd l) = objects l" "requests (close_fd fd l) = requests l"
  by (simp_all add: close_fd_def)

lemma listener_ok_close [simp]: "listener_ok (close_fd fd l) = listener_ok l"
  by (simp add: listener_ok_def)

lemma listener_ok_new: "listener_ok (listener_new k)"
  by (simp add: listener_new_def initListener_def openTcpPort_def Let_def listener_ok_def)

lemma addConnection_ok:
  assumes "listener_ok l" "fd \<noteq> - 1"
  shows "listener_ok (snd (addConnection fd l))"
proof (cases "connections l fd")
  case None
  show ?thesis
  proof (rule listener_okI)
    fix fd' p
    assume "connections (snd (addConnection fd l)) fd' = Some p"
    then show "p < length (objects (snd (addConnection fd l))) \<and> fst (objects (snd (addConnection fd l)) ! p) = fd'"
      using None listener_ok_objectsD [OF assms(1), of fd' p]
      by (auto simp: addConnection_def createConnection_def nth_append split: if_splits)
  qed (use None assms in \<open>simp add: addConnection_def createConnection_def\<close>)
qed (use assms in \<open>simp add: addConnection_def\<close>)

lemma doListenEvent_ok:
  "listener_ok l \<Longrightarrow> \<forall>a \<in> set accs. a_fd a \<noteq> - 1 \<Longrightarrow> listener_ok (doListenEvent accs l)"
  by (induction accs l rule: doListenEvent.induct) (simp_all add: addConnection_ok Let_def)

lemma fst_update_snd [simp]: "fst (xs[p := (fst (xs ! p), c)] ! q) = fst (xs ! q)"
  by (cases "p < length xs"; cases "p = q") (simp_all add: list_update_beyond)

lemma doDataEvent_ok:
  assumes "listener_ok l" "doDataEvent fd segs e l = (out, l')"
  shows "listener_ok l'"
proof (cases "getConnection fd l")
  case (Some p)
  then obtain c ms where l': "l' = l\<lparr>objects := (objects l)[p := (fst (objects l ! p), c)],
      requests := requests l @ map (Pair (fst (objects l ! p))) ms\<rparr>"
    using assms(2) by (auto simp: doDataEvent_def Let_def split: prod.splits)
  show ?thesis
    using assms(1) unfolding l' by (simp add: listener_ok_def)
qed (use assms in \<open>simp add: doDataEvent_def\<close>)

lemma getConnection_Some:
  "listener_ok l \<Longrightarrow> getConnection fd l = Some p \<Longrightarrow> connections l fd = Some p"
  by (auto simp: listener_ok_def getConnection_def split: if_splits option.splits)

definition accepts_ok :: "epoll_event list \<Rightarrow> bool" where
  \<comment> \<open>-1 is not a descriptor: with it \<open>accept\<close> says that no connection is waiting\<close>
  "accepts_ok evs \<longleftrightarrow> (\<forall>ev \<in> set evs. \<forall>a \<in> set (ev_accepts ev). a_fd a \<noteq> - 1)"

lemma run_event_ok:
  "listener_ok l \<Longrightarrow> accepts_ok [ev] \<Longrightarrow> run_event ev l = (out, l') \<Longrightarrow> listener_ok l'"
  by (auto simp: run_event_def accepts_ok_def doListenEvent_ok doDataEvent_ok split: if_splits)

lemma accepts_ok_Cons: "accepts_ok (ev # evs) \<longleftrightarrow> accepts_ok [ev] \<and> accepts_ok evs"
  by (simp add: accepts_ok_def)

lemma run_ok: "listener_ok l \<Longrightarrow> accepts_ok evs \<Longrightarrow> listener_ok (snd (run evs l))"
proof (induction evs arbitrary: l)
  case (Cons ev evs)
  then have "listener_ok (snd (run_event ev l))" "accepts_ok evs"
    using accepts_ok_Cons [of ev evs] run_event_ok [of l ev "fst (run_event ev l)" "snd (run_event ev l)"]
    by simp_all
  then show ?case
    using Cons.IH by (auto split: prod.split outcome.split)
qed simp

subsection \<open>The streams of the connections\<close>

definition conn_at :: "int \<Rightarrow> listener \<Rightarrow> connection" where
  "conn_at fd l = (case connections l fd of None \<Rightarrow> conn_new | Some p \<Rightarrow> snd (objects l ! p))"

definition requests_of :: "int \<Rightarrow> listener \<Rightarrow> (net_header \<times> bytes) list" where
  "requests_of fd l = map snd (filter (\<lambda>r. fst r = fd) (requests l))"

definition is_data :: "int \<Rightarrow> epoll_event \<Rightarrow> bool" where
  "is_data fd ev \<longleftrightarrow> \<not> ev_error ev \<and> ev_in ev \<and> ev_fd ev = fd"

definition stream_of :: "int \<Rightarrow> epoll_event list \<Rightarrow> (bytes list \<times> sock_end) list" where
  "stream_of fd evs = map (\<lambda>ev. (ev_segs ev, ev_end ev)) (filter (is_data fd) evs)"

lemma close_fd_stream [simp]:
  "conn_at fd (close_fd x l) = conn_at fd l" "requests_of fd (close_fd x l) = requests_of fd l"
  by (simp_all add: conn_at_def requests_of_def split: option.split)

lemma addConnection_stream:
  assumes "listener_ok l"
  shows "conn_at fd (snd (addConnection x l)) = conn_at fd l"
    "requests (snd (addConnection x l)) = requests l" "sfd (snd (addConnection x l)) = sfd l"
  using listener_ok_objectsD [OF assms, of fd]
  by (auto simp: addConnection_def createConnection_def conn_at_def nth_append split: option.splits)

lemma doListenEvent_stream:
  "listener_ok l \<Longrightarrow> \<forall>a \<in> set accs. a_fd a \<noteq> - 1 \<Longrightarrow>
     conn_at fd (doListenEvent accs l) = conn_at fd l \<and>
     requests (doListenEvent accs l) = requests l \<and> sfd (doListenEvent accs l) = sfd l"
  by (induction accs l rule: doListenEvent.induct)
    (simp_all add: addConnection_stream addConnection_ok Let_def)

lemma doDataEvent_stream:
  assumes "listener_ok l" "doDataEvent x segs e l = (Ret r, l')"
  obtains out ms where "onData (conn_at x l) segs e = (out, conn_at x l', ms)" "out \<noteq> Crash"
    "requests_of x l' = requests_of x l @ ms" "sfd l' = sfd l"
    "\<And>fd. fd \<noteq> x \<Longrightarrow> conn_at fd l' = conn_at fd l \<and> requests_of fd l' = requests_of fd l"
proof -
  obtain p where p: "getConnection x l = Some p" "connections l x = Some p"
    using assms getConnection_Some [OF assms(1)] by (auto simp: doDataEvent_def split: option.splits)
  obtain out c ms where o: "onData (snd (objects l ! p)) segs e = (out, c, ms)"
    by (metis prod_cases3)
  have px: "p < length (objects l)" "fst (objects l ! p) = x"
    using listener_ok_objectsD [OF assms(1) p(2)] by simp_all
  have l': "l' = l\<lparr>objects := (objects l)[p := (x, c)], requests := requests l @ map (Pair x) ms\<rparr>"
    and out: "out \<noteq> Crash"
    using assms(2) p(1) o px by (auto simp: doDataEvent_def split: if_splits)
  have other: "conn_at fd l' = conn_at fd l \<and> requests_of fd l' = requests_of fd l" if "fd \<noteq> x" for fd
    using that p(2) px listener_ok_objectsD [OF assms(1), of fd]
    by (auto simp: l' conn_at_def requests_of_def filter_map o_def nth_list_update split: option.split)
  show thesis
    by (rule that [of out ms]) (use o out p px other in
      \<open>simp_all add: l' conn_at_def requests_of_def filter_map o_def\<close>)
qed

lemma run_stream:
  assumes "listener_ok l" "accepts_ok evs" "run evs l = (Ret r, l')" "fd \<noteq> sfd l"
  shows "requests_of fd l' = requests_of fd l @ snd (snd (onDatas (conn_at fd l) (stream_of fd evs)))"
  using assms
proof (induction evs arbitrary: l)
  case Nil
  then show ?case
    by (simp add: stream_of_def)
next
  case (Cons ev evs)
  obtain q l1 where l1: "run_event ev l = (Ret q, l1)" "run evs l1 = (Ret r, l')"
    using Cons.prems(3) by (auto split: prod.splits outcome.splits)
  have ok: "listener_ok l1" "accepts_ok evs"
    using Cons.prems run_event_ok l1(1) accepts_ok_Cons by blast+
  show ?case
  proof (cases "is_data (ev_fd ev) ev \<and> ev_fd ev \<noteq> sfd l")
    case False
    then have same: "conn_at fd l1 = conn_at fd l" "requests_of fd l1 = requests_of fd l" "sfd l1 = sfd l"
      using l1(1) doListenEvent_stream [OF Cons.prems(1), of "ev_accepts ev" fd] Cons.prems(2)
      by (auto simp: run_event_def is_data_def accepts_ok_def requests_of_def split: if_splits)
    have "stream_of fd (ev # evs) = stream_of fd evs"
      using False Cons.prems(4) by (auto simp: stream_of_def is_data_def)
    then show ?thesis
      using Cons.IH [OF ok l1(2)] Cons.prems(4) same by simp
  next
    case True
    then have "doDataEvent (ev_fd ev) (ev_segs ev) (ev_end ev) l = (Ret q, l1)"
      using l1(1) by (auto simp: run_event_def is_data_def)
    then obtain out ms where d: "onData (conn_at (ev_fd ev) l) (ev_segs ev) (ev_end ev)
          = (out, conn_at (ev_fd ev) l1, ms)" "out \<noteq> Crash"
        "requests_of (ev_fd ev) l1 = requests_of (ev_fd ev) l @ ms" "sfd l1 = sfd l"
        "\<And>fd. fd \<noteq> ev_fd ev \<Longrightarrow> conn_at fd l1 = conn_at fd l \<and> requests_of fd l1 = requests_of fd l"
      using doDataEvent_stream [OF Cons.prems(1)] by metis
    note IH = Cons.IH [OF ok l1(2)]
    show ?thesis
    proof (cases "fd = ev_fd ev")
      case same: True
      then have "stream_of fd (ev # evs) = (ev_segs ev, ev_end ev) # stream_of fd evs"
        using True by (simp add: stream_of_def)
      then show ?thesis
        using IH d(1-4) same Cons.prems(4) by (auto split: prod.splits)
    next
      case diff: False
      then have "stream_of fd (ev # evs) = stream_of fd evs"
        by (auto simp: stream_of_def is_data_def)
      then show ?thesis
        using IH d(4,5) diff Cons.prems(4) by simp
    qed
  qed
qed

text \<open>Data arrives only on descriptors that \<open>accept\<close> has returned before: \<open>S\<close> are those so far.\<close>

fun only_accepted :: "int \<Rightarrow> int set \<Rightarrow> epoll_event list \<Rightarrow> bool" where
  "only_accepted s S [] \<longleftrightarrow> True"
| "only_accepted s S (ev # evs) \<longleftrightarrow>
     (if ev_error ev \<or> \<not> ev_in ev then only_accepted s S evs
      else if s = ev_fd ev
        then only_accepted s (S \<union> {a_fd a |a. a \<in> set (ev_accepts ev) \<and> setFdFlags (a_getfl a) (a_setfl a) O_NONBLOCK = 0}) evs
      else ev_fd ev \<in> S \<and> only_accepted s S evs)"

lemma addConnection_dom: "dom (connections (snd (addConnection fd l))) = insert fd (dom (connections l))"
  by (auto simp: addConnection_def createConnection_def split: option.splits)

lemma setFdFlags_cases: "setFdFlags x y z = 0 \<or> setFdFlags x y z < 0"
  by (simp add: setFdFlags_def)

lemma doListenEvent_dom:
  "dom (connections (doListenEvent accs l)) =
     dom (connections l) \<union> {a_fd a |a. a \<in> set accs \<and> setFdFlags (a_getfl a) (a_setfl a) O_NONBLOCK = 0}"
proof (induction accs l rule: doListenEvent.induct)
  case (2 a accs l)
  show ?case
  proof (cases "setFdFlags (a_getfl a) (a_setfl a) O_NONBLOCK = 0")
    case True
    then show ?thesis
      using 2(2) by (auto simp: addConnection_dom Let_def)
  next
    case False
    then have "setFdFlags (a_getfl a) (a_setfl a) O_NONBLOCK < 0"
      using setFdFlags_cases by blast
    then show ?thesis
      using 2(1) by auto
  qed
qed simp

lemma doDataEvent_returns:
  assumes "listener_ok l" "x \<noteq> - 1" "x \<in> dom (connections l)" "fst (onData (conn_at x l) segs e) \<noteq> Crash"
  shows "\<exists>l'. doDataEvent x segs e l = (Ret 0, l') \<and> connections l' = connections l"
  using assms getConnection_table [OF assms(1,2)]
  by (auto simp: doDataEvent_def conn_at_def split: prod.splits)

lemma run_returns:
  assumes "listener_ok l" "accepts_ok evs" "only_accepted (sfd l) (dom (connections l)) evs"
    and "- 1 \<notin> dom (connections l)"
    and "\<And>fd. fd \<noteq> sfd l \<Longrightarrow> fst (onDatas (conn_at fd l) (stream_of fd evs)) \<noteq> Crash"
  shows "\<exists>l'. run evs l = (Ret 0, l')"
  using assms
proof (induction evs arbitrary: l)
  case (Cons ev evs)
  have acc: "accepts_ok evs" "\<forall>a \<in> set (ev_accepts ev). a_fd a \<noteq> - 1"
    using Cons.prems(2) by (simp_all add: accepts_ok_def)
  show ?case
  proof (cases "is_data (ev_fd ev) ev \<and> ev_fd ev \<noteq> sfd l")
    case False
    then have "\<exists>l1. run_event ev l = (Ret 0, l1)"
      by (cases "ev_error ev \<or> \<not> ev_in ev") (simp_all add: run_event_def is_data_def)
    then obtain l1 where l1: "run_event ev l = (Ret 0, l1)"
      by blast
    have same: "conn_at fd l1 = conn_at fd l" "sfd l1 = sfd l" for fd
      using l1 False doListenEvent_stream [OF Cons.prems(1) acc(2), of fd]
      by (auto simp: run_event_def is_data_def split: if_splits)
    have stream: "stream_of fd (ev # evs) = stream_of fd evs" if "fd \<noteq> sfd l" for fd
      using False that by (auto simp: stream_of_def is_data_def)
    have known: "only_accepted (sfd l) (dom (connections l1)) evs" "- 1 \<notin> dom (connections l1)"
      using Cons.prems(3,4) l1 False acc(2) doListenEvent_dom [of "ev_accepts ev" l]
      by (auto simp: run_event_def is_data_def split: if_splits)
    have "\<exists>l'. run evs l1 = (Ret 0, l')"
      using Cons.prems(5) by (intro Cons.IH run_event_ok [OF Cons.prems(1) _ l1])
        (use Cons.prems(2) acc known same stream in \<open>auto simp: accepts_ok_def\<close>)
    then show ?thesis
      using l1 by simp
  next
    case True
    let ?x = "ev_fd ev"
    have x: "?x \<in> dom (connections l)" "?x \<noteq> - 1" "?x \<noteq> sfd l" "only_accepted (sfd l) (dom (connections l)) evs"
      using True Cons.prems(3,4) by (auto simp: is_data_def)
    have stream: "stream_of fd (ev # evs) = (if fd = ?x then (ev_segs ev, ev_end ev) # stream_of fd evs
        else stream_of fd evs)" for fd
      using True by (auto simp: stream_of_def is_data_def)
    have "fst (onData (conn_at ?x l) (ev_segs ev) (ev_end ev)) \<noteq> Crash"
      using Cons.prems(5) [OF x(3)] stream by (auto split: prod.splits)
    then obtain l1 where d: "doDataEvent ?x (ev_segs ev) (ev_end ev) l = (Ret 0, l1)"
        "connections l1 = connections l"
      using doDataEvent_returns [OF Cons.prems(1) x(2,1)] by blast
    then have l1: "run_event ev l = (Ret 0, l1)"
      using True by (auto simp: run_event_def is_data_def)
    obtain out ms where o: "onData (conn_at ?x l) (ev_segs ev) (ev_end ev) = (out, conn_at ?x l1, ms)"
        "out \<noteq> Crash" "sfd l1 = sfd l" "\<And>fd. fd \<noteq> ?x \<Longrightarrow> conn_at fd l1 = conn_at fd l"
      using doDataEvent_stream [OF Cons.prems(1) d(1)] by metis
    have "\<exists>l'. run evs l1 = (Ret 0, l')"
    proof (rule Cons.IH)
      show "listener_ok l1"
        using run_event_ok [OF Cons.prems(1) _ l1] Cons.prems(2) by (simp add: accepts_ok_def)
      show "fst (onDatas (conn_at fd l1) (stream_of fd evs)) \<noteq> Crash" if "fd \<noteq> sfd l1" for fd
        using Cons.prems(5) [of fd] that o stream [of fd] by (auto split: if_splits prod.splits)
    qed (use acc x d Cons.prems(4) o(3) in simp_all)
    then show ?thesis
      using l1 by simp
  qed
qed simp

lemma server_delivers:
  assumes "accepts_ok evs" "only_accepted (sfd (listener_new k)) {} evs"
    and "\<forall>fd. fd \<noteq> sfd (listener_new k) \<longrightarrow>
           concat (concat (map fst (stream_of fd evs))) = concat (map frame (sent fd)) @ rest fd
           \<and> (\<forall>m \<in> set (sent fd). well_framed m) \<and> incomplete (rest fd)"
  shows "\<exists>l. run evs (listener_new k) = (Ret 0, l)
    \<and> (\<forall>fd. fd \<noteq> sfd (listener_new k) \<longrightarrow> requests_of fd l = sent fd)"
proof -
  have new: "requests_of fd (listener_new k) = []" "conn_at fd (listener_new k) = conn_new"
      "connections (listener_new k) = Map.empty" for fd
    by (simp_all add: listener_new_def initListener_def openTcpPort_def Let_def requests_of_def conn_at_def)
  have all: "\<exists>c. onDatas conn_new (stream_of fd evs) = (Ret 0, c, sent fd)" if "fd \<noteq> sfd (listener_new k)" for fd
    using that delivered [of "stream_of fd evs" "sent fd" "rest fd"] assms(3) by blast
  have "fst (onDatas (conn_at fd (listener_new k)) (stream_of fd evs)) \<noteq> Crash"
    if "fd \<noteq> sfd (listener_new k)" for fd
    using all [OF that] new by auto
  then obtain l where l: "run evs (listener_new k) = (Ret 0, l)"
    using run_returns [OF listener_ok_new assms(1), of k] assms(2) new(3) by auto
  then have "requests_of fd l = sent fd" if "fd \<noteq> sfd (listener_new k)" for fd
    using run_stream [OF listener_ok_new assms(1) l that] new all [OF that] by auto
  with l show ?thesis
    by blast
qed

subsection \<open>Concrete events\<close>

definition port_opens :: port_results where
  "port_opens = \<lparr>p_socket = 3, p_getfl = 2, p_setfl = True, p_bind = 0\<rparr>"

definition arrives :: "int \<Rightarrow> epoll_event" where
  "arrives fd = \<lparr>ev_fd = 3, ev_error = False, ev_in = True, ev_accepts =
     [\<lparr>a_fd = fd, a_getfl = 2, a_setfl = True, a_watched = True\<rparr>], ev_segs = [], ev_end = Would_block\<rparr>"

definition sends :: "int \<Rightarrow> bytes \<Rightarrow> epoll_event" where
  "sends fd bs = \<lparr>ev_fd = fd, ev_error = False, ev_in = True, ev_accepts = [], ev_segs = [bs], ev_end = Would_block\<rparr>"

definition hangs_up :: "int \<Rightarrow> epoll_event" where
  "hangs_up fd = \<lparr>ev_fd = fd, ev_error = True, ev_in = True, ev_accepts = [], ev_segs = [], ev_end = Closed\<rparr>"

definition ask :: "int \<Rightarrow> net_header \<times> bytes" where
  "ask cmd = (\<lparr>hd_signature = SAFE_NET_HEADER_SIGNATURE, hd_len = 17, hd_flags = 0, hd_cmd_res = cmd\<rparr>, [5])"

subsection \<open>Properties\<close>

text \<open>
  Property (C37): whatever happened to the listener, with connections accepted, refused or closed and
  data received, looking up a connection by its descriptor gives what the table holds for it: the
  one-entry cache \<open>lastFd\<close>/\<open>lastConnection\<close> is never stale, and the object found was made for that
  descriptor.
\<close>

theorem connection_cache_is_not_stale:
  assumes "run evs (listener_new k) = (out, l)" "accepts_ok evs" "fd \<noteq> - 1"
  shows "getConnection fd l = connections l fd
    \<and> (case getConnection fd l of None \<Rightarrow> True
        | Some p \<Rightarrow> p < length (objects l) \<and> fst (objects l ! p) = fd)"
proof -
  have "listener_ok l"
    using run_ok [OF listener_ok_new assms(2)] assms(1) by (metis snd_conv)
  then show ?thesis
    using getConnection_table [OF _ assms(3)] listener_ok_objectsD by (simp split: option.split)
qed

theorem connection_cache_is_not_stale_witness:
  "\<exists>l. run [arrives 7, arrives 8] (listener_new port_opens) = (Ret 0, l)
     \<and> getConnection 7 l = Some 0 \<and> getConnection 8 l = Some 1"
proof -
  let ?l = "snd (run [arrives 7, arrives 8] (listener_new port_opens))"
  have r: "run [arrives 7, arrives 8] (listener_new port_opens) = (Ret 0, ?l)"
      "connections ?l = [7 \<mapsto> 0, 8 \<mapsto> 1]"
    by (simp_all add: run_event_def arrives_def port_opens_def listener_new_def initListener_def
        openTcpPort_def setFdFlags_def addConnection_def createConnection_def Let_def)
  show ?thesis
    using connection_cache_is_not_stale [OF r(1), of 7] connection_cache_is_not_stale [OF r(1), of 8] r
    by (auto simp: accepts_ok_def arrives_def)
qed

text \<open>
  Property (C11): the server delivers the messages of well-behaved clients. When data arrives only on
  accepted connections, and all the bytes that ever arrive on each descriptor, in any interleaving with those
  of the others, make up whole well-formed messages \<open>sent\<close> and the beginning \<open>rest\<close> of another, the thread does not
  fail, and the requests made for each descriptor are its messages, in order and unchanged. So it is for
  clients that leave nothing unfinished when their descriptor is given to another; what happens otherwise, and
  with a wrong length, is in the lemmas below and in \<open>short_length_is_not_checked\<close>.
\<close>

theorem server_delivers_messages:
  assumes "accepts_ok evs" "only_accepted (sfd (listener_new k)) {} evs"
    and "\<forall>fd. fd \<noteq> sfd (listener_new k) \<longrightarrow>
           concat (concat (map fst (stream_of fd evs))) = concat (map frame (sent fd)) @ rest fd
           \<and> (\<forall>m \<in> set (sent fd). well_framed m) \<and> incomplete (rest fd)"
  shows "\<exists>l. run evs (listener_new k) = (Ret 0, l)
    \<and> (\<forall>fd. fd \<noteq> sfd (listener_new k) \<longrightarrow> requests_of fd l = sent fd)"
  using assms by (rule server_delivers)

theorem server_delivers_messages_witness:
  "\<exists>l. run [arrives 7, arrives 8, sends 8 (take 9 (frame (ask 3))), sends 7 (frame (ask 4)),
         sends 8 (drop 9 (frame (ask 3)))] (listener_new port_opens) = (Ret 0, l)
    \<and> (\<forall>fd. fd \<noteq> 3 \<longrightarrow> requests_of fd l = (if fd = 7 then [ask 4] else if fd = 8 then [ask 3] else []))"
  (is "\<exists>l. run ?evs _ = _ \<and> _")
proof -
  have sfd: "sfd (listener_new port_opens) = 3"
    by (simp add: listener_new_def initListener_def openTcpPort_def port_opens_def setFdFlags_def Let_def)
  have stream: "stream_of fd ?evs = (if fd = 7 then [([frame (ask 4)], Would_block)]
      else if fd = 8 then [([take 9 (frame (ask 3))], Would_block), ([drop 9 (frame (ask 3))], Would_block)]
      else if fd = 3 then [([], Would_block), ([], Would_block)] else [])" for fd
    by (simp add: stream_of_def is_data_def arrives_def sends_def)
  show ?thesis
    using server_delivers_messages [of ?evs port_opens
        "\<lambda>fd. if fd = 7 then [ask 4] else if fd = 8 then [ask 3] else []" "\<lambda>fd. []"]
    unfolding sfd stream
    by (simp add: accepts_ok_def arrives_def sends_def setFdFlags_def incomplete_def HEADER_SIZE_def
        well_framed_def ask_def is_i32_def)
qed

text \<open>
  Closing a descriptor leaves its connection in the table, so a new connection that the kernel gives
  the same number continues the old one's buffer: its messages are not delivered.
\<close>

lemma reused_descriptor_keeps_old_bytes:
  "\<exists>l. run [arrives 7, sends 7 (take 4 (frame (ask 3))), hangs_up 7, arrives 7, sends 7 (frame (ask 4))]
         (listener_new port_opens) = (Ret 0, l) \<and> requests_of 7 l = []"
  (is "\<exists>l. run ?evs _ = _ \<and> _")
proof -
  have sfd: "sfd (listener_new port_opens) = 3"
    by (simp add: listener_new_def initListener_def openTcpPort_def port_opens_def setFdFlags_def Let_def)
  have stream: "stream_of fd ?evs = (if fd = 7
      then [([take 4 (frame (ask 3))], Would_block), ([frame (ask 4)], Would_block)]
      else if fd = 3 then [([], Would_block), ([], Would_block)] else [])" for fd
    by (simp add: stream_of_def is_data_def arrives_def sends_def hangs_up_def)
  have "frame_len (take 4 (frame (ask 3)) @ frame (ask 4)) = 0x23C4B955"
    by (simp add: frame_len_def dec_header_def frame_def ask_def enc_header_def seg_def
        SAFE_NET_HEADER_SIGNATURE_def le_dec_le_enc_full)
  then have "incomplete (take 4 (frame (ask 3)) @ frame (ask 4))"
    by (simp add: incomplete_def len_ok_def frame_def ask_def HEADER_SIZE_def)
  then have "concat (concat (map fst (stream_of fd ?evs))) = concat (map frame []) @
        (if fd = 7 then take 4 (frame (ask 3)) @ frame (ask 4) else [])
      \<and> (\<forall>m \<in> set []. well_framed m)
      \<and> incomplete (if fd = 7 then take 4 (frame (ask 3)) @ frame (ask 4) else [])" for fd
    unfolding stream by (simp add: incomplete_def [of "[]"] HEADER_SIZE_def)
  moreover have "accepts_ok ?evs" "only_accepted (sfd (listener_new port_opens)) {} ?evs"
    by (simp_all add: sfd accepts_ok_def arrives_def sends_def hangs_up_def setFdFlags_def)
  ultimately have "\<exists>l. run ?evs (listener_new port_opens) = (Ret 0, l)
      \<and> (\<forall>fd. fd \<noteq> sfd (listener_new port_opens) \<longrightarrow> requests_of fd l = [])"
    using server_delivers [of ?evs port_opens "\<lambda>fd. []"
      "\<lambda>fd. if fd = 7 then take 4 (frame (ask 3)) @ frame (ask 4) else []"] by blast
  then show ?thesis
    unfolding sfd by (elim exE) (rule exI, auto)
qed

end
