(* ===== verification/Replica_Example.thy ===== *)
theory Replica_Example
  imports Connection_Props
begin

text \<open>
  src/src/examples/replica/replica_example.cpp: a client that sends messages to the server whole, one
  byte at a time, two at once, and one longer than the first buffer. The chunks it writes are a list;
  however the kernel passes them on, the server gets the five messages.
\<close>

definition example_header :: "u32 \<Rightarrow> int \<Rightarrow> net_header" where
  "example_header len cmd =
     \<lparr>hd_signature = SAFE_NET_HEADER_SIGNATURE, hd_len = len, hd_flags = 0, hd_cmd_res = cmd\<rparr>"

definition example_hello :: "int \<Rightarrow> net_header \<times> bytes" where
  "example_hello cmd =
     (let msg = map of_char ''hello server!!'' @ [0] in (example_header (16 + word_of_nat (length msg)) cmd, msg))"

definition example_long :: "net_header \<times> bytes" where
  "example_long =
     (let dsize = 130 * 1024 + 10
      in (example_header (16 + word_of_nat dsize) 1023, replicate (dsize - 3) 65 @ [66, 67, 0]))"

definition example_chunks :: "bytes list" where
  "example_chunks =
     (let m = frame (example_hello 1023)
      in [m] @ map (\<lambda>b. [b]) m @ [m @ frame (example_hello 1024)] @ [frame example_long])"

text \<open>The program, with what \<open>socket\<close>, \<open>gethostbyname\<close> and \<open>connect\<close> return; the result is its exit code or
  what it writes to the socket.\<close>

definition replica_example :: "int \<Rightarrow> bool \<Rightarrow> int \<Rightarrow> int + bytes list" where
  "replica_example sock host_found connected =
     (if sock < 0 then Inl (- 1)
      else if \<not> host_found then Inl (- 1)
      else if connected < 0 then Inl (- 1) else Inr example_chunks)"

definition example_messages :: "(net_header \<times> bytes) list" where
  "example_messages = [example_hello 1023, example_hello 1023, example_hello 1023, example_hello 1024, example_long]"

lemma example_chunks_bytes: "concat example_chunks = concat (map frame example_messages)"
  by (simp add: example_chunks_def example_messages_def Let_def)

lemma example_well_framed: "\<forall>m \<in> set example_messages. well_framed m"
  by (simp add: example_messages_def example_hello_def example_long_def example_header_def well_framed_def
      is_i32_def HEADER_SIZE_def Let_def)

lemma example_is_delivered:
  assumes "concat (concat (map fst events)) = concat example_chunks"
  shows "\<exists>c. onDatas conn_new events = (Ret 0, c, example_messages) \<and> c_buf c = []"
  using delivered [OF _ example_well_framed, of events "[]"] assms
  by (simp add: example_chunks_bytes incomplete_def HEADER_SIZE_def)

end
