(* ===== verification/Storage_Services.thy ===== *)
theory Storage_Services
  imports Storage_Ops Signature_Scan Listener
begin

text \<open>
  The rest of safe_storage.cpp and of base_safe_file.cpp: the services of a storage that do not touch its files
  (listener, replica, callback), the printing of its state and of offsets, the scan for signatures, the
  destructor.
\<close>

subsection \<open>Listener, replica, callback\<close>

text \<open>\<open>createListener\<close> makes an object that nobody has a pointer to: it does not set \<open>*ltn\<close>. \<open>k\<close> is what the
  system answers; the result does not depend on it.\<close>

definition ss_createListener :: "string \<Rightarrow> port_results \<Rightarrow> int \<times> listener" where
  "ss_createListener params k = (E_CSTORAGE_OK, listener_new k)"

definition listener_stop :: "listener \<Rightarrow> int \<times> listener" where
  "listener_stop l = (E_CSTORAGE_OK, l)"

definition ss_createReplica :: "string \<Rightarrow> int" where
  "ss_createReplica params = E_CSTORAGE_OK"

definition E_CB_REPLICA_FAIL :: int where "E_CB_REPLICA_FAIL = - 1000"

text \<open>\<open>cb\<close> is the address of a function or null. It is not stored but called, at once, with \<open>NULL\<close> as its second
  argument; the calls are part of the result.\<close>

definition ss_setCallback :: "nat option \<Rightarrow> (int \<times> (nat \<times> int) list) option" where
  "ss_setCallback cb = map_option (\<lambda>f. (E_CSTORAGE_OK, [(f, E_CB_REPLICA_FAIL)])) cb"

lemma createListener_hides_failure:
  "p_socket k < 0 \<Longrightarrow> fst (ss_createListener params k) = E_CSTORAGE_OK \<and> sfd (snd (ss_createListener params k)) = - 1"
  by (simp add: ss_createListener_def listener_new_def initListener_def openTcpPort_def Let_def)

subsection \<open>Text\<close>

definition hex_word :: "u32 \<Rightarrow> string" where
  \<comment> \<open>\<open>%08X\<close>\<close>
  "hex_word w = map (\<lambda>k. hex ! unat (drop_bit (4 * k) w AND 15)) (rev [0..<8])"

text \<open>\<open>%u\<close> shows a sequence as an unsigned number, \<open>%lld\<close> an unsigned offset as a signed one.\<close>

definition show_unsigned :: "int \<Rightarrow> string" where
  "show_unsigned i = show_nat (unat (word_of_int i :: u32))"

definition show_offset :: "64 word \<Rightarrow> string" where
  "show_offset w = show_int (sint w)"

definition state_line :: "string \<Rightarrow> string \<Rightarrow> string" where
  "state_line name v = name @ '': '' @ v @ [CHR 0x0A]"

fun comma_list :: "bool \<Rightarrow> string list \<Rightarrow> string" where
  "comma_list later [] = []"
| "comma_list later (x # xs) = (if later then '','' else []) @ x @ comma_list True xs"

definition ss_dumpState :: "storage \<Rightarrow> string" where
  "ss_dumpState s =
     (let st = state s
      in ''[state]'' @ [CHR 0x0A]
         @ state_line ''hash_key'' (hex_word (st_hash_key st))
         @ state_line ''last_updated'' (show_int (sint (st_last_updated st)))
         @ state_line ''count'' (show_int (st_count st))
         @ state_line ''commit_count'' (show_int (st_commit_count st))
         @ state_line ''rollback_begin_count'' (show_int (st_rollback_begin_count st))
         @ state_line ''rollback_end_count'' (show_int (st_rollback_end_count st))
         @ state_line ''last_offset_index'' (show_int (st_last_offset_index st))
         @ state_line ''last_commit_sequence'' (show_unsigned (st_last_commit_sequence st))
         @ state_line ''last_rollback_sequence'' (show_unsigned (st_last_rollback_sequence st))
         @ state_line ''last_close_sequence'' (show_int (st_last_close_sequence st))
         @ state_line ''last_sequence'' (show_int (st_last_sequence st))
         @ state_line ''last_close_offset'' (show_offset (st_last_close_offset st))
         @ ''last_offsets['' @ show_int N_SS_LAST_OFFSETS @ '']:''
         @ comma_list False (map show_offset (st_last_offsets st)) @ [CHR 0x0A])"

text \<open>\<open>offsetStr\<close>: the static buffer has room for 19 characters.\<close>

definition offsetStr :: "int \<Rightarrow> string" where
  "offsetStr loff =
     (if loff = C_CSFILE_ENDFILE then ''C_CSFILE_ENDFILE''
      else if loff = C_CSFILE_CURRPOS then ''C_CSFILE_CURRPOS''
      else take 19 (show_int loff))"

text \<open>The comparison of two fields in \<open>verify\<close>: whether they agree, and the message if they do not. \<open>text1\<close> and
  \<open>text2\<close> are what a stream makes of the values.\<close>

definition cmp_struct_field ::
  "'a \<Rightarrow> 'a \<Rightarrow> string \<Rightarrow> string \<Rightarrow> string \<Rightarrow> string \<Rightarrow> string \<Rightarrow> int \<Rightarrow> bool \<times> string" where
  "cmp_struct_field st1 st2 text1 text2 st1_name st2_name fieldname pos =
     (if st1 = st2 then (True, [])
      else (let at = (if pos \<ge> 0 then ''['' @ show_int pos @ '']'' else [])
            in (False, ''Field '' @ fieldname @ ''of structures '' @ st1_name @ at @ ''('' @ text1 @ '') and ''
                  @ st2_name @ at @ ''('' @ text2 @ '') are different'')))"

text \<open>\<open>cmp_states\<close> of \<open>Storage_Ops\<close> uses the first part: it is equal fields, not different ones, that change its result.\<close>

lemma cmp_struct_field_same: "fst (cmp_struct_field a b t1 t2 n1 n2 f pos) \<longleftrightarrow> a = b"
  by (simp add: cmp_struct_field_def Let_def)

subsection \<open>Files and objects\<close>

text \<open>The copy constructor only throws.\<close>

definition bf_copy :: "base_file \<Rightarrow> outcome" where
  "bf_copy from = Throw E_CSFILE_COPY_NOT_ALLOWED"

text \<open>Reading and writing one buffer without flags of their own.\<close>

definition bf_read_plain :: "int \<Rightarrow> bytes \<Rightarrow> u32 \<Rightarrow> base_file \<Rightarrow> os_file \<Rightarrow> outcome \<times> bytes \<times> base_file" where
  "bf_read_plain loff buf dlen f os =
     (let (r, da, f) = bf_read loff 0 (da_new [(buf, dlen)]) f os in (r, hd (da_datas da), f))"

definition bf_write_plain :: "int \<Rightarrow> bytes \<Rightarrow> u32 \<Rightarrow> base_file \<Rightarrow> os_file \<Rightarrow> outcome \<times> base_file \<times> os_file" where
  "bf_write_plain loff data dlen f os = bf_write loff 0 (da_new [(data, dlen)]) f os"

text \<open>The scan of the data file for the signature of a storage. \<open>fresh\<close> is the block that \<open>malloc\<close> returns.\<close>

definition ss_findLastSignatureReg :: "bytes \<Rightarrow> int \<Rightarrow> storage \<Rightarrow> disk \<Rightarrow> int list option" where
  "ss_findLastSignatureReg fresh max_size s d =
     findLastSignatureReg fresh max_size CSTORAGE_SIGNATURE CSTORAGE_SIGNATURE_SIGN_MASK 4 (files s DataF) (d DataF)"

definition ss_destroy :: "storage \<Rightarrow> disk \<Rightarrow> disk option" where
  "ss_destroy s d = do { (r, s, d) \<leftarrow> ss_close s d; Some d }"

end
