(* ===== verification/Bridge.thy ===== *)
theory Bridge
  imports Storage_Services
begin

text \<open>
  src/src/include/safe_storage_bridge.h: an object that hands every call of the interface
  \<open>ISafeStorage\<close> on to another one, if the call is allowed, with its flags changed. A call is a value
  of \<open>call\<close>; an implementation of the interface is a function from calls and states, \<open>None\<close> where
  the code runs on undefined ground or does not return. \<open>ss_call\<close> is \<open>CSafeStorage\<close>.
\<close>

subsection \<open>The interface\<close>

datatype call =
    Do_close u32
  | Do_open string u32 u32
  | Do_getInfo
  | Do_commit
  | Do_rollback
  | Do_verify u32
  | Do_write int "bytes option" u32 u32
  | Do_read int bytes u32 u32
  | Do_readLogReg int int byte u32
  | Do_readLog int bytes u32 u32
  | Do_applyLog bytes u32 u32
  | Do_getParam string
  | Do_setParam string int
  | Do_createListener string port_results
    \<comment> \<open>with what the system answers\<close>
  | Do_createReplica string
  | Do_setCallback "nat option"
    \<comment> \<open>the address of a function or null\<close>

datatype reply =
    Code int
  | Code_data int bytes
  | Code_serial int int bytes
    \<comment> \<open>a remote read, which also sets the serial\<close>
  | Code_reg int int byte
  | Code_info int storage_info
  | Code_listener int listener
    \<comment> \<open>with the object made\<close>
  | Code_called int "(nat \<times> int) list"
    \<comment> \<open>with the functions called and their first argument\<close>

fun reply_code :: "reply \<Rightarrow> int" where
  "reply_code (Code r) = r"
| "reply_code (Code_data r data) = r"
| "reply_code (Code_serial r serial data) = r"
| "reply_code (Code_listener r l) = r"
| "reply_code (Code_called r calls) = r"
| "reply_code (Code_reg r serial type) = r"
| "reply_code (Code_info r info) = r"

fun ss_call :: "u32 \<Rightarrow> call \<Rightarrow> storage \<times> disk \<Rightarrow> (reply \<times> storage \<times> disk) option" where
  \<comment> \<open>\<open>rnd\<close> is what \<open>open\<close> draws from /dev/random when it makes a key\<close>
  "ss_call rnd (Do_close flags) (s, d) = do { (r, sd) \<leftarrow> ss_close s d; Some (Code r, sd) }"
| "ss_call rnd (Do_open location flags key) (s, d) =
     do { (r, sd) \<leftarrow> ss_open rnd location flags key s d; Some (Code r, sd) }"
| "ss_call rnd Do_getInfo (s, d) = (let (r, info) = ss_getInfo s in Some (Code_info r info, s, d))"
| "ss_call rnd Do_commit (s, d) = do { (r, sd) \<leftarrow> ss_commit s d; Some (Code r, sd) }"
| "ss_call rnd Do_rollback (s, d) = do { (r, sd) \<leftarrow> ss_rollback s d; Some (Code r, sd) }"
| "ss_call rnd (Do_verify flags) (s, d) = do { (r, s) \<leftarrow> ss_verify s d; Some (Code r, s, d) }"
| "ss_call rnd (Do_write serial data dlen flags) (s, d) =
     do { (r, sd) \<leftarrow> ss_write serial data dlen s d; Some (Code r, sd) }"
| "ss_call rnd (Do_read serial buf dlen flags) (s, d) =
     do { (r, buf, s) \<leftarrow> ss_read serial buf dlen flags s d; Some (Code_data r buf, s, d) }"
| "ss_call rnd (Do_readLogReg seq serial type flags) (s, d) =
     do { (r, serial, type, s) \<leftarrow> ss_readLogReg seq serial type s d; Some (Code_reg r serial type, s, d) }"
| "ss_call rnd (Do_readLog seq buf dlen flags) (s, d) =
     do { (r, buf, s) \<leftarrow> ss_readLog seq buf dlen s d; Some (Code_data r buf, s, d) }"
| "ss_call rnd (Do_applyLog data dlen flags) (s, d) =
     do { (r, sd) \<leftarrow> ss_applyLog data dlen s d; Some (Code r, sd) }"
| "ss_call rnd (Do_getParam name) (s, d) = Some (Code (ss_getParam name s), s, d)"
| "ss_call rnd (Do_setParam name v) (s, d) = (let (r, s) = ss_setParam name v s in Some (Code r, s, d))"
| "ss_call rnd (Do_createListener params k) (s, d) =
     (let (r, l) = ss_createListener params k in Some (Code_listener r l, s, d))"
| "ss_call rnd (Do_createReplica params) (s, d) = Some (Code (ss_createReplica params), s, d)"
| "ss_call rnd (Do_setCallback cb) (s, d) =
     do { (r, calls) \<leftarrow> ss_setCallback cb; Some (Code_called r calls, s, d) }"

subsection \<open>The bridge\<close>

definition O_CSTORAGE_BRIDGE_OPEN :: u32 where "O_CSTORAGE_BRIDGE_OPEN = 0x1"
definition O_CSTORAGE_BRIDGE_CLOSE :: u32 where "O_CSTORAGE_BRIDGE_CLOSE = 0x2"
definition O_CSTORAGE_BRIDGE_COMMIT :: u32 where "O_CSTORAGE_BRIDGE_COMMIT = 0x4"
definition O_CSTORAGE_BRIDGE_ROLLBACK :: u32 where "O_CSTORAGE_BRIDGE_ROLLBACK = 0x8"
definition O_CSTORAGE_BRIDGE_VERIFY :: u32 where "O_CSTORAGE_BRIDGE_VERIFY = 0x10"
definition O_CSTORAGE_BRIDGE_WRITE :: u32 where "O_CSTORAGE_BRIDGE_WRITE = 0x20"
definition O_CSTORAGE_BRIDGE_READ :: u32 where "O_CSTORAGE_BRIDGE_READ = 0x40"
definition O_CSTORAGE_BRIDGE_READ_LOG_REG :: u32 where "O_CSTORAGE_BRIDGE_READ_LOG_REG = 0x80"
definition O_CSTORAGE_BRIDGE_READ_LOG :: u32 where "O_CSTORAGE_BRIDGE_READ_LOG = 0x100"
definition O_CSTORAGE_BRIDGE_GET_PARAM :: u32 where "O_CSTORAGE_BRIDGE_GET_PARAM = 0x200"
definition O_CSTORAGE_BRIDGE_SET_PARAM :: u32 where "O_CSTORAGE_BRIDGE_SET_PARAM = 0x400"
definition O_CSTORAGE_BRIDGE_APPLY_LOG :: u32 where "O_CSTORAGE_BRIDGE_APPLY_LOG = 0x800"
definition O_CSTORAGE_BRIDGE_GET_INFO :: u32 where "O_CSTORAGE_BRIDGE_GET_INFO = 0x1000"
definition O_CSTORAGE_BRIDGE_CREATE_LISTENER :: u32 where "O_CSTORAGE_BRIDGE_CREATE_LISTENER = 0x2000"
definition O_CSTORAGE_BRIDGE_CREATE_REPLICA :: u32 where "O_CSTORAGE_BRIDGE_CREATE_REPLICA = 0x4000"
definition O_CSTORAGE_BRIDGE_SET_CALLBACK :: u32 where "O_CSTORAGE_BRIDGE_SET_CALLBACK = 0x8000"

lemmas bridge_ops = O_CSTORAGE_BRIDGE_OPEN_def O_CSTORAGE_BRIDGE_CLOSE_def O_CSTORAGE_BRIDGE_COMMIT_def
  O_CSTORAGE_BRIDGE_ROLLBACK_def O_CSTORAGE_BRIDGE_VERIFY_def O_CSTORAGE_BRIDGE_WRITE_def
  O_CSTORAGE_BRIDGE_READ_def O_CSTORAGE_BRIDGE_READ_LOG_REG_def O_CSTORAGE_BRIDGE_READ_LOG_def
  O_CSTORAGE_BRIDGE_GET_PARAM_def O_CSTORAGE_BRIDGE_SET_PARAM_def O_CSTORAGE_BRIDGE_APPLY_LOG_def
  O_CSTORAGE_BRIDGE_GET_INFO_def O_CSTORAGE_BRIDGE_CREATE_LISTENER_def O_CSTORAGE_BRIDGE_CREATE_REPLICA_def
  O_CSTORAGE_BRIDGE_SET_CALLBACK_def

definition E_CSTORAGE_NOT_OPENED :: int where "E_CSTORAGE_NOT_OPENED = - 506"
definition E_CSTORAGE_OPERATION_NOT_ALLOWED :: int where "E_CSTORAGE_OPERATION_NOT_ALLOWED = - 514"

fun op_code :: "call \<Rightarrow> u32" where
  "op_code (Do_close flags) = O_CSTORAGE_BRIDGE_CLOSE"
| "op_code (Do_open location flags key) = O_CSTORAGE_BRIDGE_OPEN"
| "op_code Do_getInfo = O_CSTORAGE_BRIDGE_GET_INFO"
| "op_code Do_commit = O_CSTORAGE_BRIDGE_COMMIT"
| "op_code Do_rollback = O_CSTORAGE_BRIDGE_ROLLBACK"
| "op_code (Do_verify flags) = O_CSTORAGE_BRIDGE_VERIFY"
| "op_code (Do_write serial data dlen flags) = O_CSTORAGE_BRIDGE_WRITE"
| "op_code (Do_read serial buf dlen flags) = O_CSTORAGE_BRIDGE_READ"
| "op_code (Do_readLogReg seq serial type flags) = O_CSTORAGE_BRIDGE_READ_LOG_REG"
| "op_code (Do_readLog seq buf dlen flags) = O_CSTORAGE_BRIDGE_READ_LOG"
| "op_code (Do_applyLog data dlen flags) = O_CSTORAGE_BRIDGE_APPLY_LOG"
| "op_code (Do_getParam name) = O_CSTORAGE_BRIDGE_GET_PARAM"
| "op_code (Do_setParam name v) = O_CSTORAGE_BRIDGE_SET_PARAM"
| "op_code (Do_createListener params k) = O_CSTORAGE_BRIDGE_CREATE_LISTENER"
| "op_code (Do_createReplica params) = O_CSTORAGE_BRIDGE_CREATE_REPLICA"
| "op_code (Do_setCallback cb) = O_CSTORAGE_BRIDGE_SET_CALLBACK"

text \<open>\<open>__BM_FLAGS\<close>: the flags of a call, for the calls that have any.\<close>

fun map_flags :: "(u32 \<Rightarrow> u32) \<Rightarrow> call \<Rightarrow> call" where
  "map_flags m (Do_close flags) = Do_close (m flags)"
| "map_flags m (Do_open location flags key) = Do_open location (m flags) key"
| "map_flags m (Do_verify flags) = Do_verify (m flags)"
| "map_flags m (Do_write serial data dlen flags) = Do_write serial data dlen (m flags)"
| "map_flags m (Do_read serial buf dlen flags) = Do_read serial buf dlen (m flags)"
| "map_flags m (Do_readLogReg seq serial type flags) = Do_readLogReg seq serial type (m flags)"
| "map_flags m (Do_readLog seq buf dlen flags) = Do_readLog seq buf dlen (m flags)"
| "map_flags m (Do_applyLog data dlen flags) = Do_applyLog data dlen (m flags)"
| "map_flags m c = c"

text \<open>
  \<open>__BRIDGE_RET_STG_CALL\<close>: \<open>allowed\<close> and \<open>mute\<close> are the virtual functions \<open>allowed\<close> and \<open>muteFlags\<close>,
  \<open>storage\<close> is the object behind the bridge, if any.
\<close>

definition bridge_call ::
  "(u32 \<Rightarrow> bool) \<Rightarrow> (u32 \<Rightarrow> u32 \<Rightarrow> u32) \<Rightarrow> (call \<Rightarrow> 's \<Rightarrow> (reply \<times> 's) option) option
     \<Rightarrow> call \<Rightarrow> 's \<Rightarrow> (reply \<times> 's) option" where
  "bridge_call may mute storage c st =
     (if \<not> may (op_code c) then Some (Code E_CSTORAGE_OPERATION_NOT_ALLOWED, st)
      else (case storage of
              None \<Rightarrow> Some (Code E_CSTORAGE_NOT_OPENED, st)
            | Some exec \<Rightarrow> exec (map_flags (\<lambda>flags. mute flags (op_code c)) c) st))"

text \<open>The virtual functions of \<open>CSafeStorageBridge\<close> itself.\<close>

definition bridge_allowed :: "u32 \<Rightarrow> bool" where "bridge_allowed operation = True"
definition bridge_muteFlags :: "u32 \<Rightarrow> u32 \<Rightarrow> u32" where "bridge_muteFlags flags operation = flags"

lemma map_flags_id: "(\<And>flags. m flags = flags) \<Longrightarrow> map_flags m c = c"
  by (cases c) simp_all

lemma bridge_transparent: "bridge_call bridge_allowed bridge_muteFlags (Some exec) c st = exec c st"
  by (simp add: bridge_call_def bridge_allowed_def bridge_muteFlags_def map_flags_id)

end
