(* ===== verification/Shared.thy ===== *)
theory Shared
  imports Bridge
begin

text \<open>
  src/src/lib/shared_safe_storage.cpp and open_safe_storage.cpp: several objects share one open
  storage. The static table \<open>storages\<close> maps the real path of a location to the one \<open>COpenSafeStorage\<close>
  for it, which holds the \<open>CSafeStorage\<close>, the list of objects attached and which of them is the
  writer. Objects are named by addresses (\<open>nat\<close>); a deleted object is gone from its map. The files of
  each real path are a \<open>disk\<close>. The locks are empty functions in the code.
\<close>

record open_storage =
  os_realPath :: string
  os_storage :: storage
  os_references :: "nat list"
  os_writer :: "nat option"

record shared =
  sh_writer :: bool
  sh_storage :: "nat option"

record world =
  w_storages :: "string \<rightharpoonup> nat"
  w_opens :: "nat \<rightharpoonup> open_storage"
  w_next :: nat
    \<comment> \<open>the address of the next \<open>COpenSafeStorage\<close>\<close>
  w_shared :: "nat \<Rightarrow> shared"
  w_disks :: "string \<Rightarrow> disk"

definition shared_new :: shared where
  "shared_new = \<lparr>sh_writer = False, sh_storage = None\<rparr>"

definition world_new :: "(string \<Rightarrow> disk) \<Rightarrow> world" where
  "world_new ds = \<lparr>w_storages = Map.empty, w_opens = Map.empty, w_next = 0, w_shared = (\<lambda>p. shared_new),
                   w_disks = ds\<rparr>"

subsection \<open>\<open>COpenSafeStorage\<close>\<close>

definition E_CSTORAGE_ONLT_ONE_WRITTER :: int where "E_CSTORAGE_ONLT_ONE_WRITTER = - 600"

definition os_new :: "string \<Rightarrow> open_storage" where
  "os_new path = \<lparr>os_realPath = path, os_storage = ss_new, os_references = [], os_writer = None\<rparr>"

definition addReference :: "nat \<Rightarrow> bool \<Rightarrow> open_storage \<Rightarrow> int \<times> open_storage" where
  "addReference ref write css =
     (if write
      then (if os_writer css \<noteq> None then (E_CSTORAGE_ONLT_ONE_WRITTER, css)
            else (E_CSTORAGE_OK, css\<lparr>os_writer := Some ref, os_references := os_references css @ [ref]\<rparr>))
      else (E_CSTORAGE_OK, css\<lparr>os_references := os_references css @ [ref]\<rparr>))"

definition removeReference :: "nat \<Rightarrow> open_storage \<Rightarrow> disk \<Rightarrow> (int \<times> open_storage \<times> disk) option" where
  \<comment> \<open>nothing in the library calls it\<close>
  "removeReference ref css d =
     do { (css, d) \<leftarrow>
            (if os_writer css = Some ref
             then do { (r, s, d) \<leftarrow> ss_rollback (os_storage css) d;
                       Some (css\<lparr>os_writer := None, os_storage := s\<rparr>, d) }
             else Some (css, d));
          Some (E_CSTORAGE_OK, css\<lparr>os_references := removeAll ref (os_references css)\<rparr>, d) }"

definition referenceCount :: "open_storage \<Rightarrow> int" where
  "referenceCount css = int (length (os_references css))"

text \<open>
  A call of the bridge in \<open>COpenSafeStorage\<close>: the object at address \<open>o\<close> with the files of its path.
\<close>

definition open_call :: "u32 \<Rightarrow> nat \<Rightarrow> call \<Rightarrow> world \<Rightarrow> (reply \<times> world) option" where
  "open_call rnd a c w =
     do { css \<leftarrow> w_opens w a;
          (r, s, d) \<leftarrow> bridge_call bridge_allowed bridge_muteFlags (Some (ss_call rnd)) c
                         (os_storage css, w_disks w (os_realPath css));
          Some (r, w\<lparr>w_opens := (w_opens w)(a \<mapsto> css\<lparr>os_storage := s\<rparr>),
                     w_disks := (w_disks w)(os_realPath css := d)\<rparr>) }"

subsection \<open>\<open>CSharedSafeStorage\<close>\<close>

definition E_CSTORAGE_ONLY_ONE_WRITER :: int where "E_CSTORAGE_ONLY_ONE_WRITER = - 511"
definition F_CSTORAGE_COMMITED_READ :: u32 where "F_CSTORAGE_COMMITED_READ = 0"

definition F_SHARED_SS_WRITE_OPS :: u32 where
  "F_SHARED_SS_WRITE_OPS =
     O_CSTORAGE_BRIDGE_COMMIT OR O_CSTORAGE_BRIDGE_ROLLBACK OR O_CSTORAGE_BRIDGE_WRITE"

definition shared_allowed :: "shared \<Rightarrow> u32 \<Rightarrow> bool" where
  "shared_allowed sh operation =
     (if operation AND F_SHARED_SS_WRITE_OPS \<noteq> 0 \<and> \<not> sh_writer sh then False else True)"

definition muteFlags :: "shared \<Rightarrow> u32 \<Rightarrow> u32 \<Rightarrow> u32" where
  "muteFlags sh flags operation =
     (if sh_writer sh \<or> operation \<noteq> O_CSTORAGE_BRIDGE_READ then flags
      else flags OR F_CSTORAGE_COMMITED_READ)"

text \<open>\<open>rp\<close>: what \<open>realpath\<close> answers for the location.\<close>

definition findLocation :: "string option \<Rightarrow> string \<Rightarrow> world \<Rightarrow> nat \<times> world" where
  "findLocation rp location w =
     (let rpath = (case rp of None \<Rightarrow> location | Some path \<Rightarrow> path)
      in case w_storages w rpath of
           None \<Rightarrow> (w_next w, w\<lparr>w_opens := (w_opens w)(w_next w \<mapsto> os_new rpath), w_next := w_next w + 1,
                               w_storages := (w_storages w)(rpath \<mapsto> w_next w)\<rparr>)
         | Some a \<Rightarrow> (a, w))"

definition set_shared :: "nat \<Rightarrow> shared \<Rightarrow> world \<Rightarrow> world" where
  "set_shared p sh w = w\<lparr>w_shared := (w_shared w)(p := sh)\<rparr>"

definition shared_open ::
  "string option \<Rightarrow> u32 \<Rightarrow> nat \<Rightarrow> string \<Rightarrow> u32 \<Rightarrow> world \<Rightarrow> (int \<times> world) option" where
  "shared_open rp rnd p fname flags w =
     (let (a, w) = findLocation rp fname w;
          wr = has_flag flags (F_CSFILE_WR OR F_CSFILE_CREATE);
          w = set_shared p ((w_shared w p)\<lparr>sh_writer := wr\<rparr>) w
      in do { css \<leftarrow> w_opens w a;
              if wr \<and> os_writer css \<noteq> None then Some (E_CSTORAGE_ONLY_ONE_WRITER, w)
              else
                do { (r, w) \<leftarrow> open_call rnd a (Do_open fname flags 0)
                                 (set_shared p ((w_shared w p)\<lparr>sh_storage := Some a\<rparr>) w);
                     css \<leftarrow> w_opens w a;
                     Some (reply_code r, w\<lparr>w_opens := (w_opens w)(a \<mapsto> snd (addReference p wr css))\<rparr>) } })"

text \<open>
  \<open>delete\<close> of a \<open>COpenSafeStorage\<close> deletes its \<open>CSafeStorage\<close>, whose destructor closes it;
  \<open>onSharedClose\<close> of the objects attached does nothing.
\<close>

definition delete_open :: "nat \<Rightarrow> open_storage \<Rightarrow> world \<Rightarrow> world option" where
  "delete_open a css w =
     do { (r, s, d) \<leftarrow> ss_close (os_storage css) (w_disks w (os_realPath css));
          Some (w\<lparr>w_opens := (w_opens w)(a := None), w_disks := (w_disks w)(os_realPath css := d)\<rparr>) }"

definition shared_close :: "u32 \<Rightarrow> nat \<Rightarrow> world \<Rightarrow> (int \<times> world) option" where
  "shared_close flags p w =
     (case sh_storage (w_shared w p) of
        None \<Rightarrow> Some (E_CSTORAGE_NOT_OPENED, w)
      | Some a \<Rightarrow>
          do { (r, w) \<leftarrow> open_call 0 a (Do_close flags) w;
               if reply_code r = E_CSTORAGE_OK
               then do { css \<leftarrow> w_opens w a;
                         if referenceCount css = 0
                         then do { w \<leftarrow> delete_open a css
                                     (w\<lparr>w_storages := (w_storages w)(os_realPath css := None)\<rparr>);
                                   Some (reply_code r, set_shared p ((w_shared w p)\<lparr>sh_storage := None\<rparr>) w) }
                         else Some (reply_code r, w) }
               else Some (reply_code r, w) })"

text \<open>
  Calls through the interface: \<open>close\<close> is overridden, everything else is the bridge's; so is \<open>open\<close>,
  because \<open>shared_open\<close> has other arguments than the \<open>open\<close> of the interface.
\<close>

definition shared_call :: "u32 \<Rightarrow> nat \<Rightarrow> call \<Rightarrow> world \<Rightarrow> (reply \<times> world) option" where
  "shared_call rnd p c w =
     (case c of
        Do_close flags \<Rightarrow> do { (r, w) \<leftarrow> shared_close flags p w; Some (Code r, w) }
      | _ \<Rightarrow> bridge_call (shared_allowed (w_shared w p)) (muteFlags (w_shared w p))
               (map_option (open_call rnd) (sh_storage (w_shared w p))) c w)"

definition shared_destroy :: "nat \<Rightarrow> world \<Rightarrow> world option" where
  "shared_destroy p w = map_option snd (shared_close 0 p w)"

end
