(* ===== verification/Shared_Props.thy ===== *)
theory Shared_Props
  imports Shared Storage_Props2
begin

text \<open>
  What the objects that share a storage do to each other: who is the writer of a location, and what
  a reader sees of the writer's transaction.
\<close>

subsection \<open>Steps\<close>

inductive shared_step :: "world \<Rightarrow> world \<Rightarrow> bool" where
  opens: "shared_open rp rnd p fname flags w = Some (r, w') \<Longrightarrow> shared_step w w'"
| calls: "shared_call rnd p c w = Some (r', w') \<Longrightarrow> shared_step w w'"
| closes: "shared_close flags p w = Some (r, w') \<Longrightarrow> shared_step w w'"

definition meta :: "open_storage \<Rightarrow> string \<times> nat list \<times> nat option" where
  "meta css = (os_realPath css, os_references css, os_writer css)"

definition same_objects :: "world \<Rightarrow> world \<Rightarrow> bool" where
  "same_objects w w' \<longleftrightarrow> w_storages w' = w_storages w \<and> w_shared w' = w_shared w \<and> w_next w' = w_next w
     \<and> (\<forall>b. map_option meta (w_opens w' b) = map_option meta (w_opens w b))"

lemma open_call_transparent:
  "open_call rnd a c w =
     do { css \<leftarrow> w_opens w a;
          (r, s, d) \<leftarrow> ss_call rnd c (os_storage css, w_disks w (os_realPath css));
          Some (r, w\<lparr>w_opens := (w_opens w)(a \<mapsto> css\<lparr>os_storage := s\<rparr>),
                     w_disks := (w_disks w)(os_realPath css := d)\<rparr>) }"
  by (simp add: open_call_def bridge_transparent)

lemma open_call_keeps: "open_call rnd a c w = Some (r, w') \<Longrightarrow> same_objects w w'"
  by (auto simp: open_call_def same_objects_def meta_def bind_eq_Some_conv)

definition held :: "string \<Rightarrow> world \<Rightarrow> bool" where
  \<comment> \<open>the location has a writer\<close>
  "held path w \<longleftrightarrow> (\<exists>a css. w_storages w path = Some a \<and> w_opens w a = Some css \<and> os_writer css \<noteq> None)"

definition world_ok :: "world \<Rightarrow> bool" where
  "world_ok w \<longleftrightarrow>
     (\<forall>path a. w_storages w path = Some a \<longrightarrow> (\<exists>css. w_opens w a = Some css \<and> os_realPath css = path))
     \<and> (\<forall>p a. sh_storage (w_shared w p) = Some a \<longrightarrow>
          (\<exists>css. w_opens w a = Some css \<and> os_references css \<noteq> []))
     \<and> (\<forall>a. w_next w \<le> a \<longrightarrow> w_opens w a = None)"

lemma world_ok_new: "world_ok (world_new ds)"
  by (simp add: world_ok_def world_new_def shared_new_def)

lemma same_objects_opens:
  assumes "same_objects w w'" "w_opens w b = Some css"
  shows "\<exists>css'. w_opens w' b = Some css' \<and> os_realPath css' = os_realPath css
    \<and> os_references css' = os_references css \<and> os_writer css' = os_writer css"
proof -
  have "map_option meta (w_opens w' b) = Some (meta css)"
    using assms by (simp add: same_objects_def)
  then show ?thesis
    by (auto simp: meta_def)
qed

definition kept :: "world \<Rightarrow> world \<Rightarrow> bool" where
  \<comment> \<open>what every step keeps\<close>
  "kept w w' \<longleftrightarrow> world_ok w' \<and> (\<forall>path. held path w \<longrightarrow> held path w')"

lemma kept_refl: "world_ok w \<Longrightarrow> kept w w"
  by (simp add: kept_def)

lemma kept_trans: "kept u v \<Longrightarrow> kept v w \<Longrightarrow> kept u w"
  by (simp add: kept_def)

definition grows :: "open_storage \<Rightarrow> open_storage \<Rightarrow> bool" where
  "grows css css' \<longleftrightarrow> os_realPath css' = os_realPath css
     \<and> (os_references css \<noteq> [] \<longrightarrow> os_references css' \<noteq> [])
     \<and> (os_writer css \<noteq> None \<longrightarrow> os_writer css' \<noteq> None)"

lemma keptI:
  assumes ok: "world_ok w" and st: "w_storages w' = w_storages w" and nx: "w_next w' = w_next w"
    and some: "\<And>b css. w_opens w b = Some css \<Longrightarrow> \<exists>css'. w_opens w' b = Some css' \<and> grows css css'"
    and none: "\<And>b. w_opens w b = None \<Longrightarrow> w_opens w' b = None"
    and sh: "\<And>p b. sh_storage (w_shared w' p) = Some b \<Longrightarrow> sh_storage (w_shared w p) = Some b
      \<or> (\<exists>css. w_opens w' b = Some css \<and> os_references css \<noteq> [])"
  shows "kept w w'"
proof -
  have "\<exists>css. w_opens w' a = Some css \<and> os_realPath css = path" if "w_storages w' path = Some a" for path a
    using that ok st some unfolding world_ok_def grows_def by metis
  moreover have "\<exists>css. w_opens w' a = Some css \<and> os_references css \<noteq> []"
    if "sh_storage (w_shared w' p) = Some a" for p a
    using sh [OF that] ok some unfolding world_ok_def grows_def by metis
  moreover have "w_opens w' a = None" if "w_next w' \<le> a" for a
    using that ok nx none by (simp add: world_ok_def)
  moreover have "held path w'" if "held path w" for path
    using that st some unfolding held_def grows_def by metis
  ultimately show ?thesis
    by (simp add: kept_def world_ok_def)
qed

lemma same_objects_grows:
  "same_objects w w' \<Longrightarrow> w_opens w b = Some css \<Longrightarrow> \<exists>css'. w_opens w' b = Some css' \<and> grows css css'"
  using same_objects_opens unfolding grows_def by metis

lemma same_objects_None: "same_objects w w' \<Longrightarrow> w_opens w b = None \<Longrightarrow> w_opens w' b = None"
  unfolding same_objects_def by (metis map_option_is_None)

lemma same_objects_kept: "world_ok w \<Longrightarrow> same_objects w w' \<Longrightarrow> kept w w'"
  by (erule keptI; (elim same_objects_grows same_objects_None)?; (assumption | simp add: same_objects_def)?)

lemma findLocation_kept:
  assumes ok: "world_ok w" and f: "findLocation rp fname w = (a, w')"
  shows "kept w w' \<and> w_opens w' a \<noteq> None \<and> w_shared w' = w_shared w"
proof -
  let ?path = "case rp of None \<Rightarrow> fname | Some path \<Rightarrow> path"
  show ?thesis
  proof (cases "w_storages w ?path")
    case (Some b)
    then have "\<exists>css. w_opens w b = Some css"
      using ok unfolding world_ok_def by metis
    then show ?thesis
      using Some f kept_refl [OF ok] by (auto simp: findLocation_def Let_def)
  next
    case None
    then have w': "w' = w\<lparr>w_opens := (w_opens w)(w_next w \<mapsto> os_new ?path), w_next := w_next w + 1,
        w_storages := (w_storages w)(?path \<mapsto> w_next w)\<rparr>" and a: "a = w_next w"
      using f unfolding findLocation_def Let_def by auto
    have new: "w_opens w (w_next w) = None"
      using ok by (simp add: world_ok_def)
    have "w_storages w path \<noteq> Some (w_next w)" "sh_storage (w_shared w p) \<noteq> Some (w_next w)" for path p
      using ok new unfolding world_ok_def by (metis option.distinct(1))+
    then have "world_ok w'"
      using ok new unfolding w' world_ok_def by (auto simp: os_new_def)
    moreover have "held path w'" if "held path w" for path
      using that None new unfolding w' held_def by (auto split: if_splits)
    ultimately show ?thesis
      unfolding kept_def by (simp add: w' a)
  qed
qed

lemma addReference_facts:
  "addReference p wr css = (r, css') \<Longrightarrow> (wr \<longrightarrow> os_writer css = None) \<Longrightarrow>
     grows css css' \<and> os_references css' \<noteq> []"
  by (auto simp: addReference_def grows_def split: if_splits)

lemma set_shared_simps [simp]:
  "w_storages (set_shared p sh w) = w_storages w" "w_opens (set_shared p sh w) = w_opens w"
  "w_next (set_shared p sh w) = w_next w" "w_shared (set_shared p sh w) = (w_shared w)(p := sh)"
  "w_disks (set_shared p sh w) = w_disks w"
  by (simp_all add: set_shared_def)

lemma grows_refl: "grows css css"
  by (simp add: grows_def)

lemma grows_trans: "grows a b \<Longrightarrow> grows b c \<Longrightarrow> grows a c"
  by (simp add: grows_def)

lemma set_shared_kept:
  "world_ok w \<Longrightarrow> sh_storage sh = sh_storage (w_shared w p) \<Longrightarrow> kept w (set_shared p sh w)"
  by (rule keptI) (auto simp: grows_refl split: if_splits)

lemma attach_kept:
  \<comment> \<open>\<open>open\<close> attaches the object first, calls the storage and adds the reference last\<close>
  assumes ok: "world_ok w" and a: "w_opens w a = Some css" and free: "wr \<longrightarrow> os_writer css = None"
    and c: "open_call rnd a c (set_shared p sh w) = Some (r, w1)" "sh_storage sh = Some a"
    and css1: "w_opens w1 a = Some css1"
  shows "kept w (w1\<lparr>w_opens := (w_opens w1)(a \<mapsto> snd (addReference p wr css1))\<rparr>)"
proof -
  let ?w = "w1\<lparr>w_opens := (w_opens w1)(a \<mapsto> snd (addReference p wr css1))\<rparr>"
  have same: "same_objects (set_shared p sh w) w1"
    using open_call_keeps [OF c(1)] .
  have "os_writer css1 = os_writer css"
    using same_objects_opens [OF same, of a css] a css1 by auto
  then have ref: "grows css1 (snd (addReference p wr css1))" "os_references (snd (addReference p wr css1)) \<noteq> []"
    using addReference_facts [of p wr css1] free by (metis prod.collapse)+
  show ?thesis
  proof (rule keptI [OF ok])
    fix b css
    assume "w_opens w b = Some css"
    then obtain css' where b: "w_opens w1 b = Some css'" "grows css css'"
      using same_objects_grows [OF same, of b css] by auto
    then show "\<exists>css'. w_opens ?w b = Some css' \<and> grows css css'"
      using css1 ref(1) grows_trans by auto
  next
    fix b
    assume "w_opens w b = None"
    then show "w_opens ?w b = None"
      using same_objects_None [OF same, of b] a by auto
  next
    fix q b
    assume "sh_storage (w_shared ?w q) = Some b"
    then have "sh_storage (((w_shared w)(p := sh)) q) = Some b"
      using same by (simp add: same_objects_def)
    then show "sh_storage (w_shared w q) = Some b \<or> (\<exists>css. w_opens ?w b = Some css \<and> os_references css \<noteq> [])"
      using c(2) ref(2) by (auto split: if_splits)
  qed (use same in \<open>simp_all add: same_objects_def\<close>)
qed

lemma shared_open_kept:
  assumes ok: "world_ok w" and o: "shared_open rp rnd p fname flags w = Some (r, w')"
  shows "kept w w'"
proof -
  obtain a w0 where f: "findLocation rp fname w = (a, w0)"
    by fastforce
  let ?wr = "has_flag flags (F_CSFILE_WR OR F_CSFILE_CREATE)"
  let ?w1 = "set_shared p ((w_shared w0 p)\<lparr>sh_writer := ?wr\<rparr>) w0"
  have k0: "kept w w0" and css: "\<exists>css. w_opens w0 a = Some css"
    using findLocation_kept [OF ok f] by auto
  have k1: "kept w0 ?w1"
    using k0 by (intro set_shared_kept) (simp_all add: kept_def)
  obtain css where css: "w_opens w0 a = Some css"
    using css ..
  show ?thesis
  proof (cases "?wr \<and> os_writer css \<noteq> None")
    case True
    then have "w' = ?w1"
      using o f css by (simp add: shared_open_def)
    then show ?thesis
      using kept_trans [OF k0 k1] by simp
  next
    case False
    let ?sh = "(w_shared ?w1 p)\<lparr>sh_storage := Some a\<rparr>"
    obtain x w2 css2 where c: "open_call rnd a (Do_open fname flags 0) (set_shared p ?sh ?w1) = Some (x, w2)"
        "w_opens w2 a = Some css2" "w' = w2\<lparr>w_opens := (w_opens w2)(a \<mapsto> snd (addReference p ?wr css2))\<rparr>"
      using o f css False
      by (auto simp: shared_open_def Let_def bind_eq_Some_conv simp del: fun_upd_apply split: if_splits)
    have "kept ?w1 w'"
      unfolding c(3) using k1 css False c(1,2) by (intro attach_kept) (auto simp: kept_def)
    then show ?thesis
      using kept_trans [OF kept_trans [OF k0 k1]] by simp
  qed
qed

lemma shared_close_kept:
  assumes ok: "world_ok w" and c: "shared_close flags p w = Some (r, w')"
  shows "kept w w'"
proof (cases "sh_storage (w_shared w p)")
  case None
  then show ?thesis
    using c kept_refl [OF ok] by (simp add: shared_close_def)
next
  case (Some a)
  then obtain x w1 where o: "open_call 0 a (Do_close flags) w = Some (x, w1)"
    using c by (auto simp: shared_close_def bind_eq_Some_conv)
  have same: "same_objects w w1"
    using open_call_keeps [OF o] .
  obtain css where "w_opens w a = Some css" "os_references css \<noteq> []"
    using ok Some unfolding world_ok_def by metis
  then obtain css1 where "w_opens w1 a = Some css1" "referenceCount css1 \<noteq> 0"
    using same_objects_opens [OF same, of a css] by (auto simp: referenceCount_def)
  then have "w' = w1"
    using c Some o by (auto simp: shared_close_def split: if_splits)
  then show ?thesis
    using same_objects_kept [OF ok same] by simp
qed

lemma bridge_kept:
  assumes "world_ok w"
    and "bridge_call may mute (map_option (open_call rnd) storage) c w = Some (r, w')"
  shows "kept w w'"
  using assms kept_refl same_objects_kept open_call_keeps
  by (auto simp: bridge_call_def split: if_splits option.splits)

lemma shared_call_kept:
  assumes ok: "world_ok w" and c: "shared_call rnd p c w = Some (r, w')"
  shows "kept w w'"
proof (cases "\<exists>flags. c = Do_close flags")
  case True
  then show ?thesis
    using c shared_close_kept [OF ok] by (auto simp: shared_call_def bind_eq_Some_conv)
next
  case False
  then have "bridge_call (shared_allowed (w_shared w p)) (muteFlags (w_shared w p))
      (map_option (open_call rnd) (sh_storage (w_shared w p))) c w = Some (r, w')"
    using c by (cases c) (simp_all add: shared_call_def)
  then show ?thesis
    using bridge_kept [OF ok] by blast
qed

lemma shared_step_kept: "world_ok w \<Longrightarrow> shared_step w w' \<Longrightarrow> kept w w'"
  by (auto elim!: shared_step.cases dest: shared_open_kept shared_call_kept shared_close_kept)

lemma shared_steps_kept: "shared_step\<^sup>*\<^sup>* w w' \<Longrightarrow> world_ok w \<Longrightarrow> kept w w'"
proof (induction rule: rtranclp_induct)
  case (step v w')
  then show ?case
    using shared_step_kept [of v w'] kept_trans by (auto simp: kept_def)
qed (rule kept_refl)

subsection \<open>A shared storage\<close>

lemma ss_open_forgets: "ss_open rnd f fl k (s\<lparr>fauto_commit := b, rdwr := c\<rparr>) d = ss_open rnd f fl k s d"
  by (simp add: ss_open_def Let_def)

lemma demo_missing:
  "ss_open 7 ''demo'' 0 0 ss_new demo_disk =
     Some (E_CSTORAGE_OPEN_FILE_NO_ACCESS, ss_new\<lparr>fauto_commit := False, rdwr := False\<rparr>, demo_disk)"
  by (simp add: ss_open_def Let_def checkFilesPresent_def all_ids_def os_access_def demo_disk_def has_flag_def
      F_CSFILE_EXCEPTIONS_def F_CSTORAGE_CREATE_def F_CSTORAGE_WR_def)

text \<open>Object 1 asks for a storage that is not there, which attaches it all the same; object 0 creates it.\<close>

definition shared_pair :: "world \<Rightarrow> world \<Rightarrow> open_storage \<Rightarrow> bool" where
  "shared_pair w1 w css \<longleftrightarrow>
     shared_open (Some ''/x'') 7 1 ''demo'' 0 (world_new (\<lambda>path. demo_disk)) = Some (E_CSTORAGE_OPEN_FILE_NO_ACCESS, w1)
     \<and> shared_open (Some ''/x'') 7 0 ''demo'' 3 w1 = Some (E_CSTORAGE_OK, w)
     \<and> w_storages w ''/x'' = Some 0 \<and> w_opens w 0 = Some css \<and> os_writer css = Some 0 \<and> os_realPath css = ''/x''
     \<and> w_shared w 0 = \<lparr>sh_writer = True, sh_storage = Some 0\<rparr>
     \<and> w_shared w 1 = \<lparr>sh_writer = False, sh_storage = Some 0\<rparr>
     \<and> good (os_storage css, w_disks w ''/x'') \<and> \<not> fauto_commit (os_storage css)
     \<and> (\<forall>k. flimit (w_disks w ''/x'' k) = 1000000) \<and> brand_new 7 (os_storage css) (w_disks w ''/x'')"

lemma demo_shared: "\<exists>w1 w css. shared_pair w1 w css"
proof -
  obtain s d where sd: "ss_open 7 ''demo'' 3 0 ss_new demo_disk = Some (E_CSTORAGE_OK, s, d)" "brand_new 7 s d"
      "\<forall>k. flimit (d k) = 1000000" "\<not> fauto_commit s"
    using demo_created by blast
  have fl: "\<not> has_flag 0 (F_CSFILE_WR OR F_CSFILE_CREATE)" "has_flag 3 (F_CSFILE_WR OR F_CSFILE_CREATE)"
    by (simp_all add: has_flag_def F_CSFILE_WR_def F_CSFILE_CREATE_def)
  let ?w0 = "world_new (\<lambda>path. demo_disk)"
  obtain w1 where w1: "shared_open (Some ''/x'') 7 1 ''demo'' 0 ?w0 = Some (E_CSTORAGE_OPEN_FILE_NO_ACCESS, w1)"
      "w_storages w1 = [''/x'' \<mapsto> 0]" "w_shared w1 = (\<lambda>p. shared_new)(1 := \<lparr>sh_writer = False, sh_storage = Some 0\<rparr>)"
      "w_opens w1 0 = Some \<lparr>os_realPath = ''/x'', os_storage = ss_new\<lparr>fauto_commit := False, rdwr := False\<rparr>,
         os_references = [1], os_writer = None\<rparr>" "w_disks w1 ''/x'' = demo_disk"
    using demo_missing fl(1)
    by (auto simp: shared_open_def findLocation_def world_new_def open_call_transparent os_new_def shared_new_def
        addReference_def Let_def)
  show ?thesis
    using w1 sd fl(2) brand_new_good [OF sd(2)]
    by (auto simp: shared_pair_def shared_open_def findLocation_def open_call_transparent ss_open_forgets
        addReference_def shared_new_def Let_def)
qed

subsection \<open>Properties\<close>

lemma held_open:
  assumes "held path w" "has_flag flags (F_CSFILE_WR OR F_CSFILE_CREATE)"
  shows "shared_open (Some path) rnd p fname flags w =
    Some (E_CSTORAGE_ONLY_ONE_WRITER, set_shared p ((w_shared w p)\<lparr>sh_writer := True\<rparr>) w)"
  using assms by (auto simp: held_def shared_open_def findLocation_def Let_def)

text \<open>
  Property (C23): once a location has a writer, it has one for ever: nothing that the objects sharing
  it do afterwards, closing and destroying the writer included, lets any object open it for writing
  again; every such \<open>open\<close> returns \<open>E_CSTORAGE_ONLY_ONE_WRITER\<close>. \<open>removeReference\<close>, which would release
  it, is never called.
\<close>

theorem writer_is_never_released:
  assumes "shared_step\<^sup>*\<^sup>* (world_new ds) w" "held path w" "shared_step\<^sup>*\<^sup>* w w'"
    and "has_flag flags (F_CSFILE_WR OR F_CSFILE_CREATE)"
  shows "\<exists>w''. shared_open (Some path) rnd p fname flags w' = Some (E_CSTORAGE_ONLY_ONE_WRITER, w'')"
proof -
  have "world_ok w"
    using shared_steps_kept [OF assms(1) world_ok_new] by (simp add: kept_def)
  then have "held path w'"
    using shared_steps_kept [OF assms(3)] assms(2) by (simp add: kept_def)
  then show ?thesis
    using held_open [OF _ assms(4)] by blast
qed

theorem writer_is_never_released_witness:
  "\<exists>w1 w css w2 w3. shared_pair w1 w css \<and> shared_close 0 0 w = Some (E_CSTORAGE_OK, w2)
     \<and> shared_open (Some ''/x'') 7 5 ''demo'' 1 w2 = Some (E_CSTORAGE_ONLY_ONE_WRITER, w3)"
proof -
  obtain w1 w css where p: "shared_pair w1 w css"
    using demo_shared by blast
  let ?s = "os_storage css" and ?d = "w_disks w ''/x''"
  have "writer ?s ?d" "185 \<le> flimit (?d StateF)"
    using p by (simp_all add: shared_pair_def healthy_def)
  then obtain s d where "ss_close ?s ?d = Some (E_CSTORAGE_OK, s, d)"
    using close_ok by blast
  then have "open_call 0 0 (Do_close 0) w = Some (Code E_CSTORAGE_OK, w\<lparr>w_opens := (w_opens w)(0 \<mapsto> css\<lparr>os_storage := s\<rparr>),
      w_disks := (w_disks w)(''/x'' := d)\<rparr>)" (is "_ = Some (_, ?w2)")
    using p by (simp add: open_call_transparent shared_pair_def)
  moreover have steps: "shared_step\<^sup>*\<^sup>* (world_new (\<lambda>path. demo_disk)) w"
    using p unfolding shared_pair_def by (blast intro: shared_step.opens rtranclp.rtrancl_into_rtrancl)
  moreover from this have "world_ok w"
    using shared_steps_kept [OF _ world_ok_new] by (simp add: kept_def)
  then have "referenceCount css \<noteq> 0"
    using p unfolding world_ok_def shared_pair_def referenceCount_def by (metis length_0_conv of_nat_eq_0_iff option.inject shared.select_convs(2))
  ultimately have close: "shared_close 0 0 w = Some (E_CSTORAGE_OK, ?w2)"
    using p by (simp add: shared_close_def shared_pair_def referenceCount_def)
  have "held ''/x'' w" "has_flag 1 (F_CSFILE_WR OR F_CSFILE_CREATE)"
    using p by (simp_all add: held_def shared_pair_def has_flag_def F_CSFILE_WR_def F_CSFILE_CREATE_def)
  moreover have "shared_step\<^sup>*\<^sup>* w ?w2"
    using shared_step.closes [OF close] by (rule r_into_rtranclp)
  ultimately obtain w3 where "shared_open (Some ''/x'') 7 5 ''demo'' 1 ?w2 = Some (E_CSTORAGE_ONLY_ONE_WRITER, w3)"
    using writer_is_never_released [OF steps] by blast
  then show ?thesis
    using p close by blast
qed

text \<open>
  Property (C25): an object whose request to become the writer of a location is refused gets the rights of a
  writer. \<open>open\<close> sets \<open>writer\<close> before it looks whether there is one and does not set it back. After the
  error an object that an earlier \<open>open\<close> has attached to a storage reaches it with every operation, commits, rollbacks and
  writes included, flags unchanged; for an object that is attached to none, the operations are not refused either, and
  fail only because there is no storage (\<open>E_CSTORAGE_NOT_OPENED\<close>).
\<close>

theorem refused_writer_may_write:
  assumes "held path w" "has_flag flags (F_CSFILE_WR OR F_CSFILE_CREATE)" and "\<forall>fl. c \<noteq> Do_close fl"
  shows "\<exists>w'. shared_open (Some path) rnd p fname flags w = Some (E_CSTORAGE_ONLY_ONE_WRITER, w')
    \<and> shared_call rnd p c w' =
        (case sh_storage (w_shared w p) of
           Some a \<Rightarrow> open_call rnd a c w'
         | None \<Rightarrow> Some (Code E_CSTORAGE_NOT_OPENED, w'))"
proof -
  let ?w = "set_shared p ((w_shared w p)\<lparr>sh_writer := True\<rparr>) w"
  have "shared_call rnd p c ?w =
      (case sh_storage (w_shared w p) of
         Some a \<Rightarrow> open_call rnd a (map_flags (\<lambda>flags. flags) c) ?w
       | None \<Rightarrow> Some (Code E_CSTORAGE_NOT_OPENED, ?w))"
    using assms(3) by (cases c) (simp_all add: shared_call_def bridge_call_def shared_allowed_def muteFlags_def split: option.split)
  then show ?thesis
    using held_open [OF assms(1,2)] map_flags_id [of "\<lambda>flags. flags" c]
    by (intro exI [of _ ?w]) (simp split: option.split)
qed

theorem refused_writer_may_write_witness:
  "\<exists>w1 w css w2. shared_pair w1 w css
     \<and> shared_open (Some ''/x'') 7 1 ''demo'' 1 w = Some (E_CSTORAGE_ONLY_ONE_WRITER, w2)
     \<and> shared_call 7 1 Do_commit w2 = open_call 7 0 Do_commit w2"
proof -
  obtain w1 w css where p: "shared_pair w1 w css"
    using demo_shared by blast
  then have "held ''/x'' w" "has_flag 1 (F_CSFILE_WR OR F_CSFILE_CREATE)" "sh_storage (w_shared w 1) = Some 0"
    by (simp_all add: held_def shared_pair_def has_flag_def F_CSFILE_WR_def F_CSFILE_CREATE_def)
  then show ?thesis
    using refused_writer_may_write [of "''/x''" w 1 Do_commit 7 1 "''demo''"] p by fastforce
qed

lemma call_through:
  assumes "w_opens w a = Some css" "sh_storage (w_shared w p) = Some a"
    and "shared_allowed (w_shared w p) (op_code c)" "\<forall>fl. c \<noteq> Do_close fl"
    and "ss_call rnd (map_flags (\<lambda>flags. muteFlags (w_shared w p) flags (op_code c)) c)
      (os_storage css, w_disks w (os_realPath css)) = Some (r, s, d)"
  shows "shared_call rnd p c w =
    Some (r, w\<lparr>w_opens := (w_opens w)(a \<mapsto> css\<lparr>os_storage := s\<rparr>), w_disks := (w_disks w)(os_realPath css := d)\<rparr>)"
proof -
  have "shared_call rnd p c w = bridge_call (shared_allowed (w_shared w p)) (muteFlags (w_shared w p))
      (map_option (open_call rnd) (sh_storage (w_shared w p))) c w"
    using assms(4) by (cases c) (simp_all add: shared_call_def)
  then show ?thesis
    using assms by (simp add: bridge_call_def open_call_transparent)
qed

lemma call_through_ex:
  "w_opens w a = Some css \<Longrightarrow> sh_storage (w_shared w p) = Some a \<Longrightarrow>
     shared_allowed (w_shared w p) (op_code c) \<Longrightarrow> \<forall>fl. c \<noteq> Do_close fl \<Longrightarrow>
     ss_call rnd (map_flags (\<lambda>flags. muteFlags (w_shared w p) flags (op_code c)) c)
       (os_storage css, w_disks w (os_realPath css)) = Some (r, s, d) \<Longrightarrow>
     \<exists>w''. shared_call rnd p c w = Some (r, w'')"
  using call_through by blast

text \<open>
  Property (C24): readers that share a storage are not isolated from its writer. Whatever flags it
  gives, an object that is no writer reads what the writer has just written and not committed:
  \<open>muteFlags\<close> adds \<open>F_CSTORAGE_COMMITED_READ\<close>, which is 0, and the shared storage is open for writing.
\<close>

theorem shared_reader_sees_uncommitted:
  assumes "w_opens w a = Some css" "sh_storage (w_shared w q) = Some a" "sh_writer (w_shared w q)"
    and "sh_storage (w_shared w p) = Some a" "\<not> sh_writer (w_shared w p)"
    and g: "good (os_storage css, w_disks w (os_realPath css))" "\<not> fauto_commit (os_storage css)"
    and can: "can_write (os_storage css) (w_disks w (os_realPath css)) i (length y)"
    and fresh: "i \<notin> set (dirtySerials (os_storage css))" and m: "m < 2 ^ 24"
  shows "\<exists>w' w'' css'. shared_call rnd q (Do_write i (Some y) (word_of_nat (length y)) 0) w
        = Some (Code (int (length y)), w')
    \<and> w_opens w' a = Some css'
    \<and> view False (os_storage css') (w_disks w' (os_realPath css')) i
        = view False (os_storage css) (w_disks w (os_realPath css)) i
    \<and> shared_call rnd p (Do_read i buf (word_of_nat m) flags) w'
        = Some (Code_data (int (length y)) (overlay (take m y) buf), w'')"
proof -
  let ?d = "w_disks w (os_realPath css)"
  have h: "healthy (os_storage css) ?d" "tidy (os_storage css) ?d"
    using g(1) by simp_all
  obtain s' d' where o: "ss_write i (Some y) (word_of_nat (length y)) (os_storage css) ?d = Some (int (length y), s', d')"
    and w: "wrote (write_reg (os_storage css) i (word_of_nat (length y))) y (os_storage css) ?d s' d'"
    using write_ok [OF h(1) can] by blast
  have v: "view True s' d' i = Some y"
    using write_healthy(2) [OF h(1) can w] by simp
  have com: "view False s' d' i = view False (os_storage css) ?d i"
    using write_committed_view [OF h can w fresh g(2)] by simp
  have i: "0 < i" "is_i32 i"
    using can by (simp_all add: can_write_def)
  let ?w = "w\<lparr>w_opens := (w_opens w)(a \<mapsto> css\<lparr>os_storage := s'\<rparr>), w_disks := (w_disks w)(os_realPath css := d')\<rparr>"
  have "shared_call rnd q (Do_write i (Some y) (word_of_nat (length y)) 0) w = Some (Code (int (length y)), ?w)"
    using assms(1-3) o by (intro call_through) (simp_all add: shared_allowed_def)
  moreover obtain s'' where
    "ss_read i buf (word_of_nat m) (muteFlags (w_shared w p) flags O_CSTORAGE_BRIDGE_READ) s' d'
       = Some (int (length y), overlay (take m y) buf, s'')"
    using read_ok [OF write_healthy(1) [OF h(1) can w] i v m] by blast
  moreover from this have "\<exists>w''. shared_call rnd p (Do_read i buf (word_of_nat m) flags) ?w
      = Some (Code_data (int (length y)) (overlay (take m y) buf), w'')"
    using assms(4,5)
    by (intro call_through_ex [where css = "css\<lparr>os_storage := s'\<rparr>" and a = a and s = s'' and d = d'])
      (simp_all add: shared_allowed_def F_SHARED_SS_WRITE_OPS_def bridge_ops)
  ultimately show ?thesis
    using com by (elim exE, intro exI conjI) (assumption | simp)+
qed

theorem shared_reader_sees_uncommitted_witness:
  "\<exists>w1 w css w2 w3. shared_pair w1 w css
     \<and> shared_call 7 0 (Do_write 9 (Some [4, 2]) (word_of_nat (length [4, 2 :: byte])) 0) w = Some (Code 2, w2)
     \<and> shared_call 7 1 (Do_read 9 [0, 0, 0] (word_of_nat 3) F_CSTORAGE_COMMITED_READ) w2 = Some (Code_data 2 [4, 2, 0], w3)"
proof -
  obtain w1 w css where p: "shared_pair w1 w css"
    using demo_shared by blast
  then have "can_write (os_storage css) (w_disks w ''/x'') 9 (length [4, 2 :: byte])"
    by (intro demo_can_write) (simp_all add: shared_pair_def brand_new_def)
  then have "\<exists>w2 w3 css'. shared_call 7 0 (Do_write 9 (Some [4, 2]) (word_of_nat (length [4, 2 :: byte])) 0) w = Some (Code (int (length [4, 2 :: byte])), w2)
     \<and> w_opens w2 0 = Some css'
     \<and> view False (os_storage css') (w_disks w2 (os_realPath css')) 9 = view False (os_storage css) (w_disks w (os_realPath css)) 9
     \<and> shared_call 7 1 (Do_read 9 [0, 0, 0] (word_of_nat 3) F_CSTORAGE_COMMITED_READ) w2
         = Some (Code_data (int (length [4, 2 :: byte])) (overlay (take 3 [4, 2]) [0, 0, 0]), w3)"
    using p by (intro shared_reader_sees_uncommitted) (simp_all add: shared_pair_def brand_new_def)
  then show ?thesis
    using p by (auto simp: overlay_def)
qed

end
