(* ===== verification/Net_Messages.thy ===== *)
theory Net_Messages
  imports Connection Storage_Ops
begin

text \<open>
  The structures of src/src/include/safe_storage_net.h that follow the header of a message: what a
  request and an answer have besides the bytes of a record or the characters of a name.
\<close>

record req_open =
  qo_hash_key :: u32

record resp_get_info =
  pi_info :: storage_info

record req_write =
  qw_serial :: int

record req_read =
  qr_serial :: int

record resp_read =
  pr_serial :: int

record req_read_log =
  ql_seq :: int

record req_read_log_reg =
  qg_seq :: int

record resp_read_log_reg =
  pg_serial :: int
  pg_type :: byte

record resp_get_param =
  pp_value :: int

record req_set_param =
  qs_value :: int

subsection \<open>Layouts\<close>

definition enc_info :: "storage_info \<Rightarrow> bytes" where
  "enc_info x = le_enc 4 (i_hash_key x) @ le_enc 4 (i_last_updated x) @ le_enc 4 (i_version x)
     @ enc_i32 (i_count x) @ enc_i32 (i_commit_count x) @ enc_i32 (i_rollback_begin_count x)
     @ enc_i32 (i_rollback_end_count x) @ enc_i32 (i_last_commit_sequence x)
     @ enc_i32 (i_last_rollback_sequence x) @ enc_i32 (i_last_sequence x)"

definition dec_info :: "bytes \<Rightarrow> storage_info" where
  "dec_info bs =
     \<lparr>i_hash_key = le_dec (seg 0 4 bs), i_last_updated = le_dec (seg 4 4 bs), i_version = le_dec (seg 8 4 bs),
      i_count = dec_i32 (seg 12 4 bs), i_commit_count = dec_i32 (seg 16 4 bs),
      i_rollback_begin_count = dec_i32 (seg 20 4 bs), i_rollback_end_count = dec_i32 (seg 24 4 bs),
      i_last_commit_sequence = dec_i32 (seg 28 4 bs), i_last_rollback_sequence = dec_i32 (seg 32 4 bs),
      i_last_sequence = dec_i32 (seg 36 4 bs)\<rparr>"

definition well_info :: "storage_info \<Rightarrow> bool" where
  "well_info x \<longleftrightarrow> is_i32 (i_count x) \<and> is_i32 (i_commit_count x) \<and> is_i32 (i_rollback_begin_count x)
     \<and> is_i32 (i_rollback_end_count x) \<and> is_i32 (i_last_commit_sequence x)
     \<and> is_i32 (i_last_rollback_sequence x) \<and> is_i32 (i_last_sequence x)"

lemma dec_enc_info [codec_simps]: "well_info x \<Longrightarrow> dec_info (enc_info x @ rest) = x"
  by (simp add: dec_info_def enc_info_def seg_front seg_skip seg_skip_cons nth_skip dec_enc_i32
      le_dec_le_enc_full well_info_def)

lemma length_enc_info [simp]: "length (enc_info x) = 40"
  by (simp add: enc_info_def)

definition enc_req_open :: "req_open \<Rightarrow> bytes" where
  "enc_req_open q = le_enc 4 (qo_hash_key q)"

definition enc_req_write :: "req_write \<Rightarrow> bytes" where
  "enc_req_write q = enc_i32 (qw_serial q)"

definition enc_req_read :: "req_read \<Rightarrow> bytes" where
  "enc_req_read q = enc_i32 (qr_serial q)"

definition enc_req_read_log :: "req_read_log \<Rightarrow> bytes" where
  "enc_req_read_log q = enc_i32 (ql_seq q)"

definition enc_req_read_log_reg :: "req_read_log_reg \<Rightarrow> bytes" where
  "enc_req_read_log_reg q = enc_i32 (qg_seq q)"

definition enc_req_set_param :: "req_set_param \<Rightarrow> bytes" where
  "enc_req_set_param q = enc_i32 (qs_value q)"

text \<open>The answers are read from a buffer; \<open>None\<close> is a read past its end.\<close>

definition dec_resp_get_info :: "bytes \<Rightarrow> resp_get_info option" where
  "dec_resp_get_info bs = (if length bs < 40 then None else Some \<lparr>pi_info = dec_info bs\<rparr>)"

definition dec_resp_read :: "bytes \<Rightarrow> resp_read option" where
  "dec_resp_read bs = (if length bs < 4 then None else Some \<lparr>pr_serial = dec_i32 (seg 0 4 bs)\<rparr>)"

definition dec_resp_read_log_reg :: "bytes \<Rightarrow> resp_read_log_reg option" where
  "dec_resp_read_log_reg bs =
     (if length bs < 5 then None else Some \<lparr>pg_serial = dec_i32 (seg 0 4 bs), pg_type = bs ! 4\<rparr>)"

definition dec_resp_get_param :: "bytes \<Rightarrow> resp_get_param option" where
  "dec_resp_get_param bs = (if length bs < 4 then None else Some \<lparr>pp_value = dec_i32 (seg 0 4 bs)\<rparr>)"

lemmas net_codecs = enc_req_open_def enc_req_write_def enc_req_read_def enc_req_read_log_def
  enc_req_read_log_reg_def enc_req_set_param_def dec_resp_get_info_def dec_resp_read_def
  dec_resp_read_log_reg_def dec_resp_get_param_def

text \<open>An answer as a server would lay it out.\<close>

lemma resp_get_info_back: "well_info x \<Longrightarrow> dec_resp_get_info (enc_info x @ rest) = Some \<lparr>pi_info = x\<rparr>"
  by (simp add: dec_resp_get_info_def dec_enc_info)

lemma resp_read_log_reg_back:
  "is_i32 serial \<Longrightarrow> dec_resp_read_log_reg (enc_i32 serial @ type # rest) = Some \<lparr>pg_serial = serial, pg_type = type\<rparr>"
  by (simp add: dec_resp_read_log_reg_def seg_front nth_skip dec_enc_i32)

end
