(* ===== verification/Remote.thy ===== *)
theory Remote
  imports Bridge Net_Messages
begin

text \<open>
  src/src/lib/safe_client.cpp, safe_proxy.cpp, factory.cpp and safe_storage_replica.cpp: the client's
  end of a connection and the object that chooses between a local and a remote storage. The client
  is unfinished: \<open>sendRequest\<close> sends nothing and returns 0, and the pointers of its buffers are never
  set. \<open>None\<close> is the use of such a pointer.
\<close>

subsection \<open>\<open>CSafeClient\<close>\<close>

record client =
  cl_dbegin :: "bytes option"
  cl_respdata :: "bytes option"
    \<comment> \<open>the buffers, \<open>None\<close> for a pointer that is not set\<close>

definition client_new :: client where
  "client_new = \<lparr>cl_dbegin = None, cl_respdata = None\<rparr>"

text \<open>The arguments are the command, the flags, the structure of the request and the data after it.\<close>

definition sendRequest :: "int \<Rightarrow> u32 \<Rightarrow> bytes \<Rightarrow> bytes \<Rightarrow> int" where
  "sendRequest cmd flags req vdata = 0"

text \<open>\<open>PREPARE_PREQ\<close> and the assignments after it: the structure of the request behind the header in the buffer;
  \<open>None\<close> without a buffer or with one too short.\<close>

definition prepare_req :: "bytes \<Rightarrow> client \<Rightarrow> client option" where
  "prepare_req req cl =
     do { buf \<leftarrow> cl_dbegin cl;
          if HEADER_SIZE + length req \<le> length buf
          then Some (cl\<lparr>cl_dbegin := Some (patch HEADER_SIZE req buf)\<rparr>) else None }"

definition text_arg :: "string \<Rightarrow> bytes" where
  \<comment> \<open>a string with its terminator\<close>
  "text_arg s = map of_char s @ [0]"

fun client_call :: "client \<Rightarrow> call \<Rightarrow> (reply \<times> client) option" where
  "client_call cl (Do_close flags) = Some (Code (sendRequest SAFE_CMD_CLOSE flags [] []), cl)"
| "client_call cl (Do_open location flags key) =
     (let req = enc_req_open \<lparr>qo_hash_key = key\<rparr>
      in do { cl \<leftarrow> prepare_req req cl;
              Some (Code (sendRequest SAFE_CMD_OPEN flags req (text_arg location)), cl) })"
| "client_call cl Do_commit = Some (Code (sendRequest SAFE_CMD_COMMIT 0 [] []), cl)"
| "client_call cl Do_getInfo =
     (let res = sendRequest SAFE_CMD_GET_INFO 0 [] []
      in if res = E_CSTORAGE_OK
         then do { resp \<leftarrow> Option.bind (cl_respdata cl) dec_resp_get_info; Some (Code_info res (pi_info resp), cl) }
         else Some (Code res, cl))"
| "client_call cl Do_rollback = Some (Code (sendRequest SAFE_CMD_ROLLBACK 0 [] []), cl)"
| "client_call cl (Do_verify flags) = Some (Code (sendRequest SAFE_CMD_VERIFY flags [] []), cl)"
| "client_call cl (Do_write serial data dlen flags) =
     (let req = enc_req_write \<lparr>qw_serial = serial\<rparr>
      in do { cl \<leftarrow> prepare_req req cl;
              Some (Code (sendRequest SAFE_CMD_WRITE flags req (case data of None \<Rightarrow> [] | Some y \<Rightarrow> y)), cl) })"
| "client_call cl (Do_read serial buf dlen flags) =
     (let req = enc_req_read \<lparr>qr_serial = serial\<rparr>
      in do { cl \<leftarrow> prepare_req req cl;
              let res = sendRequest SAFE_CMD_READ flags req []
              in if res \<ge> 0
                 then do { resp \<leftarrow> Option.bind (cl_respdata cl) dec_resp_read;
                           Some (Code_serial res (pr_serial resp) buf, cl) }
                 else Some (Code_serial res serial buf, cl) })"
| "client_call cl (Do_readLog seq buf dlen flags) =
     (let req = enc_req_read_log \<lparr>ql_seq = seq\<rparr>
      in do { cl \<leftarrow> prepare_req req cl; Some (Code_data (sendRequest SAFE_CMD_READ_LOG flags req []) buf, cl) })"
| "client_call cl (Do_applyLog data dlen flags) = Some (Code (sendRequest SAFE_CMD_APPLY_LOG flags [] data), cl)"
| "client_call cl (Do_readLogReg seq serial type flags) =
     (let req = enc_req_read_log_reg \<lparr>qg_seq = seq\<rparr>
      in do { cl \<leftarrow> prepare_req req cl;
              let res = sendRequest SAFE_CMD_READ_LOG_REG flags req []
              in if res = E_CSTORAGE_OK
                 then do { resp \<leftarrow> Option.bind (cl_respdata cl) dec_resp_read_log_reg;
                           Some (Code_reg res (pg_serial resp) (pg_type resp), cl) }
                 else Some (Code_reg res serial type, cl) })"
| "client_call cl (Do_getParam name) =
     (let res = sendRequest SAFE_CMD_GET_PARAM 0 [] (text_arg name)
      in if res = E_CSTORAGE_OK
         then do { resp \<leftarrow> Option.bind (cl_respdata cl) dec_resp_get_param; Some (Code (pp_value resp), cl) }
         else Some (Code res, cl))"
| "client_call cl (Do_setParam name v) =
     (let req = enc_req_set_param \<lparr>qs_value = v\<rparr>
      in do { cl \<leftarrow> prepare_req req cl;
              Some (Code (sendRequest SAFE_CMD_SET_PARAM 0 req (text_arg name)), cl) })"
| "client_call cl (Do_createListener params k) = Some (Code E_CSTORAGE_OPERATION_NOT_IMPLEMENTED, cl)"
| "client_call cl (Do_createReplica params) = Some (Code E_CSTORAGE_OPERATION_NOT_IMPLEMENTED, cl)"
| "client_call cl (Do_setCallback cb) = Some (Code E_CSTORAGE_OPERATION_NOT_IMPLEMENTED, cl)"

text \<open>Nothing is sent, and a commit or a rollback reports success.\<close>

lemma remote_commit_does_nothing:
  "client_call client_new Do_commit = Some (Code E_CSTORAGE_OK, client_new)"
  "client_call client_new Do_rollback = Some (Code E_CSTORAGE_OK, client_new)"
  "client_call client_new (Do_write serial data dlen flags) = None"
  by (simp_all add: sendRequest_def E_CSTORAGE_OK_def prepare_req_def client_new_def)

subsection \<open>\<open>CSafeProxy\<close>\<close>

definition E_CSTORAGE_ALREADY_OPENED :: int where "E_CSTORAGE_ALREADY_OPENED = - 507"

datatype backend =
    Local_storage storage
  | Remote_storage client

text \<open>The result of \<open>find_last_of(':')\<close>, if there is a colon.\<close>

definition last_colon :: "string \<Rightarrow> nat option" where
  "last_colon location =
     (if CHR '':'' \<in> set location
      then Some (length location - 1 - length (takeWhile (\<lambda>c. c \<noteq> CHR '':'') (rev location))) else None)"

definition createISafeStorage :: "u32 \<Rightarrow> u32 \<Rightarrow> storage" where
  "createISafeStorage flags version = ss_new"

definition prepareStorage :: "string \<Rightarrow> backend option \<Rightarrow> (string \<times> backend) option" where
  "prepareStorage location st =
     (case st of
        Some b \<Rightarrow> None
      | None \<Rightarrow>
          Some (case last_colon location of
                  None \<Rightarrow> (location, Local_storage ss_new)
                | Some dotpos \<Rightarrow> (drop (dotpos + 1) location, Remote_storage client_new)))"

fun backend_call :: "u32 \<Rightarrow> call \<Rightarrow> backend \<Rightarrow> disk \<Rightarrow> (reply \<times> backend \<times> disk) option" where
  "backend_call rnd c (Local_storage s) d = do { (r, s, d) \<leftarrow> ss_call rnd c (s, d); Some (r, Local_storage s, d) }"
| "backend_call rnd c (Remote_storage cl) d =
     do { (r, cl) \<leftarrow> client_call cl c; Some (r, Remote_storage cl, d) }"

definition proxy_open ::
  "u32 \<Rightarrow> string \<Rightarrow> u32 \<Rightarrow> backend option \<Rightarrow> disk \<Rightarrow> (int \<times> backend option \<times> disk) option" where
  "proxy_open rnd location flags st d =
     (case prepareStorage location st of
        None \<Rightarrow> Some (E_CSTORAGE_ALREADY_OPENED, st, d)
      | Some (normalized, b) \<Rightarrow>
          do { (r, b, d) \<leftarrow> backend_call rnd (Do_open normalized flags 0) b d;
               Some (reply_code r, Some b, d) })"

text \<open>\<open>delete storage\<close> runs the destructor, which closes a local storage once more.\<close>

fun delete_backend :: "backend \<Rightarrow> disk \<Rightarrow> disk option" where
  "delete_backend (Local_storage s) d = ss_destroy s d"
| "delete_backend (Remote_storage cl) d = Some d"

definition proxy_close :: "u32 \<Rightarrow> backend option \<Rightarrow> disk \<Rightarrow> (int \<times> backend option \<times> disk) option" where
  "proxy_close flags st d =
     (case st of
        None \<Rightarrow> Some (E_CSTORAGE_NOT_OPENED, st, d)
      | Some b \<Rightarrow>
          do { (r, b, d) \<leftarrow> backend_call 0 (Do_close flags) b d;
               if reply_code r = E_CSTORAGE_OK
               then do { d \<leftarrow> delete_backend b d; Some (reply_code r, None, d) }
               else Some (reply_code r, Some b, d) })"

definition proxy_call ::
  "u32 \<Rightarrow> call \<Rightarrow> backend option \<Rightarrow> disk \<Rightarrow> (reply \<times> backend option \<times> disk) option" where
  \<comment> \<open>the other operations are those of the bridge\<close>
  "proxy_call rnd c st d =
     bridge_call bridge_allowed bridge_muteFlags
       (map_option (\<lambda>b c (st, d). do { (r, b, d) \<leftarrow> backend_call rnd c b d; Some (r, Some b, d) }) st) c (st, d)"

lemma last_colon_split:
  "last_colon location = Some n \<Longrightarrow>
     location = take n location @ [CHR '':''] @ drop (n + 1) location \<and> CHR '':'' \<notin> set (drop (n + 1) location)"
proof -
  assume a: "last_colon location = Some n"
  then have "CHR '':'' \<in> set location"
    by (simp add: last_colon_def split: if_splits)
  then obtain xs ys where s: "location = xs @ CHR '':'' # ys" "CHR '':'' \<notin> set ys"
    using split_list_last by fastforce
  then have "takeWhile (\<lambda>c. c \<noteq> CHR '':'') (rev location) = rev ys"
    by (simp add: takeWhile_append)
  then have "n = length xs"
    using a s by (auto simp: last_colon_def)
  then show ?thesis
    using s by simp
qed

subsection \<open>\<open>CSafeStorageReplica\<close>\<close>

definition replica_stop :: int where "replica_stop = E_CSTORAGE_OK"

end
