(* ===== verification/Interface.thy ===== *)
theory Interface
  imports Shared_Props Storage_Props3 Remote
begin

text \<open>
  The interface \<open>ISafeStorage\<close> and the objects that implement it by handing calls on:
  \<open>COpenSafeStorage\<close>, \<open>CSharedSafeStorage\<close> and \<open>CSafeProxy\<close>. The contract of a storage is the locale
  \<open>storage_interface\<close>; an object that reaches one behind it is a \<open>storage_forwarder\<close>, and keeps the
  contract. \<open>CSafeStorage\<close> is an instance of the first, the other classes are instances of the second.
\<close>

subsection \<open>Requests as calls\<close>

fun call_of :: "request \<Rightarrow> call" where
  "call_of (Put i y) = Do_write i (Some y) (word_of_nat (length y)) 0"
| "call_of Commit = Do_commit"
| "call_of Rollback = Do_rollback"

lemma call_of_not_close [simp]: "call_of q \<noteq> Do_close fl"
  by (cases q) simp_all

fun send :: "(call \<Rightarrow> 's \<Rightarrow> (reply \<times> 's) option) \<Rightarrow> request list \<Rightarrow> 's \<Rightarrow> (reply list \<times> 's) option" where
  "send exec [] st = Some ([], st)"
| "send exec (q # qs) st =
     do { (r, st) \<leftarrow> exec (call_of q) st;
          (rs, st) \<leftarrow> send exec qs st;
          Some (r # rs, st) }"

fun fits_all :: "(request \<Rightarrow> 's \<Rightarrow> bool) \<Rightarrow> (call \<Rightarrow> 's \<Rightarrow> (reply \<times> 's) option) \<Rightarrow> request list \<Rightarrow> 's \<Rightarrow> bool" where
  \<comment> \<open>every request is one the client may make when its turn comes\<close>
  "fits_all fits exec [] st \<longleftrightarrow> True"
| "fits_all fits exec (q # qs) st \<longleftrightarrow>
     fits q st \<and> (case exec (call_of q) st of None \<Rightarrow> True | Some (r, st') \<Rightarrow> fits_all fits exec qs st')"

definition answers :: "request list \<Rightarrow> bool \<Rightarrow> reply list" where
  "answers qs auto = map (\<lambda>q. Code (answer q auto)) qs"

lemma spec_step_auto [simp]: "sp_auto (spec_step q a) = sp_auto a"
  by (cases q) simp_all

subsection \<open>The contracts\<close>

locale storage_interface =
  fixes exec :: "call \<Rightarrow> 's \<Rightarrow> (reply \<times> 's) option"
    and sound :: "'s \<Rightarrow> bool"
    and content :: "'s \<Rightarrow> spec"
    and fits :: "request \<Rightarrow> 's \<Rightarrow> bool"
  assumes request_law: "\<lbrakk> sound st; fits q st \<rbrakk> \<Longrightarrow>
      \<exists>st'. exec (call_of q) st = Some (Code (answer q (sp_auto (content st))), st') \<and> sound st'
        \<and> content st' = spec_step q (content st)"
    and read_law: "\<lbrakk> sound st; 0 < i; is_i32 i; m < 2 ^ 24; sp_cur (content st) i = Some y \<rbrakk> \<Longrightarrow>
      \<exists>st'. exec (Do_read i buf (word_of_nat m) fl) st
          = Some (Code_data (int (length y)) (overlay (take m y) buf), st')
        \<and> sound st' \<and> content st' = content st"
begin

lemma session:
  "sound st \<Longrightarrow> fits_all fits exec qs st \<Longrightarrow>
     \<exists>st'. send exec qs st = Some (answers qs (sp_auto (content st)), st') \<and> sound st'
       \<and> content st' = fold spec_step qs (content st)"
proof (induction qs arbitrary: st)
  case Nil
  then show ?case by (simp add: answers_def)
next
  case (Cons q qs)
  then obtain st1 where st1: "exec (call_of q) st = Some (Code (answer q (sp_auto (content st))), st1)"
      "sound st1" "content st1 = spec_step q (content st)"
    using request_law [of st q] by auto
  then obtain st' where "send exec qs st1 = Some (answers qs (sp_auto (content st)), st')" "sound st'"
      "content st' = fold spec_step qs (content st1)"
    using Cons.IH [of st1] Cons.prems by auto
  then show ?case
    using st1 by (auto simp: answers_def)
qed

end

text \<open>A storage outside the mode of automatic commits is a transactional store.\<close>

sublocale storage_interface \<subseteq> tx: transactional
  "\<lambda>st. sound st \<and> \<not> sp_auto (content st)" "\<lambda>st. sp_cur (content st)" "\<lambda>st. sp_com (content st)"
  "\<lambda>st. sp_dirty (content st)" "\<lambda>st i y. fits (Put i y) st" "\<lambda>st. fits Commit st \<and> fits Rollback st"
  "\<lambda>i y st. map_option snd (exec (call_of (Put i y)) st)"
  "\<lambda>st. map_option snd (exec (call_of Commit) st)" "\<lambda>st. map_option snd (exec (call_of Rollback) st)"
proof (unfold_locales, goal_cases)
  case (1 st i y)
  then show ?case
    using request_law [of st "Put i y"] by auto
next
  case (2 st)
  then show ?case
    using request_law [of st Commit] by auto
next
  case (3 st)
  then show ?case
    using request_law [of st Rollback] by auto
qed

locale storage_forwarder = storage_interface exec sound content fits
  for exec :: "call \<Rightarrow> 's \<Rightarrow> (reply \<times> 's) option" and sound content fits +
  fixes outer :: "call \<Rightarrow> 't \<Rightarrow> (reply \<times> 't) option"
    and behind :: "'t \<Rightarrow> 's option"
  assumes forwards: "\<lbrakk> behind w = Some st; \<forall>fl. c \<noteq> Do_close fl; exec c st = Some (r, st') \<rbrakk> \<Longrightarrow>
      \<exists>w'. outer c w = Some (r, w') \<and> behind w' = Some st'"
begin

lemma session_behind:
  "behind w = Some st \<Longrightarrow> send exec qs st = Some (rs, st') \<Longrightarrow>
     \<exists>w'. send outer qs w = Some (rs, w') \<and> behind w' = Some st'"
proof (induction qs arbitrary: w st rs)
  case Nil
  then show ?case by simp
next
  case (Cons q qs)
  then obtain r st1 rs1 where e: "exec (call_of q) st = Some (r, st1)" "send exec qs st1 = Some (rs1, st')"
      "rs = r # rs1"
    by (auto simp: bind_eq_Some_conv)
  then obtain w1 where "outer (call_of q) w = Some (r, w1)" "behind w1 = Some st1"
    using forwards [OF Cons.prems(1), of "call_of q" r st1] by auto
  then show ?case
    using Cons.IH e(2,3) by fastforce
qed

end

sublocale storage_forwarder \<subseteq> fwd: storage_interface
  outer "\<lambda>w. \<exists>st. behind w = Some st \<and> sound st" "\<lambda>w. content (the (behind w))"
  "\<lambda>q w. \<exists>st. behind w = Some st \<and> fits q st"
proof (unfold_locales, goal_cases)
  case (1 w q)
  then show ?case
    using request_law forwards [of w _ "call_of q"] by fastforce
next
  case (2 w i m y buf fl)
  then show ?case
    using read_law forwards [of w _ "Do_read i buf (word_of_nat m) fl"] by fastforce
qed

subsection \<open>The implementations\<close>

lemma read_keeps_good:
  assumes "good (s, d)" and "only_read s s' d"
  shows "good (s', d)" "abstract (s', d) = abstract (s, d)"
proof -
  obtain c l where "moved (s\<lparr>cursor := c, ss_last_offset := l\<rparr>) s' d"
    using assms(2) by (auto simp: only_read_def)
  from moved_fields [OF this] have "st_hash_key (state s') = st_hash_key (state s)"
    "dirtySerials s' = dirtySerials s" "fauto_commit s' = fauto_commit s"
    by simp_all
  then show "good (s', d)" "abstract (s', d) = abstract (s, d)"
    using only_read_healthy [OF _ assms(2)] assms(1) by (simp_all add: abstract_def)
qed

lemma ss_call_request: "ss_call rnd (call_of q) st = map_option (\<lambda>(r, st). (Code r, st)) (perform q st)"
  by (cases q; cases st) (auto split: option.splits simp: map_option_case)

interpretation plain: storage_interface "ss_call rnd" good abstract allowed for rnd
proof (unfold_locales, goal_cases)
  case (1 st q)
  then show ?case
    using perform_ok [of st q] by (auto simp: ss_call_request abstract_def split: prod.splits)
next
  case (2 st i m y buf fl)
  obtain s d where st: "st = (s, d)" by (cases st)
  with 2 have h: "healthy s d" "view True s d i = Some y"
    by (simp_all add: abstract_def)
  obtain s' where "ss_read i buf (word_of_nat m) fl s d = Some (int (length y), overlay (take m y) buf, s')"
      "only_read s s' d"
    using read_ok [OF h(1) 2(2,3) h(2) 2(4)] by blast
  then show ?case
    using read_keeps_good [of s d s'] 2(1) st by auto
qed

definition open_at :: "nat \<Rightarrow> world \<Rightarrow> (storage \<times> disk) option" where
  "open_at a w = map_option (\<lambda>css. (os_storage css, w_disks w (os_realPath css))) (w_opens w a)"

interpretation opened: storage_forwarder "ss_call rnd" good abstract allowed "open_call rnd a" "open_at a" for rnd a
  by unfold_locales (auto simp: open_call_transparent open_at_def split: prod.splits)

definition writer_at :: "nat \<Rightarrow> world \<Rightarrow> (storage \<times> disk) option" where
  \<comment> \<open>the storage that the object at address \<open>p\<close> writes\<close>
  "writer_at p w =
     (if sh_writer (w_shared w p) then Option.bind (sh_storage (w_shared w p)) (\<lambda>a. open_at a w) else None)"

interpretation shared: storage_forwarder "ss_call rnd" good abstract allowed "shared_call rnd p" "writer_at p" for rnd p
proof (unfold_locales, goal_cases)
  case (1 w st c r st')
  then obtain a css where "sh_writer (w_shared w p)" "sh_storage (w_shared w p) = Some a" "w_opens w a = Some css"
      "st = (os_storage css, w_disks w (os_realPath css))"
    by (auto simp: writer_at_def open_at_def bind_eq_Some_conv split: if_splits)
  then show ?case
    using 1(2,3) call_through [of w a css p c rnd r "fst st'" "snd st'"]
    by (simp add: shared_allowed_def muteFlags_def map_flags_id writer_at_def open_at_def)
qed

definition proxy_exec :: "u32 \<Rightarrow> call \<Rightarrow> backend option \<times> disk \<Rightarrow> (reply \<times> backend option \<times> disk) option" where
  "proxy_exec rnd c = (\<lambda>(st, d). proxy_call rnd c st d)"

fun local_at :: "backend option \<times> disk \<Rightarrow> (storage \<times> disk) option" where
  "local_at (Some (Local_storage s), d) = Some (s, d)"
| "local_at (st, d) = None"

fun_cases local_atE: "local_at st = Some sd"

interpretation proxy: storage_forwarder "ss_call rnd" good abstract allowed "proxy_exec rnd" local_at for rnd
  by unfold_locales
    (auto elim!: local_atE simp: proxy_exec_def proxy_call_def bridge_transparent split: prod.splits)

subsection \<open>Every implementation serves the same storage\<close>

text \<open>
  Property (C8): a session of writes, commits and rollbacks has the same answers and the same effect through
  every object that implements the interface: on a \<open>CSafeStorage\<close>, on the object that is its writer
  among those that share it, and on a proxy with a local storage. The effect is the specified
  one, and a read through any of them afterwards returns the current content.
\<close>

theorem every_layer_serves_the_storage:
  assumes "good (s, d)" and "fits_all allowed (ss_call rnd) qs (s, d)" and "writer_at p w = Some (s, d)"
    and "0 < i" "is_i32 i" "m < 2 ^ 24" and "sp_cur (fold spec_step qs (abstract (s, d))) i = Some y"
  shows "\<exists>s' d' w'. let out = answers qs (fauto_commit s) in
    send (ss_call rnd) qs (s, d) = Some (out, s', d') \<and> good (s', d')
    \<and> abstract (s', d') = fold spec_step qs (abstract (s, d))
    \<and> send (shared_call rnd p) qs w = Some (out, w') \<and> writer_at p w' = Some (s', d')
    \<and> send (proxy_exec rnd) qs (Some (Local_storage s), d) = Some (out, Some (Local_storage s'), d')
    \<and> (let got = Code_data (int (length y)) (overlay (take m y) buf); ask = Do_read i buf (word_of_nat m) fl in
       map_option fst (ss_call rnd ask (s', d')) = Some got
       \<and> map_option fst (shared_call rnd p ask w') = Some got
       \<and> map_option fst (proxy_exec rnd ask (Some (Local_storage s'), d')) = Some got)"
proof -
  obtain s' d' where a: "send (ss_call rnd) qs (s, d) = Some (answers qs (fauto_commit s), s', d')" "good (s', d')"
      "abstract (s', d') = fold spec_step qs (abstract (s, d))"
    using plain.session [OF assms(1,2)] by (auto simp: abstract_def)
  obtain w' where w: "send (shared_call rnd p) qs w = Some (answers qs (fauto_commit s), w')" "writer_at p w' = Some (s', d')"
    using shared.session_behind [OF assms(3) a(1)] by blast
  obtain b where b: "send (proxy_exec rnd) qs (Some (Local_storage s), d) = Some (answers qs (fauto_commit s), b)"
      "local_at b = Some (s', d')"
    using proxy.session_behind [OF _ a(1), of "(Some (Local_storage s), d)"] by auto
  then have "b = (Some (Local_storage s'), d')"
    by (auto elim: local_atE)
  moreover obtain st where "ss_call rnd (Do_read i buf (word_of_nat m) fl) (s', d')
      = Some (Code_data (int (length y)) (overlay (take m y) buf), st)"
    using plain.read_law [OF a(2) assms(4-6), of y] assms(7) a(3) by metis
  moreover from this obtain w'' where
      "shared_call rnd p (Do_read i buf (word_of_nat m) fl) w' = Some (Code_data (int (length y)) (overlay (take m y) buf), w'')"
    using shared.forwards [OF w(2)] by blast
  moreover obtain b' where "proxy_exec rnd (Do_read i buf (word_of_nat m) fl) (Some (Local_storage s'), d')
         = Some (Code_data (int (length y)) (overlay (take m y) buf), b')"
    using proxy.forwards [of "(Some (Local_storage s'), d')", OF local_at.simps(1)] calculation(2) by blast
  ultimately show ?thesis
    unfolding Let_def using a w b by (intro exI [of _ s'] exI [of _ d'] exI [of _ w']) (simp del: ss_call.simps)
qed

lemma demo_session:
  assumes "good (s, d)" "\<not> fauto_commit s" "\<forall>k. flimit (d k) = 1000000" "fsize (d DataF) \<le> 100" "last_seq s = 0"
    "dirtySerials s = []"
  shows "fits_all allowed (ss_call rnd) [Put 9 [4, 2], Commit] (s, d)"
proof -
  have c: "can_write s d 9 (length [4, 2 :: byte])"
    using assms by (intro demo_can_write) simp_all
  have h: "healthy s d"
    using assms(1) by simp
  obtain s1 d1 where p: "perform (Put 9 [4, 2]) (s, d) = Some (2, s1, d1)"
    and w: "wrote (write_reg s 9 (word_of_nat (length [4, 2 :: byte]))) [4, 2] s d s1 d1"
    using write_ok [OF h c] by auto
  then have "fsize (d1 DataF) \<le> 200" "\<forall>k. flimit (d1 k) = 1000000" "last_seq s1 \<le> 2"
    using assms fsize_grown [of d d1 52] grown_limit [of d d1 52] by (auto simp: wrote_def)
  then have "allowed Commit (s1, d1)"
    using demo_room [of d1 s1 50] by simp
  then show ?thesis
    using c p assms(6) by (auto simp: ss_call_request split: option.splits)
qed

theorem every_layer_serves_the_storage_witness:
  "\<exists>s d w s' d' w'. writer_at 0 w = Some (s, d)
     \<and> send (shared_call 7 0) [Put 9 [4, 2], Commit] w = Some ([Code 2, Code E_CSTORAGE_OK], w')
     \<and> writer_at 0 w' = Some (s', d') \<and> sp_com (abstract (s', d')) 9 = Some [4, 2]
     \<and> map_option fst (proxy_exec 7 (Do_read 9 [0, 0, 0] (word_of_nat 3) 0) (Some (Local_storage s'), d'))
         = Some (Code_data 2 [4, 2, 0])"
proof -
  obtain w1 w css where p: "shared_pair w1 w css"
    using demo_shared by blast
  let ?s = "os_storage css" and ?d = "w_disks w ''/x''"
  have s: "good (?s, ?d)" "\<not> fauto_commit ?s" "writer_at 0 w = Some (?s, ?d)"
    using p by (simp_all add: shared_pair_def writer_at_def open_at_def)
  have fits: "fits_all allowed (ss_call 7) [Put 9 [4, 2], Commit] (?s, ?d)"
    using p by (intro demo_session) (simp_all add: shared_pair_def brand_new_def)
  have spec: "fold spec_step [Put 9 [4, 2], Commit] (abstract (?s, ?d))
      = abstract (?s, ?d)\<lparr>sp_cur := (view True ?s ?d)(9 \<mapsto> [4, 2]), sp_com := (view True ?s ?d)(9 \<mapsto> [4, 2]),
          sp_dirty := {}\<rparr>"
    using s(2) by (simp add: abstract_def)
  show ?thesis
    using every_layer_serves_the_storage [OF s(1) fits s(3), of 9 3 "[4, 2]" "[0, 0, 0]" 0] s(2,3) spec
    by (fastforce simp: Let_def answers_def is_i32_def overlay_def)
qed

end
