(* ===== verification/Threads.thy ===== *)
theory Threads
  imports Prelude
begin

text \<open>
  src/src/base/mutex.cpp, mutex_lock.cpp, mutex_cond.cpp and thread.cpp. What the pthread calls
  return is an argument; the calls made are a list of \<open>action\<close>s.
\<close>

datatype action =
    Lock
  | Try_lock
  | Unlock
  | Wait "(int \<times> int) option"
    \<comment> \<open>\<open>pthread_cond_timedwait\<close> with its deadline in seconds and nanoseconds, or \<open>pthread_cond_wait\<close>\<close>
  | Broadcast
  | Create int
    \<comment> \<open>\<open>pthread_create\<close> with a stack size\<close>
  | Cancel
  | Run
  | Yield
  | Sleep int

subsection \<open>\<open>CMutex\<close>\<close>

record mutex =
  m_filename :: "string option"
  m_line :: int

definition mutex_lock :: "string option \<Rightarrow> int \<Rightarrow> int \<Rightarrow> mutex \<Rightarrow> int \<times> mutex" where
  \<comment> \<open>\<open>lock\<close> and \<open>trylock\<close> remember who holds the mutex\<close>
  "mutex_lock filename line result m =
     (if result = 0 then (result, m\<lparr>m_filename := filename, m_line := line\<rparr>) else (result, m))"

subsection \<open>\<open>CMutexLock\<close>\<close>

definition lock_init :: "bool \<Rightarrow> bool \<Rightarrow> int \<Rightarrow> bool \<times> action list" where
  \<comment> \<open>\<open>flocked\<close> afterwards; \<open>r\<close> is what the attempt returns\<close>
  "lock_init lockCondition onlyTry r =
     (if \<not> lockCondition then (False, [])
      else if onlyTry then (r = 0, [Try_lock]) else (True, [Lock]))"

text \<open>The constructors, with a pointer or a reference, and with or without a condition.\<close>

definition lock_new :: "bool \<Rightarrow> int \<Rightarrow> bool \<times> action list" where
  "lock_new onlyTry r = lock_init True onlyTry r"

definition lock_new_if :: "bool \<Rightarrow> bool \<Rightarrow> int \<Rightarrow> bool \<times> action list" where
  "lock_new_if lockCondition onlyTry r = lock_init lockCondition onlyTry r"

definition lock_destroy :: "bool \<Rightarrow> action list" where
  "lock_destroy flocked = (if flocked then [Unlock] else [])"

subsection \<open>\<open>CBlockValue\<close>\<close>

text \<open>A variable has one value while an object lives and another one afterwards. The first part of a result is the
  value of the variable.\<close>

record 'k block_value =
  bv_outvalue :: 'k

definition block_new :: "'k \<Rightarrow> 'k \<Rightarrow> 'k \<Rightarrow> 'k \<times> 'k block_value" where
  "block_new ref invalue outvalue = (invalue, \<lparr>bv_outvalue = outvalue\<rparr>)"

definition block_destroy :: "'k block_value \<Rightarrow> 'k \<Rightarrow> 'k" where
  "block_destroy bv ref = bv_outvalue bv"

text \<open>\<open>CMUTEX_BLOCK_ONCE\<close>: the rest of the block, \<open>body\<close>, is left out when the variable is set already.\<close>

definition CMUTEX_BLOCK_ONCE :: "(bool \<times> 's \<Rightarrow> bool \<times> 's) \<Rightarrow> bool \<times> 's \<Rightarrow> bool \<times> 's" where
  "CMUTEX_BLOCK_ONCE body st =
     (if fst st then st
      else (let (v, bv) = block_new (fst st) True False;
                (v, s) = body (v, snd st)
            in (block_destroy bv v, s)))"

text \<open>A block that calls itself does so once only, and leaves the variable clear.\<close>

lemma block_once_inner: "CMUTEX_BLOCK_ONCE body (True, s) = (True, s)"
  by (simp add: CMUTEX_BLOCK_ONCE_def)

lemma block_once_clear: "fst (CMUTEX_BLOCK_ONCE body (False, s)) = False"
  by (simp add: CMUTEX_BLOCK_ONCE_def block_new_def block_destroy_def split: prod.split)

subsection \<open>\<open>CMutexCond\<close>\<close>

definition CMUTEX_COND_F_GETUS :: u32 where "CMUTEX_COND_F_GETUS = 1"
definition CMUTEX_COND_F_DONT_UNLOCK :: u32 where "CMUTEX_COND_F_DONT_UNLOCK = 2"
definition CMUTEX_COND_F_DONT_LOCK :: u32 where "CMUTEX_COND_F_DONT_LOCK = 4"
definition CMUTEX_COND_F_ONLY_WAIT :: u32 where
  "CMUTEX_COND_F_ONLY_WAIT = CMUTEX_COND_F_DONT_UNLOCK OR CMUTEX_COND_F_DONT_UNLOCK"
definition ETIMEDOUT :: int where "ETIMEDOUT = 110"

record cond =
  lstp :: "int \<times> int"
  letp :: "int \<times> int"
  sleeping :: bool

text \<open>
  The deadline of a wait of \<open>ms\<close> milliseconds from the time \<open>tp\<close> in seconds and microseconds; \<open>int\<close>
  and \<open>long\<close> have 32 bits.
\<close>

definition deadline :: "int \<Rightarrow> int \<times> int \<Rightarrow> int \<times> int" where
  "deadline ms tp =
     (let sec = i32 (fst tp + ms div 1000);
          rms = ms mod 1000;
          usec = i32 (snd tp + rms * 1000);
          (sec, usec) = (if usec \<ge> 1000000 then (i32 (sec + usec div 1000000), usec mod 1000000) else (sec, usec))
      in (sec, i32 (usec * 1000)))"

text \<open>What the calls that \<open>sleep\<close> makes return; \<open>now\<close>, \<open>start\<close> and \<open>stop\<close> are the times read.\<close>

record cond_results =
  r_lock :: int
  r_time :: int
  r_wait :: int
  r_unlock :: int
  r_now :: "int \<times> int"
  r_start :: "int \<times> int"
  r_stop :: "int \<times> int"

definition flag_set :: "u32 \<Rightarrow> u32 \<Rightarrow> bool" where
  "flag_set flags m \<longleftrightarrow> flags AND m \<noteq> 0"

text \<open>The exceptions are made without a result, so they carry 0.\<close>

definition cond_sleep :: "int \<Rightarrow> u32 \<Rightarrow> cond_results \<Rightarrow> cond \<Rightarrow> outcome \<times> cond \<times> action list" where
  "cond_sleep ms flags k c =
     (let c = c\<lparr>lstp := (0, 0), letp := (0, 0)\<rparr>
      in if ms = 0 then (Ret 0, c, [])
         else
           let c = (if flag_set flags CMUTEX_COND_F_GETUS then c\<lparr>lstp := r_start k\<rparr> else c);
               do_lock = \<not> flag_set flags CMUTEX_COND_F_DONT_LOCK;
               acts = (if do_lock then [Lock] else [])
           in if do_lock \<and> r_lock k \<noteq> 0 then (Throw 0, c, acts)
              else if ms > 0 \<and> r_time k \<noteq> 0 then (Throw 0, c, acts)
              else
                let c = c\<lparr>sleeping := True\<rparr>;
                    acts = acts @ [Wait (if ms > 0 then Some (deadline ms (r_now k)) else None)];
                    good = (r_wait k = 0 \<or> (ms > 0 \<and> r_wait k = ETIMEDOUT))
                in if \<not> good then (Throw 0, c, acts)
                   else
                     let c = c\<lparr>sleeping := False\<rparr>;
                         do_unlock = \<not> flag_set flags CMUTEX_COND_F_DONT_UNLOCK;
                         acts = (if do_unlock then acts @ [Unlock] else acts)
                     in if do_unlock \<and> r_unlock k \<noteq> 0 then (Throw 0, c, acts)
                        else (Ret (r_wait k),
                              (if flag_set flags CMUTEX_COND_F_GETUS then c\<lparr>letp := r_stop k\<rparr> else c), acts))"

definition waitLock :: "int \<Rightarrow> u32 \<Rightarrow> cond_results \<Rightarrow> cond \<Rightarrow> outcome \<times> cond \<times> action list" where
  "waitLock ms flags k c = cond_sleep ms (flags OR CMUTEX_COND_F_DONT_UNLOCK) k c"

definition cond_wait :: "int \<Rightarrow> u32 \<Rightarrow> cond_results \<Rightarrow> cond \<Rightarrow> outcome \<times> cond \<times> action list" where
  "cond_wait ms flags k c = cond_sleep ms (flags OR CMUTEX_COND_F_ONLY_WAIT) k c"

definition wakeUp :: "u32 \<Rightarrow> int \<Rightarrow> int \<Rightarrow> int \<Rightarrow> outcome \<times> action list" where
  \<comment> \<open>the results of locking, waking and unlocking\<close>
  "wakeUp flags rl rb ru =
     (let do_lock = \<not> flag_set flags CMUTEX_COND_F_DONT_LOCK;
          do_unlock = \<not> flag_set flags CMUTEX_COND_F_DONT_UNLOCK;
          acts = (if do_lock then [Lock] else [])
      in if do_lock \<and> rl \<noteq> 0 then (Throw 0, acts)
         else if rb \<noteq> 0 then (Throw 0, acts @ [Broadcast])
         else if do_unlock then ((if ru \<noteq> 0 then Throw 0 else Ret 0), acts @ [Broadcast, Unlock])
         else (Ret 0, acts @ [Broadcast]))"

definition getUsLastSleepTime :: "cond \<Rightarrow> u32" where
  "getUsLastSleepTime c =
     (if fst (letp c) = 0 \<or> fst (lstp c) = 0 then 0
      else word_of_int ((fst (letp c) - fst (lstp c)) * 1000000 + (snd (letp c) - snd (lstp c))))"

lemma wait_locks: "flag_set (0 OR CMUTEX_COND_F_ONLY_WAIT) CMUTEX_COND_F_DONT_LOCK = False"
  by (simp add: flag_set_def CMUTEX_COND_F_ONLY_WAIT_def CMUTEX_COND_F_DONT_UNLOCK_def CMUTEX_COND_F_DONT_LOCK_def)

subsection \<open>\<open>CThread\<close>\<close>

text \<open>
  The object. Its thread is to call \<open>run\<close> of \<open>parent\<close>, or \<open>frun\<close> without a parent; pointers are addresses.
  \<open>pthread_create\<close> returns \<open>created\<close>.
\<close>

record 'p cthread =
  th_parent :: "'p option"
  th_frun :: "'p option"
  th_info :: 'p
  th_stackSize :: int
  th_running :: bool
  th_finish :: bool
  th_fthread :: int

definition thread_start :: "int \<Rightarrow> 'p cthread \<Rightarrow> action list \<times> 'p cthread" where
  "thread_start created t =
     (if \<not> th_running t
      then ([Create (th_stackSize t)], t\<lparr>th_running := True, th_fthread := created\<rparr>) else ([], t))"

definition thread_init ::
  "int \<Rightarrow> 'p option \<Rightarrow> 'p option \<Rightarrow> 'p \<Rightarrow> bool \<Rightarrow> int \<Rightarrow> 'p cthread \<Rightarrow> action list \<times> 'p cthread" where
  \<comment> \<open>the last argument is the memory of the object before; \<open>info\<close> is not used\<close>
  "thread_init created parent func info autoStart stackSize t =
     (let t = t\<lparr>th_parent := parent, th_stackSize := stackSize, th_finish := False, th_frun := func,
                th_running := False\<rparr>
      in if autoStart then thread_start created t else ([], t))"

definition thread_setInfo :: "'p \<Rightarrow> 'p cthread \<Rightarrow> 'p cthread" where
  "thread_setInfo info t = t\<lparr>th_info := info\<rparr>"

definition thread_terminate :: "'p cthread \<Rightarrow> 'p cthread" where
  "thread_terminate t = t\<lparr>th_finish := True\<rparr>"

definition thread_destroy :: "'p cthread \<Rightarrow> action list \<times> 'p cthread" where
  "thread_destroy t = ([Cancel], t\<lparr>th_finish := True\<rparr>)"

lemma thread_init_drops_info:
  "th_info (snd (thread_init created parent func info autoStart stackSize t)) = th_info t"
  by (simp add: thread_init_def thread_start_def Let_def)

lemma thread_starts_once:
  "thread_start c (snd (thread_start created t)) = ([], snd (thread_start created t))"
  by (simp add: thread_start_def)

text \<open>
  The thread function: \<open>finish\<close> before the first call, and for each call of the \<open>run\<close> method what it
  returned and the value of \<open>finish\<close> then and when the loop tests it again.
\<close>

fun thread_run :: "bool \<Rightarrow> (int \<times> bool \<times> bool) list \<Rightarrow> action list" where
  "thread_run True calls = []"
| "thread_run False [] = [Run]"
    \<comment> \<open>the call has not returned yet\<close>
| "thread_run False ((ms, finish, finish') # calls) =
     Run # (if ms < 0 \<or> finish then []
            else (if ms = 0 then Yield else Sleep ms) # thread_run finish' calls)"

end
