(* ===== verification/Base_Props.thy ===== *)
theory Base_Props
  imports Log Threads
begin

text \<open>Properties of the small parts: hexadecimal dumps of the log and deadlines of the condition variable.\<close>

subsection \<open>Hexadecimal text\<close>

definition digit_of :: "byte \<Rightarrow> nat" where
  \<comment> \<open>the value of a digit in ASCII\<close>
  "digit_of c = (if c < 65 then unat c - 48 else unat c - 55)"

fun from_hex :: "bytes \<Rightarrow> bytes" where
  "from_hex (h # l # rest) = word_of_nat (digit_of h * 16 + digit_of l) # from_hex rest"
| "from_hex _ = []"

lemma digit_back: "k < 16 \<Longrightarrow> digit_of (of_char (hex ! k)) = k"
proof -
  have "list_all (\<lambda>k. digit_of (of_char (hex ! k)) = k) [0..<16]"
    by code_simp
  then show "k < 16 \<Longrightarrow> digit_of (of_char (hex ! k)) = k"
    by (simp add: list_all_iff)
qed

lemma byte_of_sint: "take_bit 8 (sint (b :: byte)) = uint b"
  using uint_sint [of b] by simp

lemma low_nibble: "nat (sint (b :: byte) AND 15) = unat b mod 16"
proof -
  have "sint b AND 15 = take_bit 4 (sint b)"
    using take_bit_eq_mask [of 4 "sint b"] by (simp add: mask_eq_exp_minus_1)
  also have "\<dots> = take_bit 4 (uint b)"
    using take_bit_take_bit [of 4 8 "sint b"] unfolding byte_of_sint by simp
  finally show ?thesis
    by (simp add: take_bit_eq_mod nat_mod_distrib)
qed

lemma high_nibble: "nat (drop_bit 4 (sint (b :: byte)) AND 15) = unat b div 16"
proof -
  have "drop_bit 4 (sint b) AND 15 = take_bit 4 (drop_bit 4 (sint b))"
    using take_bit_eq_mask [of 4 "drop_bit 4 (sint b)"] by (simp add: mask_eq_exp_minus_1)
  also have "\<dots> = drop_bit 4 (uint b)"
    using drop_bit_take_bit [of 4 8 "sint b"] unfolding byte_of_sint by simp
  finally show ?thesis
    by (simp add: drop_bit_eq_div nat_div_distrib)
qed

lemma from_hex_digits: "from_hex (high_digit b # low_digit b # rest) = b # from_hex rest"
proof -
  have "unat b < 256"
    using unsigned_less [of b] by simp
  then have "digit_of (high_digit b) = unat b div 16" "digit_of (low_digit b) = unat b mod 16"
    by (simp_all add: high_digit_def low_digit_def high_nibble low_nibble digit_back less_mult_imp_div_less)
  then show ?thesis
    by simp
qed

lemma hex_loop_ok:
  "n \<le> length xs \<Longrightarrow> \<exists>out. hex_loop xs n = Some out \<and> length out = 2 * n \<and> from_hex out = take n xs"
proof (induction xs n rule: hex_loop.induct)
  case (3 b cdata n)
  then obtain out where "hex_loop cdata n = Some out" "length out = 2 * n" "from_hex out = take n cdata"
    by auto
  then show ?case
    by (simp add: from_hex_digits del: from_hex.simps)
qed simp_all

lemma hex_loop_short: "length xs < n \<Longrightarrow> hex_loop xs n = None"
  by (induction xs n rule: hex_loop.induct) simp_all

text \<open>
  The function \<open>c_log_data2hex\<close> writes two digits for each byte of the range it is given, which read
  back to these bytes (also those above 127, which are negative as \<open>int8_t\<close>), fills its buffer of
  \<open>len * 2 + 1\<close> bytes exactly with the terminator, and keeps the buffer until the next message frees it;
  a range that is not inside the data is read past its end.
\<close>

lemma hex_dump_reads_back:
  "(case c_log_data2hex data off len True l of
      None \<Rightarrow> length data < off + len
    | Some (hdata, l') \<Rightarrow> (off + len \<le> length data \<or> len = 0) \<and> length hdata = len * 2 + 1 \<and> last hdata = 0
        \<and> from_hex (butlast hdata) = seg off len data
        \<and> tmp_data l' = tmp_data l @ [hdata]
        \<and> tmp_data (snd (c_log_message level file line func msg l')) = [])"
proof (cases "len \<le> length (drop off data)")
  case True
  then obtain out where "hex_loop (drop off data) len = Some out" "length out = 2 * len"
      "from_hex out = take len (drop off data)"
    using hex_loop_ok by blast
  then show ?thesis
    using True by (auto simp: c_log_data2hex_def Let_def seg_def c_log_message_def c_log_clear_def)
next
  case False
  then show ?thesis
    using hex_loop_short [of "drop off data" len] by (simp add: c_log_data2hex_def)
qed

subsection \<open>Deadlines\<close>

lemma i32_small: "0 \<le> x \<Longrightarrow> x < 2147483648 \<Longrightarrow> i32 x = x"
  by (rule i32_id) (simp add: is_i32_def)

text \<open>
  The deadline of a timed wait is the current time plus exactly the milliseconds asked
  for, with the nanoseconds below a second as \<open>pthread_cond_timedwait\<close> demands, as long as the seconds
  fit the 32-bit \<open>time_t\<close>.
\<close>

lemma deadline_is_exact:
  assumes "0 < ms" "is_i32 ms" "0 \<le> usec" "usec < 1000000" "0 \<le> sec" "sec + ms div 1000 + 1 < 2 ^ 31"
  shows "let (s, ns) = deadline ms (sec, usec)
    in 0 \<le> ns \<and> ns < 1000000000 \<and> s * 1000000000 + ns = sec * 1000000000 + usec * 1000 + ms * 1000000"
proof -
  define q r where "q = ms div 1000" and "r = ms mod 1000"
  have r: "0 \<le> r" "r < 1000" "0 \<le> q" and ms: "ms = q * 1000 + r" and sec: "sec + q + 1 < 2147483648"
    using assms(1,6) by (simp_all add: q_def r_def)
  define u where "u = usec + r * 1000"
  have u: "0 \<le> u" "u < 2000000"
    using assms(3,4) r by (simp_all add: u_def)
  have i: "i32 (sec + q) = sec + q" "i32 u = u"
    using r sec u assms(5) by (simp_all add: i32_small [of "sec + q"] i32_small [of u])
  have d: "deadline ms (sec, usec) =
      (if u \<ge> 1000000 then (i32 (sec + q + u div 1000000), i32 (u mod 1000000 * 1000)) else (sec + q, i32 (u * 1000)))"
    unfolding deadline_def Let_def fst_conv snd_conv q_def [symmetric] r_def [symmetric] u_def [symmetric] i
    by simp
  show ?thesis
  proof (cases "u \<ge> 1000000")
    case True
    then have "u div 1000000 = 1"
      using u(2) by simp
    moreover from this have "u mod 1000000 = u - 1000000"
      using div_mult_mod_eq [of u 1000000] by simp
    moreover have "i32 (sec + q + 1) = sec + q + 1"
      using sec r(3) assms(5) by (intro i32_small; linarith)
    moreover have "i32 ((u - 1000000) * 1000) = (u - 1000000) * 1000"
      using u True by (intro i32_small; simp)
    ultimately show ?thesis
      unfolding d using True u by (simp add: ms u_def)
  next
    case False
    then have "i32 (u * 1000) = u * 1000"
      using u by (intro i32_small; linarith)
    then show ?thesis
      unfolding d using False u by (simp add: ms u_def)
  qed
qed

lemma deadline_1999: "deadline 1999 (7, 999999) = (9, 998999000)"
  using deadline_is_exact [of 1999 999999 7]
  by (simp add: deadline_def is_i32_def Let_def)

end
