(* ===== verification/Examples.thy ===== *)
theory Examples
  imports Storage_Services
begin

text \<open>
  src/src/examples/write/write_example.cpp, read/read_example.cpp and listener/listener_example.cpp: programs on one
  storage. What
  they print is a list; a program that gives up returns its exit code. \<open>None\<close> is a program that does
  not end.
\<close>

definition c_str :: "bytes \<Rightarrow> bytes" where
  \<comment> \<open>what \<open>%s\<close> prints of a buffer\<close>
  "c_str data = takeWhile (\<lambda>b. b \<noteq> 0) data"

definition example_records :: "bytes list" where
  \<comment> \<open>the strings with their terminator\<close>
  "example_records = map (\<lambda>s. map of_char s @ [0])
     [''One 1'', ''Two 2'', ''Three 3'', ''Four 4'', ''Five 5'', ''Six 6'', ''Seven 7'', ''Eight 8'',
      ''Nine 9'', ''Ten 10'']"

fun write_loop :: "int \<Rightarrow> bytes list \<Rightarrow> storage \<Rightarrow> disk \<Rightarrow> ((int \<times> int \<times> bytes) list \<times> storage \<times> disk) option" where
  "write_loop key [] s d = Some ([], s, d)"
| "write_loop key (y # ys) s d =
     do { (bytes, s, d) \<leftarrow> ss_write key (Some y) (word_of_nat (length y)) s d;
          (out, s, d) \<leftarrow> write_loop (key + 1) ys s d;
          Some ((if bytes > 0 then (key, bytes, c_str y) # out else out), s, d) }"

definition write_example ::
  "bytes list \<Rightarrow> u32 \<Rightarrow> string \<Rightarrow> disk \<Rightarrow> ((int + (int \<times> int \<times> bytes) list) \<times> disk) option" where
  "write_example records rnd fname d =
     do { (r, s, d) \<leftarrow> ss_open rnd fname (F_CSTORAGE_CREATE OR F_CSTORAGE_WR) 0 ss_new d;
          if r \<noteq> E_CSTORAGE_OK then Some (Inl (- 2), d)
          else do { (out, s, d) \<leftarrow> write_loop 1 records s d;
                    (r, s, d) \<leftarrow> ss_commit s d;
                    (r, s, d) \<leftarrow> ss_close s d;
                    Some (Inr out, d) } }"

text \<open>The third program makes a listener between the commit and the end; \<open>k\<close> is what the system answers.\<close>

definition listener_example ::
  "bytes list \<Rightarrow> port_results \<Rightarrow> u32 \<Rightarrow> string \<Rightarrow> disk
     \<Rightarrow> ((int + (int \<times> int \<times> bytes) list \<times> listener) \<times> disk) option" where
  "listener_example records k rnd fname d =
     do { (r, s, d) \<leftarrow> ss_open rnd fname (F_CSTORAGE_CREATE OR F_CSTORAGE_WR) 0 ss_new d;
          if r \<noteq> E_CSTORAGE_OK then Some (Inl (- 2), d)
          else do { (out, s, d) \<leftarrow> write_loop 1 records s d;
                    (r, s, d) \<leftarrow> ss_commit s d;
                    let (r, l) = ss_createListener ''9080'' k
                    in do { (r, s, d) \<leftarrow> ss_close s d;
                            Some (Inr (out, l), d) } } }"

text \<open>It prints and stores what the writing example does.\<close>

lemma listener_example_writes:
  "listener_example records k rnd fname d =
     map_option (\<lambda>(r, d). (map_sum id (\<lambda>out. (out, listener_new k)) r, d)) (write_example records rnd fname d)"
  by (simp add: listener_example_def write_example_def ss_createListener_def Let_def split: option.split prod.split bind_split)

partial_function (option) read_main_loop ::
  "int \<Rightarrow> bytes \<Rightarrow> storage \<Rightarrow> disk \<Rightarrow> ((int \<times> int \<times> bytes) list \<times> storage) option" where
  "read_main_loop key data s d =
     Option.bind (ss_read key data 1024 0 s d) (\<lambda>(bytes, data, s).
       if bytes \<ge> 0
       then Option.bind (read_main_loop (i32 (key + 1)) data s d) (\<lambda>(out, s).
              Some ((key, bytes, c_str data) # out, s))
       else Some ([], s))"

declare read_main_loop.simps [code]

definition read_example ::
  "bytes \<Rightarrow> string \<Rightarrow> disk \<Rightarrow> ((int + (int \<times> int \<times> bytes) list) \<times> disk) option" where
  \<comment> \<open>\<open>data\<close> is what the array on the stack holds\<close>
  "read_example data fname d =
     do { (r, s, d) \<leftarrow> ss_open 0 fname 0 0 ss_new d;
          if r \<noteq> E_CSTORAGE_OK then Some (Inl (- 2), d)
          else do { (out, s) \<leftarrow> read_main_loop 1 data s d;
                    (r, s, d) \<leftarrow> ss_close s d;
                    Some (Inr out, d) } }"

end
