(* ===== verification/Example_Props.thy ===== *)
theory Example_Props
  imports Examples Storage_Props3
begin

text \<open>The reading example prints what the writing example has written.\<close>

subsection \<open>A serial that a reader does not find\<close>

text \<open>The first half of a read: the state, then the record of the index.\<close>

lemma reader_index:
  assumes r: "reader s d" and st: "rec_at 181 0 (d StateF) = Some p" and i: "0 \<le> i" "is_i32 i"
  shows "\<exists>s1 s2 b. loadState (s\<lparr>cursor := i\<rparr>) d = Some s1
    \<and> io_readIndex IndexF i (enc_index zero_index) s1 d = Some (fst (got IndexF i (enc_index zero_index) s d), b, s2)
    \<and> (\<forall>q. rec_at 26 i (d IndexF) = Some q \<longrightarrow> b = q) \<and> state s2 = dec_state p \<and> \<not> rdwr s2
    \<and> reader s2 d \<and> (\<forall>off. reader (s2\<lparr>ss_last_offset := off\<rparr>) d)"
proof -
  have r1: "live (s\<lparr>cursor := i\<rparr>) d" "well_state (state (s\<lparr>cursor := i\<rparr>))" "\<not> rdwr s"
    using r by (simp_all add: reader_def)
  obtain s1 where l: "loadState (s\<lparr>cursor := i\<rparr>) d = Some (s1\<lparr>state := dec_state p\<rparr>)"
    and m1: "moved (s\<lparr>cursor := i\<rparr>) s1 d"
    using loadState_ok [OF r1(1) st r1(2)] by blast
  let ?s0 = "s1\<lparr>state := dec_state p\<rparr>"
  have l0: "live ?s0 d" "\<not> rdwr ?s0"
    using moved_live [OF m1] moved_fields [OF m1] r1(3) by simp_all
  obtain s2 where a: "io_readIndex IndexF i (enc_index zero_index) ?s0 d =
      Some (fst (got IndexF i (enc_index zero_index) ?s0 d), snd (got IndexF i (enc_index zero_index) ?s0 d), s2)"
    and m2: "moved ?s0 s2 d"
    using io_readIndex_ok [OF l0(1), of i "enc_index zero_index" IndexF] i by auto
  have "got IndexF i b ?s0 d = got IndexF i b s d" for b
    using miss_code_same [OF moved_handle [OF m1, of IndexF], of 26 i "d IndexF"] by (simp add: got_def split: option.split)
  moreover have "reader s2 d" "reader (s2\<lparr>ss_last_offset := off\<rparr>) d" for off
    using moved_fields [OF m2] moved_live [OF m2] moved_write_mode [OF m2] moved_write_mode [OF m1] l0 r
    by (simp_all add: reader_def)
  ultimately show ?thesis
    using l a moved_fields [OF m2] l0(2)
    by (intro exI [of _ ?s0] exI [of _ s2] exI [of _ "snd (got IndexF i (enc_index zero_index) s d)"])
      (simp add: got_def)
qed

text \<open>A record of the index with nothing that the reader may see.\<close>

lemma reader_read_none:
  assumes r: "reader s d" and st: "rec_at 181 0 (d StateF) = Some p" and i: "0 \<le> i" "is_i32 i"
    and x: "idx (d IndexF) i = Some x"
    and off: "version x (st_last_commit_sequence (dec_state p)) (has_flag fl F_CSTORAGE_READ_MODE_MASK) \<le> 0"
  shows "\<exists>s'. ss_read i buf dlen fl s d = Some (E_CSTORAGE_SERIAL_NOT_FOUND, buf, s') \<and> reader s' d"
proof -
  obtain q where q: "rec_at 26 i (d IndexF) = Some q" "x = dec_index q"
    using x by (auto simp: idx_def)
  obtain s1 s2 where l: "loadState (s\<lparr>cursor := i\<rparr>) d = Some s1"
    and a: "io_readIndex IndexF i (enc_index zero_index) s1 d = Some (26, q, s2)"
    and f: "state s2 = dec_state p" "\<not> rdwr s2" "\<And>off. reader (s2\<lparr>ss_last_offset := off\<rparr>) d"
    using reader_index [OF r st i] q(1) by (auto simp: got_def)
  have "getLastOffset x fl s2 \<le> 0"
    using off f(1,2) by (simp add: getLastOffset_version)
  then show ?thesis
    using l a f(3) q(2) r by (auto simp: ss_read_def reader_def Let_def E_CSFILE_EMPTY_DATA_def)
qed

lemma reader_read_missing:
  assumes r: "reader s d" and st: "rec_at 181 0 (d StateF) = Some p" and ix: "index_sound d"
    and i: "0 < i" "is_i32 i"
    and v: "view_at (st_last_commit_sequence (dec_state p)) (has_flag fl F_CSTORAGE_READ_MODE_MASK) d i = None"
  shows "\<exists>e s'. ss_read i buf dlen fl s d = Some (e, buf, s') \<and> e < 0 \<and> reader s' d
    \<and> (idx (d IndexF) i \<noteq> None \<longrightarrow> e = E_CSTORAGE_SERIAL_NOT_FOUND)
    \<and> (fsize (d IndexF) \<le> i * 30 \<and> idx (d IndexF) i = None \<longrightarrow> e = E_CSFILE_EOF)"
proof (cases "idx (d IndexF) i")
  case None
  then have none: "rec_at 26 i (d IndexF) = None"
    by (simp add: idx_def)
  then have code: "fst (got IndexF i (enc_index zero_index) s d) = miss_code 26 i (files s IndexF) (d IndexF)"
    by (simp add: got_def)
  have "miss_code 26 i (files s IndexF) (d IndexF) = E_CSFILE_EOF" if "fsize (d IndexF) \<le> i * 30"
    using that r by (simp add: miss_code_def reader_def algebra_simps)
  then show ?thesis
    using reader_index [OF r st less_imp_le [OF i(1)] i(2)] r None miss_code_neg [of 26 i "files s IndexF" "d IndexF"]
    by (auto simp: ss_read_def reader_def E_CSTORAGE_SERIAL_NOT_FOUND_def code E_CSFILE_EOF_def E_CSFILE_EMPTY_DATA_def)
next
  case (Some x)
  let ?c = "st_last_commit_sequence (dec_state p)" and ?dirty = "has_flag fl F_CSTORAGE_READ_MODE_MASK"
  obtain ub where "entry_ok d ub i x"
    using ix i Some by (auto simp: index_sound_def)
  then have "version x ?c ?dirty \<le> 0"
    using v Some i entry_version [of d ub i x ?c ?dirty] content_stored by (force simp: view_at_def)
  then show ?thesis
    using reader_read_none [OF r st less_imp_le [OF i(1)] i(2) Some] Some
    by (auto simp: E_CSTORAGE_SERIAL_NOT_FOUND_def)
qed

subsection \<open>The loops\<close>

definition printed :: "bytes list \<Rightarrow> nat \<Rightarrow> (int \<times> int \<times> bytes) list" where
  \<comment> \<open>the lines for the records from number \<open>n\<close> on, counted from 0\<close>
  "printed ys n = map (\<lambda>j. (int j + 1, int (length (ys ! j)), c_str (ys ! j))) [n..<length ys]"

lemma printed_next: "n < length ys \<Longrightarrow>
    printed ys n = (int n + 1, int (length (ys ! n)), c_str (ys ! n)) # printed ys (n + 1)"
  by (simp add: printed_def upt_conv_Cons)

lemma printed_end [simp]: "length ys \<le> n \<Longrightarrow> printed ys n = []"
  by (simp add: printed_def)

definition text_record :: "bytes \<Rightarrow> bool" where
  "text_record y \<longleftrightarrow> 0 \<in> set y \<and> length y \<le> 1024"

lemma c_str_overlay: "text_record y \<Longrightarrow> c_str (overlay (take 1024 y) data) = c_str y"
  by (auto simp: text_record_def c_str_def overlay_def intro!: takeWhile_append1)

definition holds :: "bytes list \<Rightarrow> (int \<Rightarrow> bytes option) \<Rightarrow> bool" where
  \<comment> \<open>the serials from 1 on hold the records, the others nothing\<close>
  "holds ys v \<longleftrightarrow> (\<forall>n. v (int n + 1) = (if n < length ys then Some (ys ! n) else None))"

lemma no_read_mode: "\<not> has_flag 0 F_CSTORAGE_READ_MODE_MASK"
  by (simp add: has_flag_def)

lemma read_loop_ok:
  assumes st: "rec_at 181 0 (d StateF) = Some p" and ix: "index_sound d"
    and v: "holds ys (view_at (st_last_commit_sequence (dec_state p)) False d)"
    and ys: "\<forall>y \<in> set ys. text_record y" "int (length ys) + 2 < 2 ^ 31"
    and "reader s d" and n: "n \<le> length ys"
  shows "\<exists>s'. read_main_loop (int n + 1) data s d = Some (printed ys n, s') \<and> \<not> rdwr s'"
  using \<open>reader s d\<close> n
proof (induction "length ys - n" arbitrary: n s data)
  case 0
  have "is_i32 (int n + 1)"
    using 0 ys(2) by (simp add: is_i32_def)
  then obtain e s' where "ss_read (int n + 1) data 1024 0 s d = Some (e, data, s')" "e < 0" "reader s' d"
    using reader_read_missing [OF 0(2) st ix, of "int n + 1" 0 data 1024] v 0 no_read_mode
    by (auto simp: holds_def)
  then show ?case
    using 0 by (subst read_main_loop.simps) (simp add: reader_def)
next
  case (Suc m)
  then have n: "n < length ys" "text_record (ys ! n)" "m = length ys - (n + 1)"
    using ys(1) by simp_all
  have i: "is_i32 (int n + 1)" "i32 (int n + 1 + 1) = int (n + 1) + 1"
    using n(1) ys(2) by (simp_all add: is_i32_def)
  obtain s1 where r: "ss_read (int n + 1) data (word_of_nat 1024) 0 s d =
      Some (int (length (ys ! n)), overlay (take 1024 (ys ! n)) data, s1)" "reader s1 d"
    using reader_read_ok [OF Suc(3) st ix _ i(1), of 1024 0 "ys ! n" data] v n(1) no_read_mode
    by (auto simp: holds_def)
  obtain s2 where "read_main_loop (int (n + 1) + 1) (overlay (take 1024 (ys ! n)) data) s1 d = Some (printed ys (n + 1), s2)"
      "\<not> rdwr s2"
    using Suc(1) [OF n(3) r(2)] n(1) by fastforce
  then show ?case
    using r(1) n i(2) by (subst read_main_loop.simps) (simp add: printed_next c_str_overlay)
qed

text \<open>The storage after \<open>n\<close> of the records, each of at most 1024 bytes, have been written.\<close>

definition written :: "bytes list \<Rightarrow> nat \<Rightarrow> storage \<Rightarrow> disk \<Rightarrow> bool" where
  "written ys n s d \<longleftrightarrow> good (s, d) \<and> \<not> fauto_commit s \<and> (\<forall>k. 1000000 \<le> flimit (d k))
     \<and> fsize (d DataF) \<le> 21 + int n * 1074 \<and> last_seq s \<le> 2 * int n
     \<and> holds (take n ys) (view True s d) \<and> set (dirtySerials s) \<subseteq> {1..int n}"

lemma written_room:
  assumes "written ys n s d" "n \<le> 100" "m \<le> 1100"
  shows "room s d m"
proof -
  have f: "fsize (d DataF) \<le> 107421" "last_seq s \<le> 200" "\<forall>k. 1000000 \<le> flimit (d k)"
    using assms by (auto simp: written_def)
  have "nat (last_seq s + 4) \<le> 204"
    using f(2) by simp
  then have q: "nat (last_seq s + 4) * 17 + 17 \<le> 1000000"
    by simp
  have "1000000 \<le> flimit (d DataF)" "1000000 \<le> flimit (d LogF)" "1000000 \<le> flimit (d StateF)"
    using f(3) by simp_all
  then show ?thesis
    using assms(3) f(1,2) q by (simp add: room_def disk_room_def seq_room_def fsize_def C_CSFILE_ENDFILE_def)
qed

lemma write_step:
  assumes w: "written ys n s d" and n: "n < length ys" "length ys \<le> 100" and y: "text_record (ys ! n)"
  shows "\<exists>s' d'. ss_write (int n + 1) (Some (ys ! n)) (word_of_nat (length (ys ! n))) s d
      = Some (int (length (ys ! n)), s', d') \<and> written ys (n + 1) s' d'"
proof -
  let ?y = "ys ! n" and ?i = "int n + 1"
  have g: "good (s, d)" "\<not> fauto_commit s" and h: "healthy s d"
    using w by (simp_all add: written_def)
  have len: "length ?y \<le> 1024"
    using y by (simp add: text_record_def)
  have "nat ?i * 30 + 30 \<le> 1000000" "1000000 \<le> flimit (d IndexF)"
    using n w by (simp_all add: written_def)
  then have can: "can_write s d ?i (length ?y)"
    using written_room [OF w, of "length ?y + 50"] len n by (simp add: can_write_def is_i32_def)
  have fresh: "?i \<notin> set (dirtySerials s)"
    using w by (auto simp: written_def)
  obtain s' d' where o: "ss_write ?i (Some ?y) (word_of_nat (length ?y)) s d = Some (int (length ?y), s', d')"
    and wr: "wrote (write_reg s ?i (word_of_nat (length ?y))) ?y s d s' d'"
    using write_ok [OF h can] by blast
  have step: "good (s', d')" "view True s' d' = (view True s d)(?i := Some ?y)"
    using perform_put [OF g(1) can fresh] o write_healthy(2) [OF h can wr] by auto
  have f: "\<not> fauto_commit s'" "last_seq s' \<le> last_seq s + 2" "dirtySerials s' = dirtySerials s @ [?i]"
      "grown d d' (length ?y + 50)"
    using wr g(2) by (simp_all add: wrote_def)
  have size: "fsize (d' DataF) \<le> fsize (d DataF) + 1074" "flimit (d' k) = flimit (d k)" for k
    using fsize_grown [OF f(4)] len grown_limit [OF f(4)] by simp_all
  have "view True s' d' (int m + 1) = (if m < length (take (n + 1) ys) then Some (take (n + 1) ys ! m) else None)" for m
    using w n unfolding step(2) by (auto simp: written_def holds_def nth_take min_def less_Suc_eq)
  then have "written ys (n + 1) s' d'"
    using w step(1) f size by (auto simp: written_def holds_def)
  then show ?thesis
    using o by blast
qed

lemma write_loop_ok:
  assumes ys: "\<forall>y \<in> set ys. text_record y" "length ys \<le> 100"
    and "written ys n s d" "n \<le> length ys"
  shows "\<exists>s' d'. write_loop (int n + 1) (drop n ys) s d = Some (printed ys n, s', d') \<and> written ys (length ys) s' d'"
  using assms(3,4)
proof (induction "length ys - n" arbitrary: n s d)
  case 0
  then show ?case
    by simp
next
  case (Suc m)
  then have n: "n < length ys" "text_record (ys ! n)" "m = length ys - (n + 1)"
    using ys(1) by simp_all
  obtain s1 d1 where a: "ss_write (int n + 1) (Some (ys ! n)) (word_of_nat (length (ys ! n))) s d
      = Some (int (length (ys ! n)), s1, d1)" "written ys (n + 1) s1 d1"
    using write_step [OF Suc(3) n(1) ys(2) n(2)] by blast
  obtain s2 d2 where b: "write_loop (int n + 1 + 1) (drop (n + 1) ys) s1 d1 = Some (printed ys (n + 1), s2, d2)"
      "written ys (length ys) s2 d2"
    using Suc(1) [OF n(3) a(2)] n(1) by (auto simp: add.commute)
  have "drop n ys = ys ! n # drop (n + 1) ys" "0 < length (ys ! n)"
    using n by (auto simp: Cons_nth_drop_Suc text_record_def)
  then show ?case
    using a(1) b n(1) by (simp add: printed_next)
qed

subsection \<open>The two programs\<close>

lemma example_open: "has_flag (F_CSTORAGE_CREATE OR F_CSTORAGE_WR) F_CSTORAGE_WR"
    "has_flag (F_CSTORAGE_CREATE OR F_CSTORAGE_WR) F_CSTORAGE_CREATE"
    "\<not> has_flag ((F_CSTORAGE_CREATE OR F_CSTORAGE_WR) OR F_CSFILE_EXCEPTIONS) F_CSTORAGE_AUTO_COMMIT"
    "plain_open 0" "\<not> has_flag (0 OR F_CSFILE_EXCEPTIONS) F_CSTORAGE_WR"
  by (simp_all add: plain_open_def has_flag_def csfile_flags F_CSTORAGE_CREATE_def F_CSTORAGE_WR_def
      F_CSTORAGE_AUTO_COMMIT_def)

lemma new_is_written:
  assumes "blank_disk d" "\<forall>k. 1000000 \<le> flimit (d k)"
  shows "\<exists>s' d'. ss_open rnd fname (F_CSTORAGE_CREATE OR F_CSTORAGE_WR) 0 ss_new d = Some (E_CSTORAGE_OK, s', d')
    \<and> written ys 0 s' d'"
proof -
  obtain s' d' where "ss_open rnd fname (F_CSTORAGE_CREATE OR F_CSTORAGE_WR) 0 ss_new d = Some (E_CSTORAGE_OK, s', d')"
    and b: "brand_new (if has_flag ((F_CSTORAGE_CREATE OR F_CSTORAGE_WR) OR F_CSFILE_EXCEPTIONS) F_CSTORAGE_SET_HASH_KEY
              then 0 else rnd) s' d'"
    and "\<forall>k. flimit (d' k) = flimit (d k)" "\<not> fauto_commit s'"
    using create_ok [OF assms(1) example_open(1,2) refl] example_open(3) by blast
  then show ?thesis
    using brand_new_good [OF b] assms(2) by (auto simp: written_def brand_new_def holds_def)
qed

lemma closed_for_reader:
  assumes w: "written ys (length ys) s d" and len: "length ys \<le> 100"
  shows "\<exists>s1 d1 s2 d2 s3 p. ss_commit s d = Some (E_CSTORAGE_OK, s1, d1) \<and> ss_close s1 d1 = Some (E_CSTORAGE_OK, s2, d2)
    \<and> ss_open rnd fname 0 0 ss_new d2 = Some (E_CSTORAGE_OK, s3, d2) \<and> reader s3 d2
    \<and> rec_at 181 0 (d2 StateF) = Some p \<and> index_sound d2
    \<and> holds ys (view_at (st_last_commit_sequence (dec_state p)) False d2)"
proof -
  have g: "good (s, d)" "\<not> fauto_commit s"
    using w by (simp_all add: written_def)
  have r: "room s d 50"
    using written_room [OF w len] by simp
  obtain s1 d1 where c: "ss_commit s d = Some (E_CSTORAGE_OK, s1, d1)" and g1: "good (s1, d1)"
    and a: "abstract (s1, d1) = spec_step Commit (abstract (s, d))"
    using perform_commit [OF g(1) r] by blast
  have v: "view False s1 d1 = view True s d"
    using a g(2) by (simp add: abstract_def)
  have h: "healthy s d"
    using g(1) by simp
  have "flimit (d1 StateF) = flimit (d StateF)"
    using commit_ok [OF h g(2) r] c by (auto simp: committed_step_def grown_limit)
  then have room: "185 \<le> flimit (d1 StateF)"
    using r by (simp add: room_def disk_room_def)
  have w1: "writer s1 d1" "well_state (state s1)" and h1: "healthy s1 d1"
    using g1 by (simp_all add: healthy_def writer_def)
  define d2 where "d2 = d1(StateF := put_rec 181 0 (enc_state (state s1)) (d1 StateF))"
  obtain s2 where cl: "ss_close s1 d1 = Some (E_CSTORAGE_OK, s2, d2)"
    using close_ok [OF w1(1) room] unfolding d2_def by blast
  have d2: "k \<noteq> StateF \<Longrightarrow> d2 k = d1 k" for k
    by (simp add: d2_def)
  have p: "rec_at 181 0 (d2 StateF) = Some (enc_state (state s1))" "dec_state (enc_state (state s1)) = state s1"
    using w1(2) by (simp_all add: d2_def rec_at_put_same dec_enc_state well_state_def)
  have acc: "accessible d2"
    using g1 accessible_attrs [of d2 d1] by (simp add: d2_def)
  have lk: "linked (st_hash_key (state s1)) d2"
    using g1 d2 by (simp add: linked_def)
  obtain s3 where o: "ss_open rnd fname 0 0 ss_new d2 = Some (E_CSTORAGE_OK, s3, d2)" "reader s3 d2"
    using open_ok [OF acc example_open(4) lk p(1) _ refl, of rnd fname 0] p(2) example_open(5) by auto
  have "index_sound d2 = index_sound d1"
    by (simp add: index_sound_def entry_ok_def stored_def d2)
  then have ix: "index_sound d2"
    using healthy_index_sound [OF h1] by simp
  have "view_at (commit_seq s1) False d2 = view False s1 d1"
    by (rule ext) (simp add: view_view_at view_at_def content_def d2 split: option.split)
  then have "holds ys (view_at (st_last_commit_sequence (dec_state (enc_state (state s1)))) False d2)"
    using w v p(2) by (simp add: written_def)
  then show ?thesis
    using c cl o p(1) ix by blast
qed

lemma reader_close: "\<not> rdwr s \<Longrightarrow> \<exists>s'. ss_close s d = Some (E_CSTORAGE_OK, s', d)"
  by (simp add: ss_close_def saveState_def Let_def)

subsection \<open>Properties\<close>

text \<open>
  Property (C9): the reading example prints what the writing example wrote. On an unused prefix, with
  room on the disk, for up to 100 texts of up to 1024 bytes, the writer creates the storage, writes
  the records under the serials 1, 2, ..., commits and closes; the reader, with its own object and whatever its
  buffer holds, prints the same lines, stops at the first serial that is not there, and ends.
\<close>

theorem example_prints_what_was_written:
  assumes "blank_disk d" "\<forall>k. 1000000 \<le> flimit (d k)"
    and ys: "\<forall>y \<in> set ys. 0 \<in> set y \<and> length y \<le> 1024" "length ys \<le> 100"
  shows "\<exists>d'. write_example ys rnd fname d = Some (Inr (printed ys 0), d')
    \<and> read_example data fname d' = Some (Inr (printed ys 0), d')"
proof -
  have t: "\<forall>y \<in> set ys. text_record y"
    using ys(1) by (simp add: text_record_def)
  obtain s0 d0 where o: "ss_open rnd fname (F_CSTORAGE_CREATE OR F_CSTORAGE_WR) 0 ss_new d = Some (E_CSTORAGE_OK, s0, d0)"
    "written ys 0 s0 d0"
    using new_is_written [OF assms(1,2)] by blast
  obtain s1 d1 where w: "write_loop 1 ys s0 d0 = Some (printed ys 0, s1, d1)" "written ys (length ys) s1 d1"
    using write_loop_ok [OF t ys(2) o(2)] by auto
  obtain s2 d2 s3 d3 s4 p where c: "ss_commit s1 d1 = Some (E_CSTORAGE_OK, s2, d2)"
    "ss_close s2 d2 = Some (E_CSTORAGE_OK, s3, d3)" "ss_open 0 fname 0 0 ss_new d3 = Some (E_CSTORAGE_OK, s4, d3)"
    "reader s4 d3" "rec_at 181 0 (d3 StateF) = Some p" "index_sound d3"
    "holds ys (view_at (st_last_commit_sequence (dec_state p)) False d3)"
    using closed_for_reader [OF w(2) ys(2), of 0 fname] by blast
  obtain s5 where r: "read_main_loop 1 data s4 d3 = Some (printed ys 0, s5)" "\<not> rdwr s5"
    using read_loop_ok [OF c(5,6,7) t _ c(4), of 0 data] ys(2) by auto
  obtain s6 where "ss_close s5 d3 = Some (E_CSTORAGE_OK, s6, d3)"
    using reader_close [OF r(2)] by blast
  then show ?thesis
    using o(1) w(1) c(1-3) r(1) by (simp add: write_example_def read_example_def)
qed

theorem example_prints_what_was_written_witness:
  "\<exists>d'. write_example example_records 7 ''demo'' demo_disk = Some (Inr (printed example_records 0), d')
     \<and> read_example (replicate 1024 255) ''demo'' d' = Some (Inr (printed example_records 0), d')
     \<and> length (printed example_records 0) = 10"
proof -
  have "blank_disk demo_disk" "\<forall>k. 1000000 \<le> flimit (demo_disk k)"
    by (simp_all add: blank_disk_def demo_disk_def)
  moreover have "\<forall>y \<in> set example_records. 0 \<in> set y \<and> length y \<le> 1024" "length example_records = 10"
    by (simp_all add: example_records_def)
  ultimately show ?thesis
    using example_prints_what_was_written [of demo_disk example_records 7 "''demo''" "replicate 1024 255"]
    by (auto simp: printed_def)
qed

end
