(* ===== verification/Layout_Props.thy ===== *)
theory Layout_Props
  imports Storage_Types
begin

text \<open>The layouts of the packed structures are bijections between records and byte strings.\<close>

lemma enc_dec_i32: "length bs = 4 \<Longrightarrow> enc_i32 (dec_i32 bs) = bs"
  by (simp add: enc_i32_def dec_i32_def le_enc_le_dec)

lemma enc_dec_i64: "length bs = 8 \<Longrightarrow> enc_i64 (dec_i64 bs) = bs"
  by (simp add: enc_i64_def dec_i64_def le_enc_le_dec)

lemma le_enc_dec_32: "length bs = 4 \<Longrightarrow> le_enc 4 (le_dec bs :: u32) = bs"
  by (simp add: le_enc_le_dec)

lemma le_enc_dec_64: "length bs = 8 \<Longrightarrow> le_enc 8 (le_dec bs :: 64 word) = bs"
  by (simp add: le_enc_le_dec)

lemmas enc_dec = enc_dec_i32 enc_dec_i64 le_enc_dec_32 le_enc_dec_64

lemma enc_dec_words: "length bs = 8 * n \<Longrightarrow> enc_words (dec_words n bs) = bs"
  by (induction n arbitrary: bs) (simp_all add: le_enc_dec_64)

text \<open>A byte string is the concatenation of consecutive ranges.\<close>

lemma seg_from_0: "seg 0 n bs = take n bs"
  by (simp add: seg_def)

lemma take_seg: "take n bs @ seg n m bs = take (n + m) bs"
  by (simp add: seg_def take_add)

lemma take_nth: "n < length bs \<Longrightarrow> take n bs @ [bs ! n] = take (n + 1) bs"
  by (simp add: take_Suc_conv_app_nth)

lemma take_seg_more: "take n bs @ seg n m bs @ xs = take (n + m) bs @ xs"
  by (simp add: seg_def take_add)

lemma take_nth_more: "n < length bs \<Longrightarrow> take n bs @ bs ! n # xs = take (n + 1) bs @ xs"
  by (simp add: take_Suc_conv_app_nth)

lemma enc_dec_data: "length bs = 17 \<Longrightarrow> enc_data (dec_data bs) = bs"
  by (simp add: enc_data_def dec_data_def enc_dec length_seg seg_from_0 take_seg_more take_seg take_nth_more take_nth)

lemma enc_dec_index: "length bs = 26 \<Longrightarrow> enc_index (dec_index bs) = bs"
  by (simp add: enc_index_def dec_index_def enc_dec length_seg seg_from_0 take_seg_more take_seg take_nth_more take_nth)

lemma enc_dec_log: "length bs = 13 \<Longrightarrow> enc_log (dec_log bs) = bs"
  by (simp add: enc_log_def dec_log_def enc_dec length_seg seg_from_0 take_seg_more take_seg take_nth_more take_nth)

lemma enc_dec_state: "length bs = 181 \<Longrightarrow> enc_state (dec_state bs) = bs"
  by (simp add: enc_state_def dec_state_def enc_dec enc_dec_words length_seg seg_from_0 take_seg_more take_seg
      take_nth_more take_nth)

lemma length_enc_state: "well_state s \<Longrightarrow> length (enc_state s) = 181"
  by (simp add: well_state_def)

text \<open>
  Property (C19): the four packed structures have exact layouts. Writing a well-formed record (every
  field in the range of its C type) and reading it back are inverse bijections between the records
  and the byte strings of the structure's size, 17, 26, 13 and 181: no field overlaps or is lost, and
  whatever is read from a file is a well-formed record.
\<close>

theorem record_layouts_are_exact:
  "bij_betw enc_data {r. well_data r} {bs. length bs = rec_size DataF}
   \<and> bij_betw enc_index {r. well_index r} {bs. length bs = rec_size IndexF}
   \<and> bij_betw enc_log {r. well_log r} {bs. length bs = rec_size LogF}
   \<and> bij_betw enc_state {r. well_state r} {bs. length bs = rec_size StateF}"
proof (intro conjI)
  show "bij_betw enc_data {r. well_data r} {bs. length bs = rec_size DataF}"
    by (rule bij_betw_byWitness [where f' = dec_data]) (auto simp: dec_enc_data enc_dec_data)
  show "bij_betw enc_index {r. well_index r} {bs. length bs = rec_size IndexF}"
    by (rule bij_betw_byWitness [where f' = dec_index]) (auto simp: dec_enc_index enc_dec_index)
  show "bij_betw enc_log {r. well_log r} {bs. length bs = rec_size LogF}"
    by (rule bij_betw_byWitness [where f' = dec_log]) (auto simp: dec_enc_log enc_dec_log)
  show "bij_betw enc_state {r. well_state r} {bs. length bs = rec_size StateF}"
    by (rule bij_betw_byWitness [where f' = dec_state])
      (auto simp: dec_enc_state enc_dec_state length_enc_state)
qed

end
