(* ===== verification/Recorded.thy ===== *)
theory Recorded
  imports Storage_Props4
begin

text \<open>
  The data file of a reachable storage is a complete record of it: a header, then entries that,
  replayed on an empty index, give the index file byte for byte and the sequence of the last
  commit.
\<close>

definition empty_index :: "u32 \<Rightarrow> os_file \<Rightarrow> os_file" where
  "empty_index key os = os\<lparr>fbytes := fixed_rec (header IndexF key)\<rparr>"

definition recorded :: "storage \<Rightarrow> disk \<Rightarrow> entry list \<Rightarrow> bool" where
  "recorded s d es \<longleftrightarrow> (\<exists>h. length h = 21 \<and> fbytes (d DataF) = h @ journal es)
     \<and> fbytes (d IndexF) = fbytes (replay_index 21 es (empty_index (st_hash_key (state s)) (d IndexF)))
     \<and> commit_seq s = replay_commit es 0
     \<and> (\<forall>e \<in> set es. entry_wf (flimit (d IndexF)) (last_seq s) e)"

lemma recorded_cong:
  "recorded s d es \<Longrightarrow> state s' = state s \<Longrightarrow> (\<forall>k. k \<noteq> StateF \<longrightarrow> d' k = d k) \<Longrightarrow> recorded s' d' es"
  by (simp add: recorded_def)

lemma recorded_extends_by:
  assumes r: "recorded s d es" and e: "extends_by fs s d s' d'"
    and lim: "flimit (d' IndexF) = flimit (d IndexF)" and key: "st_hash_key (state s') = st_hash_key (state s)"
  shows "recorded s' d' (es @ fs)"
proof -
  let ?e = "empty_index (st_hash_key (state s))"
  obtain h where h: "length h = 21" "fbytes (d DataF) = h @ journal es"
    and ix: "fbytes (d IndexF) = fbytes (replay_index 21 es (?e (d IndexF)))"
    and c: "commit_seq s = replay_commit es 0" and wf: "\<forall>e \<in> set es. entry_wf (flimit (d IndexF)) (last_seq s) e"
    using r by (auto simp: recorded_def)
  have q: "last_seq s \<le> last_seq s'"
    using e by (simp add: extends_by_def)
  have sz: "fsize (d DataF) = 21 + int (length (journal es))"
    using h by (simp add: fsize_def)
  have "fbytes (d' IndexF) = fbytes (replay_index 21 (es @ fs) (?e (d IndexF)))"
    using e replay_index_cong [OF ix] by (simp add: extends_by_def replay_index_append sz)
  also have "\<dots> = fbytes (replay_index 21 (es @ fs) (?e (d' IndexF)))"
    by (rule replay_index_cong) (simp add: empty_index_def)
  finally show ?thesis
    unfolding recorded_def lim key
    using h e c wf entry_wf_mono [OF _ order_refl q] by (auto simp: extends_by_def intro!: exI [of _ h])
qed

lemma recorded_extends:
  assumes "recorded s d es" and "extends s d s' d'"
    and "flimit (d' IndexF) = flimit (d IndexF)" and "st_hash_key (state s') = st_hash_key (state s)"
  shows "\<exists>fs. recorded s' d' fs"
  using recorded_extends_by [of s d es _ s' d'] assms by (auto simp: extends_def)

subsection \<open>The operations\<close>

lemma extends_clearDirty [simp]: "extends s d (clearDirtySerials s') d' = extends s d s' d'"
  by (simp add: extends_def extends_by_def)

lemma perform_extends:
  assumes g: "good (s, d)" and a: "allowed q (s, d)" and p: "perform q (s, d) = Some (r, s', d')"
  shows "extends s d s' d' \<and> flimit (d' IndexF) = flimit (d IndexF)
    \<and> st_hash_key (state s') = st_hash_key (state s)"
proof -
  have pos: "0 \<le> last_seq s"
    using g by (simp add: healthy_def)
  show ?thesis
  proof (cases q)
    case (Put i y)
    have h: "healthy s d" and c: "can_write s d i (length y)"
      using g a by (simp_all add: Put)
    have "wrote (write_reg s i (word_of_nat (length y))) y s d s' d'"
      using write_ok [OF h c] p by (auto simp: Put)
    then show ?thesis
      using pos by (auto simp: wrote_def grown_limit)
  next
    case Commit
    show ?thesis
    proof (cases "fauto_commit s")
      case True
      then show ?thesis
        using p by (simp add: Commit ss_commit_def)
    next
      case False
      then obtain s1 where "s' = clearDirtySerials s1" "committed_step (last_seq s + 1) s d s1 d'"
        using commit_ok [of s d] g a p by (auto simp: Commit)
      then show ?thesis
        using pos by (auto simp: committed_step_def grown_limit)
    qed
  next
    case Rollback
    show ?thesis
    proof (cases "fauto_commit s")
      case True
      then show ?thesis
        using p by (simp add: Rollback ss_rollback_def)
    next
      case False
      then obtain s1 where "s' = clearDirtySerials s1" "extends s d s1 d'"
        "grown d d' (4 * length (dirtySerials s) + 104)" "st_hash_key (state s1) = st_hash_key (state s)"
        using rollback_ok [of s d] g a p by (auto simp: Rollback)
      then show ?thesis
        by (auto simp: grown_limit)
    qed
  qed
qed

lemma brand_new_recorded: "brand_new key s d \<Longrightarrow> recorded s d []"
  by (auto simp: brand_new_def recorded_def empty_index_def fsize_def intro!: exI [of _ "fbytes (d DataF)"])

lemma reachable_recorded:
  assumes "reachable st"
  shows "\<exists>es. recorded (fst st) (snd st) es"
  using assms
proof (induction rule: reachable.induct)
  case (created d flags rnd fname key r s' d')
  then show ?case
    using create_ok [OF created(1-3) refl, of rnd fname key] brand_new_recorded by auto
next
  case (served st q r st')
  obtain s d s' d' where st: "st = (s, d)" "st' = (s', d')"
    by (cases st, cases st') auto
  have "good (s, d)"
    using good_of_reachable [OF served(1)] by (simp add: st)
  then show ?case
    using perform_extends [of s d q r s' d'] served recorded_extends [of s d _ s' d'] by (auto simp: st)
next
  case (did_read s d i m buf flags r buf' s')
  then have "healthy s d"
    using good_of_reachable by fastforce
  then have "only_read s s' d"
    using read_ok [of s d i _ m buf flags] read_missing [of s d i buf "word_of_nat m" flags] did_read(2-5)
    by (cases "view True s d i") auto
  then have "state s' = state s"
    using moved_fields(1) by (fastforce simp: only_read_def)
  then show ?case
    using did_read(6) recorded_cong [of s d _ s' d] by auto
next
  case (reopened s d flags r s1 d1 rnd fname key r' s' d')
  have g: "good (s, d)"
    using good_of_reachable [OF reopened(1)] .
  show ?case
    using reopened(8) recorded_cong [of s d _ s' d'] reopen_good(2,3) [OF g reopened(2-7)] by auto
qed

end
