(* ===== verification/Torn.thy ===== *)
theory Torn
  imports Recorded Base_File_Props
begin

text \<open>
  Reading where a file has been cut in the middle of a record: the read returns an error, whatever is
  left of the record.
\<close>

lemma readWorkArea_short:
  assumes ok: "handle_ok f os" and n: "0 < len - skip" "0 \<le> skip" and i32: "is_i32 (len + 128)"
    and seek: "bf_seek loff (len - skip) False f os = (if f_write_mode f then Ok pos else Err E_CSFILE_EOF)"
    and short: "fsize os < pos + (len - skip)"
  shows "\<exists>c f'. readWorkArea loff len skip b f os = (Err c, f') \<and> c < 0"
proof (cases "f_write_mode f")
  case True
  then show ?thesis
    using readWorkArea_cases [OF ok _ n i32, of loff pos b] seek short by (auto simp: csfile_errors)
next
  case False
  have "i32 (len - skip) = len - skip"
    using n i32 by (simp add: is_i32_def)
  then show ?thesis
    using False seek by (simp add: readWorkArea_def csfile_errors)
qed

definition torn :: "bytes \<Rightarrow> bool" where
  "torn t \<longleftrightarrow> (\<exists>e :: entry. length (snd e) < 2 ^ 24 \<and> length t < length (entry_bytes e) + 8
     \<and> t = take (length t) (dyn_rec (entry_bytes e)))"

lemma torn_Nil [simp]: "torn []"
  unfolding torn_def by (intro exI [of _ "(zero_data, [])"]) simp

lemma read_torn:
  assumes ok: "handle_ok f os" and b: "fbytes os = before @ t" and t: "torn t"
    and cur: "current_offset f = int (length before)" and big: "fsize os < C_CSFILE_ENDFILE"
  shows "\<exists>c h x f'. sf_read_data n C_CSFILE_CURRPOS buf q m f os = (Ret c, h, x, f') \<and> c < 0"
proof -
  obtain e :: entry where e: "length (snd e) < 2 ^ 24" "length t < length (entry_bytes e) + 8"
    "t = take (length t) (dyn_rec (entry_bytes e))"
    using t by (auto simp: torn_def)
  let ?L = "length (entry_bytes e)" and ?pos = "int (length before)"
  have fl: "F_CSFILE_DYNAMIC OR bflags f = F_CSFILE_DYNAMIC"
    using ok by (simp add: handle_ok_def)
  have sz: "fsize os = ?pos + int (length t)" "fd_open f"
    using ok by (simp_all add: fsize_def b handle_ok_def)
  have "(\<exists>c f'. readWorkArea C_CSFILE_CURRPOS 4 0 True f os = (Err c, f') \<and> c < 0)
    \<or> (\<exists>f1 f' c. readWorkArea C_CSFILE_CURRPOS 4 0 True f os = (Ok (enc_i32 (int ?L + 8), ?pos + 4), f1)
        \<and> readWorkArea (?pos + 4) (int ?L + 8) 4 False f1 os = (Err c, f') \<and> c < 0)"
  proof (cases "length t < 4")
    case True
    have "bf_seek C_CSFILE_CURRPOS 4 False f os = (if f_write_mode f then Ok ?pos else Err E_CSFILE_EOF)"
      using sz cur big True by (auto simp: bf_seek_def Let_def)
    then have "\<exists>c f'. readWorkArea C_CSFILE_CURRPOS 4 0 True f os = (Err c, f') \<and> c < 0"
      using True sz by (intro readWorkArea_short [OF ok, where pos = ?pos]) (auto simp: is_i32_def)
    then show ?thesis ..
  next
    case False
    have seek: "bf_seek C_CSFILE_CURRPOS 4 False f os = Ok ?pos"
      using seek_current [of f 4 os] cur sz big False by simp
    have "seg (nat ?pos) 4 (fbytes os) = take 4 t"
      by (simp add: seg_def b)
    also have "\<dots> = take 4 (dyn_rec (entry_bytes e))"
      using False by (subst e(3)) (simp add: min_def)
    also have "\<dots> = enc_i32 (int ?L + 8)"
      by (simp add: dyn_rec_def fixed_rec_def)
    finally have w: "seg (nat ?pos) 4 (fbytes os) = enc_i32 (int ?L + 8)" .
    have i4: "is_i32 (4 + 128)" by (simp add: is_i32_def)
    obtain f1 where r1: "readWorkArea C_CSFILE_CURRPOS 4 0 True f os = (Ok (enc_i32 (int ?L + 8), ?pos + 4), f1)"
      and f1: "after_read f os (current_offset f) ?pos f1"
      using readWorkArea_cases [OF ok, of C_CSFILE_CURRPOS 4 0 ?pos True, OF _ _ _ i4] seek sz False
      by (auto simp: w [simplified])
    have ok1: "handle_ok f1 os" "f_write_mode f1 = f_write_mode f"
      using ok f1 by (auto simp: handle_ok_def after_read_def same_handle_def)
    have "bf_seek (?pos + 4) (int ?L + 4) False f1 os = (if f_write_mode f1 then Ok (?pos + 4) else Err E_CSFILE_EOF)"
      using ok1 sz big e(2) False
      by (auto simp: bf_seek_def Let_def handle_ok_def C_CSFILE_CURRPOS_def C_CSFILE_ENDFILE_def)
    then have "\<exists>c f'. readWorkArea (?pos + 4) (int ?L + 8) 4 False f1 os = (Err c, f') \<and> c < 0"
      using sz e(1,2) by (intro readWorkArea_short [OF ok1(1), where pos = "?pos + 4"]) (auto simp: is_i32_def)
    with r1 show ?thesis
      by blast
  qed
  moreover have "dec_i32 (enc_i32 (int ?L + 8)) = int ?L + 8" "i32 (int ?L + 4) = int ?L + 4" "i32 (int ?L + 8) = int ?L + 8"
    using e(1) by (simp_all add: dec_enc_i32 is_i32_def)
  ultimately show ?thesis
    by (auto simp: sf_read_data_def bf_read_def read_frame_def fl has_dyn finish_def)
qed

text \<open>Where a journal is cut: some whole entries, then a torn one.\<close>

lemma journal_cut:
  assumes "\<And>e. e \<in> set es \<Longrightarrow> length (snd e) < 2 ^ 24"
  shows "\<exists>k t. k \<le> length es \<and> take m (journal es) = journal (take k es) @ t \<and> torn t"
  using assms
proof (induction es arbitrary: m)
  case Nil
  then show ?case
    by (intro exI [of _ 0] exI [of _ "[]"]) simp
next
  case (Cons e es)
  let ?r = "dyn_rec (entry_bytes e)"
  show ?case
  proof (cases "m < length ?r")
    case True
    then have "torn (take m ?r)"
      unfolding torn_def using Cons.prems by (intro exI [of _ e]) simp
    then show ?thesis
      using True by (intro exI [of _ 0] exI [of _ "take m ?r"]) simp
  next
    case False
    from Cons.IH [of "m - length ?r"] Cons.prems obtain k t where
      "k \<le> length es" "take (m - length ?r) (journal es) = journal (take k es) @ t" "torn t"
      by auto
    then show ?thesis
      using False by (intro exI [of _ "Suc k"] exI [of _ t]) simp
  qed
qed

end
