(* ===== verification/Rebuild.thy ===== *)
theory Rebuild
  imports Torn
begin

text \<open>
  \<open>CSafeStorage::rebuild\<close>: creating the index, the log and the state anew and running
  \<open>writeFiles\<close> over the entries of the data file does what the journal of \<open>History\<close> says, so the
  index and the commit sequence of a storage can be rebuilt from its data file alone.
\<close>

subsection \<open>A storage that replays its data file\<close>

definition replaying :: "storage \<Rightarrow> disk \<Rightarrow> bool" where
  "replaying s d \<longleftrightarrow> live s d \<and> rebuilding s \<and> f_write_mode (files s IndexF) \<and> f_write_mode (files s LogF)"

text \<open>One step of it: the index and the log may change, but not the header of the log; the data file
  and its handle do not.\<close>

definition replayed :: "storage \<Rightarrow> disk \<Rightarrow> storage \<Rightarrow> disk \<Rightarrow> bool" where
  "replayed s d s' d' \<longleftrightarrow> replaying s' d' \<and> files s' DataF = files s DataF \<and> rdwr s' = rdwr s
     \<and> d' DataF = d DataF \<and> d' StateF = d StateF \<and> (\<forall>k. attrs (d' k) = attrs (d k))
     \<and> log_kept 0 d d'"

lemma replayed_trans: "replayed s d s1 d1 \<Longrightarrow> replayed s1 d1 s2 d2 \<Longrightarrow> replayed s d s2 d2"
  by (auto simp: replayed_def intro: log_kept_trans)

lemma log_kept_refl: "d' LogF = d LogF \<Longrightarrow> log_kept n d d'"
  by (simp add: log_kept_def)

lemma replayed_limit: "replayed s d s' d' \<Longrightarrow> flimit (d' k) = flimit (d k)"
  by (simp add: replayed_def attrs_def)

lemma replaying_upd [simp]:
  "replaying (s\<lparr>state := x\<rparr>) d = replaying s d" "replaying (addDirtySerial i s) d = replaying s d"
  "replayed s d (s'\<lparr>state := x\<rparr>) d' = replayed s d s' d'" "replayed (s\<lparr>state := x\<rparr>) d s' d' = replayed s d s' d'"
  "replayed s d (addDirtySerial i s') d' = replayed s d s' d'"
  by (simp_all add: replaying_def live_def replayed_def)

lemma replayed_refl: "replaying s d \<Longrightarrow> replayed s d s d"
  by (simp add: replayed_def log_kept_refl)

lemma replayed_moved:
  assumes "replaying s d" and "moved s s' d'" and "files s' DataF = files s DataF"
    and "d' DataF = d DataF" "d' StateF = d StateF" "\<And>k. attrs (d' k) = attrs (d k)"
    and "log_kept 0 d d'"
  shows "replayed s d s' d'"
  using assms moved_fields [OF assms(2)] moved_live [OF assms(2)] moved_write_mode [OF assms(2)]
  by (simp add: replayed_def replaying_def)

lemma replay_read:
  assumes "replaying s d" and "0 \<le> i" "is_i32 i" and "length buf = 26"
  shows "\<exists>s'. io_readIndex IndexF i buf s d = Some (fst (got IndexF i buf s d), snd (got IndexF i buf s d), s')
    \<and> replayed s d s' d \<and> state s' = state s \<and> fauto_commit s' = fauto_commit s"
proof -
  obtain s' where r: "io_readIndex IndexF i buf s d = Some (fst (got IndexF i buf s d), snd (got IndexF i buf s d), s')"
    and m: "moved s s' d"
    using io_readIndex_ok [of s d i buf IndexF] assms by (auto simp: replaying_def)
  have "replayed s d s' d"
    using assms(1) m io_readIndex_files [OF r, of DataF] by (intro replayed_moved log_kept_refl) simp_all
  then show ?thesis
    using r moved_fields [OF m] by blast
qed

lemma replay_put:
  assumes r: "replaying s d" and k: "k = IndexF \<or> k = LogF \<and> 0 < i" and i: "0 \<le> i" "is_i32 i"
    and p: "length p = rec_size k" and "nat i * (rec_size k + 4) + rec_size k + 4 \<le> flimit (d k)"
  shows "\<exists>s'. io_writeIndex k i p s d = Some (int (rec_size k) + 4, s', d(k := put_rec (rec_size k) i p (d k)))
    \<and> replayed s d s' (d(k := put_rec (rec_size k) i p (d k))) \<and> state s' = state s"
proof -
  let ?d = "d(k := put_rec (rec_size k) i p (d k))"
  obtain s' where w: "io_writeIndex k i p s d = Some (int (rec_size k) + 4, s', ?d)"
    and m: "moved s s' ?d" and f: "\<forall>j. j \<noteq> k \<longrightarrow> files s' j = files s j"
    using io_writeIndex_ok [of s d k i p] assms by (auto simp: replaying_def)
  have "log_kept 0 d ?d"
    using k p log_table.lookup_store [of "d LogF" p i] log_table.sound_store [of "d LogF" p i]
    by (auto simp: log_kept_def)
  then have "replayed s d s' ?d"
    using r m k f by (intro replayed_moved) auto
  then show ?thesis
    using w moved_fields(1) [OF m] by blast
qed

lemma replay_log:
  assumes "replaying s d" and "0 < i" "is_i32 i" "nat i * 17 + 17 \<le> flimit (d LogF)"
  shows "\<exists>s' d'. io_writeIndex LogF i (enc_log l) s d = Some (17, s', d')
    \<and> replayed s d s' d' \<and> state s' = state s \<and> d' IndexF = d IndexF"
  using replay_put [OF assms(1), of LogF i "enc_log l"] assms(2-4) by fastforce

lemma writeData_replay:
  assumes "rebuilding s" and "last_offset (files s DataF) = off" and "0 \<le> off" "off < C_CSFILE_ENDFILE"
  shows "writeData r y dlen s d = Some (off, s\<lparr>state := note_offset off (state s)\<rparr>, d)"
  using assms sint_offset [of off] by (simp add: writeData_def Let_def note_offset_def)

subsection \<open>One entry\<close>

text \<open>What replaying an entry at \<open>off\<close> has to establish.\<close>

definition did_replay :: "int \<Rightarrow> entry \<Rightarrow> storage \<Rightarrow> disk \<Rightarrow> storage \<Rightarrow> disk \<Rightarrow> bool" where
  "did_replay off e s d s' d' \<longleftrightarrow> replayed s d s' d' \<and> d' IndexF = entry_index off e (d IndexF)
     \<and> commit_seq s' = entry_commit e (commit_seq s)"

lemma replay_snapshot:
  assumes r: "replaying s d" and seq: "0 \<le> last_seq s" "seq_room d (last_seq s + 1)"
    and off: "0 \<le> last_offset (files s DataF)" "last_offset (files s DataF) < C_CSFILE_ENDFILE"
  shows "\<exists>s' d'. status_snapshot s d = Some (s', d') \<and> replayed s d s' d' \<and> d' IndexF = d IndexF
    \<and> commit_seq s' = commit_seq s"
proof (cases "snapshot_due (state s)")
  case False
  then show ?thesis
    using replayed_refl [OF r] by (auto simp: status_snapshot_def snapshot_due_def)
next
  case True
  define q where "q = last_seq s + 1"
  have q: "i32 (last_seq s + 1) = q" "0 < q" "is_i32 q" "nat q * 17 + 17 \<le> flimit (d LogF)"
    using seq by (simp_all add: q_def is_i32_def seq_room_def)
  let ?off = "last_offset (files s DataF)"
  let ?s = "s\<lparr>state := note_offset ?off (tick_state q (state s))\<rparr>"
  let ?l = "zero_log\<lparr>l_serial := 0, l_type := ucast T_CSTORAGE_STATUS, l_offset := ?off\<rparr>"
  have a: "writeData g None 0 (tick q s) d = Some (?off, ?s, d)" for g
    using writeData_replay [of "tick q s" ?off g None 0 d] r off by (simp add: tick_eq replaying_def)
  have "replaying ?s d"
    using r by simp
  from replay_log [OF this q(2-4), of ?l] obtain s' d' where
    b: "io_writeIndex LogF q (enc_log ?l) ?s d = Some (17, s', d')"
    and p: "replayed ?s d s' d'" "state s' = state ?s" "d' IndexF = d IndexF"
    by blast
  have "saveState s' d' = Some (s', d')"
    using p(1) by (simp add: saveState_def replayed_def replaying_def)
  then have "status_snapshot s d = Some (s', d')"
    using True a b q(1) by (simp add: status_snapshot_def Let_def zero_data_def snapshot_due_def)
  then show ?thesis
    using p by simp
qed

lemma replay_write:
  assumes r: "replaying s d" and t: "record_type g = T_CSTORAGE_WRITE" and wf: "entry_wf (flimit (d IndexF)) q (g, y)"
    and seq: "nat (r_sequence g) * 17 + 17 \<le> flimit (d LogF)"
    and off: "last_offset (files s DataF) = off" "0 \<le> off" "off < C_CSFILE_ENDFILE"
  shows "\<exists>s' d'. write_case g mem dlen l s d = Some (Inr (sint dlen), s', d')
    \<and> did_replay off (g, y) s d s' d' \<and> last_seq s' = last_seq s"
proof -
  have g: "0 \<le> r_serial g" "is_i32 (r_serial g)" "0 < r_sequence g" "is_i32 (r_sequence g)"
    "nat (r_serial g) * 30 + 30 \<le> flimit (d IndexF)"
    using wf t by (auto simp: entry_wf_def well_data_def cstorage_types)
  let ?i = "r_serial g" and ?x = "index_after_write (r_serial g) off (r_sequence g) (r_flags g) (d IndexF)"
  let ?s1 = "s\<lparr>state := note_offset off (state s)\<rparr>"
  let ?s2 = "s\<lparr>state := (note_offset off (state s))\<lparr>st_data_count := i32 (st_data_count (state s) + 1)\<rparr>\<rparr>"
  have a: "writeData g mem dlen s d = Some (off, ?s1, d)"
    using writeData_replay [OF _ off] r by (simp add: replaying_def)
  have "replaying ?s2 d"
    using r by simp
  from replay_read [OF this g(1,2), of "enc_index zero_index"] obtain s3 where
    c: "io_readIndex IndexF ?i (enc_index zero_index) ?s2 d =
      Some (fst (got IndexF ?i (enc_index zero_index) ?s2 d), snd (got IndexF ?i (enc_index zero_index) ?s2 d), s3)"
    and p3: "replayed ?s2 d s3 d" "state s3 = state ?s2"
    by auto
  have x: "setOldestOffset (dec_index (snd (got IndexF ?i (enc_index zero_index) ?s2 d))) off
      (r_sequence g) (r_flags g) (fst (got IndexF ?i (enc_index zero_index) ?s2 d) < 0) = ?x"
    by (simp add: got_def index_after_write_def miss_code_neg dec_enc_index split: option.split)
  let ?s4 = "if fauto_commit s3 then s3 else addDirtySerial ?i s3"
  have p4: "replayed ?s2 d ?s4 d" "replaying ?s4 d" "state ?s4 = state ?s2"
    using p3 by (simp_all add: replayed_def)
  have e: "saveState ?s4 d = Some (?s4, d)"
    using p4(2) by (simp add: saveState_def replaying_def)
  obtain s5 d5 where f: "io_writeIndex LogF (r_sequence g) (enc_log (l\<lparr>l_offset := off\<rparr>)) ?s4 d = Some (17, s5, d5)"
    and p5: "replayed ?s4 d s5 d5" "state s5 = state ?s4" "d5 IndexF = d IndexF"
    using replay_log [OF p4(2) g(3,4) seq] by blast
  have "replaying s5 d5" "flimit (d5 IndexF) = flimit (d IndexF)"
    using p5 replayed_limit [OF p5(1)] by (simp_all add: replayed_def)
  then obtain s6 where h: "io_writeIndex IndexF ?i (enc_index ?x) s5 d5 =
        Some (30, s6, d5(IndexF := put_rec 26 ?i (enc_index ?x) (d5 IndexF)))"
    and p6: "replayed s5 d5 s6 (d5(IndexF := put_rec 26 ?i (enc_index ?x) (d5 IndexF)))" "state s6 = state s5"
    using replay_put [of s5 d5 IndexF ?i "enc_index ?x"] g by auto
  let ?d6 = "d5(IndexF := put_rec 26 ?i (enc_index ?x) (d5 IndexF))"
  have "write_case g mem dlen l s d = Some (Inr (sint dlen), s6, ?d6)"
    unfolding write_case_def using a c e f h off(2) by (simp add: Let_def x)
  moreover have "replayed s d s6 ?d6"
    using replayed_trans [OF p4(1) replayed_trans [OF p5(1) p6(1)]] by simp
  moreover have "state s6 = state ?s2"
    using p6(2) p5(2) p4(3) by simp
  ultimately show ?thesis
    using t p5(3) by (auto simp: did_replay_def intro!: exI [of _ s6] exI [of _ ?d6])
qed

lemma replay_marker:
  assumes r: "replaying s d" and seq: "0 < last_seq s" "is_i32 (last_seq s)" "nat (last_seq s) * 17 + 17 \<le> flimit (d LogF)"
    and off: "last_offset (files s DataF) = off" "0 \<le> off" "off < C_CSFILE_ENDFILE"
  shows "\<exists>s' d'. do { (r, s, d) \<leftarrow> writeData g mem dlen s d; writeSyncStateLogSync l s d } = Some (s', d')
    \<and> replayed s d s' d' \<and> d' IndexF = d IndexF \<and> state s' = note_offset off (state s)"
proof -
  let ?s1 = "s\<lparr>state := note_offset off (state s)\<rparr>"
  have "replaying ?s1 d"
    using r by simp
  from replay_log [OF this seq, of l] show ?thesis
    using writeData_replay [OF _ off, of g mem dlen d] r by (auto simp: replaying_def writeSyncStateLogSync_def)
qed

lemma replay_commit_case:
  assumes r: "replaying s d" and t: "record_type g = T_CSTORAGE_COMMIT"
    and seq: "0 < last_seq s" "is_i32 (last_seq s)" "nat (last_seq s) * 17 + 17 \<le> flimit (d LogF)"
    and off: "last_offset (files s DataF) = off" "0 \<le> off" "off < C_CSFILE_ENDFILE"
  shows "\<exists>s' d'. commit_case g l s d = Some (s', d') \<and> did_replay off (g, y) s d s' d' \<and> last_seq s' = last_seq s"
proof -
  let ?s1 = "s\<lparr>state := state_after_commit off (r_sequence g) (state s)\<rparr>"
  have "replaying ?s1 d"
    using r by simp
  from replay_log [OF this seq, of "l\<lparr>l_offset := off\<rparr>"] obtain s' d' where
    w: "io_writeIndex LogF (last_seq s) (enc_log (l\<lparr>l_offset := off\<rparr>)) ?s1 d = Some (17, s', d')"
    and p: "replayed ?s1 d s' d'" "state s' = state ?s1" "d' IndexF = d IndexF"
    by blast
  have "commit_case g l s d = Some (s', d')"
    using writeData_replay [OF _ off, of g None 0 d] r w
    by (simp add: commit_case_def Let_def replaying_def writeSyncStateLogSync_def state_after_commit_def)
  then show ?thesis
    using p t by (simp add: did_replay_def state_after_commit_def)
qed

lemma serial_at_prefix:
  assumes "serial_at y j = Some v" and "take (length y) mem = y"
  shows "serial_at mem j = Some v"
proof -
  have j: "4 * j + 4 \<le> length y" "v = dec_i32 (seg (4 * j) 4 y)"
    using assms(1) by (simp_all add: serial_at_def split: if_splits)
  have "length y \<le> length mem"
    using arg_cong [OF assms(2), of length] by simp
  moreover have "seg (4 * j) 4 mem = seg (4 * j) 4 (take (length y) mem)"
    using j(1) by (simp add: seg_def drop_take min_def)
  ultimately show ?thesis
    using j unfolding assms(2) by (simp add: serial_at_def)
qed

lemma replay_rollback_begin:
  assumes r: "replaying s d" and t: "record_type g = T_CSTORAGE_ROLLBACK_BEGIN" and wf: "entry_wf (flimit (d IndexF)) q (g, y)"
    and mem: "take (length y) mem = y"
    and seq: "0 < last_seq s" "is_i32 (last_seq s)" "nat (last_seq s) * 17 + 17 \<le> flimit (d LogF)"
    and off: "last_offset (files s DataF) = off" "0 \<le> off" "off < C_CSFILE_ENDFILE"
  shows "\<exists>s' d'. rollback_begin_case g (Some mem) dlen l s d = Some (s', d')
    \<and> did_replay off (g, y) s d s' d' \<and> last_seq s' = last_seq s"
proof -
  obtain ss where ss: "y = serial_array ss" "\<And>i. i \<in> set ss \<Longrightarrow> 0 \<le> i \<and> is_i32 i \<and> nat i * 30 + 30 \<le> flimit (d IndexF)"
    and len: "is_i32 (int (length ss))"
    using wf t by (fastforce simp: entry_wf_def cstorage_types is_i32_def)
  obtain s1 d1 where a: "do { (r, s, d) \<leftarrow> writeData g (Some mem) dlen s d; writeSyncStateLogSync l s d } = Some (s1, d1)"
    and p1: "replayed s d s1 d1" "d1 IndexF = d IndexF" "state s1 = note_offset off (state s)"
    using replay_marker [OF r seq off] by blast
  have n0: "serial_at mem 0 = Some (int (length ss))"
    using serial_at_array(1) [OF len] mem unfolding ss(1) by (rule serial_at_prefix)
  have nj: "serial_at mem (1 + j) = Some (ss ! j)" if "j < length ss" for j
    using serial_at_array(2) [OF that] ss(2) [OF nth_mem [OF that]] mem serial_at_prefix unfolding ss(1) by blast
  have l1: "live s1 d1" "f_write_mode (files s1 IndexF)"
    using p1(1) by (simp_all add: replayed_def replaying_def)
  obtain s' where b: "rollback_loop (length ss) 1 mem zero_index s1 d1 =
      Some (s', d1(IndexF := index_rollback ss zero_index (d IndexF)))"
    and m: "moved s1 s' (d1(IndexF := index_rollback ss zero_index (d IndexF)))"
    and f: "\<forall>j. j \<noteq> IndexF \<longrightarrow> files s' j = files s1 j"
    using rollback_loop_ok [OF l1 well_zero(2), of ss mem 1] nj ss(2) p1(2) by auto
  let ?d = "d1(IndexF := index_rollback ss zero_index (d IndexF))"
  have "replayed s1 d1 s' ?d"
    using p1(1,2) m f by (intro replayed_moved log_kept_refl) (simp_all add: replayed_def)
  then have "replayed s d s' ?d"
    by (rule replayed_trans [OF p1(1)])
  moreover have "rollback_begin_case g (Some mem) dlen l s d = Some (s', ?d)"
    using a b n0 by (auto simp: rollback_begin_case_def bind_eq_Some_conv split: prod.splits)
  moreover have "state s' = note_offset off (state s)"
    using moved_fields(1) [OF m] p1(3) by simp
  moreover have "serials_of y = ss"
    unfolding ss(1) using ss(2) by (intro serials_of_array [OF len]) simp
  ultimately show ?thesis
    using t by (auto simp: did_replay_def)
qed

text \<open>\<open>writeFiles\<close> on an entry that has just been read.\<close>

lemma replay_entry:
  assumes r: "replaying s d" and wf: "entry_wf (flimit (d IndexF)) q (g, y)"
    and mem: "record_type g = T_CSTORAGE_ROLLBACK_BEGIN \<Longrightarrow> take (length y) mem = y"
    and room: "seq_room d (q + 1)"
    and off: "last_offset (files s DataF) = off" "0 \<le> off" "off < C_CSFILE_ENDFILE"
  shows "\<exists>n s' d'. writeFiles g (Some mem) dlen s d = Some (n, s', d') \<and> did_replay off (g, y) s d s' d'"
proof -
  let ?q = "r_sequence g" and ?s = "tick (r_sequence g) s"
  let ?l = "zero_log\<lparr>l_serial := r_serial g, l_type := ucast (record_type g)\<rparr>"
  have q: "0 < ?q" "is_i32 ?q" "?q \<le> q"
    using wf by (simp_all add: entry_wf_def well_data_def Let_def)
  have room': "seq_room d (?q + 1)" "nat ?q * 17 + 17 \<le> flimit (d LogF)"
    using seq_room_mono [OF room, of "?q + 1"] q by (auto simp: seq_room_def)
  have r': "replaying ?s d" "last_seq ?s = ?q" "files ?s = files s" "commit_seq ?s = commit_seq s"
    using r by (simp_all add: tick_eq)
  note off' = off [folded r'(3)]
  have types: "record_type g \<in> {T_CSTORAGE_WRITE, T_CSTORAGE_ROLLBACK_BEGIN, T_CSTORAGE_ROLLBACK_END,
      T_CSTORAGE_COMMIT, T_CSTORAGE_STATUS}"
    using wf by (auto simp: entry_wf_def Let_def)
  have marker: "\<exists>s' d'. do { (r, s, d) \<leftarrow> writeData g None 0 ?s d; writeSyncStateLogSync ?l s d } = Some (s', d')
      \<and> replayed ?s d s' d' \<and> d' IndexF = d IndexF \<and> state s' = note_offset off (state ?s)"
    using replay_marker [OF r'(1) _ _ _ off'] q room' r'(2) by simp
  have "\<exists>n s1 d1. (if record_type g = T_CSTORAGE_WRITE then write_case g (Some mem) dlen ?l ?s d
                 else do { (s, d) \<leftarrow>
                             (if record_type g = T_CSTORAGE_ROLLBACK_BEGIN then rollback_begin_case g (Some mem) dlen ?l ?s d
                              else if record_type g = T_CSTORAGE_ROLLBACK_END then rollback_end_case g ?l ?s d
                              else if record_type g = T_CSTORAGE_COMMIT then commit_case g ?l ?s d
                              else Some (?s, d));
                           Some (Inr E_CSTORAGE_OK, s, d) }) = Some (Inr n, s1, d1)
      \<and> did_replay off (g, y) ?s d s1 d1 \<and> last_seq s1 = ?q"
    using types
  proof (elim insertE emptyE)
    assume t: "record_type g = T_CSTORAGE_WRITE"
    show ?thesis
      using replay_write [OF r'(1) t wf room'(2) off', of "Some mem" dlen ?l] r'(2) t by auto
  next
    assume t: "record_type g = T_CSTORAGE_ROLLBACK_BEGIN"
    obtain s1 d1 where "rollback_begin_case g (Some mem) dlen ?l ?s d = Some (s1, d1)"
      "did_replay off (g, y) ?s d s1 d1" "last_seq s1 = ?q"
      using replay_rollback_begin [OF r'(1) t wf mem [OF t] _ _ _ off', of dlen ?l] q room' r'(2) by auto
    then show ?thesis
      by (simp add: t)
  next
    assume t: "record_type g = T_CSTORAGE_ROLLBACK_END"
    then obtain s1 d1 where "rollback_end_case g ?l ?s d = Some (s1, d1)"
      "did_replay off (g, y) ?s d s1 d1" "last_seq s1 = ?q"
      using marker r'(2,4) by (auto simp: rollback_end_case_def did_replay_def)
    then show ?thesis
      by (simp add: t)
  next
    assume t: "record_type g = T_CSTORAGE_COMMIT"
    obtain s1 d1 where "commit_case g ?l ?s d = Some (s1, d1)"
      "did_replay off (g, y) ?s d s1 d1" "last_seq s1 = ?q"
      using replay_commit_case [OF r'(1) t _ _ _ off', of ?l y] q room' r'(2) by auto
    then show ?thesis
      by (simp add: t)
  next
    assume t: "record_type g = T_CSTORAGE_STATUS"
    then show ?thesis
      using replayed_refl [OF r'(1)] r'(2) by (simp add: did_replay_def cstorage_types)
  qed
  then obtain n s1 d1 where a: "writeFiles g (Some mem) dlen s d = do { (s, d) \<leftarrow> status_snapshot s1 d1; Some (n, s, d) }"
    and p1: "did_replay off (g, y) ?s d s1 d1" "last_seq s1 = ?q"
    by (auto simp: writeFiles_def Let_def)
  have p: "replaying s1 d1" "files s1 DataF = files s DataF" "flimit (d1 LogF) = flimit (d LogF)"
    using p1(1) replayed_limit [of ?s d s1 d1] r'(3) by (simp_all add: did_replay_def replayed_def)
  obtain s' d' where b: "status_snapshot s1 d1 = Some (s', d')" and p2: "replayed s1 d1 s' d'" "d' IndexF = d1 IndexF"
    "commit_seq s' = commit_seq s1"
    using replay_snapshot [OF p(1)] q(1) p1(2) room'(1) p off by (auto simp: seq_room_def)
  have "replayed s d s' d'"
    using replayed_trans [OF _ p2(1)] p1(1) by (simp add: did_replay_def tick_eq)
  then show ?thesis
    using a b p1(1) p2(2,3) r'(4) by (simp add: did_replay_def)
qed

subsection \<open>The loop\<close>

lemma overlay_prefix: "length y \<le> m \<Longrightarrow> take (length y) (overlay (take m y) q) = y"
  by (simp add: overlay_def)

lemma read_entry:
  assumes r: "replaying s d" and b: "fbytes (d DataF) = before @ dyn_rec (entry_bytes (g, y)) @ rest"
    and cur: "current_offset (files s DataF) = int (length before)" and sz: "fsize (d DataF) < C_CSFILE_ENDFILE"
    and y: "length y < 2 ^ 24" and m: "m < 2 ^ 24" and buf: "length buf = 17"
  shows "\<exists>s'. io_read_data C_CSFILE_CURRPOS buf q (word_of_nat m) s d =
      Some (int (17 + length y), enc_data g, overlay (take m y) q, s')
    \<and> replaying s' d \<and> state s' = state s \<and> rdwr s' = rdwr s \<and> end_code (files s' DataF) = end_code (files s DataF)
    \<and> current_offset (files s' DataF) = int (length before) + int (length y) + 25
    \<and> last_offset (files s' DataF) = int (length before)"
proof -
  let ?f = "files s DataF" and ?os = "d DataF" and ?pos = "int (length before)" and ?p = "enc_data g @ y"
  have l: "live s d" and ok: "handle_ok ?f ?os"
    using r by (simp_all add: replaying_def live_def)
  have fits: "?pos + int (length ?p) + 8 \<le> fsize ?os"
    by (simp add: fsize_def b)
  have seek: "bf_seek C_CSFILE_CURRPOS 4 False ?f ?os = Ok ?pos"
    using seek_current [of ?f 4 ?os] ok cur fits sz by (simp add: handle_ok_def)
  have at: "seg (nat ?pos) (length ?p + 8) (fbytes ?os) = dyn_rec ?p"
    by (simp add: b seg_def entry_bytes_def)
  have small: "is_i32 (int (length ?p) + 136)"
    using y by (simp add: is_i32_def)
  obtain f' where rd: "sf_read_data 17 C_CSFILE_CURRPOS buf q (word_of_nat m) ?f ?os
      = (Ret (int (length ?p)), enc_data g, overlay (take m y) q, f')"
    and a: "after_read ?f ?os (?pos + int (length ?p) + 8) ?pos f'"
    using sf_read_data_ok [OF ok seek at fits sz _ buf _ m small, of q] by auto
  have m': "moved s (set_file DataF f' s) d"
    using moved_set_file_same [OF l a] .
  have "io_read_data C_CSFILE_CURRPOS buf q (word_of_nat m) s d =
      Some (int (17 + length y), enc_data g, overlay (take m y) q, set_file DataF f' s)"
    using rd by (simp add: io_read_data_def ret_of_def)
  moreover have "replaying (set_file DataF f' s) d"
    using r moved_live [OF m'] by (simp add: replaying_def set_file_def)
  moreover have "end_code f' = end_code ?f" "current_offset f' = ?pos + int (length y) + 25" "last_offset f' = ?pos"
    using a by (simp_all add: after_read_def same_handle_def end_code_def)
  ultimately show ?thesis
    by (auto simp: set_file_def)
qed

text \<open>What the loop leaves: the index and the commit sequence that the entries give.\<close>

definition rebuilt :: "int \<Rightarrow> entry list \<Rightarrow> storage \<Rightarrow> disk \<Rightarrow> storage \<Rightarrow> disk \<Rightarrow> bool" where
  "rebuilt off es s d s' d' \<longleftrightarrow> d' IndexF = replay_index off es (d IndexF)
     \<and> commit_seq s' = replay_commit es (commit_seq s) \<and> rdwr s' = rdwr s
     \<and> d' DataF = d DataF \<and> d' StateF = d StateF \<and> (\<forall>k. attrs (d' k) = attrs (d k)) \<and> log_kept 0 d d'"

lemma rebuilt_Cons:
  "did_replay off e s d s1 d1 \<Longrightarrow> rebuilt (off + int (length (entry_bytes e)) + 8) es s1 d1 s' d' \<Longrightarrow>
     rebuilt off (e # es) s d s' d'"
  by (auto simp: rebuilt_def did_replay_def replayed_def intro: log_kept_trans)

definition rollbacks_fit :: "entry list \<Rightarrow> bool" where
  "rollbacks_fit es \<longleftrightarrow> (\<forall>e \<in> set es. record_type (fst e) = T_CSTORAGE_ROLLBACK_BEGIN \<longrightarrow> length (snd e) \<le> REBUILD_BUFFER)"

lemma rebuild_loop_ok:
  assumes "replaying s d" and "fbytes (d DataF) = before @ journal es @ t" and "torn t"
    and "current_offset (files s DataF) = int (length before)" and "fsize (d DataF) < C_CSFILE_ENDFILE"
    and "\<forall>e \<in> set es. entry_wf (flimit (d IndexF)) q e" and "rollbacks_fit es" and "seq_room d (q + 1)"
  shows "\<exists>c s' d'. rebuild_loop r_data data s d = Some (c, s', d') \<and> c < 0
    \<and> (t = [] \<longrightarrow> c = end_code (files s DataF)) \<and> rebuilt (int (length before)) es s d s' d'"
  using assms
proof (induction es arbitrary: s d before r_data data)
  case Nil
  have ok: "handle_ok (files s DataF) (d DataF)"
    using Nil.prems(1) by (simp add: replaying_def live_def)
  have b: "fbytes (d DataF) = before @ t"
    using Nil.prems(2) by simp
  obtain c h x f' where rd: "sf_read_data 17 C_CSFILE_CURRPOS (enc_data r_data) data (word_of_nat REBUILD_BUFFER)
      (files s DataF) (d DataF) = (Ret c, h, x, f')" and c: "c < 0"
    using read_torn [OF ok b Nil.prems(3,4,5)] by blast
  have "c = end_code (files s DataF)" if "t = []"
  proof -
    have "current_offset (files s DataF) = fsize (d DataF)"
      using that Nil.prems(4) by (simp add: fsize_def b)
    from read_at_end [OF ok this Nil.prems(5)] show ?thesis
      using rd by (metis Pair_inject outcome.inject(1))
  qed
  moreover have "rebuild_loop r_data data s d = Some (c, set_file DataF f' s, d)"
    using rd c by (subst rebuild_loop.simps) (simp add: io_read_data_def ret_of_def)
  ultimately show ?case
    using c by (simp add: rebuilt_def set_file_def log_kept_refl)
next
  case (Cons e es)
  obtain g y where e: "e = (g, y)" by (cases e)
  let ?off = "int (length before)" and ?mem = "overlay (take REBUILD_BUFFER y) data"
  have wf: "entry_wf (flimit (d IndexF)) q (g, y)"
    using Cons.prems(6) by (simp add: e)
  then have y: "length y < 2 ^ 24" "well_data g"
    by (simp_all add: entry_wf_def Let_def)
  have bytes: "fbytes (d DataF) = before @ dyn_rec (entry_bytes (g, y)) @ journal es @ t"
    using Cons.prems(2) by (simp add: e)
  obtain s1 where rd: "io_read_data C_CSFILE_CURRPOS (enc_data r_data) data (word_of_nat REBUILD_BUFFER) s d =
      Some (int (17 + length y), enc_data g, ?mem, s1)"
    and s1: "replaying s1 d" "state s1 = state s" "rdwr s1 = rdwr s" "end_code (files s1 DataF) = end_code (files s DataF)"
      "current_offset (files s1 DataF) = ?off + int (length y) + 25" "last_offset (files s1 DataF) = ?off"
    using read_entry [OF Cons.prems(1) bytes Cons.prems(4,5) y(1), of REBUILD_BUFFER "enc_data r_data" data]
    by (auto simp: REBUILD_BUFFER_def)
  have "?off < C_CSFILE_ENDFILE"
    using Cons.prems(5) by (simp add: bytes fsize_def)
  moreover have "take (length y) ?mem = y" if "record_type g = T_CSTORAGE_ROLLBACK_BEGIN"
    using Cons.prems(7) that by (intro overlay_prefix) (simp add: rollbacks_fit_def e)
  ultimately obtain n s2 d2 where w: "writeFiles g (Some ?mem) (word_of_int (r_len g)) s1 d = Some (n, s2, d2)"
    and p: "did_replay ?off (g, y) s1 d s2 d2"
    using replay_entry [OF s1(1) wf _ Cons.prems(8) s1(6), of ?mem] by force
  have p': "did_replay ?off e s1 d s2 d2" "replaying s2 d2" "files s2 DataF = files s1 DataF" "d2 DataF = d DataF"
    "flimit (d2 k) = flimit (d k)" for k
    using p replayed_limit [of s1 d s2 d2] by (auto simp: did_replay_def replayed_def e)
  have b2: "fbytes (d2 DataF) = (before @ dyn_rec (entry_bytes e)) @ journal es @ t"
    using bytes by (simp add: p'(4) e)
  have "current_offset (files s2 DataF) = int (length (before @ dyn_rec (entry_bytes e)))"
    using s1(5) by (simp add: p'(3) e)
  from Cons.IH [OF p'(2) b2 Cons.prems(3) this, of g ?mem] Cons.prems(5-8) obtain c s' d' where
    l: "rebuild_loop g ?mem s2 d2 = Some (c, s', d')" and c: "c < 0" "t = [] \<longrightarrow> c = end_code (files s2 DataF)"
    and q: "rebuilt (int (length (before @ dyn_rec (entry_bytes e)))) es s2 d2 s' d'"
    by (auto simp: p'(4,5) rollbacks_fit_def seq_room_def)
  have "rebuild_loop r_data data s d = Some (c, s', d')"
    using rd w l y(2) by (subst rebuild_loop.simps) (simp add: dec_enc_data)
  moreover have "rebuilt ?off (e # es) s1 d s' d'"
    using q by (intro rebuilt_Cons [OF p'(1)]) (simp add: add.assoc)
  then have "rebuilt ?off (e # es) s d s' d'"
    using s1(2,3) by (simp add: rebuilt_def)
  ultimately show ?case
    using c s1(4) p'(3) by auto
qed

subsection \<open>Creating the files anew\<close>

text \<open>What is left of a storage: its data file, and of the other files at most something that may be
  overwritten.\<close>

definition salvaged :: "disk \<Rightarrow> disk \<Rightarrow> bool" where
  "salvaged d d0 \<longleftrightarrow> d0 DataF = d DataF \<and> (\<forall>k. flimit (d0 k) = flimit (d k)
     \<and> (fexists (d0 k) \<longrightarrow> freadable (d0 k) \<and> fwritable (d0 k) \<and> fowned (d0 k)))"

definition emptied :: "disk \<Rightarrow> disk" where
  "emptied d = (\<lambda>k. if k = DataF then d DataF else fresh_os (d k))"

lemma bf_open_overwrite:
  assumes "has_flag flags F_CSFILE_CREATE" "has_flag flags F_CSFILE_WR" "has_flag flags F_CSFILE_TRUNCATE"
    and "fexists os \<longrightarrow> freadable os \<and> fwritable os \<and> fowned os"
  shows "bf_open fname flags f os = Some (Ret 0, opened fname True f, fresh_os os)"
proof -
  have "has_flag (flags OR F_CSFILE_WR) F_CSFILE_WR" "has_flag (flags OR F_CSFILE_WR) F_CSFILE_TRUNCATE"
    using assms has_flag_or_left by simp_all
  moreover have "os_open True True True os = Inr (fresh_os os)"
    using assms by (auto simp: os_open_def fresh_os_def)
  ultimately show ?thesis
    using assms(1) by (simp add: bf_open_def Let_def bf_open_loop_ok opened_def)
qed

definition reopened_for :: "string \<Rightarrow> bool \<Rightarrow> storage \<Rightarrow> storage" where
  \<comment> \<open>the data file opened in mode \<open>wr\<close>, the others for writing\<close>
  "reopened_for fname wr s =
     s\<lparr>files := (\<lambda>k. opened (fname @ extension k) (k = DataF \<longrightarrow> wr) (files s k))\<rparr>"

lemma open_files_rebuild:
  assumes data: "has_flag flags F_CSFILE_CREATE \<longrightarrow> has_flag flags F_CSFILE_WR" "\<not> has_flag flags F_CSFILE_TRUNCATE" "fexists (d DataF)"
    and d: "\<And>k. fexists (d k) \<longrightarrow> freadable (d k) \<and> fwritable (d k) \<and> fowned (d k)"
    and fl: "has_flag nfl F_CSFILE_CREATE" "has_flag nfl F_CSFILE_WR" "has_flag nfl F_CSFILE_TRUNCATE"
  shows "open_files all_ids fname (\<lambda>k. if k = DataF then flags else nfl) s d =
    Some (Inr (), reopened_for fname (has_flag flags F_CSFILE_WR) s, emptied d)"
  using data d bf_open_existing [OF data(1,2,3)] bf_open_overwrite [OF fl]
  by (simp add: all_ids_def set_file_def reopened_for_def emptied_def four_files fun_eq_iff split: file_id.split)

text \<open>Reading the header of the data file leaves the handle behind it.\<close>

lemma read_data_header:
  assumes r: "live s d" and h: "rec_at 17 0 (d DataF) = Some (header DataF key)"
  shows "\<exists>s'. read_header DataF (replicate h_size 0) s d = Some (17, h_set key, s') \<and> moved s s' d
    \<and> (\<forall>j. j \<noteq> DataF \<longrightarrow> files s' j = files s j) \<and> current_offset (files s' DataF) = 21
    \<and> f_write_mode (files s' DataF) = f_write_mode (files s DataF)"
proof -
  let ?f = "files s DataF" and ?os = "d DataF" and ?buf = "take 17 (replicate h_size (0 :: byte))"
  have ok: "handle_ok ?f ?os"
    using r by (simp add: live_def)
  have fit: "0 + int 17 + 4 \<le> fsize ?os" and slot: "slot_at 0 17 (fbytes ?os) = Good (header DataF key)"
    using h by (auto simp: rec_at_def fsize_def Let_def split: if_splits slot.splits)
  have seek: "bf_seek 0 (int 17 + 4) False ?f ?os = Ok 0"
    using ok fit by (intro bf_seek_plain) (auto simp: handle_ok_def C_CSFILE_ENDFILE_def)
  have len: "length ?buf = 17"
    by (simp add: h_size_def)
  obtain f' where rd: "sf_read 17 0 0 ?buf ?f ?os = (Ret 17, header DataF key, f')"
    and a: "after_read ?f ?os 21 (last_offset ?f) f'"
    using sf_read_spec_cur [OF ok seek plain_flags_used(1) len] fit slot by (auto simp: slot_result_def)
  have m: "moved s (set_file DataF f' s) d"
    using moved_set_file_same [OF r a] .
  have "read_header DataF (replicate h_size 0) s d = Some (17, h_set key, set_file DataF f' s)"
    using rd overlay_header [of DataF key] by (simp add: read_header_def io_read_def ret_of_def h_size_def)
  moreover have "current_offset f' = 21" "f_write_mode f' = f_write_mode ?f"
    using a by (simp_all add: after_read_def same_handle_def)
  ultimately show ?thesis
    using m by (intro exI [of _ "set_file DataF f' s"]) (simp add: set_file_def)
qed

lemma writeHashKey_replay:
  assumes r: "replaying s d" and room: "30 \<le> flimit (d IndexF)" "17 \<le> flimit (d LogF)"
  shows "\<exists>s'. writeHashKey key s d = Some (0, s', d(LogF := put_rec 13 0 (header LogF key) (d LogF),
        IndexF := put_rec 26 0 (header IndexF key) (d IndexF)))
    \<and> replaying s' (d(LogF := put_rec 13 0 (header LogF key) (d LogF),
        IndexF := put_rec 26 0 (header IndexF key) (d IndexF)))
    \<and> files s' DataF = files s DataF \<and> rdwr s' = rdwr s \<and> state s' = (state s)\<lparr>st_hash_key := key\<rparr>"
proof -
  let ?d1 = "d(LogF := put_rec 13 0 (header LogF key) (d LogF))"
  let ?d2 = "?d1(IndexF := put_rec 26 0 (header IndexF key) (d IndexF))"
  have live: "live s d"
    using r by (simp add: replaying_def)
  obtain s1 where a: "io_write LogF 0 (take 13 (h_set key)) s d = Some (17, s1, ?d1)"
    and m1: "moved s s1 ?d1" and f1: "\<forall>j. j \<noteq> LogF \<longrightarrow> files s1 j = files s j"
    using io_writeIndex_ok [OF live, of LogF 0 "header LogF key"] r room io_write_0 [OF live]
    by (auto simp: is_i32_def header_def replaying_def h_set_def)
  have r1: "replaying s1 ?d1"
    using r moved_live [OF m1] moved_fields [OF m1] moved_write_mode [OF m1] by (simp add: replaying_def)
  then have "live s1 ?d1"
    by (simp add: replaying_def)
  note w = io_write_0 [OF this]
  have hd: "take 26 (h_set key) = header IndexF key"
    by (simp add: header_def)
  obtain s2 where b: "io_write IndexF 0 (take 26 (h_set key)) s1 ?d1 = Some (30, s2, ?d2)"
    and p2: "replayed s1 ?d1 s2 ?d2" "state s2 = state s1"
    using replay_put [OF r1, of IndexF 0 "header IndexF key"] room length_header [of IndexF]
    unfolding hd by (auto simp: w is_i32_def)
  let ?s3 = "s2\<lparr>state := (state s2)\<lparr>st_hash_key := key\<rparr>\<rparr>"
  have "rebuilding s" "rebuilding s2"
    using r p2 by (simp_all add: replayed_def replaying_def)
  then have "writeHashKey key s d = Some (0, ?s3, ?d2)"
    using a b by (simp add: writeHashKey_def saveState_def)
  moreover have "replaying ?s3 ?d2"
    using p2(1) by (simp add: replayed_def)
  ultimately show ?thesis
    using moved_fields [OF m1] f1 p2 by (intro exI [of _ ?s3]) (simp add: replayed_def)
qed

end
