(* ===== verification/Rebuild_Props.thy ===== *)
theory Rebuild_Props
  imports Rebuild
begin

text \<open>
  What \<open>CSafeStorage::rebuild\<close> restores from the data file of a storage, and what it does not: the
  index and the commit sequence come back exactly, the state file is left empty.
\<close>

lemma live_reopened: "files s = files ss_new \<Longrightarrow> live (reopened_for fname wr s) d"
  by (simp add: live_def handle_ok_def reopened_for_def opened_def coherent_def
      D_CSTORAGE_DATA_DELTA_SIZE_def D_DELTA_PAGE_def)

lemma plain_flags_of:
  "plain_open flags \<Longrightarrow> (has_flag flags F_CSFILE_CREATE \<longrightarrow> has_flag flags F_CSFILE_WR) \<and> \<not> has_flag flags F_CSFILE_TRUNCATE"
  by (auto simp: plain_open_def has_flag_def csfile_flags bit.conj_disj_distrib2)

text \<open>The first half: the files are opened, the key is read and written to the new log and index.\<close>

definition started :: "u32 \<Rightarrow> disk \<Rightarrow> disk" where
  "started key d = (emptied d)(LogF := put_rec 13 0 (header LogF key) (fresh_os (d LogF)),
                              IndexF := put_rec 26 0 (header IndexF key) (fresh_os (d IndexF)))"

lemma rebuild_starts:
  assumes acc: "fexists (d DataF)" "\<And>k. fexists (d k) \<longrightarrow> freadable (d k) \<and> fwritable (d k) \<and> fowned (d k)"
    and fl: "plain_open flags" and room: "\<And>k. 185 \<le> flimit (d k)"
    and key: "rec_at 17 0 (d DataF) = Some (header DataF key)"
  shows "\<exists>s'. ss_create rnd fname flags 0 (ss_new\<lparr>rebuilding := True\<rparr>) d = Some (0, s', started key d)
    \<and> replaying s' (started key d) \<and> \<not> rdwr s' \<and> state s' = zero_state\<lparr>st_hash_key := key\<rparr>
    \<and> end_code (files s' DataF) = (if has_flag flags F_CSFILE_WR then E_CSFILE_EMPTY_DATA else E_CSFILE_EOF)"
proof -
  let ?s0 = "ss_new\<lparr>rebuilding := True, fauto_commit := False\<rparr>" and ?wr = "has_flag flags F_CSFILE_WR"
  let ?nfl = "flags OR (F_CSFILE_EXCEPTIONS OR F_CSFILE_CREATE OR F_CSFILE_WR OR F_CSFILE_TRUNCATE)"
  let ?s1 = "reopened_for fname ?wr ?s0" and ?d1 = "emptied d"
  have o1: "open_files all_ids fname (\<lambda>k. if k = DataF then flags else ?nfl) ?s0 d = Some (Inr (), ?s1, ?d1)"
    using plain_flags_of [OF fl] acc by (intro open_files_rebuild) simp_all
  have l1: "live ?s1 ?d1"
    by (rule live_reopened) simp
  have f1: "rebuilding ?s1" "\<not> rdwr ?s1" "state ?s1 = zero_state" "f_write_mode (files ?s1 k) = (k = DataF \<longrightarrow> ?wr)" for k
    by (simp_all add: reopened_for_def opened_def ss_new_def)
  have "rec_at 17 0 (?d1 DataF) = Some (header DataF key)"
    using key by (simp add: emptied_def)
  from read_data_header [OF l1 this] obtain s2 where
    a: "read_header DataF (replicate h_size 0) ?s1 ?d1 = Some (17, h_set key, s2)" and m2: "moved ?s1 s2 ?d1"
    by blast
  have f2: "f_write_mode (files s2 k) = (k = DataF \<longrightarrow> ?wr)" for k
    using moved_write_mode [OF m2, of k] f1(4) by simp
  have "replaying s2 ?d1"
    using moved_live [OF m2] moved_fields [OF m2] f1(1) f2 by (simp add: replaying_def)
  moreover have "30 \<le> flimit (?d1 IndexF)" "17 \<le> flimit (?d1 LogF)"
    using room [of IndexF] room [of LogF] by (simp_all add: emptied_def fresh_os_def)
  ultimately obtain s3 where b: "writeHashKey key s2 ?d1 = Some (0, s3, started key d)"
    and r3: "replaying s3 (started key d)" "files s3 DataF = files s2 DataF" "rdwr s3 = rdwr s2"
      "state s3 = (state s2)\<lparr>st_hash_key := key\<rparr>"
    using writeHashKey_replay [of s2 ?d1 key] by (auto simp: started_def emptied_def)
  have g: "getHashKey 0 ?s1 ?d1 = Some (E_CSTORAGE_OK, key, s2)"
    using a by (simp add: getHashKey_def h_key_set)
  let ?s4 = "set_auto_commit flags s3"
  have "ss_create rnd fname flags 0 (ss_new\<lparr>rebuilding := True\<rparr>) d = Some (0, ?s4, started key d)"
    using o1 g b f1(1) by (simp add: ss_create_def Let_def)
  moreover have "replaying ?s4 (started key d)" "rdwr ?s4 = rdwr s3" "state ?s4 = state s3" "files ?s4 = files s3"
    using r3(1) by (simp_all add: set_auto_commit_def replaying_def live_def)
  ultimately show ?thesis
    using r3(2-4) moved_fields [OF m2] f1(2,3) f2 [of DataF] by (auto simp: end_code_def)
qed

lemma rebuild_journal:
  assumes data: "fbytes (d DataF) = h @ journal es @ t" "length h = 21" "torn t"
    and key: "rec_at 17 0 (d DataF) = Some (header DataF key)" and sz: "fsize (d DataF) < C_CSFILE_ENDFILE"
    and acc: "fexists (d DataF)" "\<And>k. fexists (d k) \<longrightarrow> freadable (d k) \<and> fwritable (d k) \<and> fowned (d k)"
    and wf: "\<forall>e \<in> set es. entry_wf (flimit (d IndexF)) q e" and fit: "rollbacks_fit es"
    and fl: "plain_open flags" and room: "\<And>k. 185 \<le> flimit (d k)" "seq_room d (q + 1)"
  shows "\<exists>c s' d'. ss_rebuild buf rnd fname flags ss_new d = Some (c, s', d') \<and> c < 0
    \<and> (t = [] \<longrightarrow> c = (if has_flag flags F_CSFILE_WR then E_CSFILE_EMPTY_DATA else E_CSFILE_EOF))
    \<and> d' DataF = d DataF \<and> fbytes (d' IndexF) = fbytes (replay_index 21 es (empty_index key (d IndexF)))
    \<and> fbytes (d' StateF) = [] \<and> commit_seq s' = replay_commit es 0 \<and> accessible d'
    \<and> rec_at 13 0 (d' LogF) = Some (header LogF key) \<and> (\<forall>k. flimit (d' k) = flimit (d k))"
proof -
  let ?n = "if has_flag flags F_CSFILE_WR then E_CSFILE_EMPTY_DATA else E_CSFILE_EOF" and ?d1 = "started key d"
  obtain s1 where a: "ss_create rnd fname flags 0 (ss_new\<lparr>rebuilding := True\<rparr>) d = Some (0, s1, ?d1)"
    and s1: "replaying s1 ?d1" "\<not> rdwr s1" "state s1 = zero_state\<lparr>st_hash_key := key\<rparr>" "end_code (files s1 DataF) = ?n"
    using rebuild_starts [of d, OF acc fl room(1) key, of rnd fname] by auto
  have d1: "?d1 DataF = d DataF" "flimit (?d1 k) = flimit (d k)" "fbytes (?d1 StateF) = []"
    "fbytes (?d1 IndexF) = fixed_rec (header IndexF key)" "accessible ?d1" for k
    using acc by (auto simp: started_def emptied_def fresh_os_def put_rec_def patch_def accessible_def)
  have h13: "rec_at 13 0 (?d1 LogF) = Some (header LogF key)" "whole 13 (?d1 LogF)"
    using length_header [of LogF] by (simp_all add: started_def rec_at_put_same whole_put_rec)
      (simp add: whole_def fresh_os_def put_rec_def patch_def)
  have "live s1 ?d1" "rec_at 17 0 (?d1 DataF) = Some (header DataF key)"
    using s1(1) key d1(1) by (simp_all add: replaying_def)
  from read_data_header [OF this] obtain s2 where
    b: "read_header DataF (replicate h_size 0) s1 ?d1 = Some (17, h_set key, s2)" and m2: "moved s1 s2 ?d1"
    and c2: "current_offset (files s2 DataF) = 21" and w2: "f_write_mode (files s2 DataF) = f_write_mode (files s1 DataF)"
    and f2: "\<forall>j. j \<noteq> DataF \<longrightarrow> files s2 j = files s1 j"
    by blast
  have r2: "replaying s2 ?d1" "state s2 = state s1" "rdwr s2 = rdwr s1" "end_code (files s2 DataF) = ?n"
    using s1 moved_live [OF m2] moved_fields [OF m2] f2 w2 by (simp_all add: replaying_def end_code_def)
  have "\<exists>c s3 d3. rebuild_loop zero_data buf s2 ?d1 = Some (c, s3, d3) \<and> c < 0
      \<and> (t = [] \<longrightarrow> c = end_code (files s2 DataF)) \<and> rebuilt (int (length h)) es s2 ?d1 s3 d3"
    by (rule rebuild_loop_ok [where q = q])
      (use r2(1) data c2 sz wf fit room(2) d1(1,2) in \<open>simp_all add: seq_room_def\<close>)
  then obtain c s3 d3 where c: "rebuild_loop zero_data buf s2 ?d1 = Some (c, s3, d3)" "c < 0" "t = [] \<longrightarrow> c = ?n"
    and r3: "rebuilt 21 es s2 ?d1 s3 d3"
    by (auto simp: r2(4) data(2))
  let ?s4 = "s3\<lparr>rebuilding := False\<rparr>"
  have "\<not> rdwr s3"
    using r3 r2(3) s1(2) by (simp add: rebuilt_def)
  then have "ss_rebuild buf rnd fname flags ss_new d = Some (c, ?s4, d3)"
    using a b c(1) by (simp add: ss_rebuild_def Let_def saveState_def E_CSTORAGE_OK_def)
  moreover have "fbytes (d3 IndexF) = fbytes (replay_index 21 es (empty_index key (d IndexF)))"
    using r3 replay_index_cong [of "?d1 IndexF" "empty_index key (d IndexF)" 21 es] d1(4)
    by (simp add: rebuilt_def empty_index_def)
  moreover have "commit_seq ?s4 = replay_commit es 0"
    using r3 r2(2) s1(3) by (simp add: rebuilt_def zero_state_def)
  moreover have "accessible d3" "flimit (d3 k) = flimit (d k)" "d3 DataF = d DataF" "fbytes (d3 StateF) = []" for k
    using r3 d1 accessible_attrs [of d3 ?d1] by (simp_all add: rebuilt_def attrs_def)
  moreover have "rec_at 13 0 (d3 LogF) = Some (header LogF key)"
    using r3 h13 by (simp add: rebuilt_def log_kept_def)
  ultimately show ?thesis
    using c(2,3) by (intro exI [of _ c] exI [of _ ?s4] exI [of _ d3]) simp
qed

subsection \<open>The properties\<close>

text \<open>No rollback of the data file covers more serials than the buffer of \<open>rebuild\<close> has room for.\<close>

definition short_rollbacks :: "disk \<Rightarrow> bool" where
  "short_rollbacks d \<longleftrightarrow> (\<forall>off p. data_rec off (d DataF) = Some p
     \<longrightarrow> record_type (dec_data (take 17 p)) = T_CSTORAGE_ROLLBACK_BEGIN \<longrightarrow> length p \<le> 17 + REBUILD_BUFFER)"

lemma recorded_entry:
  assumes "recorded s d es" and "e \<in> set es"
  shows "\<exists>off. data_rec off (d DataF) = Some (entry_bytes e)"
proof -
  obtain h where h: "length h = 21" "fbytes (d DataF) = h @ journal es"
    using assms(1) by (auto simp: recorded_def)
  obtain as bs where es: "es = as @ e # bs"
    using assms(2) by (auto simp: in_set_conv_decomp)
  have "length (snd e) < 2 ^ 24"
    using assms by (auto simp: recorded_def entry_wf_def Let_def)
  then have "data_rec (int (length (h @ journal as))) (d DataF) = Some (entry_bytes e)"
    by (intro data_rec_I) (simp_all add: h(2) es fsize_def seg_def is_i32_def)
  then show ?thesis ..
qed

lemma recorded_rollbacks_fit:
  assumes r: "recorded s d es" and "short_rollbacks d"
  shows "rollbacks_fit es"
  unfolding rollbacks_fit_def
proof (intro ballI impI)
  fix e assume e: "e \<in> set es" "record_type (fst e) = T_CSTORAGE_ROLLBACK_BEGIN"
  have "dec_data (take 17 (entry_bytes e)) = fst e"
    using r e(1) by (auto simp: recorded_def entry_wf_def Let_def entry_bytes_def dec_enc_data)
  then have "length (entry_bytes e) \<le> 17 + REBUILD_BUFFER"
    using recorded_entry [OF r e(1)] assms(2) e(2) unfolding short_rollbacks_def by metis
  then show "length (snd e) \<le> REBUILD_BUFFER"
    by simp
qed

lemma rebuild_of_reachable:
  assumes "reachable (s, d)" and "salvaged d d0" and "plain_open flags" and "\<And>k. 185 \<le> flimit (d k)"
    and "seq_room d (last_seq s + 1)" and "short_rollbacks d"
  shows "\<exists>s' d'. ss_rebuild data rnd fname flags ss_new d0 =
      Some (if has_flag flags F_CSFILE_WR then E_CSFILE_EMPTY_DATA else E_CSFILE_EOF, s', d')
    \<and> d' DataF = d DataF \<and> fbytes (d' IndexF) = fbytes (d IndexF) \<and> fbytes (d' StateF) = []
    \<and> commit_seq s' = commit_seq s \<and> accessible d'
    \<and> rec_at 13 0 (d' LogF) = Some (header LogF (st_hash_key (state s)))
    \<and> (\<forall>k. flimit (d' k) = flimit (d k))"
proof -
  let ?key = "st_hash_key (state s)"
  obtain es where es: "recorded s d es"
    using reachable_recorded [OF assms(1)] by auto
  then obtain h where h: "length h = 21" "fbytes (d DataF) = h @ journal es"
    and ix: "fbytes (d IndexF) = fbytes (replay_index 21 es (empty_index ?key (d IndexF)))"
    and cs: "commit_seq s = replay_commit es 0" and wf: "\<forall>e \<in> set es. entry_wf (flimit (d IndexF)) (last_seq s) e"
    by (auto simp: recorded_def)
  have g: "accessible d" "rec_at 17 0 (d DataF) = Some (header DataF ?key)" "fsize (d DataF) < C_CSFILE_ENDFILE"
    using good_of_reachable [OF assms(1)] by (simp_all add: linked_def healthy_def)
  have d0: "d0 DataF = d DataF" "\<And>k. flimit (d0 k) = flimit (d k)"
    "\<And>k. fexists (d0 k) \<longrightarrow> freadable (d0 k) \<and> fwritable (d0 k) \<and> fowned (d0 k)"
    using assms(2) by (simp_all add: salvaged_def)
  have "fbytes (d0 DataF) = h @ journal es @ []" "rec_at 17 0 (d0 DataF) = Some (header DataF ?key)"
    "fsize (d0 DataF) < C_CSFILE_ENDFILE" "fexists (d0 DataF)" "\<And>k. 185 \<le> flimit (d0 k)"
    "\<forall>e \<in> set es. entry_wf (flimit (d0 IndexF)) (last_seq s) e" "seq_room d0 (last_seq s + 1)"
    using h(2) g wf assms(4,5) by (simp_all add: d0(1,2) accessible_def seq_room_def)
  from rebuild_journal [of d0, OF this(1) h(1) torn_Nil this(2,3,4) d0(3) this(6) recorded_rollbacks_fit [OF es assms(6)]
      assms(3) this(5,7), of data rnd fname]
  show ?thesis
    using replay_index_cong [of "empty_index ?key (d0 IndexF)" "empty_index ?key (d IndexF)" 21 es] ix cs
    by (auto simp: d0 empty_index_def)
qed

lemma idx_cong: "fbytes os = fbytes os' \<Longrightarrow> idx os i = idx os' i"
  unfolding idx_def using rec_at_cong by metis

text \<open>Property (C6): the data file alone is enough. Whatever has become of the other three files of a storage
  that a client has used, with rollback lists that fit the buffer of 1 MiB, \<open>rebuild\<close> by a new object returns, leaves the data file as it is and makes the index
  file again byte for byte and the sequence of the last commit, so that every serial has the content it had, for
  the writer and for committed readers. (What it returns is the code of the read that found the end of the
  file, never \<open>E_CSTORAGE_OK\<close>.)\<close>

theorem rebuild_restores_index:
  assumes "reachable (s, d)" and "salvaged d d0" and "plain_open flags" and "\<And>k. 185 \<le> flimit (d k)"
    and "seq_room d (last_seq s + 1)" and "short_rollbacks d"
  shows "\<exists>s' d'. ss_rebuild data rnd fname flags ss_new d0 =
      Some (if has_flag flags F_CSFILE_WR then E_CSFILE_EMPTY_DATA else E_CSFILE_EOF, s', d')
    \<and> d' DataF = d DataF \<and> fbytes (d' IndexF) = fbytes (d IndexF) \<and> commit_seq s' = commit_seq s
    \<and> (\<forall>dirty i. view dirty s' d' i = view dirty s d i)"
proof -
  obtain s' d' where r: "ss_rebuild data rnd fname flags ss_new d0 =
      Some (if has_flag flags F_CSFILE_WR then E_CSFILE_EMPTY_DATA else E_CSFILE_EOF, s', d')"
    and d': "d' DataF = d DataF" "fbytes (d' IndexF) = fbytes (d IndexF)" "commit_seq s' = commit_seq s"
    using rebuild_of_reachable [OF assms, of data rnd fname] by blast
  have "view dirty s' d' i = view dirty s d i" for dirty i
    using d' idx_cong [OF d'(2), of i] by (simp add: view_def content_def split: option.split)
  then show ?thesis
    using r d' by blast
qed

text \<open>A storage with one committed serial, of which only the data file is left.\<close>

lemma short_if_small: "fsize (d DataF) \<le> 1000 \<Longrightarrow> short_rollbacks d"
  using data_rec_D(2,3) by (fastforce simp: short_rollbacks_def REBUILD_BUFFER_def)

definition only_data :: "disk \<Rightarrow> disk" where
  "only_data d = (\<lambda>k. if k = DataF then d k else (d k)\<lparr>fbytes := [], fexists := False\<rparr>)"

lemma salvaged_only_data: "accessible d \<Longrightarrow> salvaged d (only_data d)"
  by (simp add: salvaged_def only_data_def accessible_def)

lemma demo_put:
  assumes "good (s, d)" and "\<forall>k. flimit (d k) = 1000000" and "fsize (d DataF) \<le> 800" and "last_seq s \<le> 90"
    and "i \<notin> set (dirtySerials s)" and "0 < i" "i \<le> 100" and "length y \<le> 10"
  shows "\<exists>s' d'. perform (Put i y) (s, d) = Some (int (length y), s', d') \<and> allowed (Put i y) (s, d)
    \<and> (\<forall>k. flimit (d' k) = 1000000) \<and> fsize (d' DataF) \<le> fsize (d DataF) + 60 \<and> last_seq s' \<le> last_seq s + 2
    \<and> fsize (d DataF) + 25 \<le> fsize (d' DataF) \<and> st_hash_key (state s') = st_hash_key (state s)"
proof -
  have c: "can_write s d i (length y)"
    using assms by (intro demo_can_write) simp_all
  have h: "healthy s d"
    using assms(1) by simp
  obtain s' d' where p: "perform (Put i y) (s, d) = Some (int (length y), s', d')"
    and w: "wrote (write_reg s i (word_of_nat (length y))) y s d s' d'"
    using write_ok [OF h c] by auto
  moreover have "fsize (d DataF) + 25 \<le> fsize (d' DataF)"
    using w data_rec_D(3) [of "fsize (d DataF)" "d' DataF"] by (fastforce simp: wrote_def)
  ultimately show ?thesis
    using assms(2,5,8) c fsize_grown [of d d' "length y + 50"] grown_limit [of d d' "length y + 50"]
    by (auto simp: wrote_def)
qed

lemma demo_commit:
  assumes "good (s, d)" and "\<forall>k. flimit (d k) = 1000000" and "fsize (d DataF) \<le> 800" and "last_seq s \<le> 90"
    and "\<not> fauto_commit s"
  shows "\<exists>s' d'. perform Commit (s, d) = Some (E_CSTORAGE_OK, s', d') \<and> allowed Commit (s, d)
    \<and> (\<forall>k. flimit (d' k) = 1000000) \<and> fsize (d' DataF) \<le> fsize (d DataF) + 50 \<and> last_seq s' \<le> last_seq s + 2
    \<and> dirtySerials s' = [] \<and> st_hash_key (state s') = st_hash_key (state s)"
proof -
  have r: "room s d 50"
    using assms by (intro demo_room) simp_all
  obtain s' d' where "ss_commit s d = Some (E_CSTORAGE_OK, clearDirtySerials s', d')"
    and "committed_step (last_seq s + 1) s d s' d'"
    using commit_ok [of s d] assms(1,5) r by auto
  then show ?thesis
    using assms(2) r fsize_grown [of d d' 50] grown_limit [of d d' 50]
    by (intro exI [of _ "clearDirtySerials s'"] exI [of _ d']) (auto simp: committed_step_def)
qed

text \<open>What the specification says of the content after an operation.\<close>

lemma view_perform:
  assumes "reachable st" and "allowed q st" and "perform q st = Some (r, st')"
  shows "view dirty (fst st') (snd st') =
    (if dirty then sp_cur (spec_step q (abstract st)) else sp_com (spec_step q (abstract st)))"
    and "fauto_commit (fst st') = fauto_commit (fst st)"
proof -
  have a: "abstract st' = spec_step q (abstract st)"
    using perform_ok [OF good_of_reachable [OF assms(1)] assms(2)] assms(3) by auto
  moreover have v: "view dirty (fst x) (snd x) = (if dirty then sp_cur (abstract x) else sp_com (abstract x))"
    "fauto_commit (fst x) = sp_auto (abstract x)" for x
    by (cases x; simp add: abstract_def)+
  moreover have "sp_auto (spec_step q x) = sp_auto x" for x
    by (cases q) simp_all
  ultimately show "view dirty (fst st') (snd st') =
      (if dirty then sp_cur (spec_step q (abstract st)) else sp_com (spec_step q (abstract st)))"
    "fauto_commit (fst st') = fauto_commit (fst st)"
    by simp_all
qed

lemma demo_reachable:
  "\<exists>s d. reachable (s, d) \<and> (\<forall>k. flimit (d k) = 1000000) \<and> fsize (d DataF) \<le> 300 \<and> last_seq s \<le> 10
     \<and> st_hash_key (state s) = 7 \<and> dirtySerials s = [] \<and> \<not> fauto_commit s \<and> view False s d 5 = Some [1, 2, 3]"
proof -
  obtain s0 d0 where c: "ss_open 7 ''demo'' 3 0 ss_new demo_disk = Some (E_CSTORAGE_OK, s0, d0)"
    and b: "brand_new 7 s0 d0" "\<forall>k. flimit (d0 k) = 1000000" "\<not> fauto_commit s0"
    using demo_created by blast
  have "blank_disk demo_disk" "has_flag 3 F_CSTORAGE_WR" "has_flag 3 F_CSTORAGE_CREATE"
    by (simp_all add: blank_disk_def demo_disk_def has_flag_def F_CSTORAGE_WR_def F_CSTORAGE_CREATE_def)
  then have r0: "reachable (s0, d0)"
    using c by (rule created)
  have g0: "good (s0, d0)" "fsize (d0 DataF) = 21" "last_seq s0 = 0" "dirtySerials s0 = []" "st_hash_key (state s0) = 7"
    using b(1) by (simp_all add: brand_new_def)
  obtain s1 d1 where p1: "perform (Put 5 [1, 2, 3]) (s0, d0) = Some (3, s1, d1)" "allowed (Put 5 [1, 2, 3]) (s0, d0)"
    and f1: "\<forall>k. flimit (d1 k) = 1000000" "fsize (d1 DataF) \<le> 81" "last_seq s1 \<le> 2" "st_hash_key (state s1) = 7"
    using demo_put [of s0 d0 5 "[1, 2, 3]"] g0 b(2) by (auto simp del: perform.simps allowed.simps good.simps)
  have r1: "reachable (s1, d1)" and a1: "\<not> fauto_commit s1"
    using served [OF r0 p1(2,1)] view_perform(2) [OF r0 p1(2,1)] b(3) by simp_all
  obtain s2 d2 where p2: "perform Commit (s1, d1) = Some (E_CSTORAGE_OK, s2, d2)" "allowed Commit (s1, d1)"
    and f2: "\<forall>k. flimit (d2 k) = 1000000" "fsize (d2 DataF) \<le> 131" "last_seq s2 \<le> 4" "dirtySerials s2 = []"
      "st_hash_key (state s2) = 7"
    using demo_commit [OF good_of_reachable [OF r1] f1(1) _ _ a1] f1 by (auto simp del: perform.simps allowed.simps)
  have "view False s2 d2 5 = Some [1, 2, 3]"
    using view_perform(1) [OF r1 p2(2,1), of False] view_perform(1) [OF r0 p1(2,1), of True] b(3) a1
    by (simp add: abstract_def)
  then show ?thesis
    using served [OF r1 p2(2,1)] view_perform(2) [OF r1 p2(2,1)] f2 a1 by (intro exI [of _ s2] exI [of _ d2]) simp
qed

theorem rebuild_restores_index_witness:
  "\<exists>d s' d'. ss_rebuild (replicate REBUILD_BUFFER 0) 0 ''demo'' 1 ss_new (only_data d) = Some (E_CSFILE_EMPTY_DATA, s', d')
     \<and> view False s' d' 5 = Some [1, 2, 3]"
proof -
  obtain s d where b: "reachable (s, d)" "\<forall>k. flimit (d k) = 1000000" "fsize (d DataF) \<le> 300" "last_seq s \<le> 10"
     "view False s d 5 = Some [1, 2, 3]"
    using demo_reachable by blast
  have "accessible d" and "0 \<le> last_seq s"
    using good_of_reachable [OF b(1)] by (simp_all add: healthy_def)
  then have c: "salvaged d (only_data d)" "seq_room d (last_seq s + 1)" "short_rollbacks d" "185 \<le> flimit (d k)" for k
    using b salvaged_only_data short_if_small [of d] by (auto simp: seq_room_def)
  have "has_flag 1 F_CSFILE_WR"
    by (simp add: has_flag_def F_CSFILE_WR_def)
  moreover obtain s' d' where "ss_rebuild (replicate REBUILD_BUFFER 0) 0 ''demo'' 1 ss_new (only_data d) =
      Some (if has_flag 1 F_CSFILE_WR then E_CSFILE_EMPTY_DATA else E_CSFILE_EOF, s', d')"
    "\<forall>dirty i. view dirty s' d' i = view dirty s d i"
    using rebuild_restores_index [OF b(1) c(1) plain_open_1(1) c(4,2,3), of "replicate REBUILD_BUFFER 0" 0 "''demo''"]
    by blast
  ultimately show ?thesis
    using b(5) by (intro exI [of _ d] exI [of _ s'] exI [of _ d']) simp
qed

text \<open>Property (C29): after such a rebuild a storage whose key is not 0 cannot be opened, neither for reading nor for writing, nor for
  writing with \<open>F_CSTORAGE_CREATE\<close>, unless the files are truncated. The object that rebuilds was not opened for
  writing, so \<open>saveState\<close> does nothing at the end; the state file, truncated at the beginning, stays empty,
  and \<open>open\<close> finds in it no key but 0 and returns \<open>E_CSTORAGE_FAIL_HK_STATE\<close>. (A storage with the key 0 passes the test.)\<close>

theorem rebuilt_storage_does_not_open:
  assumes "reachable (s, d)" and "salvaged d d0" and "plain_open flags" and "\<And>k. 185 \<le> flimit (d k)"
    and "seq_room d (last_seq s + 1)" and "short_rollbacks d" and "plain_open flags'" and "st_hash_key (state s) \<noteq> 0"
  shows "\<exists>n s' d' s2 d2. ss_rebuild data rnd fname flags ss_new d0 = Some (n, s', d')
    \<and> ss_open rnd fname flags' key ss_new d' = Some (E_CSTORAGE_FAIL_HK_STATE, s2, d2)"
proof -
  let ?k = "st_hash_key (state s)"
  obtain n s' d' where r: "ss_rebuild data rnd fname flags ss_new d0 = Some (n, s', d')"
    and d': "d' DataF = d DataF" "fbytes (d' IndexF) = fbytes (d IndexF)" "fbytes (d' StateF) = []" "accessible d'"
      "rec_at 13 0 (d' LogF) = Some (header LogF ?k)" "\<forall>k. flimit (d' k) = flimit (d k)"
    using rebuild_of_reachable [OF assms(1-6), of data rnd fname] by blast
  have "linked ?k d"
    using good_of_reachable [OF assms(1)] by simp
  then have k: "keyed ?k ?k ?k d'"
    using d' rec_at_cong [OF d'(2), of 26 0] by (simp add: linked_def keyed_headers)
  have none: "loaded d' zero_state = zero_state"
    using d'(3) by (simp add: loaded_def rec_at_def)
  let ?e = "E_CSTORAGE_FAIL_HK_STATE"
  have e: "?e = hash_errors ?k ?k ?k (st_hash_key zero_state)" "?e \<noteq> 0"
    using assms(8) by (simp_all add: hash_errors_def zero_state_def E_CSTORAGE_FAIL_HK_STATE_def)
  obtain s1 where o: "ss_open rnd fname flags' key ss_new d' = close_with ?e s1 d'"
    and s1: "live s1 d'" "state s1 = zero_state" "\<not> rebuilding s1" "\<forall>k. f_write_mode (files s1 k) = rdwr s1"
    using open_steps [OF d'(4) assms(7) k none [symmetric] e(1) refl, of rnd fname key] e(2) by auto
  have "\<exists>s2 d2. saveState s1 d' = Some (s2, d2)"
  proof (cases "rdwr s1")
    case True
    then show ?thesis
      using saveState_ok [of s1 d'] s1 d'(6) assms(4) by (auto simp: zero_state_def)
  next
    case False
    then show ?thesis
      by (simp add: saveState_def)
  qed
  then have "\<exists>s2 d2. close_with ?e s1 d' = Some (?e, s2, d2)"
    by (auto simp: close_with_def ss_close_def Let_def)
  then show ?thesis
    using r o by auto
qed

theorem rebuilt_storage_does_not_open_witness:
  "\<exists>d n s' d' s2 d2. ss_rebuild (replicate REBUILD_BUFFER 0) 0 ''demo'' 1 ss_new (only_data d) = Some (n, s', d')
     \<and> ss_open 0 ''demo'' 3 0 ss_new d' = Some (E_CSTORAGE_FAIL_HK_STATE, s2, d2)"
proof -
  have "plain_open 3"
    by (simp add: plain_open_def has_flag_def csfile_flags)
  note open3 = this
  obtain s d where b: "reachable (s, d)" "\<forall>k. flimit (d k) = 1000000" "fsize (d DataF) \<le> 300" "last_seq s \<le> 10"
     "st_hash_key (state s) = 7"
    using demo_reachable by blast
  have "accessible d" and "0 \<le> last_seq s"
    using good_of_reachable [OF b(1)] by (simp_all add: healthy_def)
  then have "salvaged d (only_data d)" "seq_room d (last_seq s + 1)" "short_rollbacks d" "185 \<le> flimit (d k)" for k
    using b salvaged_only_data short_if_small [of d] by (auto simp: seq_room_def)
  then show ?thesis
    using rebuilt_storage_does_not_open [OF b(1) _ plain_open_1(1) _ _ _ open3,
        of "only_data d" "replicate REBUILD_BUFFER 0" 0 "''demo''" 0] b(5) by fastforce
qed

end
