(* ===== verification/Crash.thy ===== *)
theory Crash
  imports Rebuild_Props
begin

text \<open>
  A crash: of the operations a client did, the data file has got only some of the bytes, and the other
  files may hold anything. What \<open>rebuild\<close> then makes is the storage as it was after some of them.
\<close>

subsection \<open>Offsets in a replayed index are starts of entries\<close>

definition anchored :: "(int \<Rightarrow> bool) \<Rightarrow> os_file \<Rightarrow> bool" where
  "anchored P os \<longleftrightarrow> whole 26 os
     \<and> (\<forall>j x. 0 < j \<longrightarrow> idx os j = Some x \<longrightarrow> P (fst (x_offsets x)) \<and> P (snd (x_offsets x)))"

lemma anchored_put:
  assumes "anchored P os" and "0 \<le> i" and "well_index x"
    and "0 < i \<Longrightarrow> P (fst (x_offsets x)) \<and> P (snd (x_offsets x))"
  shows "anchored P (put_rec 26 i (enc_index x) os)"
  using assms by (auto simp: anchored_def idx_put index_table.sound_store split: if_splits)

lemma anchored_rollback:
  assumes "anchored P os" and "P (- 1)" and "\<And>i. i \<in> set ss \<Longrightarrow> 0 < i"
    and "well_index x" and "P (fst (x_offsets x)) \<and> P (snd (x_offsets x))"
  shows "anchored P (index_rollback ss x os)"
  using assms
proof (induction ss x os rule: index_rollback.induct)
  case (2 i "is" x os)
  let ?y = "case rec_at 26 i os of Some p \<Rightarrow> dec_index p | None \<Rightarrow> x"
  have i: "0 < i"
    using "2.prems"(3) by simp
  have "idx os i = Some ?y \<or> ?y = x"
    by (simp add: idx_def split: option.split)
  then have y: "well_index ?y" "P (fst (x_offsets ?y)) \<and> P (snd (x_offsets ?y))"
    using "2.prems"(1,4,5) i idx_well by (auto simp: anchored_def)
  let ?z = "setNewestOffset ?y (- 1) 0 0"
  have z: "well_index ?z" and pz: "P (fst (x_offsets ?z)) \<and> P (snd (x_offsets ?z))"
    using well_setNewest [OF y(1), of "- 1" 0 0] y(2) "2.prems"(2)
    by (auto simp: is_i64_def setNewestOffset_def [of ?y] set2_def Let_def)
  show ?case
    using "2.IH" [OF refl anchored_put [OF "2.prems"(1) _ z]] z pz i "2.prems"(2,3) by (simp add: Let_def)
qed simp

lemma anchored_entry:
  assumes "anchored P os" and e: "entry_wf lim q e" and P: "P 0" "P (- 1)" "P off" and off: "is_i64 off"
  shows "anchored P (entry_index off e os)"
proof -
  obtain r y where [simp]: "e = (r, y)" by (cases e)
  let ?x = "index_after_write (r_serial r) off (r_sequence r) (r_flags r) os"
  have "is_i32 (r_sequence r)"
    using e by (simp add: entry_wf_def Let_def well_data_def)
  then have "well_index ?x"
    using off by (rule well_after_write [rotated])
  moreover have "P (fst (x_offsets ?x)) \<and> P (snd (x_offsets ?x))" if "0 < r_serial r"
    using assms(1) P that
    by (auto simp: anchored_def index_after_write_idx setOldestOffset_def set2_def Let_def split: option.split)
  moreover have "record_type r = T_CSTORAGE_WRITE \<Longrightarrow> 0 \<le> r_serial r"
    using e by (auto simp: entry_wf_def cstorage_types)
  moreover have "i \<in> set (serials_of y) \<Longrightarrow> 0 < i" if t: "record_type r = T_CSTORAGE_ROLLBACK_BEGIN" for i
  proof -
    obtain ss where ss: "y = serial_array ss" "\<forall>i \<in> set ss. 0 < i \<and> is_i32 i" "length (serial_array ss) < 2 ^ 24"
      using e t by (auto simp: entry_wf_def cstorage_types)
    then have "serials_of y = ss"
      by (auto intro!: serials_of_array simp: is_i32_def)
    then show "i \<in> set (serials_of y) \<Longrightarrow> 0 < i"
      using ss(2) by simp
  qed
  ultimately show ?thesis
    using assms(1) P well_zero(2)
    by (auto simp: entry_index_def Let_def intro!: anchored_put anchored_rollback) (simp_all add: zero_index_def)
qed

lemma anchored_replay:
  assumes "anchored P os" and "\<forall>e \<in> set es. entry_wf lim q e" and "P 0" "P (- 1)"
    and "\<And>as e bs. es = as @ e # bs \<Longrightarrow> P (off + int (length (journal as)))"
    and "0 \<le> off" and "off + int (length (journal es)) < C_CSFILE_ENDFILE"
  shows "anchored P (replay_index off es os)"
  using assms
proof (induction es arbitrary: off os)
  case (Cons e es)
  have "P off"
    using Cons.prems(5) [of "[]"] by simp
  moreover have "is_i64 off"
    using Cons.prems(6,7) by (simp add: is_i64_def C_CSFILE_ENDFILE_def)
  ultimately have "anchored P (entry_index off e os)"
    using Cons.prems by (intro anchored_entry [where lim = lim and q = q]) simp_all
  moreover have "P (off + int (length (entry_bytes e)) + 8 + int (length (journal as)))" if "es = as @ e' # bs" for as e' bs
    using Cons.prems(5) [of "e # as" e' bs] that by (simp add: algebra_simps)
  moreover have "off + int (length (journal (e # es))) = off + int (length (entry_bytes e)) + 8 + int (length (journal es))"
    by simp
  ultimately show ?case
    using Cons.prems(2-4,6,7) Cons.IH [of "entry_index off e os" "off + int (length (entry_bytes e)) + 8"] by simp
qed simp

lemma anchored_empty: "anchored P (empty_index key os)"
proof -
  have "length (fixed_rec (header IndexF key)) = 30"
    using length_header [of IndexF key] by simp
  then show ?thesis
    by (auto simp: anchored_def empty_index_def whole_def idx_def rec_at_def)
qed

subsection \<open>What is kept of a journal shows what it says\<close>

lemma data_rec_entry:
  assumes "fbytes os = before @ dyn_rec (entry_bytes e) @ rest" and "length (snd e) < 2 ^ 24"
  shows "data_rec (int (length before)) os = Some (entry_bytes e)"
  using assms by (intro data_rec_I) (simp_all add: fsize_def seg_def is_i32_def)

lemma view_kept:
  assumes a: "fbytes (d DataF) = h @ journal es @ t" and b: "fbytes (d' DataF) = h @ journal es @ t'"
    and h: "length h = 21" and wf: "\<forall>e \<in> set es. entry_wf lim q e" and sz: "fsize (d DataF) < C_CSFILE_ENDFILE"
    and ix: "fbytes (d IndexF) = fbytes (replay_index 21 es (empty_index key os))" "fbytes (d' IndexF) = fbytes (d IndexF)"
    and c: "commit_seq s' = commit_seq s"
  shows "view dirty s' d' i = view dirty s d i"
proof -
  define P where "P = (\<lambda>off. off \<le> 0 \<or> data_rec off (d DataF) = data_rec off (d' DataF))"
  have "P (21 + int (length (journal as)))" if "es = as @ e # bs" for as e bs
  proof -
    have "length (snd e) < 2 ^ 24"
      using wf that by (simp add: entry_wf_def Let_def)
    then have "data_rec (int (length (h @ journal as))) os = Some (entry_bytes e)"
      if "fbytes os = h @ journal es @ u" for os u
      using that \<open>es = _\<close> by (intro data_rec_entry) simp_all
    from this [OF a] this [OF b] show ?thesis
      using h by (simp add: P_def)
  qed
  moreover have "21 + int (length (journal es)) < C_CSFILE_ENDFILE"
    using sz h by (simp add: fsize_def a)
  ultimately have "anchored P (replay_index 21 es (empty_index key os))"
    using wf by (intro anchored_replay [where lim = lim and q = q] anchored_empty) (auto simp: P_def)
  then have off: "P (fst (x_offsets x)) \<and> P (snd (x_offsets x))" if "0 < j" "idx (d IndexF) j = Some x" for j x
    using that idx_cong [OF ix(1)] by (auto simp: anchored_def)
  have "content d' (version x c dirty) = content d (version x c dirty)" if "0 < i" "idx (d IndexF) i = Some x" for x c
    using off [OF that] version_cases [of x c dirty] by (auto simp: content_def P_def)
  then show ?thesis
    using c idx_cong [OF ix(2)] by (simp add: view_def split: option.split)
qed

text \<open>Quiet entries change nothing, so whatever is kept of an operation's entries, the index and the commit
  sequence are those before or those after it.\<close>

lemma quiet_replay: "quiet es \<Longrightarrow> replay_index off es os = os \<and> replay_commit es c = c"
proof (induction es arbitrary: off)
  case (Cons e es)
  obtain r y where e: "e = (r, y)" by (cases e)
  then have "record_type r \<in> {T_CSTORAGE_ROLLBACK_END, T_CSTORAGE_STATUS}"
    using Cons.prems by simp
  then show ?case
    using Cons by (auto simp: e)
qed simp

lemma quiet_take: "quiet es \<Longrightarrow> quiet (take k es)"
  unfolding quiet_def using set_take_subset by fastforce

lemma operation_kept:
  assumes "quiet (tl fs)"
  shows "k = 0 \<or> (\<forall>off os c. replay_index off (take k fs) os = replay_index off fs os
    \<and> replay_commit (take k fs) c = replay_commit fs c)"
proof (cases fs)
  case (Cons e es)
  then have "quiet es" "\<And>j. quiet (take j es)"
    using assms quiet_take by simp_all
  then show ?thesis
    using Cons by (cases k) (simp_all add: quiet_replay)
qed simp

subsection \<open>A client at work\<close>

fun performed :: "request list \<Rightarrow> storage \<times> disk \<Rightarrow> (storage \<times> disk) option" where
  "performed [] st = Some st"
| "performed (q # qs) st =
     (if allowed q st then (case perform q st of Some (r, st') \<Rightarrow> performed qs st' | None \<Rightarrow> None) else None)"

lemma performed_reachable: "performed qs st = Some st' \<Longrightarrow> reachable st \<Longrightarrow> reachable st'"
proof (induction qs arbitrary: st)
  case (Cons q qs)
  then obtain r st1 where "allowed q st" "perform q st = Some (r, st1)" "performed qs st1 = Some st'"
    by (auto split: if_splits option.splits)
  then show ?case
    using Cons served by blast
qed simp

lemma replay_empty: "fbytes (replay_index off es (empty_index key os)) = fbytes (replay_index off es (empty_index key os'))"
  by (rule replay_index_cong) (simp add: empty_index_def)

text \<open>The state that a list of entries gives, after a storage with the data file \<open>d\<close> and the entries \<open>es\<close>.\<close>

definition gives :: "entry list \<Rightarrow> u32 \<Rightarrow> storage \<Rightarrow> disk \<Rightarrow> bool" where
  "gives es key s d \<longleftrightarrow> fbytes (d IndexF) = fbytes (replay_index 21 es (empty_index key (d IndexF)))
     \<and> commit_seq s = replay_commit es 0"

lemma gives_recorded: "recorded s d es \<Longrightarrow> gives es (st_hash_key (state s)) s d"
  by (simp add: recorded_def gives_def)

lemma gives_operation:
  assumes "gives (es @ fs) key s d" and "quiet (tl fs)" and "0 < k"
  shows "gives (es @ take k fs) key s d"
  using assms operation_kept [OF assms(2), of k] by (auto simp: gives_def replay_index_append)

lemma performed_kept:
  assumes "performed qs (s, d) = Some (s', d')" and "reachable (s, d)" and "recorded s d es" and "key = st_hash_key (state s)"
  shows "\<exists>fs. recorded s' d' (es @ fs) \<and> fbytes (d' DataF) = fbytes (d DataF) @ journal fs \<and> st_hash_key (state s') = key
    \<and> (\<forall>k \<le> length fs. \<exists>j sj dj t. performed (take j qs) (s, d) = Some (sj, dj)
         \<and> fbytes (dj DataF) = fbytes (d DataF) @ journal (take k fs) @ t \<and> gives (es @ take k fs) key sj dj)"
  using assms
proof (induction qs arbitrary: s d es)
  case Nil
  then show ?case
    using gives_recorded by (intro exI [of _ "[]"]) (auto intro!: exI [of _ "[]"])
next
  case (Cons q qs)
  then obtain r s1 d1 where a: "allowed q (s, d)" and p: "perform q (s, d) = Some (r, s1, d1)"
    and rest: "performed qs (s1, d1) = Some (s', d')"
    by (auto split: if_splits option.splits)
  obtain gs where gs: "extends_by gs s d s1 d1" "quiet (tl gs)" and lim: "flimit (d1 IndexF) = flimit (d IndexF)"
    and key: "st_hash_key (state s1) = key"
    using perform_extends [OF good_of_reachable [OF Cons.prems(2)] a p] Cons.prems(4) by (auto simp: extends_def)
  have d1: "fbytes (d1 DataF) = fbytes (d DataF) @ journal gs"
    using gs(1) by (simp add: extends_by_def)
  have r1: "reachable (s1, d1)" "recorded s1 d1 (es @ gs)"
    using served [OF Cons.prems(2) a p] recorded_extends_by [OF Cons.prems(3) gs(1) lim] key Cons.prems(4) by simp_all
  obtain fs where fs: "recorded s' d' ((es @ gs) @ fs)" "fbytes (d' DataF) = fbytes (d1 DataF) @ journal fs"
      "st_hash_key (state s') = key"
    and k: "\<And>k. k \<le> length fs \<Longrightarrow> \<exists>j sj dj t. performed (take j qs) (s1, d1) = Some (sj, dj)
         \<and> fbytes (dj DataF) = fbytes (d1 DataF) @ journal (take k fs) @ t \<and> gives ((es @ gs) @ take k fs) key sj dj"
    using Cons.IH [OF rest r1 key [symmetric]] by blast
  have "\<exists>j sj dj t. performed (take j (q # qs)) (s, d) = Some (sj, dj)
      \<and> fbytes (dj DataF) = fbytes (d DataF) @ journal (take k (gs @ fs)) @ t \<and> gives (es @ take k (gs @ fs)) key sj dj"
    if le: "k \<le> length (gs @ fs)" for k
  proof -
    consider "k = 0" | "0 < k" "k \<le> length gs" | "length gs < k"
      by linarith
    then show ?thesis
    proof cases
      case 1
      then show ?thesis
        using gives_recorded [OF Cons.prems(3)] Cons.prems(4) by (intro exI [of _ 0]) simp
    next
      case 2
      have "journal gs = journal (take k gs) @ journal (drop k gs)"
        by (simp flip: journal_simps(3))
      moreover have "gives (es @ take k gs) key s1 d1"
        using gives_operation [OF _ gs(2) 2(1)] gives_recorded [OF r1(2)] key by simp
      ultimately show ?thesis
        using 2 a p d1 by (intro exI [of _ 1]) simp
    next
      case 3
      then have "k - length gs \<le> length fs"
        using le by simp
      from k [OF this] obtain j sj dj t where "performed (take j qs) (s1, d1) = Some (sj, dj)"
         "fbytes (dj DataF) = fbytes (d1 DataF) @ journal (take (k - length gs) fs) @ t"
         "gives ((es @ gs) @ take (k - length gs) fs) key sj dj"
        by blast
      then show ?thesis
        using 3 a p d1 by (intro exI [of _ "Suc j"]) simp
    qed
  qed
  then show ?case
    using fs d1 by (intro exI [of _ "gs @ fs"]) simp
qed

subsection \<open>The crash\<close>

definition crashed :: "nat \<Rightarrow> disk \<Rightarrow> disk \<Rightarrow> bool" where
  \<comment> \<open>of the data file only \<open>n\<close> bytes are left, the other files are lost or anything\<close>
  "crashed n d d0 \<longleftrightarrow> salvaged (d(DataF := (d DataF)\<lparr>fbytes := take n (fbytes (d DataF))\<rparr>)) d0"

lemma header_of_prefix:
  assumes "fbytes os = h @ x" and "fbytes os' = h @ y" and "length h = 21"
  shows "rec_at 17 0 os = rec_at 17 0 os'"
  using assms by (simp add: rec_at_def slot_at_def seg_def)

lemma rollbacks_fit_subset: "rollbacks_fit es \<Longrightarrow> set fs \<subseteq> set es \<Longrightarrow> rollbacks_fit fs"
  by (auto simp: rollbacks_fit_def)

lemma crash_rebuilds:
  assumes "reachable (s, d)" and "performed qs (s, d) = Some (s1, d1)" and "length (fbytes (d DataF)) \<le> n"
    and "crashed n d1 d0" and "plain_open flags" and "\<And>k. 185 \<le> flimit (d1 k)"
    and "seq_room d1 (last_seq s1 + 1)" and "short_rollbacks d1"
  shows "\<exists>c s2 d2 j sj dj. ss_rebuild data rnd fname flags ss_new d0 = Some (c, s2, d2)
    \<and> performed (take j qs) (s, d) = Some (sj, dj) \<and> (\<forall>dirty i. view dirty s2 d2 i = view dirty sj dj i)"
proof -
  let ?key = "st_hash_key (state s)"
  obtain es where es: "recorded s d es"
    using reachable_recorded [OF assms(1)] by auto
  then obtain h where h: "length h = 21" "fbytes (d DataF) = h @ journal es"
    by (auto simp: recorded_def)
  obtain fs where fs: "recorded s1 d1 (es @ fs)" "fbytes (d1 DataF) = fbytes (d DataF) @ journal fs" "st_hash_key (state s1) = ?key"
    and kept: "\<And>k. k \<le> length fs \<Longrightarrow> \<exists>j sj dj t. performed (take j qs) (s, d) = Some (sj, dj)
         \<and> fbytes (dj DataF) = fbytes (d DataF) @ journal (take k fs) @ t \<and> gives (es @ take k fs) ?key sj dj"
    using performed_kept [OF assms(2,1) es refl] by blast
  have wf: "\<forall>e \<in> set (es @ fs). entry_wf (flimit (d1 IndexF)) (last_seq s1) e"
    using fs(1) unfolding recorded_def by blast
  then have "length (snd e) < 2 ^ 24" if "e \<in> set fs" for e
    using that by (auto simp: entry_wf_def Let_def)
  then obtain k t where cut: "k \<le> length fs" "torn t"
      "take (n - length (fbytes (d DataF))) (journal fs) = journal (take k fs) @ t"
    using journal_cut [of fs "n - length (fbytes (d DataF))"] by blast
  let ?es = "es @ take k fs"
  have g1: "good (s1, d1)" and g: "good (s, d)"
    using good_of_reachable performed_reachable [OF assms(2)] assms(1) by blast+
  have d0: "fbytes (d0 DataF) = h @ journal ?es @ t" "fexists (d0 DataF)" "fbytes (d0 DataF) = take n (fbytes (d1 DataF))"
    "\<And>k. flimit (d0 k) = flimit (d1 k)" "\<And>k. fexists (d0 k) \<longrightarrow> freadable (d0 k) \<and> fwritable (d0 k) \<and> fowned (d0 k)"
    using assms(3,4) fs(2) cut(3) g1
    by (auto simp: crashed_def salvaged_def h(2) healthy_def accessible_def fsize_def)
  have sz: "fsize (d0 DataF) < C_CSFILE_ENDFILE"
    using g1 by (auto simp: healthy_def fsize_def d0(3))
  have key: "rec_at 17 0 (d0 DataF) = Some (header DataF ?key)"
    using header_of_prefix [OF d0(1) h(2,1)] g by (simp add: linked_def)
  have sub: "set ?es \<subseteq> set (es @ fs)"
    using set_take_subset by fastforce
  have wf': "\<forall>e \<in> set ?es. entry_wf (flimit (d0 IndexF)) (last_seq s1) e" and fit: "rollbacks_fit ?es"
    using wf sub d0(4) rollbacks_fit_subset [OF recorded_rollbacks_fit [OF fs(1) assms(8)] sub] by auto
  have room: "185 \<le> flimit (d0 k)" "seq_room d0 (last_seq s1 + 1)" for k
    using assms(6,7) d0(4) by (simp_all add: seq_room_def)
  obtain c s2 d2 where r: "ss_rebuild data rnd fname flags ss_new d0 = Some (c, s2, d2)"
    and d2: "d2 DataF = d0 DataF" "fbytes (d2 IndexF) = fbytes (replay_index 21 ?es (empty_index ?key (d0 IndexF)))"
      "commit_seq s2 = replay_commit ?es 0"
    using rebuild_journal [of d0, OF d0(1) h(1) cut(2) key sz d0(2,5) wf' fit assms(5) room, of data rnd fname] by blast
  obtain j sj dj u where j: "performed (take j qs) (s, d) = Some (sj, dj)"
    "fbytes (dj DataF) = h @ journal ?es @ u" "gives ?es ?key sj dj"
    using kept [OF cut(1)] by (auto simp: h(2))
  have "fsize (dj DataF) < C_CSFILE_ENDFILE"
    using good_of_reachable [OF performed_reachable [OF j(1) assms(1)]] by (simp add: healthy_def)
  then have "view dirty s2 d2 i = view dirty sj dj i" for dirty i
    using j(3) d2 d0(1) replay_empty [of 21 ?es ?key "d0 IndexF" "dj IndexF"]
    by (intro view_kept [of dj h ?es u d2 t, OF j(2) _ h(1) wf']) (simp_all add: gives_def)
  then show ?thesis
    using r j(1) by blast
qed

text \<open>Property (C4): a crash loses operations only from the end. When a client has done some operations on a
  storage and of what they appended to the data file only a part has reached the disk, cut anywhere, then
  whatever has become of the other files, \<open>rebuild\<close> returns and makes the storage as it was after the
  first \<open>j\<close> of the operations, for some \<open>j\<close>: no operation is half done, not even a rollback, and none
  is missing before one that is there.\<close>

theorem rebuild_after_crash:
  assumes "reachable (s, d)" and "performed qs (s, d) = Some (s1, d1)" and "length (fbytes (d DataF)) \<le> n"
    and "crashed n d1 d0" and "plain_open flags" and "\<And>k. 185 \<le> flimit (d1 k)"
    and "seq_room d1 (last_seq s1 + 1)" and "short_rollbacks d1"
  shows "\<exists>c s2 d2 j sj dj. ss_rebuild data rnd fname flags ss_new d0 = Some (c, s2, d2)
    \<and> performed (take j qs) (s, d) = Some (sj, dj) \<and> (\<forall>dirty i. view dirty s2 d2 i = view dirty sj dj i)"
  using crash_rebuilds [OF assms] .

theorem rebuild_after_crash_witness:
  "\<exists>s d d0 c s2 d2. reachable (s, d) \<and> view False s d 5 = Some [1, 2, 3]
     \<and> ss_rebuild (replicate REBUILD_BUFFER 0) 0 ''demo'' 1 ss_new d0 = Some (c, s2, d2)
     \<and> length (fbytes (d0 DataF)) = length (fbytes (d DataF)) + 5
     \<and> view False s2 d2 5 = Some [1, 2, 3]"
proof -
  obtain s d where b: "reachable (s, d)" "\<forall>k. flimit (d k) = 1000000" "fsize (d DataF) \<le> 300" "last_seq s \<le> 10"
     "dirtySerials s = []" "\<not> fauto_commit s" "view False s d 5 = Some [1, 2, 3]"
    using demo_reachable by blast
  obtain s1 d1 where p: "perform (Put 6 [9]) (s, d) = Some (1, s1, d1)" "allowed (Put 6 [9]) (s, d)"
    and f1: "\<forall>k. flimit (d1 k) = 1000000" "fsize (d1 DataF) \<le> 360" "last_seq s1 \<le> 12" "fsize (d DataF) + 25 \<le> fsize (d1 DataF)"
    using demo_put [OF good_of_reachable [OF b(1)] b(2), of 6 "[9]"] b(3-5) by (auto simp del: perform.simps allowed.simps)
  have r1: "reachable (s1, d1)"
    using served [OF b(1) p(2,1)] .
  have v1: "view False s1 d1 5 = Some [1, 2, 3]"
    using view_perform(1) [OF b(1) p(2,1), of False] b(6,7) by (simp add: abstract_def)
  let ?n = "length (fbytes (d DataF)) + 5" and ?q = "[Put 6 [9 :: byte]]"
  let ?c = "d1(DataF := (d1 DataF)\<lparr>fbytes := take ?n (fbytes (d1 DataF))\<rparr>)"
  have "accessible ?c"
    using good_of_reachable [OF r1] by (simp add: accessible_def)
  then have k: "crashed ?n d1 (only_data ?c)"
    using salvaged_only_data by (simp add: crashed_def)
  have l: "length (fbytes (only_data ?c DataF)) = ?n"
    using f1(4) by (simp add: only_data_def fsize_def)
  have e: "performed ?q (s, d) = Some (s1, d1)"
    using p by (simp del: perform.simps allowed.simps)
  have small: "short_rollbacks d1" "seq_room d1 (last_seq s1 + 1)" "185 \<le> flimit (d1 k)" for k
    using f1 short_if_small [of d1] good_of_reachable [OF r1] by (auto simp: seq_room_def healthy_def)
  obtain c s2 d2 j sj dj where r: "ss_rebuild (replicate REBUILD_BUFFER 0) 0 ''demo'' 1 ss_new (only_data ?c) = Some (c, s2, d2)"
    "performed (take j ?q) (s, d) = Some (sj, dj)" "\<forall>dirty i. view dirty s2 d2 i = view dirty sj dj i"
    using rebuild_after_crash [OF b(1) e _ k plain_open_1(1) small(3,2,1), of "replicate REBUILD_BUFFER 0" 0 "''demo''"]
    by (auto simp del: performed.simps)
  have "(sj, dj) = (s, d) \<or> (sj, dj) = (s1, d1)"
    using r(2) e by (cases j) (simp_all del: performed.simps(2))
  then have "view False s2 d2 5 = Some [1, 2, 3]"
    using r(3) v1 b(7) by auto
  then show ?thesis
    using b(1,7) r(1) l by blast
qed

end
