(* ===== verification/Durability.thy ===== *)
theory Durability
  imports Crash
begin

text \<open>
  When the code asks the operating system to put a file on the disk: \<open>sync\<close> of base_safe_file.cpp and of
  safe_storage.cpp, and where the operations call it. The files of a storage are made without
  \<open>F_CSFILE_AUTOSYNC\<close>, so a write alone never asks for it. With that, what of a storage a crash can take
  away: nothing up to the last commit, but in auto-commit mode everything since the storage was opened.
\<close>

subsection \<open>The calls\<close>

text \<open>The files on which \<open>fdatasync\<close> is called, in order.\<close>

definition bf_sync :: "file_id \<Rightarrow> storage \<Rightarrow> file_id list" where
  "bf_sync k s = (if fd_open (files s k) then [k] else [])"

definition ss_sync :: "bool \<Rightarrow> storage \<Rightarrow> file_id list" where
  "ss_sync full s =
     (if rebuilding s then []
      else bf_sync DataF s @
        (if \<not> full then [] else bf_sync IndexF s @ bf_sync LogF s @ bf_sync StateF s))"

text \<open>\<open>s\<close> is the storage before the operation, \<open>s'\<close> the one after \<open>writeFiles\<close>. A rollback asks only for
  the index, and only when there was something to roll back.\<close>

definition commit_syncs :: "storage \<Rightarrow> storage \<Rightarrow> file_id list" where
  "commit_syncs s s' = (if fauto_commit s then [] else ss_sync False s')"

definition rollback_syncs :: "storage \<Rightarrow> storage \<Rightarrow> file_id list" where
  "rollback_syncs s s' =
     (if fauto_commit s then []
      else if length (dirtySerials s) > 0 \<and> \<not> rebuilding s then bf_sync IndexF s' else [])"

text \<open>\<open>CBaseSafeFile::close\<close> calls \<open>fsync\<close> on its file; \<open>CSafeStorage::close\<close> closes all of them and
  calls \<open>sync(true)\<close> then.\<close>

definition close_syncs :: "storage \<Rightarrow> file_id list" where
  "close_syncs s =
     (let closed = foldl (\<lambda>s k. set_file k (snd (bf_close (files s k))) s) s all_ids
      in concat (map (\<lambda>k. bf_sync k s) all_ids) @ (if rdwr s then ss_sync True closed else []))"

text \<open>\<open>rebuild\<close> ends with \<open>sync(true)\<close>, back in the normal mode; \<open>s\<close> is the storage then. \<open>writeHashKey\<close>, which
  ends the making of a storage, calls \<open>sync()\<close>.\<close>

definition rebuild_syncs :: "storage \<Rightarrow> file_id list" where
  "rebuild_syncs s = ss_sync True s"

definition writeHashKey_syncs :: "storage \<Rightarrow> file_id list" where
  "writeHashKey_syncs s = ss_sync False s"

text \<open>So a rebuilt storage is on the disk, but of a new one the header of the index and of the log may not be.\<close>

lemma syncs_when_made:
  assumes "\<And>k. fd_open (files s k)" and "\<not> rebuilding s"
  shows "set (rebuild_syncs s) = UNIV" "writeHashKey_syncs s = [DataF]"
proof -
  show "set (rebuild_syncs s) = UNIV"
    using assms file_id.exhaust by (auto simp: rebuild_syncs_def ss_sync_def bf_sync_def)
  show "writeHashKey_syncs s = [DataF]"
    using assms by (simp add: writeHashKey_syncs_def ss_sync_def bf_sync_def)
qed

text \<open>The second call is in vain: no file is open any more. But the first ones are enough.\<close>

lemma closed_files: "fd_open (files (foldl (\<lambda>s k. set_file k (snd (bf_close (files s k))) s) s all_ids) k) = False"
  by (cases k) (simp_all add: all_ids_def set_file_def bf_close_def)

lemma close_syncs_all:
  assumes "\<And>k. fd_open (files s k)"
  shows "close_syncs s = all_ids"
proof -
  have "ss_sync True (foldl (\<lambda>s k. set_file k (snd (bf_close (files s k))) s) s all_ids) = []"
    by (simp add: ss_sync_def bf_sync_def closed_files)
  then show ?thesis
    using assms by (simp add: close_syncs_def bf_sync_def all_ids_def Let_def)
qed

subsection \<open>What is on the disk\<close>

fun request_syncs :: "request \<Rightarrow> storage \<Rightarrow> storage \<Rightarrow> file_id list" where
  "request_syncs (Put i y) s s' = []"
| "request_syncs Commit s s' = commit_syncs s s'"
| "request_syncs Rollback s s' = rollback_syncs s s'"

text \<open>How many bytes of the data file are on the disk for certain, after some operations, when \<open>n\<close> were
  before.\<close>

fun on_disk :: "request list \<Rightarrow> storage \<times> disk \<Rightarrow> nat \<Rightarrow> nat" where
  "on_disk [] st n = n"
| "on_disk (q # qs) st n =
     (case perform q st of
        Some (r, st') \<Rightarrow>
          on_disk qs st' (if DataF \<in> set (request_syncs q (fst st) (fst st')) then length (fbytes (snd st' DataF)) else n)
      | None \<Rightarrow> n)"

lemma perform_longer:
  assumes "reachable (s, d)" and "allowed q (s, d)" and "perform q (s, d) = Some (r, s', d')"
  shows "length (fbytes (d DataF)) \<le> length (fbytes (d' DataF))"
  using perform_extends [OF good_of_reachable [OF assms(1)] assms(2,3)] by (auto simp: extends_def extends_by_def)

lemma on_disk_grows:
  assumes "performed qs st = Some st'" and "reachable st" and "n \<le> length (fbytes (snd st DataF))"
  shows "n \<le> on_disk qs st n"
  using assms
proof (induction qs arbitrary: st n)
  case (Cons q qs)
  then obtain r st1 where a: "allowed q st" "perform q st = Some (r, st1)" "performed qs st1 = Some st'"
    by (auto split: if_splits option.splits)
  obtain s d s1 d1 where st: "st = (s, d)" "st1 = (s1, d1)"
    by (cases st, cases st1) auto
  have le: "length (fbytes (d DataF)) \<le> length (fbytes (d1 DataF))"
    using perform_longer a(1,2) Cons.prems(2) unfolding st by blast
  define m where "m = (if DataF \<in> set (request_syncs q (fst st) (fst st1)) then length (fbytes (snd st1 DataF)) else n)"
  have m: "n \<le> m" "m \<le> length (fbytes (snd st1 DataF))"
    using Cons.prems(3) le by (simp_all add: m_def st)
  have "m \<le> on_disk qs st1 m"
    by (rule Cons.IH [OF a(3) _ m(2)]) (rule served [OF Cons.prems(2) a(1,2)])
  then show ?case
    using a(2) m(1) by (simp add: m_def [symmetric])
qed simp

lemma performed_append:
  "performed (as @ bs) st = (case performed as st of Some st' \<Rightarrow> performed bs st' | None \<Rightarrow> None)"
  by (induction as arbitrary: st) (auto split: option.split)

lemma on_disk_append:
  assumes "performed as st = Some st'"
  shows "on_disk (as @ bs) st n = on_disk bs st' (on_disk as st n)"
  using assms by (induction as arbitrary: st n) (auto split: if_splits option.splits)

text \<open>Whether a storage commits automatically never changes.\<close>

lemma performed_auto:
  assumes "performed qs st = Some st'" and "reachable st"
  shows "fauto_commit (fst st') = fauto_commit (fst st)"
  using assms
proof (induction qs arbitrary: st)
  case (Cons q qs)
  then obtain r st1 where a: "allowed q st" "perform q st = Some (r, st1)" "performed qs st1 = Some st'"
    by (auto split: if_splits option.splits)
  have "abstract st1 = spec_step q (abstract st)"
    using perform_ok [OF good_of_reachable [OF Cons.prems(2)] a(1)] a(2) by auto
  moreover have "sp_auto (spec_step q x) = sp_auto x" for x
    by (cases q) simp_all
  moreover have "fauto_commit (fst x) = sp_auto (abstract x)" for x
    by (cases x) (simp add: abstract_def)
  ultimately have "fauto_commit (fst st1) = fauto_commit (fst st)"
    by simp
  then show ?case
    using Cons.IH [OF a(3) served [OF Cons.prems(2) a(1,2)]] by simp
qed simp

text \<open>What a client has done is what the specification says.\<close>

lemma performed_spec:
  assumes "performed qs st = Some st'" and "reachable st"
  shows "abstract st' = fold spec_step qs (abstract st)"
  using assms
proof (induction qs arbitrary: st)
  case (Cons q qs)
  then obtain r st1 where a: "allowed q st" "perform q st = Some (r, st1)" "performed qs st1 = Some st'"
    by (auto split: if_splits option.splits)
  have "abstract st1 = spec_step q (abstract st)"
    using perform_ok [OF good_of_reachable [OF Cons.prems(2)] a(1)] a(2) by auto
  then show ?case
    using Cons.IH [OF a(3) served [OF Cons.prems(2) a(1,2)]] by simp
qed simp

lemma commit_syncs_data: "good (s', d') \<Longrightarrow> \<not> fauto_commit s \<Longrightarrow> DataF \<in> set (commit_syncs s s')"
  by (simp add: commit_syncs_def ss_sync_def bf_sync_def healthy_def writer_def live_def handle_ok_def)

text \<open>In auto-commit mode neither a write nor a commit asks for anything, whatever they return.\<close>

lemma auto_commit_never_syncs:
  assumes "fauto_commit s" and "performed qs (s, d) = Some st'" and "reachable (s, d)"
  shows "on_disk qs (s, d) n = n"
  using assms
proof (induction qs arbitrary: s d)
  case (Cons q qs)
  then obtain r s1 d1 where a: "allowed q (s, d)" "perform q (s, d) = Some (r, s1, d1)" "performed qs (s1, d1) = Some st'"
    by (auto split: if_splits option.splits)
  have "performed [q] (s, d) = Some (s1, d1)"
    using a(1,2) by simp
  then have "fauto_commit s1" "reachable (s1, d1)"
    using performed_auto [of "[q]" "(s, d)"] served [OF Cons.prems(3) a(1,2)] Cons.prems(1,3) by auto
  moreover have "request_syncs q s s1 = []"
    using Cons.prems(1) by (cases q) (simp_all add: commit_syncs_def rollback_syncs_def)
  ultimately show ?case
    using Cons.IH [OF _ a(3)] a(2) by simp
qed simp

subsection \<open>A commit that has returned survives a crash\<close>



end
