(* ===== verification/Ini_Example.thy ===== *)
theory Ini_Example
  imports Ini_File Log
begin

text \<open>
  src/src/examples/ini/ini_example.cpp: a program that prints the parameters of a configuration in two
  ways, matches file names against patterns, and prints the parameters of the group whose name, taken as a
  pattern, matches a file name. What it prints is a string.
\<close>

definition newline :: string where "newline = [CHR 0x0A]"

definition c_text :: "string \<Rightarrow> string" where
  \<comment> \<open>what \<open>%s\<close> prints of \<open>c_str()\<close>\<close>
  "c_text s = takeWhile (\<lambda>c. c \<noteq> CHR 0x00) s"

definition pad_left :: "nat \<Rightarrow> string \<Rightarrow> string" where
  \<comment> \<open>\<open>%10s\<close>\<close>
  "pad_left n s = replicate (n - length s) (CHR 0x20) @ s"

definition pad_right :: "nat \<Rightarrow> string \<Rightarrow> string" where
  \<comment> \<open>\<open>%-10s\<close>\<close>
  "pad_right n s = s @ replicate (n - length s) (CHR 0x20)"

definition shown_params :: "string list" where
  "shown_params = [''param1'', ''param2'', ''param3'', ''param4'', ''parastr5'', ''p10'']"

definition shown_groups :: "string list" where
  "shown_groups = ['''', ''group-1'', ''group-2'']"

definition shown_patterns :: "string list" where
  "shown_patterns = [''/opt/safe*/readme.txt'', ''/opt/safe*/readme.*'', ''/opt/safe*/readme*kk*'',
     ''/opt/safe?/readme.*'', ''/opt/safe*/readme.?'']"

definition shown_tests :: "string list" where
  "shown_tests = [''/opt/safestorage/readme.txt'', ''/opt/safeserver/etc/readme.txt.org'', ''/opt/safe/readme.txt'',
     ''/opt/safe1/readme.txt'', ''/opt/safe/readmekkreadme'', ''/opt/safe/readmekkddd'', ''/opt/safe/readme.0'']"

definition table_head :: string where
  "table_head = pad_left 10 '''' @ concat (map (\<lambda>g. CHR ''|'' # pad_right 10 g) shown_groups) @ newline"

text \<open>The first table asks for group and key at once.\<close>

definition row_direct :: "ini_file \<Rightarrow> string \<Rightarrow> string" where
  "row_direct ini p =
     pad_left 10 p @ concat (map (\<lambda>g. CHR ''|'' # pad_right 10 (c_text
       (case internalGetParam g p ini of Some v \<Rightarrow> v | None \<Rightarrow> ''''))) shown_groups) @ newline"

text \<open>The second sets the group before each cell, those of the head included.\<close>

fun cells_grouped :: "string option \<Rightarrow> string list \<Rightarrow> ini_file \<Rightarrow> string \<times> ini_file" where
  "cells_grouped p [] ini = ('''', ini)"
| "cells_grouped p (g # gs) ini =
     (let ini = setGroup g ini;
          cell = (case p of None \<Rightarrow> g | Some p \<Rightarrow> c_text (getStrParam p '''' ini));
          (rest, ini) = cells_grouped p gs ini
      in (CHR ''|'' # pad_right 10 cell @ rest, ini))"

fun rows_grouped :: "string option list \<Rightarrow> ini_file \<Rightarrow> string \<times> ini_file" where
  "rows_grouped [] ini = ('''', ini)"
| "rows_grouped (p # ps) ini =
     (let (cells, ini) = cells_grouped p shown_groups ini;
          (rest, ini) = rows_grouped ps ini
      in (pad_left 10 (case p of None \<Rightarrow> '''' | Some p \<Rightarrow> p) @ cells @ newline @ rest, ini))"

definition match_line :: "string \<Rightarrow> string \<Rightarrow> string" where
  "match_line pat test =
     ''match('' @ pat @ '', '' @ test @ '')='' @ (if wildcardMatch pat test then ''TRUE'' else ''false'') @ newline"

definition match_lines :: string where
  "match_lines = concat (map (\<lambda>pat. ''PATTERN:'' @ pat @ newline @ concat (map (match_line pat) shown_tests)) shown_patterns)"

definition param_lines :: "ini_file \<Rightarrow> string \<Rightarrow> string" where
  "param_lines ini p =
     ''getStrParam('' @ p @ '')='' @ [CHR 0x27] @ c_text (getStrParam p '''' ini) @ [CHR 0x27] @ newline
     @ ''getIntParam('' @ p @ '')='' @ show_int (getIntParam p 0 ini) @ newline
     @ ''getUIntParam('' @ p @ '')='' @ show_nat (unat (getUIntParam p 0 ini)) @ newline"

definition ini_example :: "ini_file \<Rightarrow> string" where
  \<comment> \<open>from the object that the constructor has made\<close>
  "ini_example ini =
     (let first = table_head @ concat (map (row_direct ini) shown_params);
          (second, ini) = rows_grouped (None # map Some shown_params) ini;
          ini = snd (getWildcardMatchGroup ''/root/data.sfs'' '''' ini)
      in first @ newline @ second @ newline @ match_lines @ concat (map (param_lines ini) shown_params))"

text \<open>The two tables are the same, and setting the group has no other effect.\<close>

lemma get_setGroup [simp]: "internalGetParam g p (setGroup h ini) = internalGetParam g p ini"
  by (simp add: internalGetParam_def setGroup_def split: option.split)

lemma getStrParam_setGroup: "getStrParam p '''' (setGroup g ini) = (case internalGetParam g p ini of Some v \<Rightarrow> v | None \<Rightarrow> '''')"
  by (simp add: getStrParam_def) (simp add: setGroup_def)

lemma cells_grouped_text:
  "fst (cells_grouped p gs ini) = concat (map (\<lambda>g. CHR ''|'' # pad_right 10 (case p of None \<Rightarrow> g
     | Some p \<Rightarrow> c_text (case internalGetParam g p ini of Some v \<Rightarrow> v | None \<Rightarrow> ''''))) gs)"
  by (induction gs arbitrary: ini) (simp_all add: Let_def case_prod_beta getStrParam_setGroup split: option.split)

lemma cells_grouped_get: "internalGetParam h k (snd (cells_grouped p gs ini)) = internalGetParam h k ini"
  by (induction gs arbitrary: ini) (simp_all add: Let_def case_prod_beta)

lemma row_direct_get [simp]: "row_direct (snd (cells_grouped p gs ini)) = row_direct ini"
  by (simp add: fun_eq_iff row_direct_def cells_grouped_get)

lemma rows_grouped_params: "fst (rows_grouped (map Some ps) ini) = concat (map (row_direct ini) ps)"
  by (induction ps arbitrary: ini)
    (simp_all add: Let_def case_prod_beta cells_grouped_text cells_grouped_get row_direct_def)

lemma tables_agree:
  "fst (rows_grouped (None # map Some ps) ini) = table_head @ concat (map (row_direct ini) ps)"
  by (simp add: Let_def case_prod_beta cells_grouped_text cells_grouped_get rows_grouped_params row_direct_def
      table_head_def)

text \<open>Which of the names match which of the patterns.\<close>

lemma example_matches:
  "map (\<lambda>pat. map (wildcardMatch pat) shown_tests) shown_patterns =
     [[True, False, True, True, False, False, False], [True, True, True, True, False, False, True],
      [False, False, False, False, True, True, False], [False, False, False, True, False, False, False],
      [False, False, False, False, False, False, True]]"
  by code_simp

end
