(* ===== verification/Slots.thy ===== *)
theory Slots
  imports Recorded
begin

text \<open>
  The index by content: for each serial its two versions with their data records, sequences and
  flags, whatever the offsets are at which the data file has them. What a reader gets depends on
  this \<open>table\<close> and the sequence of the last commit only, and what a data record or a commit does to the
  two is the function \<open>effect\<close> of the record. So two storages that have had the same records have the same
  content, even if their data files differ.
\<close>

type_synonym slots = "(bytes option \<times> bytes option) \<times> (int \<times> int) \<times> (byte \<times> byte)"

definition payload :: "disk \<Rightarrow> int \<Rightarrow> bytes option" where
  \<comment> \<open>the data record at an offset, header included\<close>
  "payload d off = (if off \<le> 0 then None else data_rec off (d DataF))"

definition slots :: "disk \<Rightarrow> index_reg \<Rightarrow> slots" where
  "slots d x = ((payload d (fst (x_offsets x)), payload d (snd (x_offsets x))), x_sequences x, x_flags x)"

definition table :: "disk \<Rightarrow> int \<Rightarrow> slots option" where
  "table d i = (if 0 < i then map_option (slots d) (idx (d IndexF) i) else None)"

definition pointed :: "disk \<Rightarrow> bool" where
  \<comment> \<open>an offset in the index is that of a data record or -1\<close>
  "pointed d \<longleftrightarrow> (\<forall>i x. 0 < i \<longrightarrow> idx (d IndexF) i = Some x \<longrightarrow>
     (\<forall>off \<in> {fst (x_offsets x), snd (x_offsets x)}. off = - 1 \<or> payload d off \<noteq> None))"

lemma content_payload: "content d off = map_option (drop 17) (payload d off)"
  by (simp add: content_def payload_def)

lemma payload_neg [simp]: "payload d (- 1) = None"
  by (simp add: payload_def)

subsection \<open>What a reader gets\<close>

definition shown_slot :: "slots \<Rightarrow> int \<Rightarrow> bool \<Rightarrow> bytes option" where
  \<comment> \<open>the version that a reader takes: \<open>getLastOffset\<close> with the numbers of the versions for offsets\<close>
  "shown_slot v c dirty =
     (let k = version \<lparr>x_offsets = (0, 1), x_sequences = fst (snd v), x_flags = snd (snd v)\<rparr> c dirty
      in if k = 0 then fst (fst v) else if k = 1 then snd (fst v) else None)"

lemma payload_version: "payload d (version x c dirty) = shown_slot (slots d x) c dirty"
  by (auto simp: version_unfold shown_slot_def slots_def shown_def at2_def Let_def)

lemma view_table:
  "view dirty s d i = Option.bind (table d i) (\<lambda>v. map_option (drop 17) (shown_slot v (commit_seq s) dirty))"
  by (simp add: view_def table_def content_payload payload_version split: option.split)

lemma same_table_same_view:
  "table d = table d2 \<Longrightarrow> commit_seq s = commit_seq s2 \<Longrightarrow> view dirty s d i = view dirty s2 d2 i"
  by (simp add: view_table)

text \<open>The invariant of the index is a fact about the table, too.\<close>

lemma stored_payload:
  "stored d off i seq \<longleftrightarrow> 0 < off \<and> (\<exists>r y. payload d off = Some (enc_data r @ y)
     \<and> well_data r \<and> r_serial r = i \<and> r_sequence r = seq \<and> length y < 2 ^ 24)"
  by (auto simp: stored_def payload_def)

lemma entry_ok_table:
  assumes "entry_ok d ub i x" and "slots d x = slots d2 x2" and "ub \<le> ub2"
    and "\<forall>off \<in> {fst (x_offsets x2), snd (x_offsets x2)}. off = - 1 \<or> payload d2 off \<noteq> None"
  shows "entry_ok d2 ub2 i x2"
proof -
  have s: "payload d (fst (x_offsets x)) = payload d2 (fst (x_offsets x2))"
    "payload d (snd (x_offsets x)) = payload d2 (snd (x_offsets x2))" "x_sequences x = x_sequences x2"
    using assms(2) by (simp_all add: slots_def)
  have pos: "0 < off" if "payload d2 off \<noteq> None" for off
    using that by (simp add: payload_def split: if_splits)
  have "seqs_ok ub2 x2"
    using assms(1,3) s(3) by (auto simp: entry_ok_def seqs_ok_def)
  then show ?thesis
    using assms(1,4) s pos unfolding entry_ok_def stored_payload by (metis insertCI payload_neg)
qed

subsection \<open>What a record does\<close>

definition put_slot :: "bytes \<Rightarrow> int \<Rightarrow> byte \<Rightarrow> slots option \<Rightarrow> slots" where
  \<comment> \<open>it takes the place of the older version\<close>
  "put_slot p q fl v =
     (case v of None \<Rightarrow> ((Some p, None), (q, 0), (fl, 0))
      | Some (ps, qs, fs) \<Rightarrow>
          let k = (if snd qs > fst qs then 0 else 1) in (set2 ps k (Some p), set2 qs k q, set2 fs k fl))"

definition effect :: "entry \<Rightarrow> (int \<Rightarrow> slots option) \<times> int \<Rightarrow> (int \<Rightarrow> slots option) \<times> int" where
  "effect e tc =
     (let r = fst e; t = fst tc; c = snd tc
      in if record_type r = T_CSTORAGE_WRITE
         then (t(r_serial r := Some (put_slot (entry_bytes e) (r_sequence r) (r_flags r) (t (r_serial r)))), c)
         else if record_type r = T_CSTORAGE_COMMIT then (t, r_sequence r)
         else (t, c))"

lemma payload_grown: "grown d d' n \<Longrightarrow> payload d off \<noteq> None \<Longrightarrow> payload d' off = payload d off"
  using data_rec_grown by (fastforce simp: payload_def split: if_splits)

lemma slots_grown:
  assumes "grown d d' n" and "\<forall>off \<in> {fst (x_offsets x), snd (x_offsets x)}. off = - 1 \<or> payload d off \<noteq> None"
  shows "slots d' x = slots d x"
  using assms payload_grown [OF assms(1)] by (auto simp: slots_def)

lemma slots_kept:
  assumes "pointed d" and "grown d d' n" and "0 < i" and "idx (d IndexF) i = Some x"
  shows "slots d' x = slots d x"
    and "\<forall>off \<in> {fst (x_offsets x), snd (x_offsets x)}. off = - 1 \<or> payload d' off \<noteq> None"
proof -
  have p: "\<forall>off \<in> {fst (x_offsets x), snd (x_offsets x)}. off = - 1 \<or> payload d off \<noteq> None"
    using assms(1,3,4) by (auto simp: pointed_def)
  then show "slots d' x = slots d x"
    by (rule slots_grown [OF assms(2)])
  show "\<forall>off \<in> {fst (x_offsets x), snd (x_offsets x)}. off = - 1 \<or> payload d' off \<noteq> None"
    using p payload_grown [OF assms(2)] by metis
qed

lemma grown_table:
  assumes "pointed d" and "grown d d' n" and "\<And>i. 0 < i \<Longrightarrow> idx (d' IndexF) i = idx (d IndexF) i"
  shows "table d' = table d" "pointed d'"
  using assms(3) slots_kept [OF assms(1,2)]
  by (auto simp: table_def pointed_def fun_eq_iff intro!: option.map_cong)

lemma slots_after_write:
  assumes "pointed d" and "grown d d' n" and "0 < i" and "payload d' off = Some p" and "0 < off"
  shows "slots d' (index_after_write i off q fl (d IndexF)) = put_slot p q fl (table d i)"
    and "\<forall>o' \<in> {fst (x_offsets (index_after_write i off q fl (d IndexF))),
                 snd (x_offsets (index_after_write i off q fl (d IndexF)))}. o' = - 1 \<or> payload d' o' \<noteq> None"
  using assms(3-5) slots_kept [OF assms(1-3)]
  by (auto simp: index_after_write_idx table_def put_slot_def slots_def setOldestOffset_def set2_def Let_def
      split: option.split)

end
