(* ===== verification/Replication.thy ===== *)
theory Replication
  imports Slots Crash
begin

text \<open>
  Replication: a client reads the log of one storage entry by entry with \<open>readLog\<close> and gives what it
  gets to \<open>applyLog\<close> of another storage.
\<close>

subsection \<open>A storage that follows another\<close>

definition mirror_ok :: "storage \<Rightarrow> disk \<Rightarrow> bool" where
  "mirror_ok s d \<longleftrightarrow> writer s d \<and> whole 26 (d IndexF) \<and> whole 13 (d LogF)
     \<and> 0 < fsize (d DataF) \<and> fsize (d DataF) < C_CSFILE_ENDFILE \<and> pointed d"

lemma healthy_mirror: "healthy s d \<Longrightarrow> mirror_ok s d"
  by (fastforce simp: healthy_def mirror_ok_def pointed_def entry_ok_def stored_payload)

lemma wrote_effect:
  assumes m: "mirror_ok s d" and w: "wrote r y s d s' d'" and r: "well_data r" "record_type r = T_CSTORAGE_WRITE"
    and i: "0 < r_serial r" and room: "fsize (d DataF) + int (length y) + 50 < C_CSFILE_ENDFILE"
  shows "mirror_ok s' d'" "(table d', commit_seq s') = effect (r, y) (table d, commit_seq s)"
proof -
  let ?off = "fsize (d DataF)" and ?i = "r_serial r"
  let ?x = "index_after_write ?i ?off (r_sequence r) (r_flags r) (d IndexF)"
  have off: "0 < ?off" "?off < C_CSFILE_ENDFILE" and ix: "whole 26 (d IndexF)" and pd: "pointed d"
    using m by (simp_all add: mirror_ok_def)
  have g: "grown d d' (length y + 50)" and p: "payload d' ?off = Some (enc_data r @ y)"
    using w off by (simp_all add: wrote_def payload_def)
  have "well_index ?x"
    using off r(1) by (intro well_after_write) (auto simp: is_i64_def C_CSFILE_ENDFILE_def well_data_def)
  then have put: "idx (d' IndexF) j = (if j = ?i then Some ?x else idx (d IndexF) j)" if "0 < j" for j
    using w ix i that by (simp add: wrote_def idx_put)
  note W = slots_after_write [OF pd g i p off(1), of "r_sequence r" "r_flags r"]
  note old = slots_kept [OF pd g]
  have "table d' = (table d)(?i := Some (put_slot (enc_data r @ y) (r_sequence r) (r_flags r) (table d ?i)))"
    using put W(1) old(1) i by (auto simp: table_def fun_eq_iff intro!: option.map_cong)
  moreover have "commit_seq s' = commit_seq s"
    using w by (simp add: wrote_def)
  ultimately show "(table d', commit_seq s') = effect (r, y) (table d, commit_seq s)"
    using r(2) by (simp add: effect_def entry_bytes_def Let_def)
  have "pointed d'"
    unfolding pointed_def
  proof (intro allI impI)
    fix j x
    assume "0 < j" "idx (d' IndexF) j = Some x"
    then show "\<forall>o' \<in> {fst (x_offsets x), snd (x_offsets x)}. o' = - 1 \<or> payload d' o' \<noteq> None"
      using put [of j] W(2) old(2) [of j x] by (cases "j = ?i") simp_all
  qed
  moreover have "log_kept (r_sequence r - 1) d d'"
    using w by (simp add: wrote_def)
  moreover have "whole 26 (d' IndexF)"
    using w ix i by (simp add: wrote_def index_table.sound_store)
  moreover have "0 < fsize (d' DataF)" "fsize (d' DataF) < C_CSFILE_ENDFILE"
    using fsize_grown [OF g] off room by auto
  ultimately show "mirror_ok s' d'"
    using w m by (simp add: mirror_ok_def wrote_def log_kept_def)
qed

lemma quiet_mirror:
  assumes "mirror_ok s d" and "writer s' d'" and "d' IndexF = d IndexF" and "grown d d' n" and "log_kept q d d'"
    and "fsize (d DataF) + int n < C_CSFILE_ENDFILE"
  shows "mirror_ok s' d'" "table d' = table d"
  using assms grown_table [of d d' n] fsize_grown [OF assms(4)] by (auto simp: mirror_ok_def log_kept_def)

lemma commit_effect:
  assumes "mirror_ok s d" and "committed_step (r_sequence r) s d s' d'" and "record_type r = T_CSTORAGE_COMMIT"
    and "fsize (d DataF) + 50 < C_CSFILE_ENDFILE"
  shows "mirror_ok s' d'" "(table d', commit_seq s') = effect (r, y) (table d, commit_seq s)"
  using assms quiet_mirror [of s d s' d' 50 "r_sequence r - 1"]
  by (auto simp: committed_step_def effect_def)

lemma status_effect:
  assumes "mirror_ok s d" and "snapped (tick q s) d s' d'" and "record_type r = T_CSTORAGE_STATUS"
    and "fsize (d DataF) + 25 < C_CSFILE_ENDFILE"
  shows "mirror_ok s' d'" "(table d', commit_seq s') = effect (r, y) (table d, commit_seq s)"
  using assms quiet_mirror [of s d s' d' 25 "last_seq (tick q s)"]
  by (auto simp: snapped_def effect_def tick_eq)

subsection \<open>Applying an entry of a log\<close>

definition shippable :: "nat \<Rightarrow> nat \<Rightarrow> entry \<Rightarrow> bool" where
  \<comment> \<open>a record that a write, a commit or a status left, for a buffer of \<open>m\<close> and an index of at most \<open>lim\<close> bytes\<close>
  "shippable m lim e \<longleftrightarrow>
     (let r = fst e; t = record_type r
      in well_data r \<and> 0 < r_sequence r \<and> 17 + length (snd e) \<le> m
         \<and> (t = T_CSTORAGE_WRITE \<and> 0 < r_serial r \<and> nat (r_serial r) * 30 + 30 \<le> lim
            \<or> t \<in> {T_CSTORAGE_COMMIT, T_CSTORAGE_STATUS} \<and> r_serial r = 0 \<and> snd e = []))"

lemma writeFiles_status:
  assumes w: "writer s d" and r: "well_data r" "record_type r = T_CSTORAGE_STATUS" "0 \<le> r_sequence r"
    and room: "disk_room d 25" "seq_room d (r_sequence r + 1)"
  shows "\<exists>s' d'. writeFiles r ddata dlen s d = Some (E_CSTORAGE_OK, s', d') \<and> snapped (tick (r_sequence r) s) d s' d'"
proof -
  let ?s = "tick (r_sequence r) s"
  have "writer ?s d" "last_seq ?s = r_sequence r"
    using w r(1) by (simp_all add: tick_writer well_data_def, simp add: tick_eq)
  then obtain s' d' where "status_snapshot ?s d = Some (s', d')" "snapped ?s d s' d'"
    using status_snapshot_ok [of ?s d] room r(3) by auto
  then show ?thesis
    using r(2) by (simp add: writeFiles_def Let_def cstorage_types)
qed

lemma applyLog_entry:
  assumes m: "mirror_ok s d" and sm: "m < 2 ^ 24" and e: "shippable m (flimit (d IndexF)) e"
    and room: "disk_room d (length (snd e) + 50)" "seq_room d (r_sequence (fst e) + 1)"
  shows "\<exists>n s' d'. ss_applyLog (entry_bytes e @ z) (word_of_nat (17 + length (snd e))) s d = Some (n, s', d')
    \<and> 0 \<le> n \<and> mirror_ok s' d' \<and> (table d', commit_seq s') = effect e (table d, commit_seq s)
    \<and> grown d d' (length (snd e) + 50) \<and> r_sequence (fst e) \<le> last_seq s'"
proof -
  obtain r y where ry: "e = (r, y)" by (cases e)
  let ?dlen = "word_of_nat (length y) :: u32"
  have w: "writer s d" and r: "well_data r" "0 \<le> r_sequence r" and y: "length y < 2 ^ 24 - 17"
    using m sm e by (simp_all add: mirror_ok_def shippable_def ry Let_def)
  have ap: "ss_applyLog (entry_bytes e @ z) (word_of_nat (17 + length y)) s d = writeFiles r (Some (y @ z)) ?dlen s d"
  proof -
    have "\<not> (word_of_nat (17 + length y) :: u32) < 17"
      using y by (simp add: word_less_nat_alt unat_of_nat del: of_nat_add)
    then show ?thesis
      using dec_enc_data [OF r(1)] by (simp add: ss_applyLog_def entry_bytes_def ry)
  qed
  have al: "arg_len ?dlen = length y" "sint ?dlen = int (length y)"
    using y by (simp_all add: arg_small sint_small)
  have sz: "fsize (d DataF) + int (length y) + 50 < C_CSFILE_ENDFILE"
    using room(1) by (simp add: disk_room_def ry)
  consider (wr) "record_type r = T_CSTORAGE_WRITE" "0 < r_serial r" "nat (r_serial r) * 30 + 30 \<le> flimit (d IndexF)"
    | (co) "record_type r = T_CSTORAGE_COMMIT" "r_serial r = 0" "y = []"
    | (st) "record_type r = T_CSTORAGE_STATUS" "y = []"
    using e by (auto simp: shippable_def ry Let_def)
  then show ?thesis
  proof cases
    case wr
    obtain s' d' where o: "writeFiles r (Some (y @ z)) ?dlen s d = Some (int (length y), s', d')"
      and wr': "wrote r y s d s' d'"
      using writeFiles_write [OF w _ r(1) wr(1), of ?dlen "y @ z"] wr room r(2) al by (auto simp: ry)
    show ?thesis
      using o ap wrote_effect [OF m wr' r(1) wr(1,2) sz] wr'
      by (intro exI [of _ "int (length y)"] exI [of _ s'] exI [of _ d']) (simp add: ry wrote_def)
  next
    case co
    obtain s' d' where o: "writeFiles r (Some (y @ z)) ?dlen s d = Some (E_CSTORAGE_OK, s', d')"
      and c: "committed_step (r_sequence r) s d s' d'"
      using writeFiles_commit [OF w r(1) co(1,2) _ _ r(2), where ddata = "Some (y @ z)" and dlen = ?dlen] room co(3) by (auto simp: ry)
    show ?thesis
      using o ap commit_effect [OF m c co(1)] c sz co(3)
      by (intro exI [of _ E_CSTORAGE_OK] exI [of _ s'] exI [of _ d'])
        (simp add: ry committed_step_def E_CSTORAGE_OK_def)
  next
    case st
    have "disk_room d 25"
      using room(1) by (rule disk_room_mono) simp
    then obtain s' d' where o: "writeFiles r (Some (y @ z)) ?dlen s d = Some (E_CSTORAGE_OK, s', d')"
      and c: "snapped (tick (r_sequence r) s) d s' d'"
      using writeFiles_status [OF w r(1) st(1) r(2), where ddata = "Some (y @ z)" and dlen = ?dlen] room(2) by (auto simp: ry)
    moreover have "grown d d' 50"
      using c grown_trans [of d d' 25 d' 25 50] by (simp add: snapped_def)
    ultimately show ?thesis
      using ap status_effect [OF m c st(1)] sz st(2)
      by (intro exI [of _ E_CSTORAGE_OK] exI [of _ s'] exI [of _ d'])
        (simp add: ry snapped_def tick_eq E_CSTORAGE_OK_def)
  qed
qed

subsection \<open>What the log of a session holds\<close>

definition log_run :: "int \<Rightarrow> entry list \<Rightarrow> disk \<Rightarrow> bool" where
  \<comment> \<open>after the sequence \<open>n\<close> the log has these entries\<close>
  "log_run n es d \<longleftrightarrow> (\<forall>k < length es. r_sequence (fst (es ! k)) = n + 1 + int k
     \<and> logs (n + 1 + int k) (fst (es ! k)) (snd (es ! k)) d)"

definition copy_cost :: "entry list \<Rightarrow> nat" where
  \<comment> \<open>what applying the entries may append to a data file\<close>
  "copy_cost es = sum_list (map (\<lambda>e. length (snd e) + 50) es)"

lemma copy_cost_simps [simp]:
  "copy_cost [] = 0" "copy_cost (e # es) = length (snd e) + 50 + copy_cost es"
  "copy_cost (es @ fs) = copy_cost es + copy_cost fs"
  by (simp_all add: copy_cost_def)

lemma log_run_nil [simp]: "log_run n [] d"
  by (simp add: log_run_def)

lemma log_run_Cons:
  "log_run n (e # es) d \<longleftrightarrow> r_sequence (fst e) = n + 1 \<and> logs (n + 1) (fst e) (snd e) d \<and> log_run (n + 1) es d"
  by (auto simp: log_run_def less_Suc_eq_0_disj add.assoc)

lemma log_run_append:
  "log_run n (es @ fs) d \<longleftrightarrow> log_run n es d \<and> log_run (n + int (length es)) fs d"
  by (induction es arbitrary: n) (auto simp: log_run_Cons algebra_simps)

lemma log_run_kept:
  assumes "log_run n es d" and "log_kept m d d'" and "grown d d' g" and "whole 13 (d LogF)"
    and "0 \<le> n" and "n + int (length es) \<le> m"
  shows "log_run n es d'"
  using assms logs_kept [OF _ assms(2,3,4)] by (auto simp: log_run_def)

lemma shippable_mono: "shippable m lim e \<Longrightarrow> lim \<le> lim' \<Longrightarrow> shippable m lim' e"
  by (auto simp: shippable_def Let_def)

lemma logs_size:
  assumes "logs q r y d'" and "rec_at 13 q (d' LogF) = Some (enc_log e)" and "well_log e"
  shows "l_offset e + int (length y) + 25 \<le> fsize (d' DataF)"
proof -
  obtain e' where e': "rec_at 13 q (d' LogF) = Some (enc_log e')" "well_log e'"
    "data_rec (l_offset e') (d' DataF) = Some (enc_data r @ y)"
    using assms(1) by (auto simp: logs_def)
  then have "e' = e"
    using assms(2,3) dec_enc_log by (metis option.inject)
  then show ?thesis
    using data_rec_D(3) [OF e'(3)] by simp
qed

text \<open>The log of \<open>d'\<close> has, for what happened after \<open>d\<close>, entries that do to the table what happened.\<close>

definition yields :: "nat \<Rightarrow> entry list \<Rightarrow> storage \<Rightarrow> disk \<Rightarrow> storage \<Rightarrow> disk \<Rightarrow> bool" where
  "yields m es s d s' d' \<longleftrightarrow> log_run (last_seq s) es d' \<and> last_seq s' = last_seq s + int (length es)
     \<and> (table d', commit_seq s') = fold effect es (table d, commit_seq s)
     \<and> (\<forall>e \<in> set es. shippable m (flimit (d IndexF)) e)
     \<and> int (copy_cost es) \<le> 4 * (fsize (d' DataF) - fsize (d DataF))
     \<and> log_kept (last_seq s) d d' \<and> (\<exists>n. grown d d' n)"

lemma yields_nil: "yields m [] s d s d"
  by (simp add: yields_def log_kept_def exI [of _ 0])

lemma yields_clearDirty [simp]: "yields m es s d (clearDirtySerials s') d' = yields m es s d s' d'"
  by (simp add: yields_def)

lemma yields_trans:
  assumes a: "yields m es s d s1 d1" and b: "yields m fs s1 d1 s2 d2"
    and w: "whole 13 (d LogF)" "0 \<le> last_seq s"
  shows "yields m (es @ fs) s d s2 d2"
proof -
  obtain g1 g2 where g: "grown d d1 g1" "grown d1 d2 g2"
    using a b by (auto simp: yields_def)
  then have g': "grown d d2 (g1 + g2)" "flimit (d1 IndexF) = flimit (d IndexF)"
    using grown_trans grown_limit by blast+
  have k: "log_kept (last_seq s) d d1" "log_kept (last_seq s1) d1 d2" "whole 13 (d1 LogF)"
    "last_seq s1 = last_seq s + int (length es)"
    using a b w by (simp_all add: yields_def log_kept_def)
  have "log_run (last_seq s) es d2"
    by (rule log_run_kept [OF _ k(2) g(2) k(3) w(2)]) (use a k(4) in \<open>simp_all add: yields_def\<close>)
  moreover have "log_kept (last_seq s) d d2"
    using log_kept_trans [OF k(1,2)] k(4) by simp
  moreover have "(table d2, commit_seq s2) = fold effect (es @ fs) (table d, commit_seq s)"
    using a b by (simp add: yields_def)
  ultimately show ?thesis
    using a b k(4) g' unfolding yields_def log_run_append by auto
qed

lemma yields_step:
  assumes l: "logs (last_seq s + 1) r y d'" "r_sequence r = last_seq s + 1"
    and log: "rec_at 13 (last_seq s + 1) (d' LogF) = Some (enc_log e)" "well_log e" "l_offset e = fsize (d DataF)"
    and st: "status_logged (last_seq s + 1) d s' d'" "whole 13 (d LogF)"
    and last: "last_seq s + 1 \<le> last_seq s'" "last_seq s' \<le> last_seq s + 2"
    and n: "0 \<le> last_seq s" "last_seq s + 2 \<le> 2147483647"
    and eff: "(table d', commit_seq s') = effect (r, y) (table d, commit_seq s)"
    and ship: "shippable m (flimit (d IndexF)) (r, y)"
    and kept: "log_kept (last_seq s) d d'" "grown d d' g"
  shows "\<exists>es. yields m es s d s' d'"
proof (cases "last_seq s' = last_seq s + 1")
  case True
  have "fsize (d DataF) + int (length y) + 25 \<le> fsize (d' DataF)"
    using logs_size [OF l(1) log(1,2)] log(3) by simp
  then show ?thesis
    using True l eff ship kept by (intro exI [of _ "[(r, y)]"]) (auto simp: yields_def log_run_Cons)
next
  case False
  let ?q = "last_seq s + 2"
  have q: "last_seq s' = ?q"
    using last False by simp
  let ?e = "(status_reg ?q, []) :: entry"
  have "record_type (status_reg ?q) = T_CSTORAGE_STATUS"
    by (simp add: status_reg_def record_type_def)
  moreover from this have "effect ?e tc' = tc'" for tc'
    by (simp add: effect_def Let_def)
  moreover have "well_data (status_reg ?q)" "r_sequence (status_reg ?q) = ?q" "r_serial (status_reg ?q) = 0"
    using n by (simp_all add: status_reg_def well_data_def zero_data_def is_i32_def)
  moreover have "17 \<le> m"
    using ship by (simp add: shippable_def Let_def)
  moreover have "logs ?q (status_reg ?q) [] d'"
    using st False q by (simp add: status_logged_def)
  moreover have "fsize (d DataF) + int (length y) + 25 \<le> fsize (d' DataF)"
    using logs_size [OF l(1) log(1,2)] log(3) by simp
  ultimately show ?thesis
    using l eff ship kept q n
    by (intro exI [of _ "[(r, y), ?e]"]) (auto simp: yields_def log_run_Cons shippable_def add.assoc)
qed

subsection \<open>The master\<close>

fun log_short :: "nat \<Rightarrow> request \<Rightarrow> bool" where
  \<comment> \<open>a commit, or a write whose record fits, with its header, into a buffer of \<open>m\<close> bytes\<close>
  "log_short m (Put i y) \<longleftrightarrow> 17 + length y \<le> m"
| "log_short m Commit \<longleftrightarrow> 17 \<le> m"
| "log_short m Rollback \<longleftrightarrow> False"

lemma healthy_log:
  assumes "healthy s d"
  shows "mirror_ok s d" "0 \<le> last_seq s" "whole 13 (d LogF)" "0 \<le> fsize (d DataF)" "fsize (d DataF) < C_CSFILE_ENDFILE"
  using healthy_mirror [OF assms] assms by (simp_all add: healthy_def)

lemma put_yields:
  assumes h: "healthy s d" and c: "can_write s d i (length y)" and y: "17 + length y \<le> m"
    and w: "wrote (write_reg s i (word_of_nat (length y))) y s d s' d'"
  shows "\<exists>es. yields m es s d s' d'"
proof -
  let ?r = "write_reg s i (word_of_nat (length y))"
  let ?e = "\<lparr>l_offset = fsize (d DataF), l_serial = i, l_type = ucast T_CSTORAGE_WRITE\<rparr>"
  note H = healthy_log [OF h]
  note F = can_write_facts [OF h c]
  have e: "rec_at 13 (last_seq s + 1) (d' LogF) = Some (enc_log ?e)" "well_log ?e"
    using w H F(1) by (simp_all add: wrote_def well_log_def well_data_def is_i64_def C_CSFILE_ENDFILE_def)
  have l: "logs (last_seq s + 1) ?r y d'"
    using w e H(4) unfolding logs_def by (intro exI [of _ ?e]) (simp add: wrote_def)
  show ?thesis
  proof (rule yields_step [OF l _ e])
    show "status_logged (last_seq s + 1) d s' d'" "last_seq s + 1 \<le> last_seq s'" "last_seq s' \<le> last_seq s + 2"
      "log_kept (last_seq s) d d'" "grown d d' (length y + 50)"
      using w by (simp_all add: wrote_def)
    show "last_seq s + 2 \<le> 2147483647"
      using c by (simp add: can_write_def room_def seq_room_def)
    show "(table d', commit_seq s') = effect (?r, y) (table d, commit_seq s)"
      using F by (intro wrote_effect(2) [OF H(1) w]) simp_all
    show "shippable m (flimit (d IndexF)) (?r, y)"
      using F c y H(2) by (simp add: shippable_def can_write_def)
  qed (use H in simp_all)
qed

lemma commit_yields:
  assumes m: "17 \<le> m" and h: "healthy s d" and rm: "room s d 50" and c: "committed_step (last_seq s + 1) s d s' d'"
  shows "\<exists>es. yields m es s d s' d'"
proof -
  let ?e = "\<lparr>l_offset = fsize (d DataF), l_serial = 0, l_type = ucast T_CSTORAGE_COMMIT\<rparr>"
  note H = healthy_log [OF h]
  obtain r where r: "well_data r" "record_type r = T_CSTORAGE_COMMIT" "r_serial r = 0" "r_sequence r = last_seq s + 1"
    and l: "logs (last_seq s + 1) r [] d'"
    using c H(3) by (auto simp: committed_step_def)
  have e: "rec_at 13 (last_seq s + 1) (d' LogF) = Some (enc_log ?e)" "well_log ?e"
    using c H by (simp_all add: committed_step_def well_log_def is_i64_def is_i32_def C_CSFILE_ENDFILE_def)
  show ?thesis
  proof (rule yields_step [OF l r(4) e])
    show "status_logged (last_seq s + 1) d s' d'" "last_seq s + 1 \<le> last_seq s'" "last_seq s' \<le> last_seq s + 2"
      "log_kept (last_seq s) d d'" "grown d d' 50"
      using c by (simp_all add: committed_step_def)
    show "last_seq s + 2 \<le> 2147483647"
      using rm by (simp add: room_def seq_room_def)
    show "(table d', commit_seq s') = effect (r, []) (table d, commit_seq s)"
      using commit_effect(2) [OF H(1), of r s' d' "[]"] c r rm by (simp add: room_def disk_room_def)
    show "shippable m (flimit (d IndexF)) (r, [])"
      using r H(2) m by (simp add: shippable_def)
  qed (use H in simp_all)
qed

lemma perform_yields:
  assumes g: "good (s, d)" and a: "allowed q (s, d)" and p: "perform q (s, d) = Some (res, s', d')" and q: "log_short m q"
  shows "\<exists>es. yields m es s d s' d'"
proof -
  have h: "healthy s d"
    using g by simp
  show ?thesis
  proof (cases q)
    case (Put i y)
    then show ?thesis
      using write_ok [OF h, of i y] put_yields [OF h, of i y m s' d'] a p q by auto
  next
    case Commit
    show ?thesis
    proof (cases "fauto_commit s")
      case True
      then show ?thesis
        using p yields_nil by (auto simp: Commit ss_commit_def)
    next
      case False
      then show ?thesis
        using commit_ok [OF h] commit_yields [OF _ h] a p q by (auto simp: Commit)
    qed
  qed (use q in simp)
qed

lemma session_yields:
  "performed qs (s, d) = Some (s', d') \<Longrightarrow> good (s, d) \<Longrightarrow> list_all (log_short m) qs \<Longrightarrow>
     good (s', d') \<and> (\<exists>es. yields m es s d s' d')"
proof (induction qs arbitrary: s d)
  case Nil
  then show ?case
    using yields_nil by auto
next
  case (Cons q qs)
  then obtain r s1 d1 where q: "allowed q (s, d)" "perform q (s, d) = Some (r, s1, d1)" "log_short m q"
    and rest: "performed qs (s1, d1) = Some (s', d')" "list_all (log_short m) qs"
    by (auto split: if_splits option.splits)
  have g1: "good (s1, d1)"
    using perform_ok [OF Cons.prems(2) q(1)] q(2) by auto
  obtain es fs where "yields m es s d s1 d1" "yields m fs s1 d1 s' d'" "good (s', d')"
    using perform_yields [OF Cons.prems(2) q] Cons.IH [OF rest(1) g1 rest(2)] by blast
  then show ?case
    using yields_trans [of m es s d s1 d1 fs s' d'] healthy_log [of s d] Cons.prems(2) by auto
qed

subsection \<open>Copying\<close>

text \<open>The client: \<open>k\<close> entries from the sequence \<open>q\<close> on, through a buffer of \<open>m\<close> bytes; \<open>None\<close> is an error.\<close>

fun copy_log ::
  "nat \<Rightarrow> nat \<Rightarrow> int \<Rightarrow> storage \<Rightarrow> disk \<Rightarrow> storage \<Rightarrow> disk \<Rightarrow> (storage \<times> storage \<times> disk) option" where
  "copy_log m 0 q s d s2 d2 = Some (s, s2, d2)"
| "copy_log m (Suc k) q s d s2 d2 =
     do { (r, buf, s) \<leftarrow> ss_readLog q (replicate m 0) (word_of_nat m) s d;
          if r < 0 then None
          else do { (r, s2, d2) \<leftarrow> ss_applyLog buf (word_of_int r) s2 d2;
                    if r < 0 then None else copy_log m k (q + 1) s d s2 d2 } }"

lemma readLog_entry:
  assumes h: "healthy s d" and l: "logs q r y d" and q: "0 \<le> q" "is_i32 q" and m: "17 + length y \<le> m" "m < 2 ^ 24"
  shows "\<exists>z s'. ss_readLog q (replicate m 0) (word_of_nat m) s d
      = Some (17 + int (length y), entry_bytes (r, y) @ z, s') \<and> healthy s' d"
proof -
  obtain e where e: "rec_at 13 q (d LogF) = Some (enc_log e)" "well_log e" "0 \<le> l_offset e"
      "data_rec (l_offset e) (d DataF) = Some (enc_data r @ y)"
    using l by (auto simp: logs_def)
  obtain s' where s': "ss_readLog q (replicate m 0) (word_of_nat m) s d = Some (17 + int (length y),
      enc_data r @ overlay (take (m - 17) y) (drop 17 (replicate m 0)), s')" and mv: "moved s s' d"
    using readLog_ok [OF h q e, of m "replicate m 0"] m by auto
  have "overlay (take (m - 17) y) (drop 17 (replicate m 0)) = y @ replicate (m - 17 - length y) 0"
    using m by (simp add: overlay_def)
  then show ?thesis
    using s' healthy_moved(1) [OF h mv] by (auto simp: entry_bytes_def)
qed

lemma disk_room_grown: "disk_room d (m + n) \<Longrightarrow> grown d d' m \<Longrightarrow> disk_room d' n"
  using grown_limit [of d d' m] fsize_grown [of d d' m] by (auto simp: disk_room_def grown_def)

lemma seq_room_grown: "grown d d' m \<Longrightarrow> seq_room d' q = seq_room d q"
  using grown_limit [of d d' m] by (simp add: seq_room_def)

lemma copy_log_entries:
  assumes "healthy s d" and "log_run q es d" and "0 \<le> q" and "m < 2 ^ 24" and "mirror_ok s2 d2"
    and "\<forall>e \<in> set es. shippable m (flimit (d2 IndexF)) e"
    and "disk_room d2 (copy_cost es)" and "seq_room d2 (q + int (length es) + 1)"
  shows "\<exists>s1 s3 d3. copy_log m (length es) (q + 1) s d s2 d2 = Some (s1, s3, d3) \<and> healthy s1 d \<and> mirror_ok s3 d3
    \<and> (table d3, commit_seq s3) = fold effect es (table d2, commit_seq s2)
    \<and> (es \<noteq> [] \<longrightarrow> q + int (length es) \<le> last_seq s3)"
  using assms
proof (induction es arbitrary: q s s2 d2)
  case Nil
  then show ?case by simp
next
  case (Cons e es)
  obtain r y where e: "e = (r, y)" by (cases e)
  have l: "logs (q + 1) r y d" "r_sequence r = q + 1" "log_run (q + 1) es d"
    and sh: "shippable m (flimit (d2 IndexF)) e" "17 + length y \<le> m"
    using Cons.prems(2,6) by (auto simp: e log_run_Cons shippable_def Let_def)
  have room: "seq_room d2 (r_sequence r + 1)"
    using Cons.prems(8) l(2) by (auto elim!: seq_room_mono)
  have q: "0 \<le> q + 1" "is_i32 (q + 1)"
    using Cons.prems(3) room l(2) by (simp_all add: seq_room_def is_i32_def)
  obtain z s' where rd: "ss_readLog (q + 1) (replicate m 0) (word_of_nat m) s d
      = Some (17 + int (length y), entry_bytes (r, y) @ z, s')" and h': "healthy s' d"
    using readLog_entry [OF Cons.prems(1) l(1) q sh(2) Cons.prems(4)] by blast
  have dr: "disk_room d2 ((length y + 50) + copy_cost es)"
    using Cons.prems(7) by (simp add: e)
  then have dr1: "disk_room d2 (length y + 50)"
    by (rule disk_room_mono) simp
  obtain n s4 d4 where ap: "ss_applyLog (entry_bytes e @ z) (word_of_nat (17 + length (snd e))) s2 d2 = Some (n, s4, d4)"
    and n: "0 \<le> n" "mirror_ok s4 d4" "(table d4, commit_seq s4) = effect e (table d2, commit_seq s2)"
      "grown d2 d4 (length (snd e) + 50)" "r_sequence (fst e) \<le> last_seq s4"
    using applyLog_entry [OF Cons.prems(5,4) sh(1), of z] dr1 room by (auto simp: e)
  have lim: "flimit (d4 IndexF) = flimit (d2 IndexF)"
    using grown_limit [OF n(4)] by simp
  have "\<exists>s1 s3 d3. copy_log m (length es) (q + 1 + 1) s' d s4 d4 = Some (s1, s3, d3) \<and> healthy s1 d \<and> mirror_ok s3 d3
      \<and> (table d3, commit_seq s3) = fold effect es (table d4, commit_seq s4)
      \<and> (es \<noteq> [] \<longrightarrow> q + 1 + int (length es) \<le> last_seq s3)"
  proof (rule Cons.IH [OF h' l(3) q(1) Cons.prems(4) n(2)])
    show "\<forall>e \<in> set es. shippable m (flimit (d4 IndexF)) e"
      using Cons.prems(6) lim by simp
    show "disk_room d4 (copy_cost es)"
      using disk_room_grown [OF dr] n(4) by (simp add: e)
    show "seq_room d4 (q + 1 + int (length es) + 1)"
      using Cons.prems(8) seq_room_grown [OF n(4)] by (simp add: algebra_simps)
  qed
  moreover have "(word_of_int (17 + int (length y)) :: u32) = word_of_nat (17 + length y)"
    by simp
  ultimately show ?case
    using rd ap n l(2) by (cases es) (auto simp: e)
qed

text \<open>A storage that holds what another one does, version for version.\<close>

definition follows :: "storage \<Rightarrow> disk \<Rightarrow> storage \<Rightarrow> disk \<Rightarrow> bool" where
  "follows s d s2 d2 \<longleftrightarrow> healthy s2 d2 \<and> table d2 = table d \<and> commit_seq s2 = commit_seq s"

lemma follows_view: "follows s d s2 d2 \<Longrightarrow> view dirty s2 d2 i = view dirty s d i"
  by (simp add: follows_def view_table)

lemma follows_start: "brand_new key s d \<Longrightarrow> brand_new key2 s2 d2 \<Longrightarrow> follows s d s2 d2"
proof -
  assume b: "brand_new key s d" "brand_new key2 s2 d2"
  have none: "table d' = Map.empty" if "brand_new k s' d'" for k s' d'
  proof -
    have "length (fbytes (d' IndexF)) = 30"
      using that by (simp add: brand_new_def length_header)
    then have "idx (d' IndexF) i = None" if "0 < i" for i
      using that by (simp add: idx_def rec_at_def)
    then show ?thesis
      by (auto simp: table_def)
  qed
  show ?thesis
    using b none [OF b(1)] none [OF b(2)] by (simp add: follows_def, simp add: brand_new_def)
qed

lemma mirror_healthy:
  assumes m: "mirror_ok s2 d2" and h: "healthy s d" and t: "table d2 = table d" "commit_seq s2 = commit_seq s"
    and l: "last_seq s \<le> last_seq s2"
  shows "healthy s2 d2"
proof -
  have "entry_ok d2 (last_seq s2) i x2" if i: "0 < i" and x2: "idx (d2 IndexF) i = Some x2" for i x2
  proof -
    have "map_option (slots d) (idx (d IndexF) i) = Some (slots d2 x2)"
      using fun_cong [OF t(1), of i] i x2 by (simp add: table_def)
    then obtain x where x: "idx (d IndexF) i = Some x" "slots d x = slots d2 x2"
      by auto
    then have "entry_ok d (last_seq s) i x"
      using h i by (simp add: healthy_def)
    then show ?thesis
      using m i x2 by (intro entry_ok_table [OF _ x(2) l]) (auto simp: mirror_ok_def pointed_def)
  qed
  then show ?thesis
    using m h t(2) l by (simp add: mirror_ok_def healthy_def)
qed

text \<open>Property (C7): replication copies whole sessions. A replica that holds what the storage of the master held
  before a session of writes and commits holds, after the client has read the entries of the log that the
  session made with \<open>readLog\<close> and passed them to \<open>applyLog\<close>, what the master holds after the session, for
  the writer and for committed readers.\<close>

theorem replication_copies_sessions:
  assumes g: "good (s, d)" and p: "performed qs (s, d) = Some (s', d')" and qs: "list_all (log_short m) qs" and m: "m < 2 ^ 24"
    and f: "follows s d s2 d2"
    and room: "disk_room d2 (nat (4 * (fsize (d' DataF) - fsize (d DataF))))" "seq_room d2 (last_seq s' + 1)"
      "flimit (d IndexF) \<le> flimit (d2 IndexF)"
  shows "\<exists>s1 s3 d3. copy_log m (nat (last_seq s' - last_seq s)) (last_seq s + 1) s' d' s2 d2 = Some (s1, s3, d3)
    \<and> follows s' d' s3 d3 \<and> (\<forall>dirty i. view dirty s3 d3 i = view dirty s' d' i)"
proof -
  obtain es where g': "good (s', d')" and y: "yields m es s d s' d'"
    using session_yields [OF p g qs] by blast
  have h: "healthy s2 d2" "0 \<le> last_seq s" and tc: "table d2 = table d" "commit_seq s2 = commit_seq s"
    using f g by (simp_all add: follows_def healthy_def)
  have y': "log_run (last_seq s) es d'" "last_seq s' = last_seq s + int (length es)"
    "(table d', commit_seq s') = fold effect es (table d, commit_seq s)"
    "\<forall>e \<in> set es. shippable m (flimit (d IndexF)) e"
    "int (copy_cost es) \<le> 4 * (fsize (d' DataF) - fsize (d DataF))"
    using y by (simp_all add: yields_def)
  have h': "healthy s' d'"
    using g' by simp
  have "\<exists>s1 s3 d3. copy_log m (length es) (last_seq s + 1) s' d' s2 d2 = Some (s1, s3, d3) \<and> healthy s1 d'
      \<and> mirror_ok s3 d3 \<and> (table d3, commit_seq s3) = fold effect es (table d2, commit_seq s2)
      \<and> (es \<noteq> [] \<longrightarrow> last_seq s + int (length es) \<le> last_seq s3)"
  proof (rule copy_log_entries [OF h' y'(1) h(2) m healthy_mirror [OF h(1)]])
    show "\<forall>e \<in> set es. shippable m (flimit (d2 IndexF)) e"
      using y'(4) room(3) shippable_mono by blast
    show "disk_room d2 (copy_cost es)"
      using room(1) by (rule disk_room_mono) (use y'(5) in linarith)
    show "seq_room d2 (last_seq s + int (length es) + 1)"
      using room(2) y'(2) by simp
  qed
  then obtain s1 s3 d3 where c: "copy_log m (length es) (last_seq s + 1) s' d' s2 d2 = Some (s1, s3, d3)"
    and e: "mirror_ok s3 d3" "(table d3, commit_seq s3) = (table d', commit_seq s')"
      "es \<noteq> [] \<longrightarrow> last_seq s' \<le> last_seq s3"
    using y'(2,3) tc by auto
  have "healthy s3 d3"
  proof (cases "es = []")
    case True
    then show ?thesis
      using c h by simp
  next
    case False
    then show ?thesis
      using mirror_healthy [OF e(1) h'] e(2,3) by simp
  qed
  then have "follows s' d' s3 d3"
    using e(2) by (simp add: follows_def)
  then show ?thesis
    using c y'(2) follows_view [of s' d' s3 d3] by auto
qed

theorem replication_copies_sessions_witness:
  "\<exists>s d s' d' s1 s3 d3. good (s, d) \<and> view False s d 9 = None
     \<and> performed [Put 9 [4, 2], Commit] (s, d) = Some (s', d')
     \<and> copy_log 100 (nat (last_seq s' - last_seq s)) (last_seq s + 1) s' d' s d = Some (s1, s3, d3)
     \<and> view False s3 d3 9 = Some [4, 2]"
proof -
  obtain s d where b: "brand_new 7 s d" "\<forall>k. flimit (d k) = 1000000" "\<not> fauto_commit s"
    using demo_created by blast
  have g0: "good (s, d)" "fsize (d DataF) = 21" "last_seq s = 0" "dirtySerials s = []" "view False s d 9 = None"
    using b(1) by (simp_all add: brand_new_def)
  note no = perform.simps allowed.simps good.simps
  obtain sa da where pa: "perform (Put 9 [4, 2]) (s, d) = Some (2, sa, da)" "allowed (Put 9 [4, 2]) (s, d)"
    and fa: "\<forall>k. flimit (da k) = 1000000" "fsize (da DataF) \<le> 81" "last_seq sa \<le> 2"
    using demo_put [of s d 9 "[4, 2]"] g0 b(2) by (auto simp del: no)
  have ga: "good (sa, da)" "abstract (sa, da) = spec_step (Put 9 [4, 2]) (abstract (s, d))"
    using perform_ok [OF g0(1) pa(2)] pa(1) by (auto simp del: no)
  have ma: "\<not> fauto_commit sa"
    using arg_cong [OF ga(2), of sp_auto] b(3) by (simp add: abstract_def)
  obtain s' d' where pb: "perform Commit (sa, da) = Some (E_CSTORAGE_OK, s', d')" "allowed Commit (sa, da)"
    and fb: "fsize (d' DataF) \<le> 131" "last_seq s' \<le> 4"
    using demo_commit [OF ga(1) fa(1) _ _ ma] fa by (auto simp del: no)
  have "abstract (s', d') = spec_step Commit (abstract (sa, da))"
    using perform_ok [OF ga(1) pb(2)] pb(1) by (auto simp del: no)
  then have v: "view False s' d' 9 = Some [4, 2]"
    using ga(2) b(3) by (simp add: abstract_def)
  have p: "performed [Put 9 [4, 2], Commit] (s, d) = Some (s', d')"
    using pa pb by (simp del: no)
  have "disk_room d 1000"
    using b(2) g0(2) by (simp add: disk_room_def fsize_def C_CSFILE_ENDFILE_def)
  then have dr: "disk_room d (nat (4 * (fsize (d' DataF) - fsize (d DataF))))"
    by (rule disk_room_mono) (use g0(2) fb(1) in \<open>simp add: nat_le_iff\<close>)
  have room: "seq_room d (last_seq s' + 1)" "list_all (log_short 100) [Put 9 [4, 2], Commit]" "(100 :: nat) < 2 ^ 24"
    using b(2) fb by (simp_all add: seq_room_def)
  obtain s1 s3 d3 where "copy_log 100 (nat (last_seq s' - last_seq s)) (last_seq s + 1) s' d' s d = Some (s1, s3, d3)"
    "\<forall>dirty i. view dirty s3 d3 i = view dirty s' d' i"
    using replication_copies_sessions [OF g0(1) p room(2,3) follows_start [OF b(1) b(1)] dr room(1) order_refl] by blast
  then show ?thesis
    using g0(1,5) p v
    by (intro exI [of _ s] exI [of _ d] exI [of _ s'] exI [of _ d'] exI [of _ s1] exI [of _ s3] exI [of _ d3]) (simp del: no)
qed

end
