(* ===== verification/Replication_Limits.thy ===== *)
theory Replication_Limits
  imports Replication
begin

text \<open>
  What replication through the log does not do: the replica counts the serials it was given as those
  of a transaction of its own, and a rollback of the master has no entry that can be read.
\<close>

subsection \<open>A rollback on the replica\<close>

text \<open>What is left in the index when the newest version of a serial is taken back after a write to it.\<close>

lemma undone_write:
  assumes h: "healthy s d" and t: "tidy s d" and i: "0 < i" "i \<notin> set (dirtySerials s)"
    and q: "last_seq s < q" and fl: "\<not> auto_flag fl" and that: "commit_seq s \<le> c"
  shows "version (setNewestOffset (index_after_write i off q fl (d IndexF)) (- 1) 0 0) c dirty
     = (case idx (d IndexF) i of None \<Rightarrow> - 1 | Some x \<Rightarrow> version x (commit_seq s) False)"
proof (cases "idx (d IndexF) i")
  case None
  then show ?thesis
    using h q by (auto simp: index_after_write_idx index_simps healthy_def is_i32_def)
next
  case (Some x)
  let ?y = "setOldestOffset x off q fl False"
  have c: "0 \<le> commit_seq s" "commit_seq s < q" "0 < q"
    using h q by (simp_all add: healthy_def)
  have x: "seqs_ok (last_seq s) x" "settled x (commit_seq s)"
    using h t i Some by (auto simp: healthy_def tidy_def entry_ok_def)
  have "version (setNewestOffset ?y (- 1) 0 0) c dirty = version ?y (commit_seq s) False"
    using version_of_rollback [OF seqs_ok_write [OF x(1) q c(3)] pending_of_write [OF x(1) q c(2) x(2) fl] c(1) that] .
  also have "\<dots> = version x (commit_seq s) False"
    using committed_version_of_write [OF x(1) q c(2) x(2) fl] .
  finally show ?thesis
    using Some by (simp add: index_after_write_idx)
qed

lemma tidy_committed_view:
  assumes "tidy s d" and "dirtySerials s = []"
  shows "view dirty s d = view False s d"
proof
  fix i
  show "view dirty s d i = view False s d i"
    using assms version_settled [of _ "commit_seq s" dirty] version_settled [of _ "commit_seq s" False]
    by (auto simp: view_def tidy_def split: option.split)
qed

lemma rollback_after_commit:
  assumes h: "healthy s d" and t: "tidy s d" and m: "\<not> fauto_commit s" and e: "dirtySerials s = []"
    and w: "wrote r y s d s1 d1" and r: "well_data r" "0 < r_serial r" "last_seq s < r_sequence r" "\<not> auto_flag (r_flags r)"
    and y: "length y < 2 ^ 24" and lim: "nat (r_serial r) * 30 + 30 \<le> flimit (d IndexF)"
    and sz: "fsize (d DataF) + int (length y) + 50 < C_CSFILE_ENDFILE" "fsize (d1 DataF) + 50 < C_CSFILE_ENDFILE"
    and c: "committed_step q s1 d1 s2 d2" "last_seq s1 \<le> q" and room: "room s2 d2 108"
  shows "\<exists>s3 d3. ss_rollback s2 d2 = Some (E_CSTORAGE_OK, s3, d3) \<and> (\<forall>dirty. view dirty s3 d3 = view False s d)"
proof -
  let ?i = "r_serial r" and ?x = "index_after_write (r_serial r) (fsize (d DataF)) (r_sequence r) (r_flags r) (d IndexF)"
  note W = wrote_healthy [OF h w r(1-3) y sz(1)]
  have h2: "healthy s2 d2"
    using committed_healthy(1) [OF W(1) sz(2) c] .
  have w': "fauto_commit s1 = fauto_commit s" "dirtySerials s1 = [?i]" "commit_seq s1 = commit_seq s"
    "grown d d1 (length y + 50)" "r_sequence r \<le> last_seq s1"
    and c': "fauto_commit s2 = fauto_commit s1" "dirtySerials s2 = dirtySerials s1" "commit_seq s2 = q"
    "d2 IndexF = d1 IndexF" "grown d1 d2 50"
    using w c m e by (simp_all add: wrote_def committed_step_def)
  have g: "grown d d2 (length y + 100)"
    by (rule grown_trans [OF w'(4) c'(5)]) simp
  have ss: "0 < i \<and> is_i32 i \<and> nat i * 30 + 30 \<le> flimit (d2 IndexF)" if "i \<in> set (dirtySerials s2)" for i
    using that r lim w' c' grown_limit [OF w'(4)] by (simp add: well_data_def)
  obtain s3 d3 where o: "ss_rollback s2 d2 = Some (E_CSTORAGE_OK, clearDirtySerials s3, d3)"
    and f: "commit_seq s3 = q" "d3 IndexF = index_rollback [?i] zero_index (d1 IndexF)" "grown d2 d3 108"
    using rollback_steps [OF h2 ss] room m w' c' by auto
  have g3: "grown d d3 (length y + 208)"
    by (rule grown_trans [OF g f(3)]) simp
  have ix: "idx (d3 IndexF) j = (if j = ?i then Some (setNewestOffset ?x (- 1) 0 0) else idx (d IndexF) j)" if "0 < j" for j
  proof -
    have "whole 26 (d1 IndexF)" "\<And>i. i \<in> set [?i] \<Longrightarrow> 0 \<le> i \<and> idx (d1 IndexF) i \<noteq> None"
      using W(1,4) r(2) by (auto simp: healthy_def)
    then show ?thesis
      using idx_rollback(1) [of "d1 IndexF" "[?i]" j zero_index] that W(4) [of j] by (auto simp: f(2))
  qed
  have "view dirty (clearDirtySerials s3) d3 j = view False s d j" for dirty j
  proof (cases "0 < j")
    case True
    note u = undone_write [OF h t r(2) _ r(3,4), where off = "fsize (d DataF)" and c = "commit_seq s3" and dirty = dirty]
    have cq: "commit_seq s \<le> q"
      using h w'(5) c(2) r(3) by (simp add: healthy_def)
    show ?thesis
    proof (cases "j = ?i")
      case j: True
      have "content d3 (version x (commit_seq s) False) = content d (version x (commit_seq s) False)"
        if "idx (d IndexF) ?i = Some x" for x
        using content_version_grown [OF g3, of "last_seq s" ?i x] h that r(2) by (auto simp: healthy_def)
      then show ?thesis
        using ix [OF True] u cq e f(1) j r(2) by (auto simp: view_def content_def split: option.split)
    next
      case False
      have "version x (commit_seq (clearDirtySerials s3)) dirty = version x (commit_seq s) False"
        if "idx (d IndexF) j = Some x" for x
      proof -
        have "settled x (commit_seq s)"
          using t that True e by (auto simp: tidy_def)
        then show ?thesis
          using version_settled [of x "commit_seq s" False] version_settled [OF settled_mono [of x "commit_seq s" q], of dirty]
            version_dirty [of x "commit_seq s" q] cq f(1) by simp
      qed
      then show ?thesis
        using view_grown [OF h g3 True] ix [OF True] False by simp
    qed
  qed (simp add: view_def)
  then show ?thesis
    using o by blast
qed

text \<open>The two entries that a write and the commit after it leave in the log of a storage.\<close>

definition committed_write :: "nat \<Rightarrow> nat \<Rightarrow> entry \<Rightarrow> entry \<Rightarrow> bool" where
  "committed_write m lim e c \<longleftrightarrow> shippable m lim e \<and> shippable m lim c
     \<and> record_type (fst e) = T_CSTORAGE_WRITE \<and> \<not> auto_flag (r_flags (fst e))
     \<and> record_type (fst c) = T_CSTORAGE_COMMIT \<and> r_sequence (fst c) = r_sequence (fst e) + 1"

lemma committed_write_facts:
  assumes "committed_write m lim (r, y) c"
  shows "well_data r" "0 < r_sequence r" "17 + length y \<le> m" "record_type r = T_CSTORAGE_WRITE" "0 < r_serial r"
    "nat (r_serial r) * 30 + 30 \<le> lim" "\<not> auto_flag (r_flags r)"
    "\<exists>rc. c = (rc, []) \<and> well_data rc \<and> record_type rc = T_CSTORAGE_COMMIT \<and> r_serial rc = 0
       \<and> r_sequence rc = r_sequence r + 1"
  using assms by (cases c, auto simp: committed_write_def shippable_def Let_def cstorage_types)+

lemma applyLog_raw:
  assumes "well_data r" and "length y < 2 ^ 24 - 17"
  shows "ss_applyLog (entry_bytes (r, y)) (word_of_nat (17 + length y)) s d = writeFiles r (Some y) (word_of_nat (length y)) s d"
proof -
  have "\<not> (word_of_nat (17 + length y) :: u32) < 17"
    using assms(2) by (simp add: word_less_nat_alt unat_of_nat del: of_nat_add)
  then show ?thesis
    using dec_enc_data [OF assms(1)] by (simp add: ss_applyLog_def entry_bytes_def)
qed

lemma apply_committed_write:
  assumes h: "healthy s d" and a: "\<not> fauto_commit s" and m: "m < 2 ^ 24"
    and e: "committed_write m (flimit (d IndexF)) (r, y) c" and q: "last_seq s < r_sequence r"
    and room: "disk_room d (length y + 208)" "seq_room d (r_sequence r + 6)"
  shows "\<exists>s1 d1 s2 d2. ss_applyLog (entry_bytes (r, y)) (word_of_nat (17 + length y)) s d = Some (int (length y), s1, d1)
    \<and> wrote r y s d s1 d1 \<and> ss_applyLog (entry_bytes c) 17 s1 d1 = Some (E_CSTORAGE_OK, s2, d2)
    \<and> committed_step (r_sequence r + 1) s1 d1 s2 d2 \<and> room s2 d2 108"
proof -
  obtain rc where c: "c = (rc, [])" and rc: "well_data rc" "record_type rc = T_CSTORAGE_COMMIT" "r_serial rc = 0"
      "r_sequence rc = r_sequence r + 1"
    using committed_write_facts(8) [OF e] by blast
  have r: "well_data r" "record_type r = T_CSTORAGE_WRITE" "0 < r_serial r" "nat (r_serial r) * 30 + 30 \<le> flimit (d IndexF)"
      "0 < r_sequence r" and y: "length y < 2 ^ 24 - 17"
    using committed_write_facts [OF e] m by simp_all
  have w: "writer s d" "0 \<le> last_seq s"
    using h by (simp_all add: healthy_def)
  have al: "arg_len (word_of_nat (length y)) = length y" "sint (word_of_nat (length y) :: u32) = int (length y)"
    using y by (simp_all add: arg_small sint_small)
  have dr: "disk_room d (length y + 50)" "seq_room d (r_sequence r + 1)"
    using room by (auto elim!: disk_room_mono seq_room_mono)
  obtain s1 d1 where o: "writeFiles r (Some y) (word_of_nat (length y)) s d = Some (int (length y), s1, d1)"
    and wr: "wrote r y s d s1 d1"
    using writeFiles_write [OF w(1) _ r(1,2), of "word_of_nat (length y)" y] r dr al by auto
  have g1: "grown d d1 (length y + 50)" and w1: "writer s1 d1"
    using wr by (simp_all add: wrote_def)
  have dr1: "disk_room d ((length y + 50) + 158)"
    using room(1) by (simp add: add.commute)
  have dr2: "disk_room d1 (50 + 108)"
    using disk_room_grown [OF dr1 g1] by simp
  then have dr3: "disk_room d1 50"
    by (rule disk_room_mono) simp
  have sq: "seq_room d1 (r_sequence rc + 1)"
    using room(2) seq_room_grown [OF g1] seq_room_mono [of d1 "r_sequence r + 6" "r_sequence r + 2"] rc(4)
    by (simp add: algebra_simps)
  obtain s2 d2 where o2: "writeFiles rc (Some []) (word_of_nat 0) s1 d1 = Some (E_CSTORAGE_OK, s2, d2)"
    and c2: "committed_step (r_sequence rc) s1 d1 s2 d2"
    using writeFiles_commit [OF w1 rc(1-3) dr3 sq, where ddata = "Some []" and dlen = "word_of_nat 0"] r(5) rc(4) by auto
  have g2: "grown d1 d2 50" and l2: "last_seq s2 \<le> r_sequence r + 2"
    using c2 rc(4) by (simp_all add: committed_step_def)
  have "room s2 d2 108"
    using disk_room_grown [OF dr2 g2] l2 room(2) seq_room_grown [OF g1] seq_room_grown [OF g2]
      seq_room_mono [of d2 "r_sequence r + 6" "last_seq s2 + 4"] by (simp add: room_def)
  then show ?thesis
    using o o2 wr c2 applyLog_raw [OF r(1) y] applyLog_raw [OF rc(1), of "[]"] rc(4) by (auto simp: c)
qed

text \<open>Property (C32): \<open>applyLog\<close> of a commit does not end the transaction of the object that applies it. The
  object still counts the serials it was given as written by a transaction in progress, so a rollback on
  the replica takes back what the master has committed and the replica has shown to committed readers.\<close>

theorem replica_rollback_undoes_commit:
  assumes "good (s, d)" and "\<not> fauto_commit s" and "dirtySerials s = []" and "m < 2 ^ 24"
    and "committed_write m (flimit (d IndexF)) (r, y) c" and "last_seq s < r_sequence r"
    and "disk_room d (length y + 208)" and "seq_room d (r_sequence r + 6)"
  shows "\<exists>s1 d1 s2 d2 s3 d3. ss_applyLog (entry_bytes (r, y)) (word_of_nat (17 + length y)) s d = Some (int (length y), s1, d1)
    \<and> ss_applyLog (entry_bytes c) 17 s1 d1 = Some (E_CSTORAGE_OK, s2, d2)
    \<and> (\<forall>dirty. view dirty s2 d2 = (view False s d)(r_serial r := Some y))
    \<and> ss_rollback s2 d2 = Some (E_CSTORAGE_OK, s3, d3) \<and> (\<forall>dirty. view dirty s3 d3 = view False s d)"
proof -
  have h: "healthy s d" and t: "tidy s d"
    using assms(1) by simp_all
  obtain s1 d1 s2 d2 where a: "ss_applyLog (entry_bytes (r, y)) (word_of_nat (17 + length y)) s d = Some (int (length y), s1, d1)"
      "ss_applyLog (entry_bytes c) 17 s1 d1 = Some (E_CSTORAGE_OK, s2, d2)"
    and w: "wrote r y s d s1 d1" and c: "committed_step (r_sequence r + 1) s1 d1 s2 d2" and room: "room s2 d2 108"
    using apply_committed_write [OF h assms(2,4-8)] by blast
  have r: "well_data r" "0 < r_serial r" "last_seq s < r_sequence r" "\<not> auto_flag (r_flags r)"
      "nat (r_serial r) * 30 + 30 \<le> flimit (d IndexF)" and y: "length y < 2 ^ 24"
    using committed_write_facts [OF assms(5)] assms(4,6) by simp_all
  have sz: "fsize (d DataF) + int (length y) + 50 < C_CSFILE_ENDFILE"
    using assms(7) by (simp add: disk_room_def)
  have sz1: "fsize (d1 DataF) + 50 < C_CSFILE_ENDFILE"
    using assms(7) w fsize_grown [of d d1 "length y + 50"] by (simp add: wrote_def disk_room_def)
  have l1: "last_seq s1 \<le> r_sequence r + 1"
    using w by (simp add: wrote_def)
  have h1: "healthy s1 d1"
    using wrote_healthy(1) [OF h w r(1-3) y sz] .
  have "view dirty s2 d2 = (view False s d)(r_serial r := Some y)" for dirty
    using committed_healthy(2,3) [OF h1 sz1 c l1] wrote_view [OF h w r(1-3) y sz, of True]
      tidy_committed_view [OF t assms(3), of True] by (cases dirty) simp_all
  then show ?thesis
    using a rollback_after_commit [OF h t assms(2,3) w r(1-4) y r(5) sz sz1 c l1 room] by blast
qed

lemma demo_committed_write:
  "\<exists>r c. committed_write 100 1000000 (r, [4, 2]) c \<and> r_sequence r = 1 \<and> r_serial r = 9"
  by (intro exI [of _ "\<lparr>r_signature = CSTORAGE_SIGNATURE OR T_CSTORAGE_WRITE, r_serial = 9, r_sequence = 1,
        r_len = 2, r_flags = 0\<rparr>"]
      exI [of _ "(zero_data\<lparr>r_signature := CSTORAGE_SIGNATURE OR T_CSTORAGE_COMMIT, r_sequence := 2\<rparr>, [])"])
    (simp add: committed_write_def shippable_def record_type_def well_data_def is_i32_def zero_data_def)

theorem replica_rollback_undoes_commit_witness:
  "\<exists>s d r c s1 d1 s2 d2 s3 d3. good (s, d)
     \<and> ss_applyLog (entry_bytes (r, [4, 2])) 19 s d = Some (2, s1, d1)
     \<and> ss_applyLog (entry_bytes c) 17 s1 d1 = Some (E_CSTORAGE_OK, s2, d2) \<and> view False s2 d2 9 = Some [4, 2]
     \<and> ss_rollback s2 d2 = Some (E_CSTORAGE_OK, s3, d3) \<and> view False s3 d3 9 = None"
proof -
  obtain s d where b: "brand_new 7 s d" "\<forall>k. flimit (d k) = 1000000" "\<not> fauto_commit s"
    using demo_created by blast
  have g: "good (s, d)" "fsize (d DataF) = 21" "last_seq s = 0" "dirtySerials s = []" "view False s d 9 = None"
    using b(1) by (simp_all add: brand_new_def)
  obtain r c where e: "committed_write 100 1000000 (r, [4, 2]) c" and r: "r_sequence r = 1" "r_serial r = 9"
    using demo_committed_write by blast
  have e': "committed_write 100 (flimit (d IndexF)) (r, [4, 2]) c"
    using e b(2) by simp
  have room: "disk_room d (length [4, 2 :: byte] + 208)" "seq_room d (r_sequence r + 6)" "last_seq s < r_sequence r"
    "(100 :: nat) < 2 ^ 24"
    using b(2) g(2,3) r(1) by - (simp add: disk_room_def fsize_def C_CSFILE_ENDFILE_def, simp add: seq_room_def, simp_all)
  have n: "word_of_nat (17 + length [4, 2 :: byte]) = (19 :: u32)" "int (length [4, 2 :: byte]) = 2"
    by simp_all
  obtain s1 d1 s2 d2 s3 d3 where o: "ss_applyLog (entry_bytes (r, [4, 2])) 19 s d = Some (2, s1, d1)"
    "ss_applyLog (entry_bytes c) 17 s1 d1 = Some (E_CSTORAGE_OK, s2, d2)"
    and v2: "\<forall>dirty. view dirty s2 d2 = (view False s d)(r_serial r := Some [4, 2])"
    and o3: "ss_rollback s2 d2 = Some (E_CSTORAGE_OK, s3, d3)" and v3: "\<forall>dirty. view dirty s3 d3 = view False s d"
    using replica_rollback_undoes_commit [OF g(1) b(3) g(4) room(4) e' room(3,1,2), unfolded n] by blast
  have "view False s2 d2 9 = Some [4, 2]" "view False s3 d3 9 = None"
    unfolding v2 [rule_format] v3 [rule_format] by (simp_all add: r(2) g(5))
  then show ?thesis
    using g(1) o o3 by blast
qed

subsection \<open>A rollback on the master\<close>

text \<open>Reading a data record at the top of the file takes the key of the storage for its length.\<close>

lemma readWorkArea_negative:
  assumes "i32 (len - skip) < 0"
  obtains f' where "readWorkArea loff len skip b f os = (Fault, f')"
  | e f' where "readWorkArea loff len skip b f os = (Err e, f')" "e < 0"
  | pos f' where "readWorkArea loff len skip b f os = (Ok ([], pos), f')"
proof -
  define m where "m = i32 (len - skip)"
  have m: "m < 0"
    using assms by (simp add: m_def)
  have loop: "read_loop h os pos m [] 1 = (h, pos, m, [], 1)" for h pos
    using m by (subst read_loop.simps) simp
  have os: "os_read pos m os = (- 1, [])" for pos
    using m by (simp add: os_read_def)
  show thesis
  proof (cases "bf_seek loff m False f os")
    case (Ok pos)
    define h where "h = (if b then (checkWorkAreaSize len f)\<lparr>last_offset := pos\<rparr> else checkWorkAreaSize len f)"
    have "readWorkArea loff len skip b f os =
        (if skip > work_area_size h then (Fault, h)
         else if cache_size h > 0 then (Ok ([], pos), h)
         else if m = - 1 then (Ok ([], pos - 1), h) else (Err E_CSFILE_READ, h))"
      unfolding readWorkArea_def Let_def m_def [symmetric] bf_seek_check Ok result.case h_def [symmetric] loop os prod.case
      using m by simp
    then show ?thesis
      using that by (simp add: csfile_errors split: if_splits)
  next
    case (Err e)
    then have "e < 0"
      by (auto simp: bf_seek_def Let_def csfile_errors split: if_splits)
    then show ?thesis
      using that Err by (simp add: readWorkArea_def Let_def m_def)
  next
    case Fault
    then show ?thesis
      by (auto simp: bf_seek_def Let_def split: if_splits)
  qed
qed

text \<open>A key that is no length of a record: it is below 4, or greater than what is left of the file.\<close>

definition no_length :: "int \<Rightarrow> u32 \<Rightarrow> bool" where
  "no_length end_pos key \<longleftrightarrow> - 2147483644 \<le> sint key \<and> sint key < 4 \<or> end_pos < sint key \<and> sint key \<le> 2147483519"

lemma read_header_as_record:
  assumes ok: "handle_ok f os" "f_write_mode f" and hd: "rec_at 17 0 os = Some (header DataF key)"
    and v: "no_length (fsize os) key" and sz: "fsize os < C_CSFILE_ENDFILE"
  shows "\<exists>r f'. sf_read_data n 0 buf q dlen f os = (r, buf, q, f') \<and> (r = Crash \<and> sint key < 4 \<or> (\<exists>e < 0. r = Ret e))"
proof -
  let ?da = "da_new [(buf, word_of_nat n), (q, vlen_word dlen)]"
  have fl: "F_CSFILE_DYNAMIC OR bflags f = F_CSFILE_DYNAMIC"
    using ok by (simp add: handle_ok_def)
  have top: "21 \<le> fsize os" "seg 0 17 (fbytes os) = header DataF key"
    using hd by (auto simp: rec_at_def slot_at_def Let_def fsize_def split: if_splits)
  have "seg 0 4 (fbytes os) = seg 0 4 (seg 0 17 (fbytes os))"
    by (simp add: seg_seg)
  also have "\<dots> = le_enc 4 key"
    unfolding top(2) by (simp add: header_def h_set_def seg_def)
  finally have len: "dec_i32 (seg 0 4 (fbytes os)) = sint key"
    by (simp add: dec_i32_def le_dec_le_enc_full)
  have seek: "bf_seek 0 4 False f os = Ok 0"
    using ok top(1) sz by (intro bf_seek_plain) (auto simp: handle_ok_def C_CSFILE_ENDFILE_def)
  have i4: "is_i32 (4 + 128)"
    by (simp add: is_i32_def)
  obtain f1 where r1: "readWorkArea 0 4 0 True f os = (Ok (seg 0 4 (fbytes os), 4), f1)"
    and f1: "after_read f os (current_offset f) 0 f1"
    using readWorkArea_cases [OF ok(1), of 0 4 0 0 True, OF _ _ _ i4] seek top(1) by auto
  have ok1: "handle_ok f1 os" "f_write_mode f1"
    using handle_ok_after [OF ok(1) f1] f1 ok(2) by (simp_all add: after_read_def same_handle_def)
  have vl: "i32 (sint key - 4) = sint key - 4" "i32 (sint key - 4 + 4) = sint key" "is_i32 (sint key)"
    using v top(1) by (auto simp: is_i32_def no_length_def)
  have fin: "finish F_CSFILE_DYNAMIC (Err e) = Ret e" "finish F_CSFILE_DYNAMIC Fault = Crash" for e
    by (simp_all add: finish_def has_flag_def F_CSFILE_DYNAMIC_def F_CSFILE_EXCEPTIONS_def)
  have read: "bf_read 0 F_CSFILE_DYNAMIC ?da f os =
      (case readWorkArea 4 (sint key) 4 False f1 os of
         (Err e, f2) \<Rightarrow> (Ret e, ?da, f2)
       | (Fault, f2) \<Rightarrow> (Crash, ?da, f2)
       | (Ok (bs, pos), f2) \<Rightarrow>
           let f3 = f2\<lparr>current_offset := pos\<rparr>;
               (r, da) = check_record F_CSFILE_DYNAMIC (seg 0 4 (fbytes os) @ bs) 4 (sint key - 4) ?da
           in (finish F_CSFILE_DYNAMIC r, da, f3))"
    unfolding bf_read_def fl read_frame_def Let_def
    by (simp only: has_dyn(1) if_True r1 len vl prod.case result.case fin)
  have args: "da_datas ?da ! 0 = buf" "da_datas ?da ! 1 = q"
    by (simp_all add: da_args_lists)
  consider (small) "sint key < 4" | (big) "fsize os < sint key" "is_i32 (sint key + 128)" "0 < sint key - 4"
    using v top(1) by (auto simp: no_length_def is_i32_def)
  then show ?thesis
  proof cases
    case small
    then have "i32 (sint key - 4) < 0"
      using vl(1) by simp
    then show ?thesis
    proof (cases rule: readWorkArea_negative [where loff = 4 and b = False and f = f1 and os = os])
      case (3 pos f')
      have "check_record F_CSFILE_DYNAMIC (seg 0 4 (fbytes os) @ []) 4 (sint key - 4) ?da = (Fault, ?da)"
        using small by (simp add: check_record_def)
      then show ?thesis
        using small args by (simp add: sf_read_data_def read 3 fin Let_def)
    qed (use small args in \<open>simp_all add: sf_read_data_def read\<close>)
  next
    case big
    have "bf_seek 4 (sint key - 4) False f1 os = Ok 4"
      using ok1 by (intro bf_seek_plain) (auto simp: handle_ok_def C_CSFILE_ENDFILE_def)
    then obtain e f2 where "readWorkArea 4 (sint key) 4 False f1 os = (Err e, f2)" "e < 0"
      using readWorkArea_cases [OF ok1(1) _ big(3) _ big(2), of 4 4 False] big(1)
      by (cases "0 < cache_size f1 \<or> fsize os \<le> 4") (auto simp: csfile_errors)
    then show ?thesis
      using args by (simp add: sf_read_data_def read)
  qed
qed

lemma readLog_header:
  assumes h: "healthy s d" and l: "logs_header q d" and q: "0 \<le> q" "is_i32 q"
    and k: "rec_at 17 0 (d DataF) = Some (header DataF key)" "no_length (fsize (d DataF)) key"
    and m: "17 \<le> m" "m < 2 ^ 24" "m \<le> length buf"
  shows "case ss_readLog q buf (word_of_nat m) s d of None \<Rightarrow> sint key < 4 | Some (r, buf', s') \<Rightarrow> r < 0"
proof -
  have w: "live s d" "rdwr s" "\<forall>k. f_write_mode (files s k)" "fsize (d DataF) < C_CSFILE_ENDFILE"
    using h by (simp_all add: healthy_def writer_def)
  obtain e where e: "rec_at 13 q (d LogF) = Some (enc_log e)" "well_log e" "l_offset e = 0"
    using l by (auto simp: logs_header_def)
  obtain s1 where a: "io_readIndex LogF q (enc_log zero_log) s d = Some (13, enc_log e, s1)" and m1: "moved s s1 d"
    using io_readIndex_ok [OF w(1) q, of "enc_log zero_log" LogF] got_found [of LogF q d "enc_log e"] e(1) by auto
  have "handle_ok (files s1 DataF) (d DataF)" "f_write_mode (files s1 DataF)"
    using moved_live [OF m1] moved_write_mode [OF m1] w(3) by (simp_all add: live_def)
  from read_header_as_record [OF this k w(4), of 17 "take 17 buf" "drop 17 buf"]
  obtain r f' where "sf_read_data 17 0 (take 17 buf) (drop 17 buf) (word_of_nat m - 17) (files s1 DataF) (d DataF)
      = (r, take 17 buf, drop 17 buf, f')" "r = Crash \<and> sint key < 4 \<or> (\<exists>e < 0. r = Ret e)"
    by blast
  moreover have "\<not> (word_of_nat m :: u32) < 17"
    using m by (simp add: word_less_nat_alt unat_of_nat)
  ultimately show ?thesis
    using a e w(2) by (auto simp: ss_readLog_def dec_enc_log io_read_data_def ret_of_def)
qed

text \<open>Property (C33): the log has no entry for a rollback that a client could read. \<open>writeFiles\<close> stores 0 as the offset of the
  entries of a rollback, where the data file has its header; \<open>readLog\<close> takes the key of the storage for the length of a record
  there. For every key that is negative or less than 4, or greater than the data file, apart from the 4 least and the 128 greatest
  numbers of 32 bits, it fails (with a key below 4 it may also read outside its buffer, where there is no result), and a client that
  copies the log comes no further than this rollback of the master. A key between 4 and the size of the data file may be the length of
  some record, and is not covered.\<close>

theorem rollback_stops_replication:
  assumes "good (s, d)" and "\<not> fauto_commit s" and "allowed Rollback (s, d)"
    and "no_length (fsize (d DataF) + int (4 * length (dirtySerials s) + 104)) (st_hash_key (state s))"
    and "17 \<le> m" "m < 2 ^ 24"
  shows "\<exists>s' d'. perform Rollback (s, d) = Some (E_CSTORAGE_OK, s', d') \<and> last_seq s < last_seq s'
    \<and> (case ss_readLog (last_seq s + 1) (replicate m 0) (word_of_nat m) s' d' of
         None \<Rightarrow> sint (st_hash_key (state s)) < 4 | Some (r, buf, s1) \<Rightarrow> r < 0)
    \<and> copy_log m (nat (last_seq s' - last_seq s)) (last_seq s + 1) s' d' s2 d2 = None"
proof -
  let ?k = "st_hash_key (state s)" and ?n = "4 * length (dirtySerials s) + 104"
  have h: "healthy s d" and t: "tidy s d" and room: "room s d ?n" "4 * (length (dirtySerials s) + 1) < 2 ^ 24"
    using assms(1,3) by simp_all
  obtain s0 d' where o: "ss_rollback s d = Some (E_CSTORAGE_OK, clearDirtySerials s0, d')"
    and f: "last_seq s < last_seq s0" "grown d d' ?n" "logs_header (last_seq s + 1) d'" "st_hash_key (state s0) = ?k"
    using rollback_ok [OF h t assms(2) room] by blast
  let ?s = "clearDirtySerials s0"
  have g': "good (?s, d')"
    using perform_ok [OF assms(1,3)] o by simp
  then have h': "healthy ?s d'" and k: "rec_at 17 0 (d' DataF) = Some (header DataF ?k)"
    using f(4) by (simp_all add: linked_def)
  have q: "0 \<le> last_seq s + 1" "is_i32 (last_seq s + 1)"
    using h room(1) by (simp_all add: healthy_def room_def seq_room_def is_i32_def)
  have sz: "no_length (fsize (d' DataF)) ?k"
    using fsize_grown [OF f(2)] assms(4) unfolding no_length_def by linarith
  have r: "case ss_readLog (last_seq s + 1) (replicate m 0) (word_of_nat m) ?s d' of
      None \<Rightarrow> sint ?k < 4 | Some (r, buf, s1) \<Rightarrow> r < 0"
    using readLog_header [OF h' f(3) q k sz assms(5,6), of "replicate m 0"] by simp
  have "nat (last_seq s0 - last_seq s) = Suc (nat (last_seq s0 - last_seq s - 1))"
    using f(1) by simp
  then have "copy_log m (nat (last_seq ?s - last_seq s)) (last_seq s + 1) ?s d' s2 d2 = None"
    using r by (auto split: option.splits)
  then show ?thesis
    using o f(1) r by (intro exI [of _ ?s] exI [of _ d']) simp
qed

theorem rollback_stops_replication_witness:
  "\<exists>s d s' d'. good (s, d) \<and> perform Rollback (s, d) = Some (E_CSTORAGE_OK, s', d')
     \<and> copy_log 100 (nat (last_seq s' - last_seq s)) (last_seq s + 1) s' d' s d = None"
proof -
  have blank: "blank_disk demo_disk" "has_flag 3 F_CSTORAGE_WR" "has_flag 3 F_CSTORAGE_CREATE"
    "\<not> has_flag (3 OR F_CSFILE_EXCEPTIONS) F_CSTORAGE_SET_HASH_KEY" "\<not> has_flag (3 OR F_CSFILE_EXCEPTIONS) F_CSTORAGE_AUTO_COMMIT"
    by (simp_all add: blank_disk_def demo_disk_def has_flag_def F_CSTORAGE_WR_def F_CSTORAGE_CREATE_def
        F_CSFILE_EXCEPTIONS_def F_CSTORAGE_SET_HASH_KEY_def F_CSTORAGE_AUTO_COMMIT_def)
  obtain s d where b: "brand_new 100000 s d" "\<forall>k. flimit (d k) = 1000000" "\<not> fauto_commit s"
    using create_ok [OF blank(1-3) refl, of 100000 "''demo''" 0] blank(4,5) by (auto simp: demo_disk_def)
  have g: "good (s, d)" "fsize (d DataF) = 21" "last_seq s = 0" "dirtySerials s = []" "st_hash_key (state s) = 100000"
    using b(1) by (simp_all add: brand_new_def)
  have a: "allowed Rollback (s, d)"
    using b(2) g(2-4) by (simp add: room_def disk_room_def seq_room_def fsize_def C_CSFILE_ENDFILE_def)
  have k: "no_length (fsize (d DataF) + int (4 * length (dirtySerials s) + 104)) (st_hash_key (state s))"
    "(17 :: nat) \<le> 100" "(100 :: nat) < 2 ^ 24"
    using g(2,4,5) by (simp_all add: no_length_def)
  show ?thesis
    using rollback_stops_replication [OF g(1) b(3) a k, of s d] g(1) by blast
qed

end
