(* ===== verification/Safe_Test.thy ===== *)
theory Safe_Test
  imports Storage_Services Ini_File Remote Shared "HOL-Library.Signed_Division"
begin

text \<open>
  src/src/test/safe/safe_test.cpp, the test program of the library: registers with pseudo-random content that can
  be made again from their serial, and the four modes of the program. \<open>g seed n\<close> is the number that \<open>rand\<close> returns
  as the \<open>n\<close>-th, counted from 0, after \<open>srand (seed)\<close>. A program or function that does not return (a division
  by zero, a loop without end) is \<open>None\<close>; one that ends with \<open>exit\<close> gives its code. What is printed is left
  out, and with it \<open>size_str\<close>.
\<close>

subsection \<open>Registers\<close>

type_synonym generator = "u32 \<Rightarrow> nat \<Rightarrow> int"

definition RAND_MAX :: int where "RAND_MAX = 2147483647"
definition RND_PHASE_OFFSET :: int where "RND_PHASE_OFFSET = RAND_MAX div 100"
definition MAX_REG_SIZE :: int where "MAX_REG_SIZE = 250 * 1024"
definition MIN_REG_SIZE :: int where "MIN_REG_SIZE = 1"

definition E_CSTORAGE_OPEN :: int where "E_CSTORAGE_OPEN = - 50"
definition E_CSTORAGE_CREATE :: int where "E_CSTORAGE_CREATE = - 501"
definition E_CSTORAGE_NOT_ALLOWED_IN_READ_MODE :: int where "E_CSTORAGE_NOT_ALLOWED_IN_READ_MODE = - 510"
definition E_CSTORAGE_UNKNOWN_COMMAND :: int where "E_CSTORAGE_UNKNOWN_COMMAND = - 512"
definition E_CSTORAGE_LOCKED_REGISTER :: int where "E_CSTORAGE_LOCKED_REGISTER = - 513"

definition result_str :: "int \<Rightarrow> string" where
  "result_str value =
     (if value = E_CSTORAGE_OK then ''E_CSTORAGE_OK''
      else if value = E_CSTORAGE_ERROR then ''E_CSTORAGE_ERROR''
      else if value = E_CSTORAGE_OPEN then ''E_CSTORAGE_OPEN''
      else if value = E_CSTORAGE_CREATE then ''E_CSTORAGE_CREATE''
      else if value = E_CSTORAGE_CREATE_FILE_EXISTS then ''E_CSTORAGE_CREATE_FILE_EXISTS''
      else if value = E_CSTORAGE_OPEN_FILE_NO_ACCESS then ''E_CSTORAGE_OPEN_FILE_NO_ACCESS''
      else if value = E_CSTORAGE_DATA_READ then ''E_CSTORAGE_DATA_READ''
      else if value = E_CSTORAGE_SERIAL_NOT_FOUND then ''E_CSTORAGE_SERIAL_NOT_FOUND''
      else if value = E_CSTORAGE_NOT_OPENED then ''E_CSTORAGE_NOT_OPENED''
      else if value = E_CSTORAGE_ALREADY_OPENED then ''E_CSTORAGE_ALREADY_OPENED''
      else if value = E_CSTORAGE_NO_ROLLBACK_IN_AUTOCOMMIT then ''E_CSTORAGE_NO_ROLLBACK_IN_AUTOCOMMIT''
      else if value = E_CSTORAGE_SEQUENCE_NOT_FOUND then ''E_CSTORAGE_SEQUENCE_NOT_FOUND''
      else if value = E_CSTORAGE_NOT_ALLOWED_IN_READ_MODE then ''E_CSTORAGE_NOT_ALLOWED_IN_READ_MODE''
      else if value = E_CSTORAGE_ONLY_ONE_WRITER then ''E_CSTORAGE_ONLY_ONE_WRITER''
      else if value = E_CSTORAGE_UNKNOWN_COMMAND then ''E_CSTORAGE_UNKNOWN_COMMAND''
      else if value = E_CSTORAGE_ONLT_ONE_WRITTER then ''E_CSTORAGE_ONLT_ONE_WRITTER''
      else if value = E_CSTORAGE_LOCKED_REGISTER then ''E_CSTORAGE_LOCKED_REGISTER''
      else show_int value)"

definition reg_seed :: "int \<Rightarrow> int \<Rightarrow> u32" where
  \<comment> \<open>the argument of \<open>srand\<close>; the product may wrap around\<close>
  "reg_seed index phase = word_of_int (index * RND_PHASE_OFFSET * (phase + 1) + 1)"

definition reg_bytes :: "(nat \<Rightarrow> int) \<Rightarrow> int \<Rightarrow> int \<Rightarrow> int option" where
  \<comment> \<open>the length, from the first number\<close>
  "reg_bytes r max_reg_size min_reg_size =
     (let m = (if max_reg_size > MAX_REG_SIZE then MAX_REG_SIZE else max_reg_size)
      in if m + 1 = 0 then None
         else let bytes = r 0 smod (m + 1) in Some (if bytes < min_reg_size then min_reg_size else bytes))"

fun fill_data :: "(nat \<Rightarrow> int) \<Rightarrow> nat \<Rightarrow> nat \<Rightarrow> bytes" where
  "fill_data r k count =
     (if 4 \<le> count then enc_i32 (r k) @ fill_data r (k + 1) (count - 4)
      else if 0 < count then word_of_int (r k) # fill_data r (k + 1) (count - 1)
      else [])"

declare fill_data.simps [simp del]

definition random_reg :: "generator \<Rightarrow> int \<Rightarrow> bytes \<Rightarrow> int \<Rightarrow> int \<Rightarrow> int \<Rightarrow> (int \<times> bytes) option" where
  "random_reg g index data max_reg_size min_reg_size phase =
     do { bytes \<leftarrow> reg_bytes (g (reg_seed index phase)) max_reg_size min_reg_size;
          Some (bytes, overlay (fill_data (g (reg_seed index phase)) 1 (nat bytes)) data) }"

fun check_data :: "(nat \<Rightarrow> int) \<Rightarrow> nat \<Rightarrow> nat \<Rightarrow> bytes \<Rightarrow> int" where
  "check_data r k count data =
     (if 4 \<le> count
      then (if dec_i32 (take 4 data) \<noteq> r k then - 2 else check_data r (k + 1) (count - 4) (drop 4 data))
      else if 0 < count
      then (if hd data \<noteq> word_of_int (r k) then - 3 else check_data r (k + 1) (count - 1) (tl data))
      else 0)"

declare check_data.simps [simp del]

definition check_reg :: "generator \<Rightarrow> int \<Rightarrow> bytes \<Rightarrow> int \<Rightarrow> int \<Rightarrow> int \<Rightarrow> int \<Rightarrow> int option" where
  "check_reg g index data dlen max_reg_size min_reg_size phase =
     do { bytes \<leftarrow> reg_bytes (g (reg_seed index phase)) max_reg_size min_reg_size;
          Some (if dlen \<noteq> bytes then - 1
                else check_data (g (reg_seed index phase)) 1 (nat bytes) data) }"

fun random_test_loop :: "generator \<Rightarrow> nat \<Rightarrow> int \<Rightarrow> bytes \<Rightarrow> (int \<times> bytes) option" where
  "random_test_loop g 0 index data = Some (0, data)"
| "random_test_loop g (Suc n) index data =
     do { (bytes, data) \<leftarrow> random_reg g index data MAX_REG_SIZE MIN_REG_SIZE 0;
          result \<leftarrow> check_reg g index data bytes MAX_REG_SIZE MIN_REG_SIZE 0;
          if result \<noteq> 0 then Some (result, data) else random_test_loop g n (index + 1) data }"

definition random_test :: "generator \<Rightarrow> bytes \<Rightarrow> (int \<times> bytes) option" where
  "random_test g data = random_test_loop g 100 0 data"

subsection \<open>Writing and reading registers\<close>

text \<open>The result, the buffer \<open>random_data\<close>, the storage and the files. \<open>index\<close> counts the writes.\<close>

partial_function (option) write_registers_loop ::
  "generator \<Rightarrow> int \<Rightarrow> int \<Rightarrow> int \<Rightarrow> int \<Rightarrow> int \<Rightarrow> int \<Rightarrow> int \<Rightarrow> bytes \<Rightarrow> storage \<Rightarrow> disk
     \<Rightarrow> (int \<times> bytes \<times> storage \<times> disk) option" where
  "write_registers_loop g index from to commit_each max_reg_size phase ecode data s d =
     (if from \<le> to
      then Option.bind (random_reg g from data max_reg_size MIN_REG_SIZE phase) (\<lambda>(bytes, data).
           Option.bind (ss_write from (Some (take (nat bytes) data)) (word_of_int bytes) s d) (\<lambda>(result, s, d).
             if result < 0 \<and> ecode = 0 \<or> result \<ge> 0 \<and> ecode < 0 then Some (- 1, data, s, d)
             else if ecode < 0 \<and> result \<noteq> ecode then Some (- 3, data, s, d)
             else Option.bind (if commit_each \<noteq> 0 \<and> (index + 1) smod commit_each = 0 then ss_commit s d
                               else Some (0, s, d)) (\<lambda>(r, s, d).
                  write_registers_loop g (i32 (index + 1)) (i32 (from + 1)) to commit_each max_reg_size phase ecode
                    data s d)))
      else Some (0, data, s, d))"

definition write_registers ::
  "generator \<Rightarrow> int \<Rightarrow> int \<Rightarrow> int \<Rightarrow> int \<Rightarrow> int \<Rightarrow> int \<Rightarrow> bytes \<Rightarrow> storage \<Rightarrow> disk
     \<Rightarrow> (int \<times> bytes \<times> storage \<times> disk) option" where
  "write_registers g from to commit_each max_reg_size phase ecode data s d =
     write_registers_loop g 0 from to commit_each max_reg_size phase ecode data s d"

partial_function (option) verify_registers_loop ::
  "generator \<Rightarrow> int \<Rightarrow> int \<Rightarrow> int \<Rightarrow> int \<Rightarrow> u32 \<Rightarrow> int \<Rightarrow> int \<Rightarrow> bytes \<Rightarrow> storage \<Rightarrow> disk
     \<Rightarrow> (int \<times> bytes \<times> storage) option" where
  "verify_registers_loop g step from to max_reg_size flags ecode phase data s d =
     (if from \<le> to
      then Option.bind (ss_read from data 256000 flags s d) (\<lambda>(bytes, data, s).
             if bytes < 0 \<and> ecode = 0 \<or> bytes \<ge> 0 \<and> ecode < 0 then Some (- 1, data, s)
             else Option.bind (if ecode \<ge> 0 then check_reg g from data bytes max_reg_size MIN_REG_SIZE phase
                               else Some 0) (\<lambda>c.
                  if c \<noteq> 0 then Some (- 2, data, s)
                  else if ecode < 0 \<and> bytes \<noteq> ecode then Some (- 3, data, s)
                  else verify_registers_loop g step (i32 (from + step)) to max_reg_size flags ecode phase data s d))
      else Some (0, data, s))"

definition verify_registers ::
  "generator \<Rightarrow> int \<Rightarrow> int \<Rightarrow> int \<Rightarrow> u32 \<Rightarrow> int \<Rightarrow> int \<Rightarrow> bytes \<Rightarrow> storage \<Rightarrow> disk
     \<Rightarrow> (int \<times> bytes \<times> storage) option" where
  "verify_registers g from to max_reg_size flags ecode phase data s d =
     (let (step, to) = (if to < 0 then (3, i32 (- to)) else (1, to))
      in verify_registers_loop g step from to max_reg_size flags ecode phase data s d)"

subsection \<open>The test of all operations\<close>

text \<open>The two objects, the buffer and the files with the name given. The program is a list of calls: each is checked by one of
  the two macros, or not at all. A step ends the program with a code, or goes on.\<close>

record test =
  t_ssi :: storage
  t_ssi2 :: storage  \<comment> \<open>\<open>_ssi\<close>\<close>
  t_data :: bytes
  t_disk :: disk

type_synonym test_call = "test \<Rightarrow> (int \<times> test) option"

datatype step =
  CHECK_OP test_call int
| DO_TEST_TITLE test_call
| no_check test_call  \<comment> \<open>a call whose result the program does not look at\<close>

fun do_step :: "step \<Rightarrow> test \<Rightarrow> ((int \<times> disk) + test) option" where
  "do_step (CHECK_OP p R) t = map_option (\<lambda>(r, t). if r \<noteq> R then Inl (- 1, t_disk t) else Inr t) (p t)"
| "do_step (DO_TEST_TITLE p) t = map_option (\<lambda>(r, t). if r \<noteq> 0 then Inl (- 1, t_disk t) else Inr t) (p t)"
| "do_step (no_check p) t = map_option (\<lambda>(r, t). Inr t) (p t)"

fun steps :: "step list \<Rightarrow> test \<Rightarrow> ((int \<times> disk) + test) option" where
  "steps [] t = Some (Inr t)"
| "steps (p # ps) t =
     (case do_step p t of None \<Rightarrow> None | Some (Inl e) \<Rightarrow> Some (Inl e) | Some (Inr t) \<Rightarrow> steps ps t)"

text \<open>The calls of the program, on \<open>ssi\<close> but for the last two.\<close>

definition t_random_test :: "generator \<Rightarrow> test_call" where
  "t_random_test g t = map_option (\<lambda>(r, data). (r, t\<lparr>t_data := data\<rparr>)) (random_test g (t_data t))"

definition t_open :: "u32 \<Rightarrow> string \<Rightarrow> u32 \<Rightarrow> test_call" where
  "t_open rnd fname flags t =
     map_option (\<lambda>(r, s, d). (r, t\<lparr>t_ssi := s, t_disk := d\<rparr>)) (ss_open rnd fname flags 0 (t_ssi t) (t_disk t))"

definition t_write :: "generator \<Rightarrow> int \<Rightarrow> int \<Rightarrow> int \<Rightarrow> int \<Rightarrow> test_call" where
  "t_write g from to max_reg_size phase t =
     map_option (\<lambda>(r, data, s, d). (r, t\<lparr>t_ssi := s, t_data := data, t_disk := d\<rparr>))
       (write_registers g from to 0 max_reg_size phase 0 (t_data t) (t_ssi t) (t_disk t))"

definition t_commit :: test_call where
  "t_commit t = map_option (\<lambda>(r, s, d). (r, t\<lparr>t_ssi := s, t_disk := d\<rparr>)) (ss_commit (t_ssi t) (t_disk t))"

definition t_rollback :: test_call where
  "t_rollback t = map_option (\<lambda>(r, s, d). (r, t\<lparr>t_ssi := s, t_disk := d\<rparr>)) (ss_rollback (t_ssi t) (t_disk t))"

definition t_verify :: "generator \<Rightarrow> int \<Rightarrow> int \<Rightarrow> int \<Rightarrow> u32 \<Rightarrow> int \<Rightarrow> int \<Rightarrow> test_call" where
  "t_verify g from to max_reg_size flags ecode phase t =
     map_option (\<lambda>(r, data, s). (r, t\<lparr>t_ssi := s, t_data := data\<rparr>))
       (verify_registers g from to max_reg_size flags ecode phase (t_data t) (t_ssi t) (t_disk t))"

definition t_open2 :: "string \<Rightarrow> test_call" where
  "t_open2 fname t =
     map_option (\<lambda>(r, s, d). (r, t\<lparr>t_ssi2 := s, t_disk := d\<rparr>)) (ss_open 0 fname 0 0 (t_ssi2 t) (t_disk t))"

definition t_verify2 :: "generator \<Rightarrow> int \<Rightarrow> int \<Rightarrow> int \<Rightarrow> u32 \<Rightarrow> int \<Rightarrow> int \<Rightarrow> test_call" where
  "t_verify2 g from to max_reg_size flags ecode phase t =
     map_option (\<lambda>(r, data, s). (r, t\<lparr>t_ssi2 := s, t_data := data\<rparr>))
       (verify_registers g from to max_reg_size flags ecode phase (t_data t) (t_ssi2 t) (t_disk t))"

definition reg_sizes :: "int list" where
  "reg_sizes = [10, 100, 1024, 10 * 1024, 50 * 1024, 100 * 1024, 200 * 1024]"

definition deltas :: "int list" where
  "deltas = [0, 2, 10, 15, 20, 35, 50]"

fun write_sizes :: "generator \<Rightarrow> int \<Rightarrow> int \<Rightarrow> int list \<Rightarrow> step list" where
  "write_sizes g ntimes index [] = []"
| "write_sizes g ntimes index (z # zs) =
     no_check (t_write g index (i32 (index + (ntimes - 1))) z 0) # no_check t_commit
       # write_sizes g ntimes (i32 (index + ntimes)) zs"

fun read_sizes :: "generator \<Rightarrow> int \<Rightarrow> int \<Rightarrow> int list \<Rightarrow> step list" where
  "read_sizes g ntimes index [] = []"
| "read_sizes g ntimes index (z # zs) =
     DO_TEST_TITLE (t_verify g index (i32 (index + (ntimes - 1))) z 0 0 0)
       # read_sizes g ntimes (i32 (index + ntimes)) zs"

fun index_after :: "int \<Rightarrow> int \<Rightarrow> int list \<Rightarrow> int" where
  \<comment> \<open>\<open>index\<close> after one of the two loops\<close>
  "index_after ntimes index [] = index"
| "index_after ntimes index (z # zs) = index_after ntimes (i32 (index + ntimes)) zs"

fun read_deltas :: "generator \<Rightarrow> int \<Rightarrow> nat \<Rightarrow> int list \<Rightarrow> step list" where
  \<comment> \<open>the last argument is what \<open>delta\<close> runs through\<close>
  "read_deltas g index idelta [] = []"
| "read_deltas g index idelta (delta # rest) =
     no_check (t_verify g (i32 (index + delta)) (i32 (index + delta)) MAX_REG_SIZE F_CSTORAGE_COMMITED_READ
         (if deltas ! idelta = delta then 0 else E_CSTORAGE_SERIAL_NOT_FOUND) 0)
       # read_deltas g index (if deltas ! idelta = delta \<and> idelta < length deltas - 1 then idelta + 1 else idelta) rest"

definition transaction_steps :: "generator \<Rightarrow> string \<Rightarrow> int \<Rightarrow> int \<Rightarrow> step list" where
  \<comment> \<open>parts 5 and 6\<close>
  "transaction_steps g fname ntimes index =
     (let to = i32 (index + (ntimes - 1))
      in [DO_TEST_TITLE (t_write g index to MAX_REG_SIZE 0),
          no_check (t_open2 fname),
          DO_TEST_TITLE (t_verify g index to MAX_REG_SIZE 0 0 0),
          DO_TEST_TITLE (t_verify2 g index to MAX_REG_SIZE F_CSTORAGE_COMMITED_READ E_CSTORAGE_SERIAL_NOT_FOUND 0),
          DO_TEST_TITLE (t_verify2 g index to MAX_REG_SIZE F_CSTORAGE_DIRTY_READ 0 0),
          CHECK_OP t_rollback 0,
          DO_TEST_TITLE (t_verify g index to MAX_REG_SIZE F_CSTORAGE_COMMITED_READ E_CSTORAGE_SERIAL_NOT_FOUND 0),
          DO_TEST_TITLE (t_verify g index to MAX_REG_SIZE F_CSTORAGE_DIRTY_READ E_CSTORAGE_SERIAL_NOT_FOUND 0)])"

definition update_steps :: "generator \<Rightarrow> int \<Rightarrow> int \<Rightarrow> step list" where
  \<comment> \<open>part 7\<close>
  "update_steps g ntimes index =
     (let to = i32 (index + (ntimes - 1))
      in [DO_TEST_TITLE (t_write g index to MAX_REG_SIZE 0),
          CHECK_OP t_commit 0,
          DO_TEST_TITLE (t_verify g index to MAX_REG_SIZE F_CSTORAGE_COMMITED_READ 0 0),
          no_check (t_write g index to MAX_REG_SIZE 1),
          DO_TEST_TITLE (t_verify2 g index to MAX_REG_SIZE 0 0 0),
          DO_TEST_TITLE (t_verify g index to MAX_REG_SIZE F_CSTORAGE_DIRTY_READ 0 1),
          CHECK_OP t_commit 0,
          DO_TEST_TITLE (t_verify g index to MAX_REG_SIZE F_CSTORAGE_COMMITED_READ 0 1),
          DO_TEST_TITLE (t_verify g index to MAX_REG_SIZE F_CSTORAGE_DIRTY_READ 0 1)])"

definition delta_steps :: "generator \<Rightarrow> int \<Rightarrow> step list" where
  \<comment> \<open>part 10\<close>
  "delta_steps g index =
     map (\<lambda>delta. no_check (t_write g (i32 (index + delta)) (i32 (index + delta)) MAX_REG_SIZE 0)) deltas
       @ CHECK_OP t_commit 0 # read_deltas g index 0 (map int [0..<51])"

definition script :: "generator \<Rightarrow> u32 \<Rightarrow> string \<Rightarrow> int \<Rightarrow> step list" where
  "script g rnd fname ntimes =
     (let index = index_after ntimes 1 reg_sizes
      in [DO_TEST_TITLE (t_random_test g), no_check (t_open rnd fname (F_CSTORAGE_WR OR F_CSTORAGE_CREATE))]
         @ write_sizes g ntimes 1 reg_sizes @ read_sizes g ntimes 1 reg_sizes
         @ [no_check (t_write g index index 0 0), no_check t_commit, DO_TEST_TITLE (t_verify g index index 0 0 0 0)]
         @ transaction_steps g fname ntimes (i32 (index + 1))
         @ update_steps g ntimes (i32 (i32 (index + 1) + ntimes))
         @ delta_steps g (i32 (i32 (i32 (index + 1) + ntimes) + ntimes)))"

definition normal_mode :: "generator \<Rightarrow> u32 \<Rightarrow> string \<Rightarrow> int \<Rightarrow> test \<Rightarrow> (int \<times> disk) option" where
  "normal_mode g rnd fname ntimes t =
     (case steps (script g rnd fname ntimes) t of
        None \<Rightarrow> None
      | Some (Inl e) \<Rightarrow> Some e
      | Some (Inr t) \<Rightarrow> map_option (\<lambda>(r, s, d). (0, d)) (ss_close (t_ssi t) (t_disk t)))"

subsection \<open>Writing, reading and the log\<close>

definition F_MODE_NORMAL :: int where "F_MODE_NORMAL = 0"
definition F_MODE_READ :: int where "F_MODE_READ = 1"
definition F_MODE_WRITE :: int where "F_MODE_WRITE = 2"
definition F_MODE_LOG :: int where "F_MODE_LOG = 3"

record config =
  c_dlevel :: int
  c_nloops :: int
  c_mode :: int
  c_times :: int
  c_msleep :: int
  c_commit_freq :: u32
  c_initial_key :: u32
  c_flg_create :: bool
  c_flg_empty :: bool
  c_max_reg_size :: int
  c_filename :: string
  c_filename2 :: "string option"

definition default_config :: config where
  "default_config =
     \<lparr>c_dlevel = 0, c_nloops = 10000, c_mode = F_MODE_NORMAL, c_times = 10, c_msleep = 0, c_commit_freq = 1000,
      c_initial_key = 1, c_flg_create = False, c_flg_empty = False, c_max_reg_size = MAX_REG_SIZE,
      c_filename = ''0001'', c_filename2 = None\<rparr>"

definition decimal :: "string \<Rightarrow> int" where
  \<comment> \<open>the number at the start of a text\<close>
  "decimal s =
     (let (neg, t) = sign_of (dropWhile c_space s); n = int (digits_value 10 t) in if neg then - n else n)"

definition atol :: "string \<Rightarrow> int" where
  "atol s = max (- (2 ^ 31)) (min (2 ^ 31 - 1) (decimal s))"

definition atoll :: "string \<Rightarrow> int" where
  "atoll s = max (- (2 ^ 63)) (min (2 ^ 63 - 1) (decimal s))"

text \<open>One option that \<open>getopt\<close> returns, with \<open>optarg\<close>; \<open>None\<close> is the usage message. The option \<open>p\<close> has no case.\<close>

definition set_option :: "char \<times> string \<Rightarrow> config \<Rightarrow> config option" where
  "set_option = (\<lambda>(opt, optarg) c.
     if opt = CHR ''C'' then Some (c\<lparr>c_commit_freq := word_of_int (atol optarg)\<rparr>)
     else if opt = CHR ''d'' then Some (c\<lparr>c_dlevel := atol optarg\<rparr>)
     else if opt = CHR ''c'' then Some (c\<lparr>c_flg_create := True\<rparr>)
     else if opt = CHR ''E'' then Some (c\<lparr>c_flg_empty := True\<rparr>)
     else if opt = CHR ''I'' then Some (c\<lparr>c_initial_key := word_of_int (atol optarg)\<rparr>)
     else if opt = CHR ''s'' then Some (c\<lparr>c_msleep := atol optarg\<rparr>)
     else if opt = CHR ''f'' then Some (c\<lparr>c_filename := optarg\<rparr>)
     else if opt = CHR ''A'' then Some (c\<lparr>c_filename2 := Some optarg\<rparr>)
     else if opt = CHR ''n'' then Some (c\<lparr>c_nloops := i32 (atoll optarg)\<rparr>)
     else if opt = CHR ''t'' then Some (c\<lparr>c_times := atol optarg\<rparr>)
     else if opt = CHR ''m'' then Some (c\<lparr>c_max_reg_size := i32 (atoll optarg)\<rparr>)
     else if opt = CHR ''r'' then Some (c\<lparr>c_mode := F_MODE_READ\<rparr>)
     else if opt = CHR ''l'' then Some (c\<lparr>c_mode := F_MODE_LOG\<rparr>)
     else if opt = CHR ''w'' then Some (c\<lparr>c_mode := F_MODE_WRITE\<rparr>)
     else None)"

fun set_options :: "(char \<times> string) list \<Rightarrow> config \<Rightarrow> config option" where
  "set_options [] c = Some c"
| "set_options (x # xs) c = Option.bind (set_option x c) (set_options xs)"

text \<open>The loops of the modes: \<open>Inl\<close> is the code of an \<open>exit\<close>. The first counts down what is left of \<open>nloops\<close>.\<close>

fun write_mode_loop ::
  "generator \<Rightarrow> u32 \<Rightarrow> u32 \<Rightarrow> int \<Rightarrow> nat \<Rightarrow> int \<Rightarrow> bytes \<Rightarrow> storage \<Rightarrow> disk
     \<Rightarrow> (((int \<times> disk) + (bytes \<times> storage \<times> disk))) option" where
  "write_mode_loop g key commit_freq m 0 index data s d = Some (Inr (data, s, d))"
| "write_mode_loop g key commit_freq m (Suc n) index data s d =
     (let k = sint (word_of_int index + key)
      in do { (bytes, data) \<leftarrow> random_reg g k data m MIN_REG_SIZE 0;
              (r, s, d) \<leftarrow> ss_write k (Some (take (nat bytes) data)) (word_of_int bytes) s d;
              if r < 0 then Some (Inl (- 1, d))
              else do { (r, s, d) \<leftarrow> (if index = 0 then Some (0, s, d)
                                     else if commit_freq = 0 then None
                                     else if (word_of_int index :: u32) mod commit_freq = 0 then ss_commit s d
                                     else Some (0, s, d));
                        write_mode_loop g key commit_freq m n (index + 1) data s d } })"

definition write_mode :: "generator \<Rightarrow> u32 \<Rightarrow> config \<Rightarrow> bytes \<Rightarrow> storage \<Rightarrow> disk \<Rightarrow> (int \<times> disk) option" where
  "write_mode g rnd c data s d =
     do { (r, s, d) \<leftarrow> ss_open rnd (c_filename c)
                        (F_CSTORAGE_WR OR (if c_flg_create c then F_CSTORAGE_CREATE else 0)) 0 s d;
          e \<leftarrow> write_mode_loop g (c_initial_key c) (c_commit_freq c) (c_max_reg_size c) (nat (c_nloops c)) 0 data s d;
          case e of
            Inl e \<Rightarrow> Some e
          | Inr (data, s, d) \<Rightarrow> do { (r, s, d) \<leftarrow> ss_commit s d; Some (0, d) } }"

partial_function (option) read_mode_loop :: "generator \<Rightarrow> int \<Rightarrow> int \<Rightarrow> int \<Rightarrow> storage \<Rightarrow> disk \<Rightarrow> int option" where
  "read_mode_loop g m nloops index s d =
     (if nloops \<le> 0 then Some 0
      else Option.bind (ss_read index (replicate 256000 0) 256000 1 s d) (\<lambda>(bytes, data, s).
             if bytes = E_CSTORAGE_SERIAL_NOT_FOUND then read_mode_loop g m nloops (i32 (index + 1)) s d
             else if bytes < 0 then Some (- 1)
             else Option.bind (check_reg g index data bytes m MIN_REG_SIZE 0) (\<lambda>c.
                    if c \<noteq> 0 then Some (- 2)
                    else read_mode_loop g m (nloops - 1) (i32 (index + 1)) s d)))"

definition read_mode :: "generator \<Rightarrow> config \<Rightarrow> storage \<Rightarrow> disk \<Rightarrow> (int \<times> disk) option" where
  "read_mode g c s d =
     do { (r, s, d) \<leftarrow> ss_open 0 (c_filename c) 0 0 s d;
          e \<leftarrow> read_mode_loop g (c_max_reg_size c) (c_nloops c) 0 s d;
          Some (e, d) }"

text \<open>The log is read with \<open>ssi\<close> and, if there is a second name, applied to \<open>_ssi\<close>; both names may be the same.
  \<open>linfo\<close> is what stands on the stack.\<close>

fun log_mode_loop ::
  "generator \<Rightarrow> string \<Rightarrow> string option \<Rightarrow> int \<Rightarrow> log_info \<Rightarrow> nat \<Rightarrow> int \<Rightarrow> storage \<Rightarrow> storage \<Rightarrow> (string \<Rightarrow> disk)
     \<Rightarrow> ((int \<times> (string \<Rightarrow> disk)) + (storage \<times> (string \<Rightarrow> disk))) option" where
  "log_mode_loop g f f2 m linfo 0 index s s2 ds = Some (Inr (s2, ds))"
| "log_mode_loop g f f2 m linfo (Suc n) index s s2 ds =
     do { (bytes, data, s) \<leftarrow> ss_readLog index (replicate 256000 0) 256000 s (ds f);
          if bytes = E_CSTORAGE_SERIAL_NOT_FOUND then log_mode_loop g f f2 m linfo n index s s2 ds
          else if bytes < 0 then Some (Inl (- 1, ds))
          else
            let linfo = snd (getLogReg data (word_of_int bytes) linfo)
            in do { c \<leftarrow> (if li_serial linfo \<noteq> 0 then check_reg g (li_serial linfo) data bytes m MIN_REG_SIZE 0
                         else Some 0);
                    if c \<noteq> 0 then Some (Inl (- 2, ds))
                    else (case f2 of
                            None \<Rightarrow> log_mode_loop g f f2 m linfo n (index + 1) s s2 ds
                          | Some f' \<Rightarrow>
                              do { (r, s2, d2) \<leftarrow> ss_applyLog (take (nat bytes) data) (word_of_int bytes) s2 (ds f');
                                   if r < 0 then Some (Inl (- 1, ds(f' := d2)))
                                   else log_mode_loop g f f2 m linfo n (index + 1) s s2 (ds(f' := d2)) }) } }"

definition log_mode ::
  "generator \<Rightarrow> log_info \<Rightarrow> config \<Rightarrow> storage \<Rightarrow> storage \<Rightarrow> (string \<Rightarrow> disk) \<Rightarrow> (int \<times> (string \<Rightarrow> disk)) option" where
  "log_mode g linfo c s s2 ds =
     (let f = c_filename c
      in do { (r, s, d) \<leftarrow> ss_open 0 f 0 0 s (ds f);
              let ds = ds(f := d)
              in do { (s2, ds) \<leftarrow>
                        (case c_filename2 c of
                           None \<Rightarrow> Some (s2, ds)
                         | Some f2 \<Rightarrow>
                             do { (r, s2, d2) \<leftarrow> ss_open 0 f2 (F_CSTORAGE_WR OR F_CSTORAGE_CREATE OR F_CSTORAGE_SET_HASH_KEY)
                                                 (i_hash_key (snd (ss_getInfo s))) s2 (ds f2);
                                  Some (s2, ds(f2 := d2)) });
                      e \<leftarrow> log_mode_loop g f (c_filename2 c) (c_max_reg_size c) linfo (nat (c_nloops c)) 1 s s2 ds;
                      case e of
                        Inl e \<Rightarrow> Some e
                      | Inr (s2, ds) \<Rightarrow>
                          (case c_filename2 c of
                             None \<Rightarrow> Some (0, ds)
                           | Some f2 \<Rightarrow>
                               do { (r, s2, d2) \<leftarrow> ss_commit s2 (ds f2);
                                    (r, s2, d2) \<leftarrow> ss_close s2 d2;
                                    Some (0, ds(f2 := d2)) }) } })"

definition safe_test ::
  "generator \<Rightarrow> u32 \<Rightarrow> log_info \<Rightarrow> (char \<times> string) list \<Rightarrow> (string \<Rightarrow> disk) \<Rightarrow> (int \<times> (string \<Rightarrow> disk)) option" where
  \<comment> \<open>\<open>main\<close>; the array \<open>random_data\<close> is static\<close>
  "safe_test g rnd linfo opts ds =
     (case set_options opts default_config of
        None \<Rightarrow> Some (1, ds)
      | Some c \<Rightarrow>
          let f = c_filename c; data = replicate 256000 0;
              ssi = createISafeStorage 0 0; ssi2 = createISafeStorage 0 0;
              ssi = (if c_dlevel c > 0 then snd (ss_setParam ''c_log_level'' (c_dlevel c) ssi) else ssi);
              ssi2 = (if c_dlevel c > 0 then snd (ss_setParam ''c_log_level'' (c_dlevel c) ssi2) else ssi2);
              on_f = map_option (\<lambda>(r, d). (r, ds(f := d)))
          in if c_mode c = F_MODE_WRITE then on_f (write_mode g rnd c data ssi (ds f))
             else if c_mode c = F_MODE_READ then on_f (read_mode g c ssi (ds f))
             else if c_mode c = F_MODE_LOG then log_mode g linfo c ssi ssi2 ds
             else on_f (normal_mode g rnd f (c_times c)
                          \<lparr>t_ssi = ssi, t_ssi2 = ssi2, t_data = data, t_disk = ds f\<rparr>))"

text \<open>The log level is no part of the object, so the program starts with two new objects.\<close>

lemma safe_test_modes:
  assumes "set_options opts default_config = Some c"
  shows "safe_test g rnd linfo opts ds =
     (let on_f = map_option (\<lambda>(r, d). (r, ds(c_filename c := d)))
      in if c_mode c = F_MODE_WRITE then on_f (write_mode g rnd c (replicate 256000 0) ss_new (ds (c_filename c)))
         else if c_mode c = F_MODE_READ then on_f (read_mode g c ss_new (ds (c_filename c)))
         else if c_mode c = F_MODE_LOG then log_mode g linfo c ss_new ss_new ds
         else on_f (normal_mode g rnd (c_filename c) (c_times c)
                      \<lparr>t_ssi = ss_new, t_ssi2 = ss_new, t_data = replicate 256000 0, t_disk = ds (c_filename c)\<rparr>))"
proof -
  have "(if c_dlevel c > 0 then snd (ss_setParam ''c_log_level'' (c_dlevel c) (createISafeStorage 0 0))
         else createISafeStorage 0 0) = ss_new"
    by (simp add: ss_setParam_def createISafeStorage_def)
  then show ?thesis
    unfolding safe_test_def assms option.case Let_def by (simp only:)
qed

end
