(* ===== verification/Safe_Test_Regs.thy ===== *)
theory Safe_Test_Regs
  imports Safe_Test
begin

text \<open>
  The registers of the test program: for every generator with the range of \<open>rand\<close>, a register has from 1 to
  \<open>MAX_REG_SIZE\<close> bytes, is determined by its serial, size limit and phase, and \<open>check_reg\<close> accepts it.
\<close>

definition rand_like :: "generator \<Rightarrow> bool" where
  \<comment> \<open>what the C library says of \<open>rand\<close>\<close>
  "rand_like g \<longleftrightarrow> (\<forall>seed n. 0 \<le> g seed n \<and> g seed n \<le> RAND_MAX)"

lemma rand_like_i32: "rand_like g \<Longrightarrow> is_i32 (g seed n)"
  by (auto simp: rand_like_def is_i32_def RAND_MAX_def intro: order_trans [of _ 0])

subsection \<open>Content\<close>

lemma length_fill_data [simp]: "length (fill_data r k n) = n"
proof (induction r k n rule: fill_data.induct)
  case (1 r k n)
  then show ?case
    by (subst fill_data.simps) auto
qed

lemma check_filled: "\<forall>j. is_i32 (r j) \<Longrightarrow> check_data r k n (fill_data r k n @ rest) = 0"
proof (induction r k n rule: fill_data.induct)
  case (1 r k n)
  consider "4 \<le> n" | "0 < n" "n < 4" | "n = 0"
    by linarith
  then show ?case
  proof cases
    case 1
    then have "fill_data r k n = enc_i32 (r k) @ fill_data r (k + 1) (n - 4)"
      by (subst fill_data.simps) simp
    then show ?thesis
      using 1 "1.IH"(1) "1.prems" by (subst check_data.simps) (simp add: dec_enc_i32)
  next
    case 2
    then have "fill_data r k n = word_of_int (r k) # fill_data r (k + 1) (n - 1)"
      by (subst fill_data.simps) simp
    then show ?thesis
      using 2 "1.IH"(2) "1.prems" by (subst check_data.simps) simp
  next
    case 3
    then show ?thesis
      by (subst check_data.simps) simp
  qed
qed

subsection \<open>Length\<close>

definition reg_length :: "generator \<Rightarrow> int \<Rightarrow> int \<Rightarrow> int \<Rightarrow> nat" where
  "reg_length g m phase i =
     nat (max MIN_REG_SIZE (g (reg_seed i phase) 0 mod (min m MAX_REG_SIZE + 1)))"

definition reg :: "generator \<Rightarrow> int \<Rightarrow> int \<Rightarrow> int \<Rightarrow> bytes" where
  "reg g m phase i = fill_data (g (reg_seed i phase)) 1 (reg_length g m phase i)"

lemma length_reg [simp]: "length (reg g m phase i) = reg_length g m phase i"
  by (simp add: reg_def)

lemma reg_length_bounds:
  assumes "0 \<le> m"
  shows "1 \<le> reg_length g m phase i" "reg_length g m phase i \<le> 256000"
proof -
  let ?r = "g (reg_seed i phase) 0 mod (min m MAX_REG_SIZE + 1)"
  have "?r < min m MAX_REG_SIZE + 1"
    using assms by (intro pos_mod_bound) (simp add: MAX_REG_SIZE_def)
  then have "?r \<le> 256000"
    by (simp add: MAX_REG_SIZE_def)
  then show "1 \<le> reg_length g m phase i" "reg_length g m phase i \<le> 256000"
    by (simp_all add: reg_length_def MIN_REG_SIZE_def nat_le_iff)
qed

lemma smod_nonneg: "0 \<le> a \<Longrightarrow> 0 < b \<Longrightarrow> a smod b = a mod (b :: int)"
  by (cases "a = 0") (simp_all add: signed_modulo_int_def)

lemma reg_bytes_length:
  assumes "rand_like g" and "0 \<le> m"
  shows "reg_bytes (g (reg_seed i phase)) m MIN_REG_SIZE = Some (int (reg_length g m phase i))"
proof -
  let ?m = "min m MAX_REG_SIZE"
  have m: "(if m > MAX_REG_SIZE then MAX_REG_SIZE else m) = ?m" "0 < ?m + 1"
    using assms(2) by (simp_all add: min_def MAX_REG_SIZE_def)
  have r: "g (reg_seed i phase) 0 smod (?m + 1) = g (reg_seed i phase) 0 mod (?m + 1)"
    using smod_nonneg [OF _ m(2)] assms(1) by (simp add: rand_like_def)
  have "?m + 1 \<noteq> 0"
    using m(2) by linarith
  then show ?thesis
    unfolding reg_bytes_def m(1) Let_def r
    by (simp only: if_False) (simp add: reg_length_def MIN_REG_SIZE_def max_def)
qed

subsection \<open>Making and checking\<close>

lemma random_reg_ok:
  assumes "rand_like g" and "0 \<le> m"
  shows "random_reg g i data m MIN_REG_SIZE phase = Some (int (reg_length g m phase i), overlay (reg g m phase i) data)"
  using reg_bytes_length [OF assms] by (simp add: random_reg_def reg_def)

lemma check_reg_ok:
  assumes "rand_like g" and "0 \<le> m"
  shows "check_reg g i (overlay (reg g m phase i) data) (int (reg_length g m phase i)) m MIN_REG_SIZE phase = Some 0"
  using reg_bytes_length [OF assms] check_filled rand_like_i32 [OF assms(1)]
  by (simp add: check_reg_def reg_def overlay_def)

lemma random_test_loop_ok:
  assumes "rand_like g"
  shows "\<exists>data'. random_test_loop g n i data = Some (0, data') \<and> (length data = 256000 \<longrightarrow> length data' = 256000)"
proof (induction n arbitrary: i data)
  case (Suc n)
  have m: "0 \<le> MAX_REG_SIZE"
    by (simp add: MAX_REG_SIZE_def)
  have "length (overlay (reg g MAX_REG_SIZE 0 i) data) = 256000" if "length data = 256000"
    using that reg_length_bounds(2) [OF m, of g 0 i] by (simp add: overlay_def)
  then show ?case
    using Suc [of "i + 1" "overlay (reg g MAX_REG_SIZE 0 i) data"]
    by (auto simp: random_reg_ok [OF assms m] check_reg_ok [OF assms m])
qed simp

text \<open>The buffer of another length, and the register that is checked as if it were its log record: \<open>check_reg\<close> is given the
  length with the header.\<close>

lemma check_reg_length:
  assumes "rand_like g" and "0 \<le> m" and "n \<noteq> int (reg_length g m phase i)"
  shows "check_reg g i data n m MIN_REG_SIZE phase = Some (- 1)"
  using reg_bytes_length [OF assms(1,2)] assms(3) by (simp add: check_reg_def)

end
