(* ===== verification/Readers.thy ===== *)
theory Readers
  imports Example_Props
begin

text \<open>
  A reader beside the writer. An object that reads without a cache, as every object does whose cache
  sizes have not been set, keeps nothing of the files between two calls, so what the writer changes in them
  between the calls does not matter to it. Then what such a reader gets of a storage in good order whose state
  has been saved.
\<close>

subsection \<open>Objects without a cache\<close>

definition cache_free :: "base_file \<Rightarrow> bool" where
  "cache_free f \<longleftrightarrow> cache_size f = 0 \<and> cache_len f = 0"

definition uncached :: "storage \<Rightarrow> bool" where
  "uncached s \<longleftrightarrow> (\<forall>k. cache_free (files s k))"

lemma cache_free_coherent: "cache_free f \<Longrightarrow> coherent f os"
  by (simp add: cache_free_def coherent_def)

lemma cache_free_upd [simp]:
  "cache_free (f\<lparr>current_offset := x\<rparr>) = cache_free f" "cache_free (f\<lparr>last_offset := x\<rparr>) = cache_free f"
  "cache_free (checkWorkAreaSize n f) = cache_free f" "cache_free (opened fname wr f) = cache_free f"
  by (simp_all add: cache_free_def checkWorkAreaSize_def opened_def Let_def)

lemma uncached_upd [simp]:
  "uncached (s\<lparr>cursor := c\<rparr>) = uncached s" "uncached (s\<lparr>state := x\<rparr>) = uncached s"
  "uncached (s\<lparr>ss_last_offset := l\<rparr>) = uncached s" "uncached (s\<lparr>rdwr := b\<rparr>) = uncached s"
  "uncached (s\<lparr>fauto_commit := b\<rparr>) = uncached s" "uncached (set_auto_commit fl s) = uncached s"
  by (simp_all add: uncached_def set_auto_commit_def)

lemma uncached_new: "uncached ss_new"
  by (simp add: uncached_def cache_free_def)

lemma uncached_set_file: "uncached s \<Longrightarrow> cache_free f \<Longrightarrow> uncached (set_file k f s)"
  by (simp add: uncached_def set_file_def)

text \<open>Reading does not make a cache.\<close>

lemma readWorkArea_cache:
  assumes "cache_free f"
  shows "cache_free (snd (readWorkArea loff len skip b f os))"
proof -
  let ?g = "checkWorkAreaSize len f"
  have g: "cache_free ?g" "cache_size ?g = 0"
    using assms by simp (use assms in \<open>simp add: cache_free_def checkWorkAreaSize_def Let_def\<close>)
  then show ?thesis
    by (cases "bf_seek loff (i32 (len - skip)) False ?g os"; cases b)
      (simp_all add: readWorkArea_def Let_def split: prod.split)
qed

lemma read_frame_cache: "cache_free f \<Longrightarrow> cache_free (snd (read_frame loff fl da f os))"
  using readWorkArea_cache [of f loff 4 0 True os]
  by (cases "readWorkArea loff 4 0 True f os") (auto simp: read_frame_def Let_def split: result.split)

lemma bf_read_cache:
  assumes "cache_free f"
  shows "cache_free (snd (snd (bf_read loff fl da f os)))"
proof -
  obtain r f1 where r: "read_frame loff (fl OR bflags f) da f os = (r, f1)"
    by (cases "read_frame loff (fl OR bflags f) da f os")
  then have f1: "cache_free f1"
    using read_frame_cache [OF assms, of loff "fl OR bflags f" da os] by simp
  have "cache_free (snd (readWorkArea pos n skip b f1 os))" for pos n skip b
    using readWorkArea_cache [OF f1] .
  then have free: "readWorkArea pos n skip b f1 os = (x, f2) \<Longrightarrow> cache_free f2" for pos n skip b x f2
    by (metis snd_conv)
  show ?thesis
    using r f1 free by (auto simp: bf_read_def Let_def split: result.split prod.split)
qed

lemma io_read_uncached: "io_read k loff buf s d = Some (n, b, s') \<Longrightarrow> uncached s \<Longrightarrow> uncached s'"
  using bf_read_cache [of "files s k" loff 0 "da_new [(buf, word_of_nat (rec_size k))]" "d k"]
  by (auto simp: io_read_def sf_read_def bf_read_one_def uncached_def Let_def bind_eq_Some_conv
      intro!: uncached_set_file [unfolded uncached_def, rule_format] split: prod.splits)

lemma io_readIndex_uncached: "io_readIndex k i buf s d = Some (n, b, s') \<Longrightarrow> uncached s \<Longrightarrow> uncached s'"
  using bf_read_cache [of "files s k" "i * sf_sizeOf (rec_size k) (files s k)" F_CSFILE_EMPTY_DATA
      "da_new [(buf, word_of_nat (rec_size k))]" "d k"]
  by (auto simp: io_readIndex_def sf_readIndex_def sf_read_def bf_read_one_def uncached_def Let_def bind_eq_Some_conv
      intro!: uncached_set_file [unfolded uncached_def, rule_format] split: prod.splits)

lemma io_read_data_uncached: "io_read_data loff buf q n s d = Some (r, b, q', s') \<Longrightarrow> uncached s \<Longrightarrow> uncached s'"
  using bf_read_cache [of "files s DataF" loff F_CSFILE_DYNAMIC
      "da_new [(buf, word_of_nat (rec_size DataF)), (q, vlen_word n)]" "d DataF"]
  by (auto simp: io_read_data_def sf_read_data_def uncached_def Let_def bind_eq_Some_conv
      intro!: uncached_set_file [unfolded uncached_def, rule_format] split: prod.splits)

lemma loadState_uncached: "loadState s d = Some s' \<Longrightarrow> uncached s \<Longrightarrow> uncached s'"
  by (auto simp: loadState_def bind_eq_Some_conv dest: io_read_uncached)

lemma read_header_uncached: "read_header k h s d = Some (r, h', s') \<Longrightarrow> uncached s \<Longrightarrow> uncached s'"
  by (auto simp: read_header_def bind_eq_Some_conv dest: io_read_uncached)

lemma checkHashKey_uncached:
  assumes r: "checkHashKey s d = Some (r, s')" and s: "uncached s"
  shows "uncached s'"
proof -
  obtain r1 h1 s1 where a: "read_header DataF (replicate h_size 0) s d = Some (r1, h1, s1)"
    using r by (auto simp: checkHashKey_def bind_eq_Some_conv)
  obtain r2 h2 s2 where b: "read_header LogF h1 s1 d = Some (r2, h2, s2)"
    using r a by (auto simp: checkHashKey_def bind_eq_Some_conv Let_def)
  obtain r3 h3 s3 where c: "read_header IndexF h2 s2 d = Some (r3, h3, s3)"
    using r a b by (auto simp: checkHashKey_def bind_eq_Some_conv Let_def)
  have s3: "uncached s3"
    using read_header_uncached [OF c] read_header_uncached [OF b] read_header_uncached [OF a] s by blast
  obtain s4 where e: "(if rdwr s3 then Some s3 else loadState s3 d) = Some s4"
    using r a b c by (simp add: checkHashKey_def bind_eq_Some_conv Let_def)
  then have "s' = s4"
    using r a b c by (simp add: checkHashKey_def Let_def)
  then show ?thesis
    using e s3 loadState_uncached [of s3 d s4] by (simp split: if_splits)
qed

lemma ss_read_uncached:
  assumes r: "ss_read i buf n fl s d = Some (r, buf', s')" and s: "uncached s"
  shows "uncached s'"
proof -
  obtain s1 where l: "(if rdwr s then Some (s\<lparr>cursor := i\<rparr>) else loadState (s\<lparr>cursor := i\<rparr>) d) = Some s1"
    using r by (auto simp: ss_read_def bind_eq_Some_conv)
  then have s1: "uncached s1"
    using s loadState_uncached [of "s\<lparr>cursor := i\<rparr>" d s1] by (auto split: if_splits)
  obtain e b s2 where a: "io_readIndex IndexF i (enc_index zero_index) s1 d = Some (e, b, s2)"
    using r l by (auto simp: ss_read_def bind_eq_Some_conv)
  then have s2: "uncached (s2\<lparr>ss_last_offset := x\<rparr>)" "uncached s2" for x
    using io_readIndex_uncached [OF a s1] by simp_all
  have "io_read_data off h buf n (s2\<lparr>ss_last_offset := x\<rparr>) d = Some (e', h', q, s3) \<Longrightarrow> uncached s3" for off h x e' h' q s3
    using io_read_data_uncached s2(1) by blast
  then show ?thesis
    using r l a s2 by (auto simp: ss_read_def Let_def bind_eq_Some_conv split: if_splits)
qed

subsection \<open>A reader beside the writer\<close>

definition beside :: "storage \<Rightarrow> bool" where
  \<comment> \<open>an object that has been opened for reading, whatever the files are now\<close>
  "beside s \<longleftrightarrow> uncached s \<and> (\<exists>d. reader s d)"

lemma beside_reader: "beside s \<Longrightarrow> reader s d"
  by (auto simp: beside_def reader_def live_def handle_ok_def uncached_def cache_free_coherent)

lemma besideI: "reader s d \<Longrightarrow> uncached s \<Longrightarrow> beside s"
  by (auto simp: beside_def)

lemma open_beside:
  assumes acc: "accessible d" and k: "linked (st_hash_key (dec_state p)) d" and p: "rec_at 181 0 (d StateF) = Some p"
  shows "\<exists>s'. ss_open rnd fname 0 0 ss_new d = Some (E_CSTORAGE_OK, s', d) \<and> beside s'"
proof -
  obtain s' where o: "ss_open rnd fname 0 0 ss_new d = Some (E_CSTORAGE_OK, s', d)" and r: "reader s' d"
    using open_ok [OF acc example_open(4) k p refl refl, of rnd fname 0] example_open(5) by auto
  have fl: "\<not> has_flag (0 OR F_CSFILE_EXCEPTIONS) F_CSFILE_CREATE" "\<not> has_flag (0 OR F_CSFILE_EXCEPTIONS) F_CSFILE_TRUNCATE"
    "\<not> has_flag (0 OR F_CSFILE_EXCEPTIONS) F_CSFILE_WR"
    by (simp_all add: has_flag_def csfile_flags)
  have files: "open_files all_ids f (\<lambda>k. 0 OR F_CSFILE_EXCEPTIONS) s d =
      Some (Inr (), open_all f (has_flag (0 OR F_CSFILE_EXCEPTIONS) F_CSFILE_WR) s, d)" for f s
    using acc fl by (intro open_files_existing) (simp_all add: accessible_def)
  have here: "checkFilesPresent False d = 0"
    using acc by (simp add: checkFilesPresent_def all_ids_def os_access_def accessible_def)
  have "uncached (open_all f w (ss_new\<lparr>fauto_commit := b, rdwr := w'\<rparr>))" for f w b w'
    by (simp add: uncached_def open_all_def) (simp add: cache_free_def)
  then have "uncached s'"
    using o files here example_open(5)
    by (auto simp: ss_open_def Let_def bind_eq_Some_conv close_with_def E_CSTORAGE_OK_def split: if_splits
        dest!: loadState_uncached checkHashKey_uncached)
  then show ?thesis
    using o besideI [OF r] by blast
qed

text \<open>What it reads, when the state of the writer is on the disk.\<close>

lemma beside_reads:
  assumes h: "healthy s d" and sv: "saved s d" and b: "beside q" and i: "0 < i" "is_i32 i" and m: "m < 2 ^ 24"
    and v: "view (has_flag fl F_CSTORAGE_READ_MODE_MASK) s d i = Some y"
  shows "\<exists>q'. ss_read i buf (word_of_nat m) fl q d = Some (int (length y), overlay (take m y) buf, q') \<and> beside q'"
proof -
  obtain p where p: "rec_at 181 0 (d StateF) = Some p" "dec_state p = state s"
    using sv h by (auto simp: saved_def healthy_def writer_def dec_enc_state)
  obtain q' where o: "ss_read i buf (word_of_nat m) fl q d = Some (int (length y), overlay (take m y) buf, q')" "reader q' d"
    using reader_read_ok [OF beside_reader [OF b] p(1) healthy_index_sound [OF h] i m, of fl y buf] v
    by (auto simp: p(2) view_view_at)
  then show ?thesis
    using ss_read_uncached [OF o(1)] b by (auto simp: beside_def)
qed

lemma beside_misses:
  assumes h: "healthy s d" and sv: "saved s d" and b: "beside q" and i: "0 < i" "is_i32 i"
    and v: "view (has_flag fl F_CSTORAGE_READ_MODE_MASK) s d i = None" and x: "idx (d IndexF) i \<noteq> None"
  shows "\<exists>q'. ss_read i buf n fl q d = Some (E_CSTORAGE_SERIAL_NOT_FOUND, buf, q') \<and> beside q'"
proof -
  obtain p where p: "rec_at 181 0 (d StateF) = Some p" "dec_state p = state s"
    using sv h by (auto simp: saved_def healthy_def writer_def dec_enc_state)
  obtain q' where o: "ss_read i buf n fl q d = Some (E_CSTORAGE_SERIAL_NOT_FOUND, buf, q')" "reader q' d"
    using reader_read_missing [OF beside_reader [OF b] p(1) healthy_index_sound [OF h] i, of fl buf n] v x
    by (auto simp: p(2) view_view_at)
  then show ?thesis
    using ss_read_uncached [OF o(1)] b by (auto simp: beside_def)
qed

subsection \<open>A commit is not on the disk\<close>

lemma commit_view_at:
  assumes h: "healthy s d" and c: "committed_step q s d s1 d1"
  shows "view_at (commit_seq s) False d1 i = view False s d i"
proof (cases "0 < i")
  case True
  have c': "d1 IndexF = d IndexF" "grown d d1 50"
    using c by (simp_all add: committed_step_def)
  have "content d1 (version x (commit_seq s) False) = content d (version x (commit_seq s) False)" if "idx (d IndexF) i = Some x" for x
    using h True that by (intro content_version_grown [OF c'(2), of "last_seq s" i]) (simp add: healthy_def)
  then show ?thesis
    using True by (simp add: view_at_def view_def c'(1) split: option.split)
qed (simp add: view_at_def view_def)

text \<open>Property (C30): a commit does not reach the state file. If the state on the disk was that of the writer (as after
  every write) and no status record is due, all other readers of the files keep reading the content committed before,
  although for the writer everything is committed: a serial that had a committed version is read with its old
  bytes, and for one that had none the read fails.\<close>

theorem commit_not_on_disk:
  assumes h: "healthy s d" and sv: "saved s d" and m: "\<not> fauto_commit s" and r: "room s d 50"
    and due: "\<not> snapshot_due (tick_state (last_seq s + 1) (state s))"
    and i: "0 < i" "is_i32 i" and n: "n < 2 ^ 24"
  shows "\<exists>s' d'. ss_commit s d = Some (E_CSTORAGE_OK, s', d') \<and> view False s' d' = view True s d
    \<and> (\<forall>q. reader q d' \<longrightarrow>
        (case view False s d i of
           Some y \<Rightarrow> \<exists>q'. ss_read i buf (word_of_nat n) 0 q d' = Some (int (length y), overlay (take n y) buf, q')
         | None \<Rightarrow> \<exists>e q'. ss_read i buf (word_of_nat n) 0 q d' = Some (e, buf, q') \<and> e < 0))"
proof -
  obtain s' d' where o: "ss_commit s d = Some (E_CSTORAGE_OK, clearDirtySerials s', d')"
    and c: "committed_step (last_seq s + 1) s d s' d'"
    using commit_ok [OF h m r] by blast
  have "fsize (d DataF) + 50 < C_CSFILE_ENDFILE" "last_seq s \<le> last_seq s + 1"
    using r by (simp_all add: room_def disk_room_def)
  note H = committed_healthy [OF h this(1) c this(2)]
  have "d' StateF = d StateF"
    using c due by (simp add: committed_step_def)
  then obtain p where p: "rec_at 181 0 (d' StateF) = Some p" "dec_state p = state s"
    using saved_dec [OF sv h] by auto
  have mode: "\<not> has_flag 0 F_CSTORAGE_READ_MODE_MASK"
    by (simp add: has_flag_def)
  have v: "view_at (st_last_commit_sequence (dec_state p)) (has_flag 0 F_CSTORAGE_READ_MODE_MASK) d' i = view False s d i"
    using commit_view_at [OF h c] mode by (simp add: p(2))
  have ix: "index_sound d'"
    using healthy_index_sound [OF H(1)] .
  have "case view False s d i of
      Some y \<Rightarrow> \<exists>q'. ss_read i buf (word_of_nat n) 0 q d' = Some (int (length y), overlay (take n y) buf, q')
    | None \<Rightarrow> \<exists>e q'. ss_read i buf (word_of_nat n) 0 q d' = Some (e, buf, q') \<and> e < 0" if q: "reader q d'" for q
  proof (cases "view False s d i")
    case None
    then show ?thesis
      using reader_read_missing [OF q p(1) ix i, of 0 buf "word_of_nat n"] v by auto
  next
    case (Some y)
    then show ?thesis
      using reader_read_ok [OF q p(1) ix i n, of 0 y buf] v by auto
  qed
  then show ?thesis
    using H(3) by (intro exI [of _ "clearDirtySerials s'"] exI [of _ d'] conjI allI impI o) simp_all
qed

theorem commit_not_on_disk_witness:
  "\<exists>s d s' d' q. view True s d 5 = Some [1, 2, 3] \<and> ss_commit s d = Some (E_CSTORAGE_OK, s', d')
     \<and> view False s' d' 5 = Some [1, 2, 3] \<and> reader q d'
     \<and> (\<exists>e q'. ss_read 5 [0, 0, 0] (word_of_nat 3) 0 q d' = Some (e, [0, 0, 0], q') \<and> e < 0)"
proof -
  obtain s d where b: "good (s, d)" "\<not> fauto_commit s" "\<forall>k. flimit (d k) = 1000000"
    "fsize (d DataF) \<le> 200" "0 \<le> last_seq s" "last_seq s \<le> 2" "view True s d 5 = Some [1, 2, 3]" "view False s d 5 = None"
    "saved s d" "st_count (state s) = 1"
    using demo_1 by blast
  have r: "room s d 50"
    using b by (intro demo_room) simp_all
  have h: "healthy s d" and due: "\<not> snapshot_due (tick_state (last_seq s + 1) (state s))"
    using b few_not_due by simp_all
  obtain s' d' where o: "ss_commit s d = Some (E_CSTORAGE_OK, s', d')" and v: "view False s' d' = view True s d"
    and q: "\<And>q. reader q d' \<Longrightarrow> \<exists>e q'. ss_read 5 [0, 0, 0] (word_of_nat 3) 0 q d' = Some (e, [0, 0, 0], q') \<and> e < 0"
    using commit_not_on_disk [OF h b(9,2) r due, of 5 3 "[0, 0, 0]"] b(8) by (auto simp: is_i32_def)
  obtain s1 d1 where o1: "ss_commit s d = Some (E_CSTORAGE_OK, clearDirtySerials s1, d1)"
    and c: "committed_step (last_seq s + 1) s d s1 d1"
    using commit_ok [OF h b(2) r] by blast
  then have "d1 = d'"
    using o by simp
  then have st: "d' StateF = d StateF" and g: "good (s', d')"
    using c due perform_commit [OF b(1) r] o by (auto simp: committed_step_def)
  obtain p where p: "rec_at 181 0 (d' StateF) = Some p" "dec_state p = state s"
    using saved_dec [OF b(9) h] st by auto
  have "st_hash_key (state s1) = st_hash_key (state s)" "state s' = state s1"
    using c o o1 by (auto simp: committed_step_def clearDirtySerials_def)
  then have acc: "accessible d'" and key: "linked (st_hash_key (dec_state p)) d'"
    using g p(2) by simp_all
  obtain q where "reader q d'"
    using open_beside [OF acc key p(1)] beside_reader by blast
  then show ?thesis
    using b(7) o v q by metis
qed

end
