(* ===== verification/Safe_Test_Steps.thy ===== *)
theory Safe_Test_Steps
  imports Safe_Test_Regs Readers Interface Base_File_Props
begin

text \<open>
  What one step of the test program does to the storage it works on: the invariant \<open>phase\<close> says which content the
  writer and committed readers see, and how much of the disk is used at most.
\<close>

subsection \<open>An index without damaged records\<close>

text \<open>An index that has no record at an index answers a writer that there is no data, inside the file and past its end.\<close>

definition clean :: "os_file \<Rightarrow> bool" where
  "clean os \<longleftrightarrow> (\<forall>f j. f_write_mode f \<longrightarrow> 0 \<le> j \<longrightarrow> rec_at 26 j os = None \<longrightarrow> miss_code 26 j f os = E_CSFILE_EMPTY_DATA)"

lemma cleanD: "\<lbrakk> clean os; f_write_mode f; 0 \<le> j; rec_at 26 j os = None \<rbrakk> \<Longrightarrow> miss_code 26 j f os = E_CSFILE_EMPTY_DATA"
  by (simp add: clean_def)

lemma clean_put: "\<lbrakk> clean os; whole 26 os; length x = 26; 0 \<le> i \<rbrakk> \<Longrightarrow> clean (put_rec 26 i x os)"
  unfolding clean_def
proof (intro allI impI)
  fix f :: base_file and j
  assume os: "\<forall>f j. f_write_mode f \<longrightarrow> 0 \<le> j \<longrightarrow> rec_at 26 j os = None \<longrightarrow> miss_code 26 j f os = E_CSFILE_EMPTY_DATA"
    and w: "whole 26 os" "length x = 26" "0 \<le> i"
    and j: "f_write_mode f" "0 \<le> j" "rec_at 26 j (put_rec 26 i x os) = None"
  have ij: "i \<noteq> j"
    using j(3) rec_at_put_same [OF w(2,3)] by auto
  show "miss_code 26 j f (put_rec 26 i x os) = E_CSFILE_EMPTY_DATA"
    using os j rec_at_put_other [OF w j(2) ij hole_sizes(1)] miss_code_put_other [OF w j(2) ij j(1) hole_sizes(1)] by simp
qed

lemma clean_rollback:
  "\<lbrakk> clean os; whole 26 os; \<forall>i \<in> set ss. 0 \<le> i \<rbrakk> \<Longrightarrow> clean (index_rollback ss x os)"
  by (induction ss x os rule: index_rollback.induct) (simp_all add: Let_def clean_put whole_put_rec)

lemma clean_header:
  assumes "fbytes os = fixed_rec (header k key)" and "length (header k key) = 26"
  shows "clean os"
  unfolding clean_def
proof (intro allI impI)
  fix f :: base_file and j
  assume j: "f_write_mode f" "0 \<le> j" "rec_at 26 j os = None"
  have "rec_at 26 0 os = Some (header k key)"
    using assms slot_at_fixed_rec [of 0 "header k key" "fbytes os"] by (simp add: rec_at_def seg_def)
  then have "j \<noteq> 0"
    using j(3) by auto
  then have "length (fbytes os) \<le> nat j * (26 + 4)"
    using j(2) assms by simp
  then show "miss_code 26 j f os = E_CSFILE_EMPTY_DATA"
    using j(1,2) by (intro miss_code_past)
qed

subsection \<open>Room for the whole program\<close>

definition sized :: "nat \<Rightarrow> nat \<Rightarrow> storage \<Rightarrow> disk \<Rightarrow> bool" where
  \<comment> \<open>\<open>n\<close> of \<open>N\<close> operations done, each of which takes at most 256100 bytes\<close>
  "sized N n s d \<longleftrightarrow> good (s, d) \<and> \<not> fauto_commit s \<and> (\<forall>k. (N + 2) * 300000 \<le> flimit (d k)) \<and> N \<le> 60000
     \<and> n \<le> N \<and> fsize (d DataF) \<le> 21 + int n * 256100 \<and> last_seq s \<le> 4 * int n \<and> length (dirtySerials s) \<le> n
     \<and> clean (d IndexF)"

lemma sized_healthy: "sized N n s d \<Longrightarrow> healthy s d" "sized N n s d \<Longrightarrow> tidy s d"
  by (simp_all add: sized_def)

lemma sized_room:
  assumes "sized N n s d" and "n < N" and "m \<le> 256100"
  shows "room s d m"
proof -
  have f: "fsize (d DataF) \<le> 21 + int n * 256100" "last_seq s \<le> 4 * int n" "N \<le> 60000"
    and lim: "(N + 2) * 300000 \<le> flimit (d k)" for k
    using assms(1) by (auto simp: sized_def)
  have "length (fbytes (d DataF)) + m \<le> (N + 2) * 300000"
    using f(1) assms(2,3) by (simp add: fsize_def)
  moreover have "fsize (d DataF) + int m < C_CSFILE_ENDFILE"
    using f(1,3) assms(2,3) by (simp add: C_CSFILE_ENDFILE_def)
  moreover have "nat (last_seq s + 4) * 17 + 17 \<le> (N + 2) * 300000" "last_seq s + 4 \<le> 2147483647"
    using f(2,3) assms(2) by simp_all
  ultimately show ?thesis
    using lim [of DataF] lim [of LogF] lim [of StateF] by (simp add: room_def disk_room_def seq_room_def)
qed

lemma sized_grown:
  assumes s: "sized N n s d" and n: "n < N" and g: "good (s', d')" "\<not> fauto_commit s'" "grown d d' m" "m \<le> 256100"
    and l: "last_seq s' \<le> last_seq s + 4" "length (dirtySerials s') \<le> n + 1" and c: "clean (d' IndexF)"
  shows "sized N (n + 1) s' d'"
proof -
  have "fsize (d' DataF) \<le> 21 + int (n + 1) * 256100"
    using s fsize_grown [OF g(3)] g(4) by (simp add: sized_def)
  then show ?thesis
    using s n g(1,2) l c grown_limit [OF g(3)] by (simp add: sized_def)
qed

lemma sized_read:
  assumes "sized N n s d" and "only_read s s' d"
  shows "sized N n s' d" "view b s' d = view b s d" "dirtySerials s' = dirtySerials s" "saved s d \<Longrightarrow> saved s' d"
proof -
  have g: "good (s', d)" "view b s' d = view b s d"
    using assms read_keeps_good(1) [of s d s'] only_read_healthy(2) by (auto simp: sized_def)
  obtain c l where "moved (s\<lparr>cursor := c, ss_last_offset := l\<rparr>) s' d"
    using assms(2) by (auto simp: only_read_def)
  from moved_fields [OF this] show "sized N n s' d" "view b s' d = view b s d" "dirtySerials s' = dirtySerials s"
      "saved s d \<Longrightarrow> saved s' d"
    using g assms(1) by (simp_all add: sized_def saved_def)
qed

subsection \<open>Where the program stands\<close>

definition phase ::
  "nat \<Rightarrow> nat \<Rightarrow> (int \<Rightarrow> bytes option) \<Rightarrow> (int \<Rightarrow> bytes option) \<Rightarrow> int set \<Rightarrow> bool \<Rightarrow> (storage \<Rightarrow> bool) \<Rightarrow> test \<Rightarrow> bool"
where
  "phase N n cur com dirty sv second t \<longleftrightarrow> sized N n (t_ssi t) (t_disk t)
     \<and> view True (t_ssi t) (t_disk t) = cur \<and> view False (t_ssi t) (t_disk t) = com
     \<and> set (dirtySerials (t_ssi t)) = dirty \<and> (sv \<longrightarrow> saved (t_ssi t) (t_disk t))
     \<and> second (t_ssi2 t) \<and> length (t_data t) = 256000"

definition indexed :: "int set \<Rightarrow> test \<Rightarrow> bool" where
  \<comment> \<open>serials with a record in the index\<close>
  "indexed A t \<longleftrightarrow> (\<forall>i \<in> A. 0 < i \<and> is_i32 i \<and> idx (t_disk t IndexF) i \<noteq> None)"

lemma indexed_disk: "indexed A t \<Longrightarrow> t_disk t' = t_disk t \<Longrightarrow> indexed A t'"
  by (simp add: indexed_def)

definition put_regs ::
  "generator \<Rightarrow> int \<Rightarrow> int \<Rightarrow> int \<Rightarrow> int \<Rightarrow> (int \<Rightarrow> bytes option) \<Rightarrow> int \<Rightarrow> bytes option" where
  "put_regs g m ph from to v = (\<lambda>j. if from \<le> j \<and> j \<le> to then Some (reg g m ph j) else v j)"

lemma put_regs_step:
  "from \<le> to \<Longrightarrow> put_regs g m ph (from + 1) to (v(from := Some (reg g m ph from))) = put_regs g m ph from to v"
  by (auto simp: put_regs_def)

lemma put_regs_one: "put_regs g m ph i i v = v(i := Some (reg g m ph i))"
  by (auto simp: put_regs_def)

lemma put_regs_empty [simp]: "to < from \<Longrightarrow> put_regs g m ph from to v = v"
  by (rule ext) (auto simp: put_regs_def)

lemma view_indexed: "view b s d i = Some y \<Longrightarrow> 0 < i \<and> idx (d IndexF) i \<noteq> None"
  by (auto simp: view_def split: if_splits option.splits)

lemma phase_indexed:
  assumes "phase N n cur com dirty sv second t" and "\<And>i. i \<in> A \<Longrightarrow> is_i32 i \<and> cur i \<noteq> None"
  shows "indexed A t"
  unfolding indexed_def
proof
  fix i assume i: "i \<in> A"
  then have "view True (t_ssi t) (t_disk t) i \<noteq> None"
    using assms by (simp add: phase_def)
  then show "0 < i \<and> is_i32 i \<and> idx (t_disk t IndexF) i \<noteq> None"
    using assms(2) [OF i] view_indexed by blast
qed

subsection \<open>Writing\<close>

lemma write_reg_ok:
  assumes s: "sized N n s d" and n: "n < N" and i: "0 < i" "i \<le> 10 * int N" "i \<notin> set (dirtySerials s)"
    and y: "length y \<le> 256000"
  shows "\<exists>s' d'. ss_write i (Some y) (word_of_nat (length y)) s d = Some (int (length y), s', d')
    \<and> sized N (n + 1) s' d' \<and> view True s' d' = (view True s d)(i := Some y) \<and> view False s' d' = view False s d
    \<and> set (dirtySerials s') = insert i (set (dirtySerials s)) \<and> saved s' d'
    \<and> (\<exists>x. length x = 26 \<and> d' IndexF = put_rec 26 i x (d IndexF)) \<and> commit_seq s' = commit_seq s
    \<and> (0 \<le> st_count (state s) \<and> st_count (state s) \<le> 40 \<longrightarrow> st_count (state s') = st_count (state s) + 1)"
proof -
  have g: "good (s, d)" "\<not> fauto_commit s" and h: "healthy s d" and t: "tidy s d" and lim: "(N + 2) * 300000 \<le> flimit (d IndexF)"
    and N: "N \<le> 60000"
    using s by (simp_all add: sized_def)
  have r: "nat i * 30 + 30 \<le> flimit (d IndexF)" "is_i32 i"
    using lim i N by (simp_all add: is_i32_def)
  then have can: "can_write s d i (length y)"
    using sized_room [OF s n, of "length y + 50"] y i by (simp add: can_write_def)
  obtain s' d' where o: "ss_write i (Some y) (word_of_nat (length y)) s d = Some (int (length y), s', d')"
    and w: "wrote (write_reg s i (word_of_nat (length y))) y s d s' d'"
    using write_ok [OF h can] by blast
  have g': "good (s', d')" "view True s' d' = (view True s d)(i := Some y)" "view False s' d' = view False s d"
    using perform_put [OF g(1) can i(3)] o write_healthy(2) [OF h can w] write_committed_view [OF h t can w i(3) g(2)] by auto
  have f: "\<not> fauto_commit s'" "last_seq s' \<le> last_seq s + 4" "dirtySerials s' = dirtySerials s @ [i]"
      "grown d d' (length y + 50)" "saved s' d'"
    using w g(2) by (simp_all add: wrote_def)
  have "length (dirtySerials s') \<le> n + 1"
    using f(3) s by (simp add: sized_def)
  moreover have "length (enc_index x) = 26" for x
    by simp
  then have put: "\<exists>x. length x = 26 \<and> d' IndexF = put_rec 26 i x (d IndexF)"
    using w unfolding wrote_def write_reg_fields by blast
  moreover have "whole 26 (d IndexF)" "clean (d IndexF)"
    using h s by (simp_all add: healthy_def sized_def)
  then have "clean (d' IndexF)"
    using put clean_put i(1) by auto
  ultimately have "sized N (n + 1) s' d'"
    using sized_grown [OF s n g'(1) f(1,4) _ f(2)] y by simp
  moreover note put
  moreover have "commit_seq s' = commit_seq s"
    using w by (simp add: wrote_def)
  moreover have "st_count (state s') = st_count (state s) + 1" if "0 \<le> st_count (state s)" "st_count (state s) \<le> 40"
    using w few_not_due [OF that] that by (simp add: wrote_def is_i32_def)
  ultimately show ?thesis
    using o g'(2,3) f(3,5) by auto
qed

lemma write_registers_ok:
  assumes g: "rand_like g" and m: "0 \<le> m" and to: "to \<le> 10 * int N"
    and "sized N n s d" and "0 < from" and "from \<le> to + 1" and "n + nat (to + 1 - from) \<le> N"
    and "{from..to} \<inter> set (dirtySerials s) = {}" and "length data = 256000"
  shows "\<exists>data' s' d'. write_registers_loop g k from to 0 m ph 0 data s d = Some (0, data', s', d')
    \<and> sized N (n + nat (to + 1 - from)) s' d' \<and> view True s' d' = put_regs g m ph from to (view True s d)
    \<and> view False s' d' = view False s d \<and> set (dirtySerials s') = set (dirtySerials s) \<union> {from..to}
    \<and> (from \<le> to \<or> saved s d \<longrightarrow> saved s' d') \<and> length data' = 256000"
  using assms(4-9)
proof (induction "nat (to + 1 - from)" arbitrary: n k "from" data s d)
  case 0
  then show ?case
    by (subst write_registers_loop.simps) simp
next
  case (Suc l)
  let ?y = "reg g m ph from" and ?data = "overlay (reg g m ph from) data"
  have le: "from \<le> to" and l: "l = nat (to + 1 - (from + 1))" "nat (to + 1 - from) = l + 1"
    using Suc(2) by linarith+
  have y: "length ?y \<le> 256000" "take (length ?y) ?data = ?y" "length ?data = 256000"
    using reg_length_bounds(2) [OF m] Suc(8) by (simp_all add: overlay_def)
  have f: "from \<notin> set (dirtySerials s)" "from \<le> 10 * int N" "n < N"
    using Suc(6,7) le to l(2) by auto
  have N: "N \<le> 60000"
    using Suc(3) by (simp add: sized_def)
  obtain s1 d1 where w: "ss_write from (Some ?y) (word_of_nat (length ?y)) s d = Some (int (length ?y), s1, d1)"
    and s1: "sized N (n + 1) s1 d1" "view True s1 d1 = (view True s d)(from := Some ?y)" "view False s1 d1 = view False s d"
      "set (dirtySerials s1) = insert from (set (dirtySerials s))" "saved s1 d1"
    using write_reg_ok [OF Suc(3) f(3) Suc(4) f(2,1) y(1)] by blast
  have "{from + 1..to} \<subseteq> {from..to}" "from \<notin> {from + 1..to}"
    by auto
  then have d1: "{from + 1..to} \<inter> set (dirtySerials s1) = {}"
    using Suc(7) unfolding s1(4) by blast
  have d2: "n + 1 + nat (to + 1 - (from + 1)) \<le> N"
    using Suc(6) l by simp
  obtain data' s' d' where r: "write_registers_loop g (i32 (k + 1)) (from + 1) to 0 m ph 0 ?data s1 d1 = Some (0, data', s', d')"
    and s': "sized N (n + 1 + nat (to + 1 - (from + 1))) s' d'"
      "view True s' d' = put_regs g m ph (from + 1) to (view True s1 d1)" "view False s' d' = view False s1 d1"
      "set (dirtySerials s') = set (dirtySerials s1) \<union> {from + 1..to}" "saved s' d'" "length data' = 256000"
    using Suc(1) [OF l(1) s1(1) _ _ d2 d1 y(3), of "i32 (k + 1)"] Suc(4) le s1(5) by auto
  have i: "i32 (from + 1) = from + 1" "insert from {from + 1..to} = {from..to}"
    using le to N Suc(4) by (auto simp: is_i32_def)
  have "write_registers_loop g k from to 0 m ph 0 data s d = Some (0, data', s', d')"
    using w r i(1) le y(2) by (subst write_registers_loop.simps) (simp add: random_reg_ok [OF g m])
  moreover have "set (dirtySerials s') = set (dirtySerials s) \<union> {from..to}"
    using s'(4) s1(4) i(2) by blast
  moreover have "n + 1 + nat (to + 1 - (from + 1)) = n + nat (to + 1 - from)"
    using l by linarith
  from s'(1) [unfolded this] have "sized N (n + nat (to + 1 - from)) s' d'" .
  moreover have "view True s' d' = put_regs g m ph from to (view True s d)"
    using s'(2) s1(2) put_regs_step [OF le] by simp
  ultimately show ?case
    using s'(3,5,6) s1(3) by auto
qed

lemma t_write_ok:
  assumes g: "rand_like g" and m: "0 \<le> m" and p: "phase N n cur com dirty sv second t"
    and r: "0 < from" "from \<le> to + 1" "to \<le> 10 * int N" "n + nat (to + 1 - from) \<le> N" "{from..to} \<inter> dirty = {}"
  shows "\<exists>t'. t_write g from to m ph t = Some (0, t')
    \<and> phase N (n + nat (to + 1 - from)) (put_regs g m ph from to cur) com (dirty \<union> {from..to}) (from \<le> to \<or> sv) second t'"
  using write_registers_ok [OF g m r(3), of n "t_ssi t" "t_disk t" "from" "t_data t" 0 ph] p r
  by (auto simp: phase_def t_write_def write_registers_def)

subsection \<open>Ending a transaction\<close>

lemma t_commit_ok:
  assumes p: "phase N n cur com dirty sv second t" and n: "n < N"
  shows "\<exists>t'. t_commit t = Some (0, t') \<and> phase N (n + 1) cur cur {} False second t'"
proof -
  let ?s = "t_ssi t" and ?d = "t_disk t"
  have s: "sized N n ?s ?d" and g: "good (?s, ?d)" and m: "\<not> fauto_commit ?s" and h: "healthy ?s ?d"
    using p by (simp_all add: phase_def sized_def)
  have r: "room ?s ?d 50"
    using sized_room [OF s n] by simp
  obtain s1 d1 where o: "ss_commit ?s ?d = Some (E_CSTORAGE_OK, clearDirtySerials s1, d1)"
    and c: "committed_step (last_seq ?s + 1) ?s ?d s1 d1"
    using commit_ok [OF h m r] by blast
  have g1: "good (clearDirtySerials s1, d1)" "abstract (clearDirtySerials s1, d1) = spec_step Commit (abstract (?s, ?d))"
    using perform_commit [OF g r] o by auto
  have "sized N (n + 1) (clearDirtySerials s1) d1"
    by (rule sized_grown [OF s n g1(1), of 50]) (use c m s in \<open>simp_all add: committed_step_def sized_def\<close>)
  then show ?thesis
    using o p g1(2) m by (auto simp: t_commit_def phase_def abstract_def E_CSTORAGE_OK_def)
qed

lemma t_rollback_ok:
  assumes p: "phase N n cur com dirty sv second t" and n: "n < N"
  shows "\<exists>t'. t_rollback t = Some (0, t') \<and> phase N (n + 1) com com {} False second t'"
proof -
  let ?s = "t_ssi t" and ?d = "t_disk t"
  have s: "sized N n ?s ?d" and g: "good (?s, ?d)" and m: "\<not> fauto_commit ?s" and h: "healthy ?s ?d" and t: "tidy ?s ?d"
    using p by (simp_all add: phase_def sized_def)
  have len: "4 * length (dirtySerials ?s) + 104 \<le> 256100"
    using s n by (simp add: sized_def)
  have r: "room ?s ?d (4 * length (dirtySerials ?s) + 104)"
    using sized_room [OF s n len] .
  have n24: "4 * (length (dirtySerials ?s) + 1) < 2 ^ 24"
    using len by simp
  obtain s1 d1 where o: "ss_rollback ?s ?d = Some (E_CSTORAGE_OK, clearDirtySerials s1, d1)"
    and f: "fauto_commit s1 = fauto_commit ?s" "last_seq s1 \<le> last_seq ?s + 4"
      "d1 IndexF = index_rollback (dirtySerials ?s) zero_index (?d IndexF)"
      "grown ?d d1 (4 * length (dirtySerials ?s) + 104)"
    using rollback_ok [OF h t m r n24] by blast
  have g1: "good (clearDirtySerials s1, d1)" "abstract (clearDirtySerials s1, d1) = spec_step Rollback (abstract (?s, ?d))"
    using perform_rollback [OF g r n24] o by auto
  have "whole 26 (?d IndexF)" "clean (?d IndexF)" "\<forall>i \<in> set (dirtySerials ?s). 0 \<le> i"
    using h t s by (auto simp: healthy_def tidy_def sized_def)
  then have "clean (d1 IndexF)"
    unfolding f(3) by (intro clean_rollback)
  then have "sized N (n + 1) (clearDirtySerials s1) d1"
    by (intro sized_grown [OF s n g1(1) _ f(4) len]) (use f m in simp_all)
  then show ?thesis
    using o p g1(2) m by (auto simp: t_rollback_def phase_def abstract_def E_CSTORAGE_OK_def)
qed

subsection \<open>Verifying\<close>

text \<open>One loop for both objects: \<open>P\<close> is what reading keeps of the object.\<close>

definition accepted :: "generator \<Rightarrow> int \<Rightarrow> int \<Rightarrow> int \<Rightarrow> int \<Rightarrow> int \<times> bytes \<Rightarrow> bool" where
  "accepted g m ph ecode i = (\<lambda>(e, data).
     ecode = 0 \<and> 0 \<le> e \<and> check_reg g i data e m MIN_REG_SIZE ph = Some 0 \<or> ecode < 0 \<and> e = ecode)"

lemma verify_loop_ok:
  assumes read: "\<And>i data s. \<lbrakk> lo \<le> i; i \<le> to; P s; length data = 256000 \<rbrakk> \<Longrightarrow>
      \<exists>e data' s'. ss_read i data 256000 fl s d = Some (e, data', s') \<and> P s' \<and> length data' = 256000
        \<and> accepted g m ph ecode i (e, data')"
    and lo: "0 < lo" and to: "to < 2147483647"
    and "P s" and "lo \<le> from" and "length data = 256000"
  shows "\<exists>data' s'. verify_registers_loop g 1 from to m fl ecode ph data s d = Some (0, data', s') \<and> P s' \<and> length data' = 256000"
  using assms(4-)
proof (induction "nat (to + 1 - from)" arbitrary: "from" data s)
  case 0
  then show ?case
    by (subst verify_registers_loop.simps) simp
next
  case (Suc l)
  have le: "from \<le> to" and l: "l = nat (to + 1 - (from + 1))" and i: "i32 (from + 1) = from + 1"
    using Suc(2) Suc(4) lo to by (auto simp: is_i32_def)
  obtain e data1 s1 where r: "ss_read from data 256000 fl s d = Some (e, data1, s1)" "P s1" "length data1 = 256000"
    "accepted g m ph ecode from (e, data1)"
    using read [OF Suc(4) le Suc(3,5)] by blast
  obtain data' s' where "verify_registers_loop g 1 (from + 1) to m fl ecode ph data1 s1 d = Some (0, data', s')" "P s'"
    "length data' = 256000"
    using Suc(1) [OF l r(2) _ r(3)] Suc(4) by auto
  then show ?case
    using r(1,4) le i by (subst verify_registers_loop.simps) (auto simp: accepted_def)
qed

lemma accepted_reg:
  assumes "rand_like g" and "0 \<le> m" and "length data = 256000"
  shows "accepted g m ph 0 i (int (reg_length g m ph i), overlay (take 256000 (reg g m ph i)) data)"
    and "length (overlay (take 256000 (reg g m ph i)) data) = 256000"
  using check_reg_ok [OF assms(1,2)] reg_length_bounds(2) [OF assms(2), of g ph i] assms(3)
  by (simp_all add: accepted_def overlay_def)

lemma missing_accepted: "accepted g m ph E_CSTORAGE_SERIAL_NOT_FOUND i (E_CSTORAGE_SERIAL_NOT_FOUND, data)"
  by (simp add: accepted_def E_CSTORAGE_SERIAL_NOT_FOUND_def)

lemma verify_up: "0 \<le> to \<Longrightarrow> verify_registers g from to m fl ecode ph data s d =
    verify_registers_loop g 1 from to m fl ecode ph data s d"
  by (simp add: verify_registers_def)

text \<open>The writer reads what it has written last, whatever the flags.\<close>

definition stays :: "nat \<Rightarrow> nat \<Rightarrow> storage \<Rightarrow> disk \<Rightarrow> storage \<Rightarrow> bool" where
  "stays N n s d s' \<longleftrightarrow> sized N n s' d \<and> (\<forall>b. view b s' d = view b s d) \<and> dirtySerials s' = dirtySerials s
     \<and> (saved s d \<longrightarrow> saved s' d)"

lemma stays_read: "stays N n s d s1 \<Longrightarrow> only_read s1 s2 d \<Longrightarrow> stays N n s d s2"
  using sized_read [of N n s1 d s2] by (auto simp: stays_def)

lemma phase_stays:
  assumes "phase N n cur com dirty sv second t"
  shows "stays N n (t_ssi t) (t_disk t) (t_ssi t)"
    and "stays N n (t_ssi t) (t_disk t) s \<Longrightarrow> length data = 256000 \<Longrightarrow>
      phase N n cur com dirty sv second (t\<lparr>t_ssi := s, t_data := data\<rparr>)"
  using assms by (auto simp: phase_def stays_def)

lemma t_verify_ok:
  assumes g: "rand_like g" and m: "0 \<le> m" and p: "phase N n cur com dirty sv second t"
    and r: "0 < from" "0 \<le> to" "to < 2147483647" and v: "\<And>i. from \<le> i \<Longrightarrow> i \<le> to \<Longrightarrow> cur i = Some (reg g m ph i)"
  shows "\<exists>t'. t_verify g from to m fl 0 ph t = Some (0, t') \<and> phase N n cur com dirty sv second t' \<and> t_disk t' = t_disk t"
proof -
  let ?s = "t_ssi t" and ?d = "t_disk t"
  have "\<exists>e data' s'. ss_read i data 256000 fl s ?d = Some (e, data', s') \<and> stays N n ?s ?d s'
      \<and> length data' = 256000 \<and> accepted g m ph 0 i (e, data')"
    if i: "from \<le> i" "i \<le> to" and s: "stays N n ?s ?d s" "length data = 256000" for i data s
  proof -
    have "view True s ?d i = Some (reg g m ph i)" "healthy s ?d" "is_i32 i" "0 < i"
      using p s(1) v [OF i] i r by (simp_all add: phase_def stays_def sized_def is_i32_def)
    then obtain s' where "ss_read i data (word_of_nat 256000) fl s ?d =
        Some (int (length (reg g m ph i)), overlay (take 256000 (reg g m ph i)) data, s')" "only_read s s' ?d"
      using read_ok [of s ?d i "reg g m ph i" 256000 data fl] by auto
    then show ?thesis
      using accepted_reg [OF g m s(2)] stays_read [OF s(1)] by auto
  qed
  from verify_loop_ok [OF this r(1,3) phase_stays(1) [OF p] order_refl] p show ?thesis
    using phase_stays(2) [OF p] by (fastforce simp: t_verify_def verify_up [OF r(2)] phase_def)
qed

lemma t_verify_missing:
  assumes p: "phase N n cur com dirty sv second t" and r: "0 < from" "0 \<le> to" "to < 2147483647"
    and v: "\<And>i. from \<le> i \<Longrightarrow> i \<le> to \<Longrightarrow> cur i = None"
  shows "\<exists>t'. t_verify g from to m fl E_CSTORAGE_SERIAL_NOT_FOUND ph t = Some (0, t')
    \<and> phase N n cur com dirty sv second t' \<and> t_disk t' = t_disk t"
proof -
  let ?s = "t_ssi t" and ?d = "t_disk t"
  have "\<exists>e data' s'. ss_read i data 256000 fl s ?d = Some (e, data', s') \<and> stays N n ?s ?d s'
      \<and> length data' = 256000 \<and> accepted g m ph E_CSTORAGE_SERIAL_NOT_FOUND i (e, data')"
    if i: "from \<le> i" "i \<le> to" and s: "stays N n ?s ?d s" "length data = 256000" for i data s
  proof -
    have "view True s ?d i = None" and h: "healthy s ?d" and "is_i32 i" "0 < i" and c: "clean (?d IndexF)"
      using p s(1) v [OF i] i r by (simp_all add: phase_def stays_def sized_def is_i32_def)
    moreover have "f_write_mode (files s IndexF)"
      using h by (simp add: healthy_def writer_def)
    then have "idx (?d IndexF) i \<noteq> None \<or> miss_code 26 i (files s IndexF) (?d IndexF) = E_CSFILE_EMPTY_DATA"
      using cleanD [OF c, of "files s IndexF" i] \<open>0 < i\<close> by (cases "rec_at 26 i (?d IndexF)") (simp_all add: idx_def)
    ultimately obtain s' where "ss_read i data 256000 fl s ?d = Some (E_CSTORAGE_SERIAL_NOT_FOUND, data, s')" "only_read s s' ?d"
      using read_missing [of s ?d i data 256000 fl] by auto
    then show ?thesis
      using missing_accepted stays_read [OF s(1)] s(2) by auto
  qed
  from verify_loop_ok [OF this r(1,3) phase_stays(1) [OF p] order_refl] p show ?thesis
    using phase_stays(2) [OF p] by (fastforce simp: t_verify_def verify_up [OF r(2)] phase_def)
qed

subsection \<open>Opening, and the second object\<close>

lemma test_flags: "has_flag (F_CSTORAGE_WR OR F_CSTORAGE_CREATE) F_CSTORAGE_WR"
    "has_flag (F_CSTORAGE_WR OR F_CSTORAGE_CREATE) F_CSTORAGE_CREATE"
    "\<not> has_flag ((F_CSTORAGE_WR OR F_CSTORAGE_CREATE) OR F_CSFILE_EXCEPTIONS) F_CSTORAGE_AUTO_COMMIT"
    "\<not> has_flag F_CSTORAGE_COMMITED_READ F_CSTORAGE_READ_MODE_MASK"
    "has_flag F_CSTORAGE_DIRTY_READ F_CSTORAGE_READ_MODE_MASK"
  by (simp_all add: has_flag_def csfile_flags F_CSTORAGE_CREATE_def F_CSTORAGE_WR_def F_CSTORAGE_AUTO_COMMIT_def
      F_CSTORAGE_COMMITED_READ_def F_CSTORAGE_DIRTY_READ_def F_CSTORAGE_READ_MODE_MASK_def)

lemma t_open_ok:
  assumes "blank_disk (t_disk t)" and "\<forall>k. (N + 2) * 300000 \<le> flimit (t_disk t k)" and "N \<le> 60000"
    and "t_ssi t = ss_new" and "second (t_ssi2 t)" and "length (t_data t) = 256000"
  shows "\<exists>t'. t_open rnd fname (F_CSTORAGE_WR OR F_CSTORAGE_CREATE) t = Some (0, t')
    \<and> phase N 0 Map.empty Map.empty {} True second t'"
proof -
  let ?fl = "F_CSTORAGE_WR OR F_CSTORAGE_CREATE"
  obtain s' d' where o: "ss_open rnd fname ?fl 0 ss_new (t_disk t) = Some (E_CSTORAGE_OK, s', d')"
    and b: "brand_new (if has_flag (?fl OR F_CSFILE_EXCEPTIONS) F_CSTORAGE_SET_HASH_KEY then 0 else rnd) s' d'"
    and l: "\<forall>k. flimit (d' k) = flimit (t_disk t k)" "\<not> fauto_commit s'"
    using create_ok [OF assms(1) test_flags(1,2) refl] test_flags(3) by blast
  have "sized N 0 s' d'"
    using brand_new_good [OF b] b l assms(2,3) clean_header [of "d' IndexF" IndexF]
    by (simp add: sized_def brand_new_def length_header)
  moreover have "view w s' d' = Map.empty" for w
    using b by (auto simp: brand_new_def)
  ultimately show ?thesis
    using o b assms(4-6) by (auto simp: t_open_def phase_def brand_new_def E_CSTORAGE_OK_def)
qed

lemma t_open2_ok:
  assumes p: "phase N n cur com dirty True (\<lambda>s. s = ss_new) t"
  shows "\<exists>t'. t_open2 fname t = Some (0, t') \<and> phase N n cur com dirty True beside t' \<and> t_disk t' = t_disk t"
proof -
  let ?s = "t_ssi t" and ?d = "t_disk t"
  have g: "good (?s, ?d)" and sv: "saved ?s ?d" and h: "healthy ?s ?d" and new: "t_ssi2 t = ss_new"
    using p by (simp_all add: phase_def sized_def)
  obtain q where q: "rec_at 181 0 (?d StateF) = Some q" "dec_state q = state ?s"
    using saved_dec [OF sv h] by blast
  have "accessible ?d" "linked (st_hash_key (dec_state q)) ?d"
    using g q(2) by simp_all
  from open_beside [OF this q(1), of 0 fname] show ?thesis
    using p new by (auto simp: t_open2_def phase_def E_CSTORAGE_OK_def)
qed

lemma t_verify2_ok:
  assumes g: "rand_like g" and m: "0 \<le> m" and p: "phase N n cur com dirty True beside t"
    and r: "0 < from" "0 \<le> to" "to < 2147483647"
    and v: "\<And>i. from \<le> i \<Longrightarrow> i \<le> to \<Longrightarrow>
      (if has_flag fl F_CSTORAGE_READ_MODE_MASK then cur i else com i) = Some (reg g m ph i)"
  shows "\<exists>t'. t_verify2 g from to m fl 0 ph t = Some (0, t') \<and> phase N n cur com dirty True beside t' \<and> t_disk t' = t_disk t"
proof -
  let ?s = "t_ssi t" and ?d = "t_disk t"
  have h: "healthy ?s ?d" and sv: "saved ?s ?d"
    using p by (simp_all add: phase_def sized_def)
  have "\<exists>e data' s'. ss_read i data 256000 fl q ?d = Some (e, data', s') \<and> beside s'
      \<and> length data' = 256000 \<and> accepted g m ph 0 i (e, data')"
    if i: "from \<le> i" "i \<le> to" and q: "beside q" "length data = 256000" for i data q
  proof -
    have "view (has_flag fl F_CSTORAGE_READ_MODE_MASK) ?s ?d i = Some (reg g m ph i)" "is_i32 i" "0 < i"
      using p v [OF i] i r by (simp_all add: phase_def is_i32_def split: if_splits)
    then obtain q' where "ss_read i data (word_of_nat 256000) fl q ?d =
        Some (int (length (reg g m ph i)), overlay (take 256000 (reg g m ph i)) data, q')" "beside q'"
      using beside_reads [OF h sv q(1), of i 256000 fl "reg g m ph i" data] by auto
    then show ?thesis
      using accepted_reg [OF g m q(2)] by auto
  qed
  from verify_loop_ok [OF this r(1,3) _ order_refl] p show ?thesis
    by (fastforce simp: t_verify2_def verify_up [OF r(2)] phase_def)
qed

lemma t_verify2_missing:
  assumes p: "phase N n cur com dirty True beside t" and r: "0 < from" "0 \<le> to" "to < 2147483647"
    and x: "indexed {from..to} t" and fl: "\<not> has_flag fl F_CSTORAGE_READ_MODE_MASK"
    and v: "\<And>i. from \<le> i \<Longrightarrow> i \<le> to \<Longrightarrow> com i = None"
  shows "\<exists>t'. t_verify2 g from to m fl E_CSTORAGE_SERIAL_NOT_FOUND ph t = Some (0, t')
    \<and> phase N n cur com dirty True beside t' \<and> t_disk t' = t_disk t"
proof -
  let ?s = "t_ssi t" and ?d = "t_disk t"
  have h: "healthy ?s ?d" and sv: "saved ?s ?d"
    using p by (simp_all add: phase_def sized_def)
  have "\<exists>e data' s'. ss_read i data 256000 fl q ?d = Some (e, data', s') \<and> beside s'
      \<and> length data' = 256000 \<and> accepted g m ph E_CSTORAGE_SERIAL_NOT_FOUND i (e, data')"
    if i: "from \<le> i" "i \<le> to" and q: "beside q" "length data = 256000" for i data q
  proof -
    have "view False ?s ?d i = None" "is_i32 i" "0 < i" "idx (?d IndexF) i \<noteq> None"
      using p v [OF i] i r x by (simp_all add: phase_def is_i32_def indexed_def)
    then obtain q' where "ss_read i data 256000 fl q ?d = Some (E_CSTORAGE_SERIAL_NOT_FOUND, data, q')" "beside q'"
      using beside_misses [OF h sv q(1), of i fl data 256000] fl by auto
    then show ?thesis
      using missing_accepted q(2) by auto
  qed
  from verify_loop_ok [OF this r(1,3) _ order_refl] p show ?thesis
    by (fastforce simp: t_verify2_def verify_up [OF r(2)] phase_def)
qed

end
