(* ===== verification/Safe_Test_Props.thy ===== *)
theory Safe_Test_Props
  imports Safe_Test_Steps
begin

text \<open>The parts of the test program one after the other, and the whole: every call gives what is expected of it.\<close>

subsection \<open>Lists of steps\<close>

text \<open>What the calls of the program are expected to return, also those whose result the program does not look at.\<close>

fun step_call :: "step \<Rightarrow> test_call" where
  "step_call (CHECK_OP p R) = p"
| "step_call (DO_TEST_TITLE p) = p"
| "step_call (no_check p) = p"

fun expected :: "step \<Rightarrow> int" where
  "expected (CHECK_OP p R) = R"
| "expected (DO_TEST_TITLE p) = 0"
| "expected (no_check p) = 0"

fun as_expected :: "step list \<Rightarrow> test \<Rightarrow> test option" where
  \<comment> \<open>the state after the calls, when all of them return what is expected\<close>
  "as_expected [] t = Some t"
| "as_expected (p # ps) t =
     (case step_call p t of None \<Rightarrow> None | Some (r, t') \<Rightarrow> if r = expected p then as_expected ps t' else None)"

lemma as_expected_append: "as_expected (ps @ qs) t = Option.bind (as_expected ps t) (as_expected qs)"
  by (induction ps arbitrary: t) (auto split: option.split)

lemma as_expected_then: "as_expected ps t = Some t' \<Longrightarrow> as_expected qs t' = r \<Longrightarrow> as_expected (ps @ qs) t = r"
  by (simp add: as_expected_append)

lemma as_expected_steps: "as_expected ps t = Some t' \<Longrightarrow> steps ps t = Some (Inr t')"
proof (induction ps arbitrary: t)
  case (Cons p ps)
  then show ?case
    by (cases p) (auto split: option.splits if_splits)
qed simp

subsection \<open>Part 3: registers of every size\<close>

fun sized_regs :: "generator \<Rightarrow> int \<Rightarrow> int \<Rightarrow> int list \<Rightarrow> (int \<Rightarrow> bytes option) \<Rightarrow> int \<Rightarrow> bytes option" where
  "sized_regs g T index [] v = v"
| "sized_regs g T index (z # zs) v = sized_regs g T (index + T) zs (put_regs g z 0 index (index + T - 1) v)"

lemma sized_regs_below: "0 \<le> T \<Longrightarrow> j < index \<Longrightarrow> sized_regs g T index zs v j = v j"
  by (induction zs arbitrary: index v) (auto simp: put_regs_def)

lemma sized_regs_above: "0 \<le> T \<Longrightarrow> index + T * int (length zs) \<le> j \<Longrightarrow> sized_regs g T index zs v j = v j"
proof (induction zs arbitrary: index v)
  case (Cons z zs)
  have "0 \<le> T * int (length zs)" "index + T + T * int (length zs) \<le> j"
    using Cons.prems by (simp_all add: algebra_simps)
  moreover from this have "index + T \<le> j"
    by linarith
  ultimately show ?case
    using Cons.IH [of "index + T"] Cons.prems(1) by (simp add: put_regs_def)
qed simp

lemma index_after_len:
  "0 \<le> T \<Longrightarrow> 0 \<le> index \<Longrightarrow> index + T * int (length zs) \<le> 2147483647 \<Longrightarrow>
     index_after T index zs = index + T * int (length zs)"
proof (induction zs arbitrary: index)
  case (Cons z zs)
  have "0 \<le> T * int (length zs)" "index + T + T * int (length zs) \<le> 2147483647"
    using Cons.prems by (simp_all add: algebra_simps)
  then have "index + T \<le> 2147483647"
    by linarith
  then have "is_i32 (index + T)"
    using Cons.prems(1,2) by (simp add: is_i32_def)
  then show ?case
    using Cons.IH [of "index + T"] Cons.prems by (simp add: algebra_simps)
qed simp

lemma write_sizes_ok:
  assumes g: "rand_like g" and T: "1 \<le> T" and "\<forall>z \<in> set zs. 0 \<le> z" and "0 < index"
    and "index + T * int (length zs) \<le> 10 * int N" and "n + nat (T + 1) * length zs \<le> N" and N: "N \<le> 60000"
    and "phase N n v v {} sv second t"
  shows "\<exists>t' sv'. as_expected (write_sizes g T index zs) t = Some t'
    \<and> phase N (n + nat (T + 1) * length zs) (sized_regs g T index zs v) (sized_regs g T index zs v) {} sv' second t'"
  using assms(3-6,8)
proof (induction zs arbitrary: index n v sv t)
  case Nil
  then show ?case
    by auto
next
  case (Cons z zs)
  let ?to = "index + T - 1" and ?v = "put_regs g z 0 index (index + T - 1) v"
  have z: "0 \<le> z" and len: "index + T + T * int (length zs) \<le> 10 * int N" "0 \<le> T * int (length zs)"
    using Cons.prems(1,3) T by (simp_all add: algebra_simps)
  have "index + T \<le> 10 * int N"
    using len by linarith
  then have i: "i32 (index + (T - 1)) = ?to" "i32 (index + T) = index + T"
    using Cons.prems(2) T N by (simp_all add: is_i32_def)
  have nT: "nat (?to + 1 - index) = nat T" "nat (T + 1) = nat T + 1"
    using T by (simp_all add: nat_add_distrib)
  have n: "n + nat T + 1 + nat (T + 1) * length zs \<le> N"
    using Cons.prems(4) nT(2) by (simp add: algebra_simps)
  obtain t1 where a: "t_write g index ?to z 0 t = Some (0, t1)"
    and p1: "phase N (n + nat T) ?v v ({} \<union> {index..?to}) (index \<le> ?to \<or> sv) second t1"
    using t_write_ok [OF g z Cons.prems(5) Cons.prems(2), of ?to 0] len T n nT(1) by auto
  obtain t2 where b: "t_commit t1 = Some (0, t2)" and p2: "phase N (n + nat T + 1) ?v ?v {} False second t2"
    using t_commit_ok [OF p1] n by auto
  obtain t' sv' where c: "as_expected (write_sizes g T (index + T) zs) t2 = Some t'"
    and p': "phase N (n + nat T + 1 + nat (T + 1) * length zs) (sized_regs g T (index + T) zs ?v)
        (sized_regs g T (index + T) zs ?v) {} sv' second t'"
    using Cons.IH [OF _ _ len(1) n p2] Cons.prems(1,2) T by auto
  have "n + nat T + 1 + nat (T + 1) * length zs = n + nat (T + 1) * length (z # zs)"
    using nT(2) by simp
  note p'' = p' [unfolded this]
  show ?case
    using a b c p'' i
    by (intro exI [of _ t'] exI [of _ sv']) simp
qed

lemma read_sizes_ok:
  assumes g: "rand_like g" and T: "1 \<le> T" and "\<forall>z \<in> set zs. 0 \<le> z" and "0 < index"
    and "index + T * int (length zs) \<le> 600000" and "\<forall>j. index \<le> j \<longrightarrow> cur j = sized_regs g T index zs v j"
    and "phase N n cur com dirty sv second t"
  shows "\<exists>t'. as_expected (read_sizes g T index zs) t = Some t' \<and> phase N n cur com dirty sv second t'"
  using assms(3-7)
proof (induction zs arbitrary: index v t)
  case Nil
  then show ?case
    by auto
next
  case (Cons z zs)
  let ?to = "index + T - 1"
  have z: "0 \<le> z" and len: "index + T + T * int (length zs) \<le> 600000" "0 \<le> T * int (length zs)"
    using Cons.prems(1,3) T by (simp_all add: algebra_simps)
  have "index + T \<le> 600000"
    using len by linarith
  then have i: "i32 (index + (T - 1)) = ?to" "i32 (index + T) = index + T" "0 \<le> ?to" "?to < 2147483647"
    using Cons.prems(2) T by (simp_all add: is_i32_def)
  have v: "cur j = Some (reg g z 0 j)" if "index \<le> j" "j \<le> ?to" for j
    using that Cons.prems(4) T by (simp add: sized_regs_below put_regs_def)
  obtain t1 where a: "t_verify g index ?to z 0 0 0 t = Some (0, t1)" and p1: "phase N n cur com dirty sv second t1"
    using t_verify_ok [OF g z Cons.prems(5,2) i(3,4) v] by blast
  have up: "\<forall>j. index + T \<le> j \<longrightarrow> cur j = sized_regs g T (index + T) zs (put_regs g z 0 index ?to v) j"
    using Cons.prems(4) T by simp
  obtain t' where "as_expected (read_sizes g T (index + T) zs) t1 = Some t'" "phase N n cur com dirty sv second t'"
    using Cons.IH [OF _ _ len(1) up p1] Cons.prems(1,2) T by auto
  then show ?case
    using a i by (intro exI [of _ t']) simp
qed

subsection \<open>Parts 4 to 6\<close>

lemma max_reg_nonneg: "0 \<le> MAX_REG_SIZE"
  by (simp add: MAX_REG_SIZE_def)

lemma empty_register_ok:
  assumes g: "rand_like g" and p: "phase N n c c {} sv second t" and i: "0 < i" "i \<le> 10 * int N" "n + 2 \<le> N" and N: "N \<le> 60000"
  shows "\<exists>t'. as_expected [no_check (t_write g i i 0 0), no_check t_commit, DO_TEST_TITLE (t_verify g i i 0 0 0 0)] t = Some t'
    \<and> phase N (n + 2) (c(i := Some (reg g 0 0 i))) (c(i := Some (reg g 0 0 i))) {} False second t'"
proof -
  let ?c = "c(i := Some (reg g 0 0 i))"
  obtain t1 where a: "t_write g i i 0 0 t = Some (0, t1)" and p1: "phase N (n + 1) ?c c {i} True second t1"
    using t_write_ok [OF g order_refl p i(1), of i 0] i by (auto simp: put_regs_one)
  obtain t2 where b: "t_commit t1 = Some (0, t2)" and p2: "phase N (n + 1 + 1) ?c ?c {} False second t2"
    using t_commit_ok [OF p1] i(3) by auto
  have to: "0 \<le> i" "i < 2147483647"
    using i N by simp_all
  obtain t3 where e: "t_verify g i i 0 0 0 0 t2 = Some (0, t3)" and p3: "phase N (n + 1 + 1) ?c ?c {} False second t3"
    using t_verify_ok [OF g order_refl p2 i(1) to, of 0 0] by auto
  show ?thesis
    using a b e p3 by simp
qed

lemma transaction_ok:
  assumes g: "rand_like g" and p: "phase N n c c {} sv (\<lambda>s. s = ss_new) t" and T: "1 \<le> T"
    and i: "0 < a" "a + T \<le> 10 * int N" "n + nat T + 1 \<le> N" and N: "N \<le> 60000" and c: "\<And>j. a \<le> j \<Longrightarrow> c j = None"
  shows "\<exists>t'. as_expected (transaction_steps g fname T a) t = Some t' \<and> phase N (n + nat T + 1) c c {} False beside t'"
proof -
  let ?to = "a + T - 1" and ?w = "put_regs g MAX_REG_SIZE 0 a (a + T - 1) c"
  have r: "i32 (a + (T - 1)) = ?to" "0 \<le> ?to" "?to < 2147483647" "a \<le> ?to" "nat (?to + 1 - a) = nat T"
    using i T N by (simp_all add: is_i32_def)
  obtain t1 where 1: "t_write g a ?to MAX_REG_SIZE 0 t = Some (0, t1)"
    and p1: "phase N (n + nat T) ?w c {a..?to} True (\<lambda>s. s = ss_new) t1"
    using t_write_ok [OF g max_reg_nonneg p i(1), of ?to 0] i r T by auto
  obtain t2 where 2: "t_open2 fname t1 = Some (0, t2)" and p2: "phase N (n + nat T) ?w c {a..?to} True beside t2"
    using t_open2_ok [OF p1] by blast
  have w: "?w j = Some (reg g MAX_REG_SIZE 0 j)" if "a \<le> j" "j \<le> ?to" for j
    using that by (simp add: put_regs_def)
  obtain t3 where 3: "t_verify g a ?to MAX_REG_SIZE 0 0 0 t2 = Some (0, t3)" and p3: "phase N (n + nat T) ?w c {a..?to} True beside t3"
    using t_verify_ok [OF g max_reg_nonneg p2 i(1) r(2,3) w, of 0] by blast
  have range: "is_i32 j \<and> 0 < j" if "j \<in> {a..?to}" for j
    using that i(1) r(3) by (simp add: is_i32_def)
  have x3: "indexed {a..?to} t3"
  proof (rule phase_indexed [OF p3])
    fix j assume "j \<in> {a..?to}"
    then show "is_i32 j \<and> ?w j \<noteq> None"
      using range [of j] w [of j] by simp
  qed
  have old: "c j = None" if "a \<le> j" "j \<le> ?to" for j
    using that(1) c by simp
  obtain t4 where 4: "t_verify2 g a ?to MAX_REG_SIZE F_CSTORAGE_COMMITED_READ E_CSTORAGE_SERIAL_NOT_FOUND 0 t3 = Some (0, t4)"
    and p4: "phase N (n + nat T) ?w c {a..?to} True beside t4"
    using t_verify2_missing [OF p3 i(1) r(2,3) x3 test_flags(4) old] by blast
  have dirty: "(if has_flag F_CSTORAGE_DIRTY_READ F_CSTORAGE_READ_MODE_MASK then ?w j else c j) = Some (reg g MAX_REG_SIZE 0 j)"
    if "a \<le> j" "j \<le> ?to" for j
    using w [OF that] test_flags(5) by simp
  have "\<exists>t'. t_verify2 g a ?to MAX_REG_SIZE F_CSTORAGE_DIRTY_READ 0 0 t4 = Some (0, t')
      \<and> phase N (n + nat T) ?w c {a..?to} True beside t' \<and> t_disk t' = t_disk t4"
    by (rule t_verify2_ok [OF g max_reg_nonneg p4 i(1) r(2,3)]) (rule dirty)
  then obtain t5 where 5: "t_verify2 g a ?to MAX_REG_SIZE F_CSTORAGE_DIRTY_READ 0 0 t4 = Some (0, t5)"
    and p5: "phase N (n + nat T) ?w c {a..?to} True beside t5"
    by blast
  obtain t6 where 6: "t_rollback t5 = Some (0, t6)" and p6: "phase N (n + nat T + 1) c c {} False beside t6"
    using t_rollback_ok [OF p5] i(3) by auto
  obtain t7 where 7: "t_verify g a ?to MAX_REG_SIZE F_CSTORAGE_COMMITED_READ E_CSTORAGE_SERIAL_NOT_FOUND 0 t6 = Some (0, t7)"
    and p7: "phase N (n + nat T + 1) c c {} False beside t7"
    using t_verify_missing [OF p6 i(1) r(2,3) old] by blast
  obtain t8 where 8: "t_verify g a ?to MAX_REG_SIZE F_CSTORAGE_DIRTY_READ E_CSTORAGE_SERIAL_NOT_FOUND 0 t7 = Some (0, t8)"
    and p8: "phase N (n + nat T + 1) c c {} False beside t8"
    using t_verify_missing [OF p7 i(1) r(2,3) old] by blast
  show ?thesis
    using 1 2 3 4 5 6 7 8 p8 by (simp add: transaction_steps_def Let_def r(1))
qed

subsection \<open>Part 7\<close>

lemma update_ok:
  assumes g: "rand_like g" and p: "phase N n c c {} sv beside t" and T: "1 \<le> T"
    and i: "0 < a" "a + T \<le> 10 * int N" "n + 2 * nat T + 2 \<le> N" and N: "N \<le> 60000"
  shows "\<exists>t'. as_expected (update_steps g T a) t = Some t' \<and> phase N (n + 2 * nat T + 2)
    (put_regs g MAX_REG_SIZE 1 a (a + T - 1) (put_regs g MAX_REG_SIZE 0 a (a + T - 1) c))
    (put_regs g MAX_REG_SIZE 1 a (a + T - 1) (put_regs g MAX_REG_SIZE 0 a (a + T - 1) c)) {} False beside t'"
proof -
  let ?to = "a + T - 1" and ?m = MAX_REG_SIZE
  let ?w = "put_regs g MAX_REG_SIZE 0 a (a + T - 1) c"
  let ?u = "put_regs g MAX_REG_SIZE 1 a (a + T - 1) ?w"
  have r: "i32 (a + (T - 1)) = ?to" "0 \<le> ?to" "?to < 2147483647" "a \<le> ?to" "nat (?to + 1 - a) = nat T"
    using i T N by (simp_all add: is_i32_def)
  have w: "?w j = Some (reg g ?m 0 j)" "?u j = Some (reg g ?m 1 j)" if "a \<le> j" "j \<le> ?to" for j
    using that by (simp_all add: put_regs_def)
  note V = t_verify_ok [OF g max_reg_nonneg _ i(1) r(2,3)] and M = max_reg_nonneg
  obtain t1 where 1: "t_write g a ?to ?m 0 t = Some (0, t1)" and p1: "phase N (n + nat T) ?w c {a..?to} True beside t1"
    using t_write_ok [OF g M p i(1), of ?to 0] i r T by auto
  obtain t2 where 2: "t_commit t1 = Some (0, t2)" and p2: "phase N (n + nat T + 1) ?w ?w {} False beside t2"
    using t_commit_ok [OF p1] i(3) by auto
  obtain t3 where 3: "t_verify g a ?to ?m F_CSTORAGE_COMMITED_READ 0 0 t2 = Some (0, t3)"
    and p3: "phase N (n + nat T + 1) ?w ?w {} False beside t3"
    using V [OF p2 w(1), of F_CSTORAGE_COMMITED_READ] by blast
  obtain t4 where 4: "t_write g a ?to ?m 1 t3 = Some (0, t4)"
    and p4: "phase N (n + nat T + 1 + nat T) ?u ?w {a..?to} True beside t4"
    using t_write_ok [OF g M p3 i(1), of ?to 1] i r T by auto
  have "\<not> has_flag 0 F_CSTORAGE_READ_MODE_MASK"
    by (simp add: has_flag_def)
  then obtain t5 where 5: "t_verify2 g a ?to ?m 0 0 0 t4 = Some (0, t5)"
    and p5: "phase N (n + nat T + 1 + nat T) ?u ?w {a..?to} True beside t5"
    using t_verify2_ok [OF g M p4 i(1) r(2,3), of 0 0] w(1) by auto
  obtain t6 where 6: "t_verify g a ?to ?m F_CSTORAGE_DIRTY_READ 0 1 t5 = Some (0, t6)"
    and p6: "phase N (n + nat T + 1 + nat T) ?u ?w {a..?to} True beside t6"
    using V [OF p5 w(2), of F_CSTORAGE_DIRTY_READ] by blast
  obtain t7 where 7: "t_commit t6 = Some (0, t7)" and p7: "phase N (n + nat T + 1 + nat T + 1) ?u ?u {} False beside t7"
    using t_commit_ok [OF p6] i(3) by auto
  obtain t8 where 8: "t_verify g a ?to ?m F_CSTORAGE_COMMITED_READ 0 1 t7 = Some (0, t8)"
    and p8: "phase N (n + nat T + 1 + nat T + 1) ?u ?u {} False beside t8"
    using V [OF p7 w(2), of F_CSTORAGE_COMMITED_READ] by blast
  obtain t9 where 9: "t_verify g a ?to ?m F_CSTORAGE_DIRTY_READ 0 1 t8 = Some (0, t9)"
    and p9: "phase N (n + nat T + 1 + nat T + 1) ?u ?u {} False beside t9"
    using V [OF p8 w(2), of F_CSTORAGE_DIRTY_READ] by blast
  have "n + nat T + 1 + nat T + 1 = n + 2 * nat T + 2"
    by simp
  note p9' = p9 [unfolded this]
  show ?thesis
    using 1 2 3 4 5 6 7 8 9 p9'
    by (intro exI [of _ t9]) (simp add: update_steps_def Let_def r(1))
qed

subsection \<open>Part 10\<close>

definition put_at :: "generator \<Rightarrow> int \<Rightarrow> int list \<Rightarrow> (int \<Rightarrow> bytes option) \<Rightarrow> int \<Rightarrow> bytes option" where
  "put_at g i ds v = (\<lambda>j. if j - i \<in> set ds then Some (reg g MAX_REG_SIZE 0 j) else v j)"

lemma put_at_Cons: "put_at g i ds (put_regs g MAX_REG_SIZE 0 (i + x) (i + x) v) = put_at g i (x # ds) v"
  by (rule ext) (auto simp: put_at_def put_regs_def)

lemma write_deltas_ok:
  assumes g: "rand_like g" and i: "0 < i" "i + 50 \<le> 10 * int N" and N: "N \<le> 60000"
    and "distinct ds" and "\<forall>x \<in> set ds. 0 \<le> x \<and> x \<le> 50 \<and> i + x \<notin> dirty" and "n + length ds \<le> N"
    and "phase N n cur com dirty sv second t"
  shows "\<exists>t' dirty' sv'. as_expected (map (\<lambda>x. no_check (t_write g (i32 (i + x)) (i32 (i + x)) MAX_REG_SIZE 0)) ds) t = Some t'
    \<and> phase N (n + length ds) (put_at g i ds cur) com dirty' sv' second t'"
  using assms(5-)
proof (induction ds arbitrary: n cur dirty sv t)
  case Nil
  then show ?case
    by (auto simp: put_at_def)
next
  case (Cons x ds)
  let ?v = "put_regs g MAX_REG_SIZE 0 (i + x) (i + x) cur"
  have x: "0 \<le> x" "x \<le> 50" "i + x \<notin> dirty" and w: "i32 (i + x) = i + x"
    using Cons.prems(2) i N by (auto simp: is_i32_def)
  obtain t1 where a: "t_write g (i + x) (i + x) MAX_REG_SIZE 0 t = Some (0, t1)"
    and p1: "phase N (n + 1) ?v com (dirty \<union> {i + x..i + x}) True second t1"
    using t_write_ok [OF g max_reg_nonneg Cons.prems(4), of "i + x" "i + x" 0] i x Cons.prems(3) by auto
  have fresh: "\<forall>y \<in> set ds. 0 \<le> y \<and> y \<le> 50 \<and> i + y \<notin> dirty \<union> {i + x..i + x}"
    using Cons.prems(1,2) by auto
  obtain t' dirty' sv' where
    "as_expected (map (\<lambda>x. no_check (t_write g (i32 (i + x)) (i32 (i + x)) MAX_REG_SIZE 0)) ds) t1 = Some t'"
    "phase N (n + 1 + length ds) (put_at g i ds ?v) com dirty' sv' second t'"
    using Cons.IH [OF _ fresh _ p1] Cons.prems(1,3) by auto
  then show ?case
    using a w unfolding put_at_Cons by (intro exI [of _ t'] exI [of _ dirty'] exI [of _ sv']) simp
qed

text \<open>The 51 reads: \<open>idelta\<close> stands at the next register that was written.\<close>

definition delta_read :: "generator \<Rightarrow> int \<Rightarrow> int \<Rightarrow> step" where
  "delta_read g i x = no_check (t_verify g (i32 (i + x)) (i32 (i + x)) MAX_REG_SIZE F_CSTORAGE_COMMITED_READ
     (if x \<in> set deltas then 0 else E_CSTORAGE_SERIAL_NOT_FOUND) 0)"

lemma read_deltas_all: "read_deltas g i 0 (map int [0..<51]) = map (delta_read g i) (map int [0..<51])"
  by (simp add: upt_rec numeral_eq_Suc delta_read_def deltas_def)

lemma read_deltas_ok:
  assumes g: "rand_like g" and i: "0 < i" "i + 50 \<le> 600000" and "\<forall>x \<in> set xs. 0 \<le> x \<and> x \<le> 50"
    and c: "\<And>j. i \<le> j \<Longrightarrow> c j = None" and "phase N n (put_at g i deltas c) com dirty sv second t"
  shows "\<exists>t'. as_expected (map (delta_read g i) xs) t = Some t' \<and> phase N n (put_at g i deltas c) com dirty sv second t'"
  using assms(4,6)
proof (induction xs arbitrary: t)
  case Nil
  then show ?case
    by simp
next
  case (Cons x xs)
  let ?e = "if x \<in> set deltas then 0 else E_CSTORAGE_SERIAL_NOT_FOUND" and ?c = "put_at g i deltas c"
  have x: "0 < i + x" "0 \<le> i + x" "i + x < 2147483647" "i32 (i + x) = i + x" "i \<le> i + x"
    using Cons.prems(1) i by (auto simp: is_i32_def)
  have "\<exists>t'. t_verify g (i + x) (i + x) MAX_REG_SIZE F_CSTORAGE_COMMITED_READ ?e 0 t = Some (0, t')
      \<and> phase N n ?c com dirty sv second t'"
  proof (cases "x \<in> set deltas")
    case True
    then have "?c j = Some (reg g MAX_REG_SIZE 0 j)" if "i + x \<le> j" "j \<le> i + x" for j
      using that by (auto simp: put_at_def)
    from t_verify_ok [OF g max_reg_nonneg Cons.prems(2) x(1-3) this] True show ?thesis
      by auto
  next
    case False
    then have "?c j = None" if "i + x \<le> j" "j \<le> i + x" for j
      using that c [OF x(5)] by (auto simp: put_at_def)
    from t_verify_missing [OF Cons.prems(2) x(1-3) this, where g = g and m = MAX_REG_SIZE] False show ?thesis
      by fastforce
  qed
  then obtain t1 where a: "t_verify g (i + x) (i + x) MAX_REG_SIZE F_CSTORAGE_COMMITED_READ ?e 0 t = Some (0, t1)"
    and p1: "phase N n ?c com dirty sv second t1"
    by blast
  obtain t' where "as_expected (map (delta_read g i) xs) t1 = Some t'" "phase N n ?c com dirty sv second t'"
    using Cons.IH [OF _ p1] Cons.prems(1) by auto
  then show ?case
    using a x(4) by (intro exI [of _ t']) (simp add: delta_read_def [of g i x])
qed

lemma delta_ok:
  assumes g: "rand_like g" and p: "phase N n c c {} sv second t" and i: "0 < i" "i + 50 \<le> 10 * int N" "n + 8 \<le> N" and N: "N \<le> 60000"
    and c: "\<And>j. i \<le> j \<Longrightarrow> c j = None"
  shows "\<exists>t'. as_expected (delta_steps g i) t = Some t' \<and> phase N (n + 8) (put_at g i deltas c) (put_at g i deltas c) {} False second t'"
proof -
  let ?c = "put_at g i deltas c"
  have ds: "distinct deltas" "\<forall>x \<in> set deltas. 0 \<le> x \<and> x \<le> 50 \<and> i + x \<notin> {}" "length deltas = 7"
    by (simp_all add: deltas_def)
  obtain t1 dirty' sv' where a: "as_expected (map (\<lambda>x. no_check (t_write g (i32 (i + x)) (i32 (i + x)) MAX_REG_SIZE 0)) deltas) t = Some t1"
    and p1: "phase N (n + 7) ?c c dirty' sv' second t1"
    using write_deltas_ok [OF g i(1,2) N ds(1,2) _ p] i(3) ds(3) by auto
  have n: "n + 7 < N" "n + 7 + 1 = n + 8"
    using i(3) by simp_all
  obtain t2 where b: "t_commit t1 = Some (0, t2)" and p2: "phase N (n + 8) ?c ?c {} False second t2"
    using t_commit_ok [OF p1 n(1)] unfolding n(2) by blast
  have xs: "\<forall>x \<in> set (map int [0..<51]). 0 \<le> x \<and> x \<le> 50"
    by auto
  have i': "i + 50 \<le> 600000"
    using i(2) N by simp
  obtain t3 where e: "as_expected (read_deltas g i 0 (map int [0..<51])) t2 = Some t3"
    and p3: "phase N (n + 8) ?c ?c {} False second t3"
    using read_deltas_ok [OF g i(1) i' xs c p2] unfolding read_deltas_all by blast
  have "as_expected (delta_steps g i) t = Some t3"
    unfolding delta_steps_def by (rule as_expected_then [OF a]) (simp add: b e del: upt.simps)
  then show ?thesis
    using p3 by blast
qed

subsection \<open>The program\<close>

lemma program_ok:
  assumes g: "rand_like g" and T: "1 \<le> T" "T \<le> 5000" and b: "blank_disk (t_disk t)"
    and lim: "\<forall>k. nat (10 * T + 32) * 300000 \<le> flimit (t_disk t k)"
    and new: "t_ssi t = ss_new" "t_ssi2 t = ss_new" "length (t_data t) = 256000"
  shows "\<exists>t' d'. as_expected (script g rnd fname T) t = Some t' \<and> normal_mode g rnd fname T t = Some (0, d')"
proof -
  define N where "N = 10 * nat T + 30"
  let ?v = "sized_regs g T 1 reg_sizes Map.empty" and ?e = "7 * T + 1"
  let ?c = "?v(?e := Some (reg g 0 0 ?e))"
  have N: "N \<le> 60000" "10 * int N = 100 * T + 300" "N + 2 = nat (10 * T + 32)"
    using T by (simp_all add: N_def)
  have zs: "\<forall>z \<in> set reg_sizes. 0 \<le> z" "length reg_sizes = 7" and m7: "nat (T + 1) * 7 = 7 * nat T + 7"
    using T by (simp_all add: reg_sizes_def nat_add_distrib)
  have ia: "index_after T 1 reg_sizes = ?e" and i: "i32 (?e + 1) = 7 * T + 2" "i32 (7 * T + 2 + T) = 8 * T + 2"
      "i32 (8 * T + 2 + T) = 9 * T + 2"
    using index_after_len [of T 1 reg_sizes] T zs(2) by (simp_all add: is_i32_def algebra_simps)
  obtain data where r: "random_test g (t_data t) = Some (0, data)" "length data = 256000"
    using random_test_loop_ok [OF g, of 100 0 "t_data t"] new(3) by (auto simp: random_test_def)
  let ?t1 = "t\<lparr>t_data := data\<rparr>"
  have 1: "t_random_test g t = Some (0, ?t1)"
    using r(1) by (simp add: t_random_test_def)
  have lim': "\<forall>k. (N + 2) * 300000 \<le> flimit (t_disk ?t1 k)"
    using lim unfolding N(3) by simp
  obtain t2 where 2: "t_open rnd fname (F_CSTORAGE_WR OR F_CSTORAGE_CREATE) ?t1 = Some (0, t2)"
    and p2: "phase N 0 Map.empty Map.empty {} True (\<lambda>s. s = ss_new) t2"
    using t_open_ok [OF _ lim' N(1), of "\<lambda>s. s = ss_new" rnd fname] b new r(2) by auto
  obtain t3 sv where 3: "as_expected (write_sizes g T 1 reg_sizes) t2 = Some t3"
    and p3: "phase N (7 * nat T + 7) ?v ?v {} sv (\<lambda>s. s = ss_new) t3"
    using write_sizes_ok [OF g T(1) zs(1) _ _ _ N(1) p2, of 1] zs(2) m7 T N(2) by (auto simp: N_def)
  obtain t4 where 4: "as_expected (read_sizes g T 1 reg_sizes) t3 = Some t4"
    and p4: "phase N (7 * nat T + 7) ?v ?v {} sv (\<lambda>s. s = ss_new) t4"
    using read_sizes_ok [OF g T(1) zs(1) _ _ _ p3, of 1 Map.empty] zs(2) T by auto
  obtain t5 where 5: "as_expected [no_check (t_write g ?e ?e 0 0), no_check t_commit, DO_TEST_TITLE (t_verify g ?e ?e 0 0 0 0)] t4 = Some t5"
    and p5: "phase N (7 * nat T + 7 + 2) ?c ?c {} False (\<lambda>s. s = ss_new) t5"
    using empty_register_ok [OF g p4 _ _ _ N(1), of ?e] T N(2) by (auto simp: N_def)
  have none: "?c j = None" if "7 * T + 2 \<le> j" for j
    using that sized_regs_above [of T 1 reg_sizes j g Map.empty] T zs(2) by (simp add: algebra_simps)
  have a: "0 < 7 * T + 2" "7 * T + 2 + T \<le> 10 * int N" "7 * nat T + 7 + 2 + nat T + 1 \<le> N"
    using T N(2) by (simp_all add: N_def)
  obtain t6 where 6: "as_expected (transaction_steps g fname T (7 * T + 2)) t5 = Some t6"
    and p6: "phase N (7 * nat T + 7 + 2 + nat T + 1) ?c ?c {} False beside t6"
    using transaction_ok [OF g p5 T(1) a N(1) none] by blast
  let ?c7 = "put_regs g MAX_REG_SIZE 1 (8 * T + 2) (8 * T + 2 + T - 1) (put_regs g MAX_REG_SIZE 0 (8 * T + 2) (8 * T + 2 + T - 1) ?c)"
  obtain t7 where 7: "as_expected (update_steps g T (8 * T + 2)) t6 = Some t7"
    and p7: "phase N (7 * nat T + 7 + 2 + nat T + 1 + 2 * nat T + 2) ?c7 ?c7 {} False beside t7"
    using update_ok [OF g p6 T(1) _ _ _ N(1), of "8 * T + 2"] T N(2) by (auto simp: N_def)
  have none7: "?c7 j = None" if "9 * T + 2 \<le> j" for j
    using that none [of j] T by (simp add: put_regs_def)
  have a8: "0 < 9 * T + 2" "9 * T + 2 + 50 \<le> 10 * int N" "7 * nat T + 7 + 2 + nat T + 1 + 2 * nat T + 2 + 8 \<le> N"
    using T N(2) by (simp_all add: N_def)
  obtain t8 c8 where 8: "as_expected (delta_steps g (9 * T + 2)) t7 = Some t8"
    and p8: "phase N (7 * nat T + 7 + 2 + nat T + 1 + 2 * nat T + 2 + 8) c8 c8 {} False beside t8"
    using delta_ok [OF g p7 a8 N(1) none7] by blast
  have h: "healthy (t_ssi t8) (t_disk t8)" and w: "writer (t_ssi t8) (t_disk t8)" and l: "185 \<le> flimit (t_disk t8 StateF)"
    using p8 by (auto simp: phase_def sized_def healthy_def intro: order_trans [of 185 "(N + 2) * 300000"])
  obtain s9 d9 where 9: "ss_close (t_ssi t8) (t_disk t8) = Some (E_CSTORAGE_OK, s9, d9)"
    using close_ok [OF w l] by blast
  have two: "as_expected [DO_TEST_TITLE (t_random_test g), no_check (t_open rnd fname (F_CSTORAGE_WR OR F_CSTORAGE_CREATE))] t = Some t2"
    using 1 2 by simp
  have "as_expected (script g rnd fname T) t = Some t8"
    unfolding script_def ia Let_def i
    by (rule as_expected_then [OF two], rule as_expected_then [OF 3], rule as_expected_then [OF 4], rule as_expected_then [OF 5],
        rule as_expected_then [OF 6], rule as_expected_then [OF 7], rule 8)
  then show ?thesis
    using 9 as_expected_steps [of "script g rnd fname T" t t8] by (simp add: normal_mode_def)
qed

end
