(* ===== verification/Safe_Test_Modes.thy ===== *)
theory Safe_Test_Modes
  imports Safe_Test_Props
begin

text \<open>
  The modes of the test program: what the writing mode leaves on the disk, and what the reading mode makes of it.
\<close>

subsection \<open>The writing mode\<close>

definition fresh_regs :: "nat \<Rightarrow> nat \<Rightarrow> storage \<Rightarrow> disk \<Rightarrow> bool" where
  \<comment> \<open>\<open>n\<close> registers written, none of them committed\<close>
  "fresh_regs N n s d \<longleftrightarrow> sized N n s d \<and> commit_seq s = 0 \<and> saved s d \<and> st_count (state s) = int n
     \<and> length (fbytes (d IndexF)) = 30 * (n + 1) \<and> set (dirtySerials s) = {1..int n}
     \<and> view False s d = Map.empty \<and> (\<forall>i. 1 \<le> i \<and> i \<le> int n \<longrightarrow> view True s d i \<noteq> None)"

lemma write_mode_key: "n \<le> 40 \<Longrightarrow> sint (word_of_int (int n) + 1 :: u32) = int n + 1"
proof -
  assume "n \<le> 40"
  then have "sint (word_of_int (int n + 1) :: u32) = int n + 1"
    by (simp add: sint_sbintrunc' signed_take_bit_id del: of_int_add)
  then show ?thesis
    by simp
qed

lemma no_commit_yet:
  assumes "0 < n" and "n < unat cf"
  shows "(word_of_nat n :: u32) mod cf \<noteq> 0"
proof -
  have "unat cf < 2 ^ 32"
    using unsigned_less [of cf] by simp
  then have "unat ((word_of_nat n :: u32) mod cf) = n mod unat cf"
    using assms(2) by (simp add: unat_mod unat_of_nat)
  then have "unat ((word_of_nat n :: u32) mod cf) \<noteq> 0"
    using assms by simp
  then show ?thesis
    by (metis unat_0)
qed

lemma write_mode_loop_ok:
  assumes g: "rand_like g" and m: "0 \<le> m" and N: "41 \<le> N" and "fresh_regs N k s d" and "k + n \<le> 40" and "k + n \<le> unat cf"
    and "length data = 256000"
  shows "\<exists>data' s' d'. write_mode_loop g 1 cf m n (int k) data s d = Some (Inr (data', s', d')) \<and> fresh_regs N (k + n) s' d'"
  using assms(4-)
proof (induction n arbitrary: k data s d)
  case 0
  then show ?case
    by simp
next
  case (Suc n)
  let ?i = "int k + 1" and ?y = "reg g m 0 (int k + 1)"
  let ?data = "overlay ?y data"
  have f: "sized N k s d" "commit_seq s = 0" "st_count (state s) = int k" "length (fbytes (d IndexF)) = 30 * (k + 1)"
    "set (dirtySerials s) = {1..int k}" "view False s d = Map.empty" "\<forall>i. 1 \<le> i \<and> i \<le> int k \<longrightarrow> view True s d i \<noteq> None"
    using Suc(2) by (simp_all add: fresh_regs_def)
  have y: "length ?y \<le> 256000" "take (length ?y) ?data = ?y" "length ?data = 256000"
    using reg_length_bounds(2) [OF m] Suc(5) by (simp_all add: overlay_def)
  have k: "k < N" "0 < ?i" "?i \<le> 10 * int N" "?i \<notin> set (dirtySerials s)"
    using f(5) N Suc(3) by auto
  obtain s1 d1 x where w: "ss_write ?i (Some ?y) (word_of_nat (length ?y)) s d = Some (int (length ?y), s1, d1)"
    and s1: "sized N (k + 1) s1 d1" "view True s1 d1 = (view True s d)(?i := Some ?y)" "view False s1 d1 = view False s d"
      "set (dirtySerials s1) = insert ?i (set (dirtySerials s))" "saved s1 d1" "commit_seq s1 = commit_seq s"
      "st_count (state s1) = st_count (state s) + 1" "length x = 26" "d1 IndexF = put_rec 26 ?i x (d IndexF)"
    using write_reg_ok [OF f(1) k y(1)] f(3) Suc(3) by auto
  have "length (fbytes (d1 IndexF)) = 30 * (k + 1 + 1)"
    using length_put_rec [of x 26 ?i "d IndexF"] f(4) s1(8,9) by (simp add: nat_add_distrib)
  then have f1: "fresh_regs N (k + 1) s1 d1"
    using f s1 by (auto simp: fresh_regs_def)
  obtain data' s' d' where r: "write_mode_loop g 1 cf m n (int (k + 1)) ?data s1 d1 = Some (Inr (data', s', d'))"
    "fresh_regs N (k + 1 + n) s' d'"
    using Suc(1) [OF f1 _ _ y(3)] Suc(3,4) by auto
  have c: "(if int k = 0 then Some (0, s1, d1) else if cf = 0 then None
      else if (word_of_nat k :: u32) mod cf = 0 then ss_commit s1 d1 else Some (0, s1, d1)) = Some (0 :: int, s1, d1)"
    using no_commit_yet [of k cf] Suc(4) by auto
  have key: "sint (word_of_int (int k) + 1 :: u32) = ?i"
    using write_mode_key [of k] Suc(3) by simp
  have "write_mode_loop g 1 cf m (Suc n) (int k) data s d = write_mode_loop g 1 cf m n (int k + 1) ?data s1 d1"
    unfolding write_mode_loop.simps Let_def key
    by (simp only: random_reg_ok [OF g m] Option.bind.bind_lunit prod.case nat_int of_int_of_nat_eq
        y(2) [unfolded length_reg] w [unfolded length_reg] c) simp
  then show ?case
    using r by (simp add: add.commute)
qed

text \<open>What is on the disk after the last commit: the state of the last write, with nothing committed.\<close>

definition uncommitted :: "nat \<Rightarrow> disk \<Rightarrow> bool" where
  "uncommitted n d \<longleftrightarrow> accessible d \<and> index_sound d \<and> fsize (d IndexF) = 30 * (int n + 1)
     \<and> (\<exists>p. rec_at 181 0 (d StateF) = Some p \<and> st_last_commit_sequence (dec_state p) = 0
          \<and> linked (st_hash_key (dec_state p)) d)
     \<and> (\<forall>i. 0 < i \<longrightarrow> view_at 0 False d i = None) \<and> (\<forall>i. 1 \<le> i \<and> i \<le> int n \<longrightarrow> idx (d IndexF) i \<noteq> None)"

lemma last_commit_uncommitted:
  assumes f: "fresh_regs N n s d" and n: "n \<le> 40" "n < N"
  shows "\<exists>s' d'. ss_commit s d = Some (E_CSTORAGE_OK, s', d') \<and> uncommitted n d'"
proof -
  have s: "sized N n s d" and c0: "commit_seq s = 0" and sv: "saved s d" and cnt: "st_count (state s) = int n"
    and len: "length (fbytes (d IndexF)) = 30 * (n + 1)" and none: "view False s d = Map.empty"
    and full: "\<forall>i. 1 \<le> i \<and> i \<le> int n \<longrightarrow> view True s d i \<noteq> None"
    using f by (simp_all add: fresh_regs_def)
  have g: "good (s, d)" and m: "\<not> fauto_commit s" and h: "healthy s d"
    using s by (simp_all add: sized_def)
  have r: "room s d 50"
    using sized_room [OF s n(2)] by simp
  have due: "\<not> snapshot_due (tick_state (last_seq s + 1) (state s))"
    using few_not_due cnt n(1) by simp
  obtain s1 d1 where o: "ss_commit s d = Some (E_CSTORAGE_OK, clearDirtySerials s1, d1)"
    and c: "committed_step (last_seq s + 1) s d s1 d1"
    using commit_ok [OF h m r] by blast
  have c': "d1 StateF = d StateF" "d1 IndexF = d IndexF" "grown d d1 50" "st_hash_key (state s1) = st_hash_key (state s)"
    using c due by (simp_all add: committed_step_def)
  obtain p where p: "rec_at 181 0 (d StateF) = Some p" "dec_state p = state s"
    using saved_dec [OF sv h] by blast
  have g1: "good (clearDirtySerials s1, d1)"
    using perform_commit [OF g r] o by auto
  have "view_at 0 False d1 i = None" if "0 < i" for i
  proof (cases "idx (d IndexF) i")
    case (Some x)
    have "entry_ok d (last_seq s) i x"
      using h that Some by (simp add: healthy_def)
    then have "content d1 (version x 0 False) = content d (version x 0 False)"
      by (rule content_version_grown [OF c'(3)])
    then show ?thesis
      using that Some none c0 c'(2) by (auto simp: view_at_def view_def fun_eq_iff dest: spec [of _ i])
  qed (simp add: view_at_def c'(2))
  moreover have "idx (d1 IndexF) i \<noteq> None" if "1 \<le> i" "i \<le> int n" for i
    using full that view_indexed c'(2) by fastforce
  moreover have "index_sound d1"
    using g1 healthy_index_sound by auto
  ultimately show ?thesis
    using o g1 p c' c0 len by (auto simp: uncommitted_def fsize_def)
qed

lemma write_mode_ok:
  assumes g: "rand_like g" and b: "blank_disk d" and lim: "\<forall>k. 20000000 \<le> flimit (d k)"
    and c: "c_flg_create c" "c_initial_key c = 1" "0 \<le> c_max_reg_size c" "c_nloops c \<le> 40"
      "nat (c_nloops c) \<le> unat (c_commit_freq c)"
    and data: "length data = 256000"
  shows "\<exists>d'. write_mode g rnd c data ss_new d = Some (0, d') \<and> uncommitted (nat (c_nloops c)) d'"
proof -
  let ?fl = "F_CSTORAGE_WR OR F_CSTORAGE_CREATE" and ?n = "nat (c_nloops c)"
  obtain s1 d1 where o: "ss_open rnd (c_filename c) ?fl 0 ss_new d = Some (E_CSTORAGE_OK, s1, d1)"
    and b1: "brand_new (if has_flag (?fl OR F_CSFILE_EXCEPTIONS) F_CSTORAGE_SET_HASH_KEY then 0 else rnd) s1 d1"
    and l: "\<forall>k. flimit (d1 k) = flimit (d k)" "\<not> fauto_commit s1"
    using create_ok [OF b test_flags(1,2) refl] test_flags(3) by blast
  have "sized 41 0 s1 d1"
    using brand_new_good [OF b1] b1 l lim clean_header [of "d1 IndexF" IndexF]
    by (auto simp: sized_def brand_new_def length_header intro: order_trans [OF _ lim [rule_format]])
  then have f0: "fresh_regs 41 0 s1 d1"
    using b1 by (auto simp: fresh_regs_def brand_new_def length_header)
  have n: "0 + ?n \<le> 40" "0 + ?n \<le> unat (c_commit_freq c)"
    using c(4,5) by simp_all
  obtain data' s2 d2 where w: "write_mode_loop g 1 (c_commit_freq c) (c_max_reg_size c) ?n (int 0) data s1 d1
      = Some (Inr (data', s2, d2))" and f: "fresh_regs 41 (0 + ?n) s2 d2"
    using write_mode_loop_ok [OF g c(3) order_refl f0 n data] by blast
  obtain s3 d3 where "ss_commit s2 d2 = Some (E_CSTORAGE_OK, s3, d3)" "uncommitted (0 + ?n) d3"
    using last_commit_uncommitted [OF f n(1)] n(1) by auto
  then show ?thesis
    using o w c(1,2) by (auto simp: write_mode_def)
qed

subsection \<open>The reading mode\<close>

lemma version_header:
  assumes "0 \<le> c"
  shows "version (dec_index (header IndexF key)) c False = 0"
proof -
  have "header IndexF key = le_enc 4 key @ replicate 22 0"
    by (simp add: header_def h_set_def)
  then have "snd (x_offsets (dec_index (header IndexF key))) = 0" "x_sequences (dec_index (header IndexF key)) = (0, 0)"
    by (simp_all add: dec_index_def dec_i32_def dec_i64_def seg_def numeral_eq_Suc)
  then show ?thesis
    using assms by (simp add: version_def offset_step_def at2_def)
qed

lemma uncommitted_read:
  assumes u: "uncommitted n d" and n: "n \<le> 40" and q: "reader q d" and i: "0 \<le> i" "i \<le> int n"
  shows "\<exists>q'. ss_read i (replicate 256000 0) 256000 1 q d = Some (E_CSTORAGE_SERIAL_NOT_FOUND, replicate 256000 0, q')
    \<and> reader q' d"
proof -
  obtain p where p: "rec_at 181 0 (d StateF) = Some p" "st_last_commit_sequence (dec_state p) = 0"
    "linked (st_hash_key (dec_state p)) d"
    using u by (auto simp: uncommitted_def)
  have fl: "\<not> has_flag 1 F_CSTORAGE_READ_MODE_MASK"
    by (simp add: has_flag_def F_CSTORAGE_READ_MODE_MASK_def)
  have i32: "is_i32 i"
    using i n by (simp add: is_i32_def)
  show ?thesis
  proof (cases "i = 0")
    case True
    have "idx (d IndexF) i = Some (dec_index (header IndexF (st_hash_key (dec_state p))))"
      using p(3) True by (simp add: linked_def idx_def)
    from reader_read_none [OF q p(1) i(1) i32 this, of 1] show ?thesis
      using version_header p(2) fl by simp
  next
    case False
    then have "view_at (st_last_commit_sequence (dec_state p)) (has_flag 1 F_CSTORAGE_READ_MODE_MASK) d i = None"
        "index_sound d" "0 < i" "idx (d IndexF) i \<noteq> None"
      using u i p(2) fl by (simp_all add: uncommitted_def)
    then show ?thesis
      using reader_read_missing [OF q p(1) _ _ i32, of 1 "replicate 256000 0" 256000] by auto
  qed
qed

lemma read_mode_loop_fails:
  assumes u: "uncommitted n d" and n: "n \<le> 40" and l: "0 < nloops" and "reader q d" and "0 \<le> i" "i \<le> int n + 1"
  shows "read_mode_loop g m nloops i q d = Some (- 1)"
  using assms(4-)
proof (induction "nat (int n + 1 - i)" arbitrary: i q)
  case 0
  then have i: "i = int n + 1"
    by simp
  obtain p where p: "rec_at 181 0 (d StateF) = Some p" "st_last_commit_sequence (dec_state p) = 0"
    using u by (auto simp: uncommitted_def)
  have "fsize (d IndexF) = 30 * (int n + 1)"
    using u by (simp add: uncommitted_def)
  then have "length (fbytes (d IndexF)) = 30 * (n + 1)" "nat i = n + 1" and size: "fsize (d IndexF) \<le> i * 30"
    using i by (simp_all add: fsize_def)
  then have none: "idx (d IndexF) i = None"
    by (simp add: idx_def rec_at_def Let_def)
  have "view_at (st_last_commit_sequence (dec_state p)) (has_flag 1 F_CSTORAGE_READ_MODE_MASK) d i = None"
    using u i p(2) by (simp add: uncommitted_def has_flag_def F_CSTORAGE_READ_MODE_MASK_def)
  then obtain q' where "ss_read i (replicate 256000 0) 256000 1 q d = Some (E_CSFILE_EOF, replicate 256000 0, q')"
    using reader_read_missing [OF 0(2) p(1), of i 1 "replicate 256000 0" 256000] u i n size none
    by (auto simp: uncommitted_def is_i32_def)
  then show ?case
    using l by (subst read_mode_loop.simps) (simp add: E_CSFILE_EOF_def E_CSTORAGE_SERIAL_NOT_FOUND_def)
next
  case (Suc x)
  then have i: "i \<le> int n" "i32 (i + 1) = i + 1" "x = nat (int n + 1 - (i + 1))"
    using n by (simp_all add: is_i32_def)
  obtain q' where r: "ss_read i (replicate 256000 0) 256000 1 q d = Some (E_CSTORAGE_SERIAL_NOT_FOUND, replicate 256000 0, q')"
    "reader q' d"
    using uncommitted_read [OF u n Suc(3,4) i(1)] by blast
  have "read_mode_loop g m nloops (i + 1) q' d = Some (- 1)"
    using Suc(1) [OF i(3) r(2)] Suc(4) i(1) by simp
  then show ?case
    using l r(1) i(2) by (subst read_mode_loop.simps) simp
qed

lemma read_mode_fails:
  assumes u: "uncommitted n d" and n: "n \<le> 40" and l: "0 < c_nloops c"
  shows "\<exists>q. ss_open 0 (c_filename c) 0 0 ss_new d = Some (E_CSTORAGE_OK, q, d) \<and> reader q d
    \<and> read_mode g c ss_new d = Some (- 1, d)"
proof -
  obtain p where p: "rec_at 181 0 (d StateF) = Some p" "accessible d" "linked (st_hash_key (dec_state p)) d"
    using u by (auto simp: uncommitted_def)
  obtain q where "ss_open 0 (c_filename c) 0 0 ss_new d = Some (E_CSTORAGE_OK, q, d)" "reader q d"
    using open_beside [OF p(2,3,1)] beside_reader by blast
  then show ?thesis
    using read_mode_loop_fails [OF u n l, of q 0 g "c_max_reg_size c"] by (simp add: read_mode_def)
qed

subsection \<open>The log mode\<close>

text \<open>The mode that reads the log checks the register as if its bytes were those of the log record, header included: the
  first write it comes to ends it.\<close>

lemma log_mode_rejects_write:
  assumes g: "rand_like g" and m: "0 \<le> m" and r: "well_data r" "r_serial r \<noteq> 0"
      "r_signature r AND CSTORAGE_SIGNATURE_SIGN_MASK = CSTORAGE_SIGNATURE"
    and y: "length y = reg_length g m 0 (r_serial r)"
    and read: "ss_readLog i (replicate 256000 0) 256000 s (ds f) = Some (17 + int (length y), enc_data r @ rest, s')"
  shows "log_mode_loop g f f2 m linfo (Suc n) i s s2 ds = Some (Inl (- 2, ds))"
proof -
  have "length y \<le> 256000"
    using y reg_length_bounds(2) [OF m] by simp
  then have n: "\<not> (word_of_int (17 + int (length y)) :: u32) < 17"
    by (simp add: word_less_nat_alt unat_word_ariths unat_of_nat)
  have "snd (getLogReg (enc_data r @ rest) (word_of_int (17 + int (length y))) linfo) =
      \<lparr>li_serial = r_serial r, li_sequence = r_sequence r, li_len = r_len r, li_flags = ucast (r_flags r),
       li_type = ucast (r_signature r AND CSTORAGE_SIGNATURE_TYPE_MASK)\<rparr>"
    using n r by (simp add: getLogReg_def dec_enc_data Let_def)
  moreover have "check_reg g (r_serial r) (enc_data r @ rest) (17 + int (length y)) m MIN_REG_SIZE 0 = Some (- 1)"
    using check_reg_length [OF g m, of "17 + int (length y)" 0 "r_serial r"] y by simp
  ultimately show ?thesis
    using read r(2) by (simp add: E_CSTORAGE_SERIAL_NOT_FOUND_def Let_def)
qed

subsection \<open>Properties\<close>

text \<open>Property (C10): the test program passes. On an unused prefix, with room on the disk, for every generator with the range
  of \<open>rand\<close> and up to 5000 registers of each kind, every call of the program returns what is expected of it, also the calls whose
  result the program does not look at: the random test, the creation, every write of registers of up to 250 KiB, every
  commit and the rollback return 0, and every loop of reads, by the writer or by the second object beside it, finds the
  content it asks for, or E_CSTORAGE_SERIAL_NOT_FOUND where the register must not be there, which includes the 44 serials
  between and around the non consecutive writes of the last part. The program returns 0.\<close>

theorem test_program_passes:
  assumes "rand_like g" and "set_options opts default_config = Some c" and "c_mode c = F_MODE_NORMAL"
    and "1 \<le> c_times c" "c_times c \<le> 5000"
    and "blank_disk (ds (c_filename c))" and "\<forall>k. nat (10 * c_times c + 32) * 300000 \<le> flimit (ds (c_filename c) k)"
  shows "\<exists>t' d'. as_expected (script g rnd (c_filename c) (c_times c))
      \<lparr>t_ssi = ss_new, t_ssi2 = ss_new, t_data = replicate 256000 0, t_disk = ds (c_filename c)\<rparr> = Some t'
    \<and> safe_test g rnd linfo opts ds = Some (0, ds(c_filename c := d'))"
proof -
  let ?t = "\<lparr>t_ssi = ss_new, t_ssi2 = ss_new, t_data = replicate 256000 0, t_disk = ds (c_filename c)\<rparr>"
  obtain t' d' where "as_expected (script g rnd (c_filename c) (c_times c)) ?t = Some t'"
    and "normal_mode g rnd (c_filename c) (c_times c) ?t = Some (0, d')"
    using program_ok [OF assms(1,4,5), of ?t rnd "c_filename c"] assms(6,7) by auto
  moreover from this(2) have "safe_test g rnd linfo opts ds = Some (0, ds(c_filename c := d'))"
    using safe_test_modes [OF assms(2), of g rnd linfo ds] assms(3)
    by (simp add: Let_def F_MODE_NORMAL_def F_MODE_READ_def F_MODE_WRITE_def F_MODE_LOG_def)
  ultimately show ?thesis
    by blast
qed

definition demo_rand :: generator where
  "demo_rand seed n = (uint seed * 1103515245 + int n * 12345) mod 2147483647"

lemma demo_rand_like: "rand_like demo_rand"
  using pos_mod_bound [of 2147483647] by (auto simp: rand_like_def demo_rand_def RAND_MAX_def less_imp_le)

definition roomy_disk :: disk where
  "roomy_disk = (\<lambda>k. (demo_disk k)\<lparr>flimit := 50000000\<rparr>)"

lemma roomy_blank: "blank_disk roomy_disk" "flimit (roomy_disk k) = 50000000"
  by (simp_all add: roomy_disk_def blank_disk_def demo_disk_def)

lemma demo_options:
  "set_options [(CHR ''t'', ''3'')] default_config = Some (default_config\<lparr>c_times := 3\<rparr>)"
  "c_filename default_config = ''0001''" "c_mode default_config = F_MODE_NORMAL"
  by (simp_all add: set_option_def atol_def decimal_def sign_of_def digits_value_def digit_val_def c_space_def Let_def
      default_config_def)

theorem test_program_passes_witness:
  "\<exists>linfo t' d'. as_expected (script demo_rand 7 ''0001'' 3)
      \<lparr>t_ssi = ss_new, t_ssi2 = ss_new, t_data = replicate 256000 0, t_disk = roomy_disk\<rparr> = Some t'
    \<and> safe_test demo_rand 7 linfo [(CHR ''t'', ''3'')] (\<lambda>f. roomy_disk) = Some (0, (\<lambda>f. roomy_disk)(''0001'' := d'))"
  using test_program_passes [OF demo_rand_like demo_options(1), of "\<lambda>f. roomy_disk" 7] roomy_blank demo_options(2,3)
  by simp

text \<open>Property (C31): the reading mode does not find what the writing mode has written. For a new storage, at most 40 registers from
  serial 1 on, and no commit before the last one (the commit frequency is not below the number of registers), the writing mode
  ends with a commit, but without closing the storage, and that commit does not reach the state file: an object that opens the
  storage afterwards gets E_CSTORAGE_SERIAL_NOT_FOUND for every register that was written, and the reading mode, which passes
  over them, comes to the end of the index and fails with the code -1.\<close>

theorem read_mode_misses_last_commit:
  assumes "rand_like g" and "blank_disk d" and "\<forall>k. 20000000 \<le> flimit (d k)"
    and "c_flg_create c" and "c_initial_key c = 1" and "0 \<le> c_max_reg_size c" and "c_nloops c \<le> 40"
    and "nat (c_nloops c) \<le> unat (c_commit_freq c)" and "0 < c_nloops c2"
  shows "\<exists>d' q. write_mode g rnd c (replicate 256000 0) ss_new d = Some (0, d')
    \<and> ss_open 0 (c_filename c2) 0 0 ss_new d' = Some (E_CSTORAGE_OK, q, d')
    \<and> (\<forall>i. 1 \<le> i \<and> i \<le> c_nloops c \<longrightarrow>
          (\<exists>q'. ss_read i (replicate 256000 0) 256000 1 q d' = Some (E_CSTORAGE_SERIAL_NOT_FOUND, replicate 256000 0, q')))
    \<and> read_mode g c2 ss_new d' = Some (- 1, d')"
proof -
  let ?n = "nat (c_nloops c)"
  obtain d' where w: "write_mode g rnd c (replicate 256000 0) ss_new d = Some (0, d')" "uncommitted ?n d'"
    using write_mode_ok [OF assms(1-8) length_replicate] by blast
  have n: "?n \<le> 40"
    using assms(7) by simp
  obtain q where q: "ss_open 0 (c_filename c2) 0 0 ss_new d' = Some (E_CSTORAGE_OK, q, d')" "reader q d'"
      "read_mode g c2 ss_new d' = Some (- 1, d')"
    using read_mode_fails [OF w(2) n assms(9)] by blast
  have "\<exists>q'. ss_read i (replicate 256000 0) 256000 1 q d' = Some (E_CSTORAGE_SERIAL_NOT_FOUND, replicate 256000 0, q')"
    if "1 \<le> i" "i \<le> c_nloops c" for i
    using uncommitted_read [OF w(2) n q(2), of i] that by auto
  then show ?thesis
    using w(1) q(1,3) by blast
qed

theorem read_mode_misses_last_commit_witness:
  "\<exists>c d' q. c_nloops c = 10 \<and> write_mode demo_rand 7 c (replicate 256000 0) ss_new roomy_disk = Some (0, d')
     \<and> ss_open 0 ''0001'' 0 0 ss_new d' = Some (E_CSTORAGE_OK, q, d')
     \<and> (\<exists>q'. ss_read 7 (replicate 256000 0) 256000 1 q d' = Some (E_CSTORAGE_SERIAL_NOT_FOUND, replicate 256000 0, q'))
     \<and> read_mode demo_rand default_config ss_new d' = Some (- 1, d')"
proof -
  let ?c = "default_config\<lparr>c_flg_create := True, c_nloops := 10\<rparr>"
  have "c_flg_create ?c" "c_initial_key ?c = 1" "0 \<le> c_max_reg_size ?c" "c_nloops ?c \<le> 40"
    "nat (c_nloops ?c) \<le> unat (c_commit_freq ?c)" "0 < c_nloops default_config"
    by (simp_all add: default_config_def MAX_REG_SIZE_def)
  moreover have "\<forall>k. 20000000 \<le> flimit (roomy_disk k)"
    by (simp add: roomy_blank(2))
  ultimately obtain d' q where o: "write_mode demo_rand 7 ?c (replicate 256000 0) ss_new roomy_disk = Some (0, d')"
    "ss_open 0 (c_filename default_config) 0 0 ss_new d' = Some (E_CSTORAGE_OK, q, d')"
    "read_mode demo_rand default_config ss_new d' = Some (- 1, d')"
    and r: "\<And>i. 1 \<le> i \<Longrightarrow> i \<le> c_nloops ?c \<Longrightarrow> \<exists>q'. ss_read i (replicate 256000 0) 256000 1 q d' =
      Some (E_CSTORAGE_SERIAL_NOT_FOUND, replicate 256000 0, q')"
    using read_mode_misses_last_commit [OF demo_rand_like roomy_blank(1)] by blast
  have "\<exists>q'. ss_read 7 (replicate 256000 0) 256000 1 q d' = Some (E_CSTORAGE_SERIAL_NOT_FOUND, replicate 256000 0, q')"
    by (rule r) simp_all
  then show ?thesis
    using o unfolding demo_options(2) by (intro exI [of _ ?c] exI [of _ d'] exI [of _ q]) simp
qed

end
