(* ===== verification/Mutex_Benchmark.thy ===== *)
theory Mutex_Benchmark
  imports Threads
begin

text \<open>
  src/src/benchmarks/mutex/mutex_benchmark.cpp: three loops that count, without a mutex, with the calls of \<open>CMutex\<close> and with
  a \<open>CMutexLock\<close>. The times that \<open>gettimeofday\<close> gives, in seconds and microseconds, are arguments; the state is the counter
  and the calls made on the mutex.
\<close>

type_synonym count = "int \<times> action list"

definition getus :: "int \<times> int \<Rightarrow> 64 word \<Rightarrow> u32 \<times> 64 word" where
  \<comment> \<open>the second argument and the second result are the static variable \<open>refus\<close>\<close>
  "getus tv refus =
     (let us = word_of_int (fst tv) * 1000000; us = us + word_of_int (snd tv)
      in if refus = 0 then (1, us - 1) else (ucast (us - refus), refus))"

definition f_wo_mutex :: "count \<Rightarrow> count" where
  "f_wo_mutex c = (i32 (fst c + 1), snd c)"

definition f_mutex :: "count \<Rightarrow> count" where
  "f_mutex c = (let c = (fst c, snd c @ [Lock]); c = (i32 (fst c + 1), snd c) in (fst c, snd c @ [Unlock]))"

definition f_mutex_c :: "int \<Rightarrow> count \<Rightarrow> count" where
  \<comment> \<open>\<open>r\<close> is what the lock returns\<close>
  "f_mutex_c r c =
     (let (flocked, acts) = lock_new False r; c = (i32 (fst c + 1), snd c @ acts)
      in (fst c, snd c @ lock_destroy flocked))"

definition LOOPS :: nat where "LOOPS = 10000"

definition mutex_benchmark :: "int \<Rightarrow> (nat \<Rightarrow> int \<times> int) \<Rightarrow> u32 list \<times> count" where
  \<comment> \<open>the microseconds of the three loops, which are printed, and the state at the end; \<open>tv\<close> are the times read\<close>
  "mutex_benchmark r tv =
     (let c = (0, []); refus = 0;
          (us1, refus) = getus (tv 0) refus;
          c = (f_wo_mutex ^^ LOOPS) c;
          (us2, refus) = getus (tv 1) refus;
          c = (f_mutex ^^ LOOPS) c;
          (us3, refus) = getus (tv 2) refus;
          c = (f_mutex_c r ^^ LOOPS) c;
          (us4, refus) = getus (tv 3) refus
      in ([us2 - us1, us3 - us2, us4 - us3], c))"

subsection \<open>Every lock is given back\<close>

lemma f_mutex_c_is_f_mutex: "f_mutex_c r = f_mutex"
  by (simp add: fun_eq_iff f_mutex_c_def f_mutex_def lock_new_def lock_init_def lock_destroy_def Let_def)

lemma plain_loop:
  assumes "0 \<le> k" and "k + int n < 2 ^ 31"
  shows "(f_wo_mutex ^^ n) (k, acts) = (k + int n, acts)"
  using assms by (induction n) (simp_all add: f_wo_mutex_def is_i32_def)

lemma locked_loop:
  assumes "0 \<le> k" and "k + int n < 2 ^ 31"
  shows "(f_mutex ^^ n) (k, acts) = (k + int n, acts @ concat (replicate n [Lock, Unlock]))"
  using assms
proof (induction n)
  case (Suc n)
  have "concat (replicate n [Lock, Unlock]) @ [Lock, Unlock] = concat (replicate (Suc n) [Lock, Unlock])"
    by (induction n) simp_all
  then show ?case
    using Suc by (simp add: f_mutex_def is_i32_def)
qed simp

definition micros :: "int \<times> int \<Rightarrow> int" where
  "micros tv = fst tv * 1000000 + snd tv"

lemma ucast_word_of_int: "ucast (word_of_int x :: 64 word) = (word_of_int x :: u32)"
  by (rule bit_word_eqI) (simp add: bit_simps)

lemma getus_later:
  assumes "refus = word_of_int x" and "refus \<noteq> 0"
  shows "getus tv refus = (word_of_int (micros tv - x), refus)"
proof -
  have "word_of_int (fst tv) * 1000000 + word_of_int (snd tv) - refus = (word_of_int (micros tv - x) :: 64 word)"
    using assms(1) by (simp add: micros_def)
  then show ?thesis
    using assms(2) by (simp only: getus_def Let_def if_False ucast_word_of_int)
qed

text \<open>The program counts every turn, locks and unlocks in turn, and shows the time that each loop took, unless the first time
  it reads is one microsecond after the epoch.\<close>

lemma mutex_benchmark_measures:
  assumes "word_of_int (micros (tv 0)) \<noteq> (1 :: 64 word)"
  shows "mutex_benchmark r tv =
     (map word_of_int [micros (tv 1) - micros (tv 0), micros (tv 2) - micros (tv 1), micros (tv 3) - micros (tv 2)],
      30000, concat (replicate 20000 [Lock, Unlock]))"
proof -
  have first: "getus (tv 0) 0 = (1, word_of_int (micros (tv 0) - 1))"
    by (simp add: getus_def micros_def)
  have "word_of_int (micros (tv 0) - 1) \<noteq> (0 :: 64 word)"
    using assms by simp
  note later = getus_later [OF refl this]
  have acts: "concat (replicate 10000 [Lock, Unlock]) @ concat (replicate 10000 [Lock, Unlock])
      = concat (replicate 20000 [Lock, Unlock])"
    by (simp only: concat_append [symmetric] replicate_add [symmetric]) simp
  have "mutex_benchmark r tv =
     ([word_of_int (micros (tv 1) - (micros (tv 0) - 1)) - 1,
       word_of_int (micros (tv 2) - (micros (tv 0) - 1)) - word_of_int (micros (tv 1) - (micros (tv 0) - 1)),
       word_of_int (micros (tv 3) - (micros (tv 0) - 1)) - word_of_int (micros (tv 2) - (micros (tv 0) - 1))],
      30000, concat (replicate 20000 [Lock, Unlock]))"
    by (simp only: mutex_benchmark_def Let_def first later prod.case f_mutex_c_is_f_mutex LOOPS_def)
      (simp add: plain_loop locked_loop acts)
  then show ?thesis
    by simp
qed

end
