(* ===== verification/Spec2Isabelle.thy ===== *)
theory Spec2Isabelle
  imports Base_File_Props Signature_Scan Storage_Props4 Ini_Memory Listener_Props Replica_Example Interface
    Base_Props Example_Props Layout_Props Durability Ini_Example Replication_Limits
    Safe_Test_Modes Mutex_Benchmark
begin

text \<open>
  Verification of safestorage, a transactional store for records that are named by a serial
  number. The library (C++, src/src) is built in layers; each theory below models one of them, and
  its opening text names the files it translates. Definitions have the names of the code; methods
  of a class carry a prefix where several classes have one of that name (\<open>bf_\<close> for
  \<open>CBaseSafeFile\<close>, \<open>sf_\<close> for \<open>CSafeFile\<close>, \<open>ss_\<close> for \<open>CSafeStorage\<close>, \<open>shared_\<close>, \<open>client_\<close>, \<open>proxy_\<close>).

  \<^bold>\<open>Parts of the program\<close>

  A file of records (\<open>CBaseSafeFile\<close>, base_safe_file.cpp) writes every record with a checksum
  (base/crc32.cpp) behind it and reads through an optional cache of one block; what it reads and writes
  is described by a list of buffers (\<open>CDataArray\<close>, base/data_array.cpp). \<open>CSafeFile\<close> (safe_file.h)
  makes a table of structures of it. A storage (\<open>CSafeStorage\<close>, safe_storage.cpp) is four
  such files with one name prefix: the data file, to which every record is appended; the index, which
  has the offsets and sequences of the last two versions of each serial; the log, which has the offset of
  each sequence; and the state file. A transaction is the writes since the last commit. The writer sees
  them, other readers do not (if everything goes well), and rollback goes back to the other version.

  Around it: \<open>CSafeStorageBridge\<close> hands the calls of the interface \<open>ISafeStorage\<close> on to another
  object, \<open>COpenSafeStorage\<close> and \<open>CSharedSafeStorage\<close> use it to share one open storage between several
  objects of a process; \<open>CSafeStorageListener\<close> and \<open>CSafeStorageConnection\<close> are the server for remote
  clients, \<open>CSafeClient\<close>, \<open>CSafeProxy\<close> and the factory the client's side. The directory base has what all
  of them use: configuration files, the log, exceptions, mutexes, threads. The examples are the programs
  that use the library the way its documentation says; the test program (test/safe) runs a script of all the
  operations on one storage, and can write, read and copy storages as well.

  \<^bold>\<open>Theories\<close>

  \<^item> \<open>Prelude\<close>: machine integers, their layout in memory, byte ranges, calls that may throw; the
    collections \<open>codec_simps\<close> and \<open>range_simps\<close>.
  \<^item> \<open>Crc_Tables\<close>, \<open>Crc32\<close>: the checksum and the zero test (base/crc32.cpp); the unrolled routine
    computes the byte-wise CRC, and what damage it finds.
  \<^item> \<open>Data_Array\<close>: base/data_array.cpp.
  \<^item> \<open>Base_File\<close>, \<open>Base_File_Read\<close>: base_safe_file.cpp, and what a read returns in terms of the bytes of
    the file. \<open>Safe_File\<close>, \<open>Safe_File_Write\<close>: safe_file.h, and what a write leaves in the file.
    \<open>Record_Table\<close>: a file as a table of records, with the interface that the storage uses of it (the
    locale \<open>record_table\<close>, interpreted on the index and on the log). \<open>Base_File_Props\<close>: the properties
    of files. \<open>Signature_Scan\<close>: the scan of a file for records with a signature.
  \<^item> \<open>Storage_Types\<close>, \<open>Layout_Props\<close>: the packed structures of safe_storage_imp.h and the constants of
    safe_storage.h; the layouts are bijections. \<open>Storage\<close>, \<open>Storage_Ops\<close>: safe_storage.cpp, from the state
    of the object up to \<open>writeFiles\<close>, and the operations on top of it. \<open>Storage_Services\<close>: the rest of it,
    what does not touch the files (listener, replica, callback, the printing of the state).
  \<^item> \<open>Storage_Io\<close>, \<open>Index_Versions\<close>, \<open>Storage_Write\<close>, \<open>Storage_Views\<close>, \<open>Storage_Steps\<close>,
    \<open>Storage_Transactions\<close>, \<open>Storage_Open\<close>: the way from bytes to transactions. Each file access in terms
    of tables; the two versions of an index record; the writing operation by cases; the abstraction
    \<open>view\<close> (what the writer sees of a serial, what a committed reader sees) with the invariants
    \<open>healthy\<close> and \<open>tidy\<close>; writes, commits and rollbacks as steps; whole transactions; the life of the files.
  \<^item> \<open>History\<close>, \<open>Recorded\<close>, \<open>Torn\<close>, \<open>Rebuild\<close>, \<open>Rebuild_Props\<close>, \<open>Crash\<close>, \<open>Durability\<close>: the data file as a journal. What each
    entry does to the index and to the commit sequence (\<open>replay_index\<close>, \<open>replay_commit\<close>); every operation extends
    the journal by entries that do what the operation did (\<open>extends\<close>); \<open>rebuild\<close> replays it up to where it
    is cut. \<open>Durability\<close>: which operations ask the system to put which files on the disk.
  \<^item> \<open>Slots\<close>, \<open>Replication\<close>, \<open>Replication_Limits\<close>: two storages that are joined by the log. The index by content
    instead of by offset (\<open>table\<close>), what an entry of the log does to it (\<open>effect\<close>), the client that copies the log
    (\<open>copy_log\<close>: \<open>readLog\<close> on the master, \<open>applyLog\<close> on the replica) and the relation \<open>follows\<close> that it keeps.
  \<^item> \<open>Transactional\<close>: the interface of a transactional store as a locale, the abstract
    specification \<open>spec_step\<close> and the interpretation on \<open>CSafeStorage\<close>.
  \<^item> \<open>Storage_Props\<close>, \<open>Storage_Props2\<close>, \<open>Storage_Props3\<close>, \<open>Storage_Props4\<close>: the properties of \<open>CSafeStorage\<close>.
  \<^item> \<open>Bridge\<close>, \<open>Shared\<close>, \<open>Shared_Props\<close>: safe_storage_bridge.h, open_safe_storage.cpp and
    shared_safe_storage.cpp. The table of open storages and the objects live in a heap of addresses; the
    steps of \<open>shared_step\<close> are what a process may do with them.
  \<^item> \<open>Connection\<close>, \<open>Connection_Props\<close>: safe_storage_connection.cpp and safe_storage_net.h. The reference
    \<open>deframe\<close> cuts a stream of bytes into messages; \<open>onData\<close> does the same however the bytes arrive.
    \<open>Listener\<close>, \<open>Listener_Props\<close>: safe_storage_listener.cpp, an event loop over the answers of \<open>epoll_wait\<close>.
    \<open>Replica_Example\<close>: examples/replica, the client that sends messages in pieces.
  \<^item> \<open>Net_Messages\<close>: the structures of requests and answers of safe_storage_net.h. \<open>Remote\<close>: safe_client.cpp,
    safe_proxy.cpp, factory.cpp, safe_storage_replica.cpp.
  \<^item> \<open>Interface\<close>: the contract of \<open>ISafeStorage\<close> as the locale \<open>storage_interface\<close>, a sublocale of
    \<open>transactional\<close>, and \<open>storage_forwarder\<close> for the objects that hand calls on; interpreted on
    \<open>CSafeStorage\<close>, \<open>COpenSafeStorage\<close>, \<open>CSharedSafeStorage\<close> and \<open>CSafeProxy\<close>.
  \<^item> \<open>Ini_File\<close>, \<open>Ini_Props\<close>: base/ini_file.cpp, with the text as a list of characters. \<open>Ini_Memory\<close>: the same with
    pointers into the block of memory that holds the text; every access is checked, and the lists are the
    reference. \<open>Log\<close>: base/log.cpp, base/exception.cpp. \<open>Threads\<close>:
    base/mutex.cpp, mutex_lock.cpp, mutex_cond.cpp, thread.cpp. \<open>Base_Props\<close>: properties of the last two.
  \<^item> \<open>Examples\<close>, \<open>Example_Props\<close>: examples/write, examples/read and examples/listener, whole programs on one
    storage. \<open>Ini_Example\<close>: examples/ini.
  \<^item> \<open>Readers\<close>: opening and reading beside the writer, also after a commit. \<open>Safe_Test\<close>, \<open>Safe_Test_Regs\<close>, \<open>Safe_Test_Steps\<close>,
    \<open>Safe_Test_Props\<close>, \<open>Safe_Test_Modes\<close>: test/safe/safe_test.cpp. The registers that can be made again from their
    serial, the loops that write and verify them, the script as a list of calls (\<open>script\<close>), what each is expected to return
    (\<open>as_expected\<close>), and the other modes of the program.
    \<open>Mutex_Benchmark\<close>: benchmarks/mutex.
\<close>

text \<open>
  \<^bold>\<open>How the code is modelled\<close>

  Operations take the object and the files it works on and return both. A file of the operating system is
  \<open>os_file\<close>: its bytes, the size it may grow to, whether it exists and who may open it; objects that
  share a file share the \<open>os_file\<close>, so a reader beside a writer is a second \<open>storage\<close> on the same
  \<open>disk\<close>. Operations that may throw return an \<open>outcome\<close>; an operation of the storage that does
  not return (an access outside every buffer, an exception that nobody catches, a loop without end) is
  \<open>None\<close>. Integers that are stored are 32 or 64 bits wide (\<open>i32\<close> is the wrap-around), flags and
  checksums are words, lengths and offsets that cannot overflow are naturals or integers. The library is
  built with \<^verbatim>\<open>-m32\<close> for x86: \<open>long\<close> has 32 bits, integers are little-endian.

  What the operating system or the C library decides is an argument: the random key of a new storage,
  the real path of a location, the numbers that \<open>rand\<close> gives after a seed, the results of \<open>read\<close>, \<open>accept\<close>, \<open>fcntl\<close>, \<open>epoll_ctl\<close> and of the
  pthread calls, the time of day, the text that \<open>vprintf\<close> makes of a format, the names of the functions on
  the stack. \<open>malloc\<close> is taken to
  succeed, since most of the code does not test it.

  \<^bold>\<open>Loops\<close>

  Loops over data are structural recursions or \<open>function\<close>s with a measure. The loops that may run for
  ever are \<open>partial_function (option)\<close>s, without fuel: \<open>bf_open_loop\<close> (opening a file; theorem
  \<open>open_every_case\<close> says exactly when it does not end), \<open>verify_loop\<close>, \<open>recover_loop\<close> and
  \<open>rebuild_loop\<close> (scans of the data file), \<open>read_main_loop\<close> (the reading example, which
  \<open>example_prints_what_was_written\<close> shows to end), \<open>write_registers_loop\<close>,
  \<open>verify_registers_loop\<close> and \<open>read_mode_loop\<close> (the test program; \<open>test_program_passes\<close> and
  \<open>read_mode_misses_last_commit\<close> show them to end) and \<open>parse_block\<close> (the parser of configurations, which
  \<open>parser_stays_in_buffer\<close> shows to end for every text). The loop of \<open>onData\<close> recurs over the pieces that
  arrive and the bytes still to be read of them.

  \<^bold>\<open>What the theorems show\<close>

  Files: \<open>open\<close> and \<open>write\<close> in every case, errors included; records read back through cache and
  work area, also after gaps; the cache never shows; damage of up to four consecutive bytes is found;
  the length of data is cut to 24 bits.

  Storage: every operation keeps the storage in good order, and every state that a client reaches is;
  reading returns what was written; \<open>write\<close>, \<open>commit\<close> and \<open>rollback\<close> implement an abstract
  transactional store in which transactions are atomic; readers beside the writer see committed records;
  closing and reopening keeps them; the log names every write, and copying the log of a session of writes
  and commits to a replica makes the replica hold what the master holds, also what both show to committed
  readers. A rollback on the master ends the copying, and a rollback on the replica takes back what the master has
  committed. The data file alone is enough: from it \<open>rebuild\<close> makes the index again byte for byte, but not a
  state file that \<open>open\<close> would accept; and if a crash has cut it somewhere, \<open>rebuild\<close> makes the
  storage as it was after some of the operations, none of them half done and no commit that had returned
  missing; the crash may take any end of the data file that no operation has asked the system to put on the
  disk, and everything else. The hypotheses are that the operations are those the two versions of an index record can support
  (one write per serial and transaction), that serials are positive, and that there is room on the disk
  and in the sequence numbers; \<open>room\<close>, \<open>disk_room\<close> and \<open>seq_room\<close> say how much. What
  happens without the first of them is the theorem \<open>second_write_loses_committed\<close>. Other theorems
  show what does not do what it is for: \<open>verify\<close>, \<open>setFlags\<close>, the state file after a commit
  and after a rebuild, the uncommitted writes of a storage that is closed, and the comparison of the keys in
  \<open>open\<close>, which takes a missing or damaged header for that of the file read before.

  Programs: the reading example prints what the writing example has stored. The test program passes, whatever the
  random numbers are, and every call of it, checked or not, returns what is expected. Its reading mode, however, does
  not find what its writing mode has committed last.

  Layers: a session has the same answers and the same effect on a \<open>CSafeStorage\<close>, through the object that
  is its writer among those that share it, and through a proxy.

  Sharing: a location never loses its writer, a refused writer is not stopped from writing, and what the writer has not
  committed is visible to the objects that share its storage.

  Server: the listening thread delivers every message on every descriptor, in order, whatever the
  interleaving and the cutting of the bytes, if all that arrives on each descriptor is a sequence of messages;
  its cache of the last connection is never stale.

  Base: a configuration that is written out reads back, line ends do not matter, the parser stays in
  its block of memory unless the file has fewer than three bytes or starts with a line feed, wildcards match as shell patterns do; hexadecimal dumps read
  back; the deadline of a wait is exact.

  \<^bold>\<open>Not modelled\<close>

  \<^item> The messages that operations log or print on their way, but for what is the purpose of a program or function; with
    them \<open>size_str\<close> of the test program, which formats a size with floating point numbers.
  \<^item> \<open>initEpoll\<close>, the calls that bind or connect a socket: system calls with results that are arguments
    where the code looks at them.
  \<^item> The output of \<open>onRequest\<close>, where \<open>printf\<close> is given the data of a message, which has no terminator, as a string.
  \<^item> A crash in which the system has put a later part of the data file on the disk but not an earlier one.
  \<^item> The buffers of the remote client, which the code never sets: an operation that uses one is \<open>None\<close>.
\<close>

end
